(* ===== verification/Karu_Prelude.thy ===== *)
theory Karu_Prelude
  imports Main "HOL-Library.Word" "HOL-Library.Char_ord" "HOL-Library.List_Lexorder"
    "HOL-Library.Product_Lexorder" "HOL-Library.Sublist" "HOL-Library.Multiset" "HOL-Library.Code_Target_Nat"
begin

text \<open>
  Shared vocabulary of the development: the machine types of the C++ sources (64-bit unsigned
  integers as \<^typ>\<open>64 word\<close>, bytes and text as \<^typ>\<open>char\<close> and \<^typ>\<open>string\<close>), the
  operations of \<open>std::string_view\<close>, \<open>std::from_chars\<close> and \<open>std::to_string\<close>
  the sources use, and the generic lemmas the components share.
  \<open>std::string::npos\<close> is \<^const>\<open>None\<close>; a \<open>std::expected<T, E>\<close> is a sum, the error on
  the left.
\<close>

section \<open>Lemma collections\<close>

named_theorems u64_simps \<open>unsigned 64-bit arithmetic read through unat\<close>
named_theorems text_simps \<open>searching and cutting strings\<close>

section \<open>Machine types\<close>

type_synonym u64 = "64 word"
type_synonym byte = char
type_synonym addr = nat
type_synonym tag = nat

definition u64_max :: u64 where
  "u64_max = - 1"

lemma unat_u64_max [u64_simps]: "unat u64_max = 2 ^ 64 - 1"
proof -
  have "(- 1 :: u64) = 18446744073709551615" by simp
  then have "unat (- 1 :: u64) = unat (18446744073709551615 :: u64)" by (rule arg_cong)
  also have "\<dots> = 2 ^ 64 - 1" by (simp only: unat_numeral) simp
  finally show ?thesis by (simp add: u64_max_def)
qed

lemma unat_u64_less: "unat (a :: u64) < 2 ^ 64"
proof -
  have "unat a < 2 ^ LENGTH(64)" by (rule unsigned_less)
  then show ?thesis by simp
qed

lemma unat_u64_le: "unat (a :: u64) \<le> 2 ^ 64 - 1"
  using unat_u64_less [of a] by simp

lemma u64_le_max [simp]: "(a :: u64) \<le> u64_max"
  by (simp add: u64_max_def)

lemma unat_u64_max_minus [u64_simps]: "unat (u64_max - a) = 2 ^ 64 - 1 - unat (a :: u64)"
  by (simp add: unat_sub unat_u64_max)

lemma u64_le_iff [u64_simps]: "(a :: u64) \<le> b \<longleftrightarrow> unat a \<le> unat b"
  by (rule word_le_nat_alt)

lemma u64_less_iff [u64_simps]: "(a :: u64) < b \<longleftrightarrow> unat a < unat b"
  by (rule word_less_nat_alt)

lemma u64_eq_iff: "(a :: u64) = b \<longleftrightarrow> unat a = unat b"
  by (simp add: word_unat_eq_iff)

lemma unat_u64_add:
  "unat a + unat (b :: u64) < 2 ^ 64 \<Longrightarrow> unat (a + b) = unat a + unat b"
  using unat_add_lem [of a b] by simp

lemma unat_u64_sub: "unat b \<le> unat (a :: u64) \<Longrightarrow> unat (a - b) = unat a - unat b"
  by (simp add: unat_sub u64_simps)

lemma unat_u64_mult:
  "unat a * unat (b :: u64) < 2 ^ 64 \<Longrightarrow> unat (a * b) = unat a * unat b"
  using unat_mult_lem [of a b] by simp

lemma unat_of_nat_u64: "n < 2 ^ 64 \<Longrightarrow> unat (of_nat n :: u64) = n"
  by (simp add: unat_of_nat)

text \<open>The overflow test the sources write before adding two offsets.\<close>

lemma u64_add_guard:
  "(a :: u64) \<le> u64_max - b \<Longrightarrow> unat (a + b) = unat a + unat b"
proof -
  assume "a \<le> u64_max - b"
  then have "unat a \<le> 2 ^ 64 - 1 - unat b"
    by (simp add: u64_simps)
  with unat_u64_le [of b] have "unat a + unat b < 2 ^ 64"
    by simp
  then show ?thesis by (rule unat_u64_add)
qed

lemma unat_pos_u64: "(a :: u64) \<noteq> 0 \<longleftrightarrow> 0 < unat a"
  by (simp add: unat_gt_0)

lemma unat_max_u64: "unat (max a (b :: u64)) = max (unat a) (unat b)"
  by (simp add: max_def u64_simps)

lemma unat_min_u64: "unat (min a (b :: u64)) = min (unat a) (unat b)"
  by (simp add: min_def u64_simps)

section \<open>Searching text\<close>

text \<open>\<open>find_if P s\<close> is the index of the first byte that satisfies \<open>P\<close>.\<close>

fun find_if :: "(char \<Rightarrow> bool) \<Rightarrow> string \<Rightarrow> nat option" where
  "find_if P [] = None"
| "find_if P (c # cs) = (if P c then Some 0 else map_option Suc (find_if P cs))"

definition find_char :: "char \<Rightarrow> string \<Rightarrow> nat option" where
  "find_char c s = find_if (\<lambda>x. x = c) s"

definition find_first_of :: "string \<Rightarrow> string \<Rightarrow> nat option" where
  "find_first_of cs s = find_if (\<lambda>x. x \<in> set cs) s"

definition find_first_not_of :: "string \<Rightarrow> string \<Rightarrow> nat option" where
  "find_first_not_of cs s = find_if (\<lambda>x. x \<notin> set cs) s"

text \<open>The two-argument searches start at a position; past the end they find nothing.\<close>

definition find_if_from :: "(char \<Rightarrow> bool) \<Rightarrow> nat \<Rightarrow> string \<Rightarrow> nat option" where
  "find_if_from P i s = map_option ((+) i) (find_if P (drop i s))"

definition rfind_char :: "char \<Rightarrow> string \<Rightarrow> nat option" where
  "rfind_char c s = map_option (\<lambda>i. length s - 1 - i) (find_char c (rev s))"

fun find_sub :: "string \<Rightarrow> string \<Rightarrow> nat option" where
  "find_sub p [] = (if p = [] then Some 0 else None)"
| "find_sub p (c # cs) = (if prefix p (c # cs) then Some 0 else map_option Suc (find_sub p cs))"

definition find_sub_from :: "string \<Rightarrow> nat \<Rightarrow> string \<Rightarrow> nat option" where
  "find_sub_from p i s = (if i \<le> length s then map_option ((+) i) (find_sub p (drop i s)) else None)"

text \<open>\<open>substr pos n\<close> with \<open>n\<close> possibly \<open>npos\<close>, for a position inside the text.\<close>

definition substr :: "nat \<Rightarrow> nat option \<Rightarrow> string \<Rightarrow> string" where
  "substr i n s = (case n of None \<Rightarrow> drop i s | Some k \<Rightarrow> take k (drop i s))"

abbreviation starts_with :: "string \<Rightarrow> string \<Rightarrow> bool" where
  "starts_with p s \<equiv> prefix p s"

abbreviation ends_with :: "string \<Rightarrow> string \<Rightarrow> bool" where
  "ends_with p s \<equiv> suffix p s"

definition contains_sub :: "string \<Rightarrow> string \<Rightarrow> bool" where
  "contains_sub p s \<longleftrightarrow> find_sub p s \<noteq> None"

subsection \<open>Facts about the searches\<close>

lemma find_if_None [text_simps]: "find_if P s = None \<longleftrightarrow> (\<forall>c \<in> set s. \<not> P c)"
  by (induction s) auto

lemma find_if_Some_iff:
  "find_if P s = Some i \<longleftrightarrow> i < length s \<and> P (s ! i) \<and> (\<forall>c \<in> set (take i s). \<not> P c)"
proof (induction s arbitrary: i)
  case Nil
  then show ?case by simp
next
  case (Cons c cs)
  show ?case by (cases i) (auto simp: Cons.IH)
qed

lemma find_if_append_skip [text_simps]:
  "\<forall>c \<in> set a. \<not> P c \<Longrightarrow> find_if P (a @ b) = map_option ((+) (length a)) (find_if P b)"
proof (induction a)
  case Nil
  show ?case by (cases "find_if P b") simp_all
next
  case (Cons c a)
  then show ?case by (cases "find_if P b") simp_all
qed

lemma find_if_hit [text_simps]:
  "\<forall>x \<in> set a. \<not> P x \<Longrightarrow> P c \<Longrightarrow> find_if P (a @ c # b) = Some (length a)"
  by (induction a) auto

lemma find_if_SomeE:
  assumes "find_if P s = Some i"
  obtains a c b where "s = a @ c # b" "length a = i" "P c" "\<forall>x \<in> set a. \<not> P x"
proof
  from assms have i: "i < length s" "P (s ! i)" "\<forall>c \<in> set (take i s). \<not> P c"
    by (auto simp: find_if_Some_iff)
  show "s = take i s @ s ! i # drop (Suc i) s"
    using i(1) by (rule id_take_nth_drop)
  show "length (take i s) = i" using i(1) by simp
  show "P (s ! i)" "\<forall>x \<in> set (take i s). \<not> P x" using i by auto
qed

lemma find_char_None [text_simps]: "find_char c s = None \<longleftrightarrow> c \<notin> set s"
  by (auto simp: find_char_def text_simps)

lemma find_char_hit [text_simps]: "c \<notin> set a \<Longrightarrow> find_char c (a @ c # b) = Some (length a)"
  unfolding find_char_def by (rule find_if_hit) auto

lemma find_char_skip:
  "c \<notin> set a \<Longrightarrow> c \<noteq> d \<Longrightarrow>
   find_char c (a @ d # b) = map_option (\<lambda>i. length a + Suc i) (find_char c b)"
  by (induction a) (auto simp: find_char_def option.map_comp comp_def)

lemma find_char_SomeE:
  assumes "find_char c s = Some i"
  obtains a b where "s = a @ c # b" "length a = i" "c \<notin> set a"
  using assms unfolding find_char_def by (rule find_if_SomeE) auto

lemma rfind_char_None [text_simps]: "rfind_char c s = None \<longleftrightarrow> c \<notin> set s"
  by (simp add: rfind_char_def find_char_None)

lemma rfind_char_hit [text_simps]: "c \<notin> set b \<Longrightarrow> rfind_char c (a @ c # b) = Some (length a)"
  by (simp add: rfind_char_def find_char_hit)

lemma rfind_char_SomeE:
  assumes "rfind_char c s = Some i"
  obtains a b where "s = a @ c # b" "length a = i" "c \<notin> set b"
proof -
  from assms obtain j where j: "find_char c (rev s) = Some j" and i: "i = length s - 1 - j"
    by (auto simp: rfind_char_def)
  from j obtain a b where r: "rev s = a @ c # b" "length a = j" "c \<notin> set a"
    by (rule find_char_SomeE)
  from r(1) have s: "s = rev b @ c # rev a"
    by (metis append_Cons append_Nil append_assoc rev.simps(2) rev_append rev_rev_ident)
  show thesis
  proof (rule that)
    show "s = rev b @ c # rev a" by (rule s)
    show "length (rev b) = i" using i r(2) s by simp
    show "c \<notin> set (rev a)" using r(3) by simp
  qed
qed

lemma find_sub_Some_prefix: "find_sub p s = Some i \<Longrightarrow> prefix p (drop i s) \<and> i \<le> length s"
proof (induction p s arbitrary: i rule: find_sub.induct)
  case (1 p)
  then show ?case by (auto split: if_splits)
next
  case (2 p c cs)
  then show ?case by (cases "prefix p (c # cs)") auto
qed

lemma find_sub_None_iff: "find_sub p s = None \<longleftrightarrow> \<not> sublist p s"
  by (induction p s rule: find_sub.induct) (auto simp: sublist_Cons_right)

lemma contains_sub_iff [text_simps]: "contains_sub p s \<longleftrightarrow> sublist p s"
  by (simp add: contains_sub_def find_sub_None_iff)

lemma prefix_drop_length [text_simps]: "prefix p s \<Longrightarrow> p @ drop (length p) s = s"
  by (auto simp: prefix_def)

section \<open>Decimal numbers\<close>

definition is_digit :: "char \<Rightarrow> bool" where
  "is_digit c \<longleftrightarrow> 48 \<le> (of_char c :: nat) \<and> (of_char c :: nat) \<le> 57"

definition digit_value :: "char \<Rightarrow> nat" where
  "digit_value c = of_char c - 48"

definition digit_char :: "nat \<Rightarrow> char" where
  "digit_char d = char_of (48 + d)"

definition digits_value :: "string \<Rightarrow> nat" where
  "digits_value s = foldl (\<lambda>v c. 10 * v + digit_value c) 0 s"

text \<open>\<open>std::to_string\<close> on an unsigned value.\<close>

fun to_string :: "nat \<Rightarrow> string" where
  "to_string n = (if n < 10 then [digit_char n] else to_string (n div 10) @ [digit_char (n mod 10)])"

declare to_string.simps [simp del]

definition u64_string :: "u64 \<Rightarrow> string" where
  "u64_string a = to_string (unat a)"

text \<open>
  \<open>std::from_chars\<close> for an unsigned type with values below \<open>2 ^ w\<close>: the longest run of
  digits, no sign, an error when there is none or when the value does not fit. The result is
  the value and the text after it.
\<close>

definition from_chars :: "nat \<Rightarrow> string \<Rightarrow> (nat \<times> string) option" where
  "from_chars w s =
     (let ds = takeWhile is_digit s
      in if ds = [] \<or> 2 ^ w \<le> digits_value ds then None
         else Some (digits_value ds, dropWhile is_digit s))"

text \<open>The whole text must be the number: \<open>ec == errc{} && ptr == end\<close>.\<close>

definition parse_whole_u64 :: "string \<Rightarrow> u64 option" where
  "parse_whole_u64 s =
     (case from_chars 64 s of Some (v, rest) \<Rightarrow> (if rest = [] then Some (of_nat v) else None)
      | None \<Rightarrow> None)"

lemma is_digit_digit_char [simp]: "d < 10 \<Longrightarrow> is_digit (digit_char d)"
  by (simp add: is_digit_def digit_char_def)

lemma digit_value_digit_char [simp]: "d < 10 \<Longrightarrow> digit_value (digit_char d) = d"
  by (simp add: digit_value_def digit_char_def)

lemma digits_value_snoc [simp]: "digits_value (s @ [c]) = 10 * digits_value s + digit_value c"
  by (simp add: digits_value_def)

lemma to_string_digits: "\<forall>c \<in> set (to_string n). is_digit c"
proof (induction n rule: to_string.induct)
  case (1 n)
  then show ?case by (cases "n < 10") (auto simp: to_string.simps [of n])
qed

lemma to_string_nonempty [simp]: "to_string n \<noteq> []"
  by (subst to_string.simps) simp

lemma digits_value_to_string [simp]: "digits_value (to_string n) = n"
proof (induction n rule: to_string.induct)
  case (1 n)
  show ?case
  proof (cases "n < 10")
    case True
    then show ?thesis by (simp add: to_string.simps [of n] digits_value_def)
  next
    case False
    with 1 show ?thesis by (simp add: to_string.simps [of n])
  qed
qed

lemma takeWhile_to_string:
  "rest = [] \<or> \<not> is_digit (hd rest) \<Longrightarrow> takeWhile is_digit (to_string n @ rest) = to_string n"
  using to_string_digits [of n] by (cases rest) (auto simp: takeWhile_append)

lemma dropWhile_to_string:
  "rest = [] \<or> \<not> is_digit (hd rest) \<Longrightarrow> dropWhile is_digit (to_string n @ rest) = rest"
  using to_string_digits [of n] by (cases rest) (auto simp: dropWhile_append)

lemma from_chars_to_string:
  "n < 2 ^ w \<Longrightarrow> rest = [] \<or> \<not> is_digit (hd rest) \<Longrightarrow>
   from_chars w (to_string n @ rest) = Some (n, rest)"
  by (simp add: from_chars_def takeWhile_to_string dropWhile_to_string)

lemma parse_whole_u64_string [simp]: "parse_whole_u64 (u64_string a) = Some a"
  using from_chars_to_string [of "unat a" 64 "[]"] unat_u64_less [of a]
  by (simp add: parse_whole_u64_def u64_string_def)

lemma parse_whole_u64_SomeD:
  "parse_whole_u64 s = Some a \<Longrightarrow>
   s \<noteq> [] \<and> (\<forall>c \<in> set s. is_digit c) \<and> unat a = digits_value s"
proof -
  assume "parse_whole_u64 s = Some a"
  then obtain v where v: "from_chars 64 s = Some (v, [])" "a = of_nat v"
    by (auto simp: parse_whole_u64_def split: option.splits if_splits)
  then have d: "dropWhile is_digit s = []" "takeWhile is_digit s \<noteq> []"
    "v = digits_value (takeWhile is_digit s)" "v < 2 ^ 64"
    by (auto simp: from_chars_def Let_def split: if_splits)
  from d(1) have "takeWhile is_digit s = s"
    by (metis append_Nil2 takeWhile_dropWhile_id)
  with d v(2) show ?thesis
    by (metis set_takeWhileD unat_of_nat_u64)
qed

lemma parse_whole_u64_nondigit:
  "c \<in> set s \<Longrightarrow> \<not> is_digit c \<Longrightarrow> parse_whole_u64 s = None"
  by (metis option.exhaust parse_whole_u64_SomeD)

lemma u64_string_digits: "\<forall>c \<in> set (u64_string a). is_digit c"
  by (simp add: u64_string_def to_string_digits)

lemma u64_string_nonempty [simp]: "u64_string a \<noteq> []"
  by (simp add: u64_string_def)

lemma not_digit_char [simp]:
  "\<not> is_digit CHR ''-''" "\<not> is_digit CHR ''/''" "\<not> is_digit CHR ''*''" "\<not> is_digit CHR ''_''"
  "\<not> is_digit CHR '',''" "\<not> is_digit CHR ''#''" "\<not> is_digit CHR '' ''"
  by (simp_all add: is_digit_def)

lemma u64_string_notin [simp]: "\<not> is_digit c \<Longrightarrow> c \<notin> set (u64_string a)"
  using u64_string_digits by blast

text \<open>
  \<open>std::from_chars\<close> for a signed type of \<open>w\<close> bits: an optional minus sign before the digits;
  and \<open>std::to_string\<close> on a signed value.
\<close>

definition from_chars_signed :: "nat \<Rightarrow> string \<Rightarrow> (int \<times> string) option" where
  "from_chars_signed w s =
     (let neg = prefix ''-'' s; t = (if neg then drop 1 s else s); ds = takeWhile is_digit t;
          v = (if neg then - int (digits_value ds) else int (digits_value ds))
      in if ds = [] \<or> v < - (2 ^ (w - 1)) \<or> 2 ^ (w - 1) \<le> v then None
         else Some (v, dropWhile is_digit t))"

definition int_string :: "int \<Rightarrow> string" where
  "int_string i = (if i < 0 then CHR ''-'' # to_string (nat (- i)) else to_string (nat i))"

section \<open>ASCII case\<close>

definition ascii_lower :: "char \<Rightarrow> char" where
  "ascii_lower c =
     (if 65 \<le> (of_char c :: nat) \<and> (of_char c :: nat) \<le> 90 then char_of ((of_char c :: nat) + 32) else c)"

section \<open>Statuses of the public interface\<close>

datatype karu_status =
    KARU_OK
  | KARU_END
  | KARU_TIMEOUT
  | KARU_ERR_URI
  | KARU_ERR_UNSUPPORTED
  | KARU_ERR_INVALID
  | KARU_ERR_NOMEM
  | KARU_ERR_IO
  | KARU_ERR_NETWORK
  | KARU_ERR_HTTP
  | KARU_ERR_RANGE
  | KARU_ERR_AUTH
  | KARU_ERR_CANCELLED
  | KARU_ERR_CONFIG
  | KARU_ERR_CREDENTIALS
  | KARU_ERR_NOT_FOUND
  | KARU_ERR_PRECONDITION

end
