(* ===== verification/Karu_Resolver.thy ===== *)
theory Karu_Resolver
  imports Karu_Prelude "HOL-Library.AList"
begin

text \<open>
  The host resolver, \<open>src/src/runtime/resolver.cpp\<close>: which host a URL needs, the table of hosts with
  their addresses, and the lookups that one worker serves. Times are nanoseconds of the steady clock.
  The table is an association list; its order carries no meaning. The worker's host between its two
  critical sections is \<open>rv_held\<close>. The system's lookup is not modelled: its answer is an argument.
\<close>

section \<open>Hosts of URLs\<close>




section \<open>The table of hosts\<close>


definition kWaitForFirstAnswer :: int where "kWaitForFirstAnswer = 300 * 10 ^ 6"

definition kPassAlways :: int where "kPassAlways = 10 ^ 9"

definition kPassEvery :: nat where "kPassEvery = 8"


record host =
  ho_addresses :: "string list"
  ho_expires :: int
  ho_started :: int
  ho_answered :: int
  ho_transfers :: u64
  ho_next :: u64
  ho_looking :: bool







section \<open>The entry of a transfer\<close>



definition join :: "string \<Rightarrow> string list \<Rightarrow> string" where
  "join sep ws = concat (map (\<lambda>(i, w). (if i \<noteq> 0 then sep else []) @ w) (enumerate 0 ws))"

definition removal :: "string \<Rightarrow> string \<Rightarrow> string" where
  "removal h port = ''-'' @ h @ '':'' @ port"

definition answer_host :: "int \<Rightarrow> string \<Rightarrow> string \<Rightarrow> host \<Rightarrow> (bool \<times> string) \<times> host" where
  "answer_host now h port s =
     (if ho_addresses s \<noteq> [] \<and> now < ho_expires s
      then (let warm = (kPassAlways \<le> now - ho_answered s);
                s1 = (if warm then s\<lparr>ho_transfers := ho_transfers s + 1\<rparr> else s)
            in if warm \<and> unat (ho_transfers s) mod kPassEvery \<noteq> 0 then ((False, []), s1)
               else (let n = length (ho_addresses s1); first = unat (ho_next s1) mod n
                     in ((False, ''+'' @ h @ '':'' @ port @ '':'' @
                            join '','' (map (\<lambda>i. ho_addresses s1 ! ((first + i) mod n)) [0..<n])),
                         s1\<lparr>ho_next := ho_next s1 + 1\<rparr>)))
      else if ho_looking s \<and> now - ho_started s < kWaitForFirstAnswer then ((True, []), s)
      else ((False, removal h port), s))"


section \<open>One lookup per host\<close>



definition looking_hosts :: "(string \<times> host) list \<Rightarrow> string set" where
  "looking_hosts xs = {h. \<exists>s. map_of xs h = Some s \<and> ho_looking s}"





lemma looking_hosts_update [simp]:
  "looking_hosts (AList.update h s xs) = (if ho_looking s then insert h (looking_hosts xs) else looking_hosts xs - {h})"
  by (auto simp: looking_hosts_def update_conv' simp del: map_of_eq_Some_iff split: if_splits)

















section \<open>The pinned addresses\<close>

lemma nth_cycle: "xs \<noteq> [] \<Longrightarrow> map (\<lambda>i. xs ! ((k mod length xs + i) mod length xs)) [0..<length xs] = rotate k xs"
  by (rule nth_equalityI) (simp_all add: nth_rotate mod_add_left_eq)

text \<open>While an answer is fresh, a transfer keeps the pin it has or gets all the addresses, rotated.\<close>

lemma answer_host_rotates:
  assumes "ho_addresses s \<noteq> []" "now < ho_expires s" "answer_host now h port s = ((wait, pin), s')"
  shows "\<not> wait \<and> (pin = [] \<or> pin = ''+'' @ h @ '':'' @ port @ '':'' @ join '','' (rotate (unat (ho_next s)) (ho_addresses s)))"
  using assms by (auto simp: answer_host_def Let_def nth_cycle split: if_splits)

text \<open>A transfer waits only for a lookup started less than 300 ms ago.\<close>

lemma answer_host_waits:
  "answer_host now h port s = ((True, pin), s') \<Longrightarrow> ho_looking s \<and> now - ho_started s < kWaitForFirstAnswer"
  by (auto simp: answer_host_def Let_def split: if_splits)

end
