(* ===== verification/Karu_Uri.thy ===== *)
theory Karu_Uri
  imports Karu_Prelude
begin

text \<open>
  Transport-independent object names: \<open>src/src/uri.cpp\<close>, \<open>src/src/uri.hpp\<close> and the text
  helpers of \<open>src/src/text.hpp\<close>. A URI or GDAL path resolves to a backend, a canonical name
  and a byte window; nested \<open>/vsisubfile/\<close> windows are clipped to their parents.
  The lemmas show that windows compose like the sub-ranges they denote, that the nesting limit is
  exactly sixteen levels, that VSI spellings and URI spellings name the same object, that the
  canonical name resolves to the object again, and what redaction hides.
\<close>

section \<open>Data\<close>

datatype backend = File | Http | S3 | Gcs | Azure | HuggingFace | Source

primrec backend_index :: "backend \<Rightarrow> nat" where
  "backend_index File = 0"
| "backend_index Http = 1"
| "backend_index S3 = 2"
| "backend_index Gcs = 3"
| "backend_index Azure = 4"
| "backend_index HuggingFace = 5"
| "backend_index Source = 6"

lemma backend_index_inj: "backend_index a = backend_index b \<Longrightarrow> a = b"
  by (cases a; cases b) auto

text \<open>Scoped enumerators compare by their position, as \<open>std::tie\<close> uses in the planner.\<close>

instantiation backend :: linorder
begin

definition less_eq_backend :: "backend \<Rightarrow> backend \<Rightarrow> bool" where
  "less_eq_backend a b \<longleftrightarrow> backend_index a \<le> backend_index b"

definition less_backend :: "backend \<Rightarrow> backend \<Rightarrow> bool" where
  "less_backend a b \<longleftrightarrow> backend_index a < backend_index b"

instance
  by standard (auto simp: less_eq_backend_def less_backend_def intro: backend_index_inj)

end

definition TO_END :: u64 where
  "TO_END = u64_max"

record resolved =
  res_backend :: backend
  canonical_uri :: string
  res_target :: string
  res_container :: string
  res_key :: string
  azure_dfs :: bool
  window_offset :: u64
  window_length :: u64

definition empty_resolved :: resolved where
  "empty_resolved = \<lparr>res_backend = File, canonical_uri = [], res_target = [], res_container = [],
     res_key = [], azure_dfs = False, window_offset = 0, window_length = TO_END\<rparr>"

datatype resolve_error_code = Malformed | Unsupported

record resolve_error =
  err_code :: resolve_error_code
  err_message :: string

definition malformed :: "string \<Rightarrow> resolve_error" where
  "malformed m = \<lparr>err_code = Malformed, err_message = m\<rparr>"

section \<open>Text helpers\<close>

definition quote_char :: char where
  "quote_char = CHR 0x27"

definition redact_authority :: "string \<Rightarrow> string" where
  "redact_authority url =
     (case find_sub ''://'' url of
        None \<Rightarrow> url
      | Some scheme \<Rightarrow>
          (let authority = scheme + 3;
               authority_end = find_if_from (\<lambda>c. c \<in> set ''/?#'') authority url
           in case find_if_from (\<lambda>c. c = CHR ''@'') authority url of
                None \<Rightarrow> url
              | Some at \<Rightarrow>
                  if (case authority_end of None \<Rightarrow> True | Some e \<Rightarrow> at < e)
                  then take authority url @ ''<redacted>'' @ drop at url
                  else url))"

definition redact_query :: "string \<Rightarrow> string" where
  "redact_query result =
     (case (find_char CHR ''?'' result, find_char CHR ''#'' result) of
        (None, None) \<Rightarrow> result
      | (Some q, None) \<Rightarrow> take q result @ ''?<redacted>''
      | (None, Some f) \<Rightarrow> take f result @ ''#<redacted>''
      | (Some q, Some f) \<Rightarrow>
          if q < f then take q result @ ''?<redacted>'' else take f result @ ''#<redacted>'')"

definition redact_url :: "string \<Rightarrow> string" where
  "redact_url url = redact_query (redact_authority url)"

definition hex_upper :: "nat \<Rightarrow> char" where
  "hex_upper n = ''0123456789ABCDEF'' ! n"

definition safe_path_char :: "char \<Rightarrow> bool" where
  "safe_path_char c \<longleftrightarrow>
     (let n = (of_char c :: nat)
      in (97 \<le> n \<and> n \<le> 122) \<or> (65 \<le> n \<and> n \<le> 90) \<or> (48 \<le> n \<and> n \<le> 57) \<or>
         c = CHR ''-'' \<or> c = CHR ''_'' \<or> c = CHR ''.'' \<or> c = CHR ''~'' \<or> c = CHR ''/'')"

definition encode_path_char :: "char \<Rightarrow> string" where
  "encode_path_char c =
     (if safe_path_char c then [c]
      else [CHR ''%'', hex_upper (of_char c div 16), hex_upper (of_char c mod 16)])"

definition encode_path :: "string \<Rightarrow> string" where
  "encode_path path = concat (map encode_path_char path)"

section \<open>Parsing\<close>

definition parse_u64 :: "string \<Rightarrow> resolve_error + u64" where
  "parse_u64 s =
     (if s = [] then Inl (malformed ''expected a number'')
      else case parse_whole_u64 s of
             Some v \<Rightarrow> Inr v
           | None \<Rightarrow> Inl (malformed (quote_char # s @ [quote_char] @ '' is not a byte count'')))"

definition split_object :: "string \<Rightarrow> string \<Rightarrow> resolve_error + string \<times> string" where
  "split_object s grammar =
     (let bad = Inl (malformed (''expected '' @ grammar @ '' in '' @ quote_char # s @ [quote_char]))
      in case find_char CHR ''/'' s of
           None \<Rightarrow> bad
         | Some slash \<Rightarrow>
             if slash = 0 \<or> length s \<le> slash + 1 then bad
             else Inr (take slash s, drop (slash + 1) s))"

text \<open>The window a \<open>#bytes=FIRST-LAST\<close> suffix asks for, and the URI without it.\<close>

definition take_bytes_fragment :: "string \<Rightarrow> resolve_error + string \<times> u64 \<times> u64" where
  "take_bytes_fragment uri =
     (case rfind_char CHR ''#'' uri of
        None \<Rightarrow> Inr (uri, 0, TO_END)
      | Some hash \<Rightarrow>
          if \<not> starts_with ''#bytes='' (drop hash uri) then Inr (uri, 0, TO_END)
          else
            (let fragment = drop 7 (drop hash uri)
             in case find_char CHR ''-'' fragment of
                  None \<Rightarrow> Inl (malformed ''#bytes= wants FIRST-LAST'')
                | Some dash \<Rightarrow>
                    (case parse_u64 (take dash fragment) of
                       Inl e \<Rightarrow> Inl e
                     | Inr first \<Rightarrow>
                         (let last_text = drop (dash + 1) fragment
                          in if last_text = [] then Inr (take hash uri, first, TO_END)
                             else case parse_u64 last_text of
                                    Inl e \<Rightarrow> Inl e
                                  | Inr final \<Rightarrow>
                                      if final < first
                                      then Inl (malformed ''#bytes= ends before it starts'')
                                      else if final - first = u64_max
                                      then Inl (malformed ''#bytes= range is too large'')
                                      else Inr (take hash uri, first, final - first + 1)))))"

definition apply_window :: "resolved \<Rightarrow> u64 \<Rightarrow> u64 \<Rightarrow> resolve_error + resolved" where
  "apply_window r off len =
     (if u64_max - off < window_offset r then Inl (malformed ''window offset overflows'')
      else if window_length r \<noteq> TO_END \<and> window_length r < off
      then Inl (malformed ''window starts past the end of its parent'')
      else Inr (r\<lparr>window_offset := window_offset r + off,
                  window_length := (if window_length r \<noteq> TO_END
                                    then min len (window_length r - off) else len)\<rparr>))"

definition finish_window :: "u64 \<Rightarrow> u64 \<Rightarrow> resolved \<Rightarrow> resolve_error + resolved" where
  "finish_window off len r = (if off \<noteq> 0 \<or> len \<noteq> TO_END then apply_window r off len else Inr r)"

definition terminal_http :: "string \<Rightarrow> u64 \<Rightarrow> u64 \<Rightarrow> resolve_error + resolved" where
  "terminal_http uri off len =
     (let authority = (case find_sub ''://'' uri of None \<Rightarrow> 0 | Some i \<Rightarrow> i + 3)
      in if authority = length uri \<or>
            find_if_from (\<lambda>c. c \<in> set ''/?#'') authority uri = Some authority
         then Inl (malformed ''HTTP URL has no authority'')
         else finish_window off len
                (empty_resolved\<lparr>res_backend := Http, res_target := uri, canonical_uri := uri\<rparr>))"

definition cloud :: "u64 \<Rightarrow> u64 \<Rightarrow> backend \<Rightarrow> string \<Rightarrow> string \<Rightarrow> string \<Rightarrow> bool \<Rightarrow>
    resolve_error + resolved" where
  "cloud off len b rest grammar vsi dfs =
     (case split_object rest grammar of
        Inl e \<Rightarrow> Inl e
      | Inr (c, k) \<Rightarrow>
          finish_window off len
            (empty_resolved\<lparr>res_backend := b, res_container := c, res_key := k, azure_dfs := dfs,
                            canonical_uri := vsi @ c @ ''/'' @ k\<rparr>))"

definition terminal_source :: "string \<Rightarrow> u64 \<Rightarrow> u64 \<Rightarrow> resolve_error + resolved" where
  "terminal_source rest off len =
     (case split_object rest ''source://account/product/key'' of
        Inl e \<Rightarrow> Inl e
      | Inr (account, path) \<Rightarrow>
          (case split_object path ''source://account/product/key'' of
             Inl e \<Rightarrow> Inl e
           | Inr _ \<Rightarrow>
               finish_window off len
                 (empty_resolved\<lparr>res_backend := Source, res_container := account, res_key := path,
                                 canonical_uri := ''/vsisource/'' @ account @ ''/'' @ path\<rparr>)))"

definition hf_kind :: "string \<Rightarrow> string \<times> string" where
  "hf_kind rest =
     (if starts_with ''datasets/'' rest then (''datasets/'', drop 9 rest)
      else if starts_with ''spaces/'' rest then (''spaces/'', drop 7 rest)
      else ([], rest))"

definition terminal_hf :: "string \<Rightarrow> u64 \<Rightarrow> u64 \<Rightarrow> resolve_error + resolved" where
  "terminal_hf path off len =
     (let (kind, rest) = hf_kind path
      in case split_object rest ''hf://owner/name/path'' of
           Inl e \<Rightarrow> Inl e
         | Inr (owner, tail) \<Rightarrow>
             (case split_object tail ''hf://owner/name/path'' of
                Inl e \<Rightarrow> Inl e
              | Inr (repository, file) \<Rightarrow>
                  (let at = find_char CHR ''@'' repository;
                       name = (case at of None \<Rightarrow> repository | Some a \<Rightarrow> take a repository);
                       revision = (case at of None \<Rightarrow> ''main'' | Some a \<Rightarrow> drop (a + 1) repository)
                   in if at \<noteq> None \<and> (name = [] \<or> revision = [])
                      then Inl (malformed ''hf:// has an empty repository or revision'')
                      else finish_window off len
                             (empty_resolved\<lparr>res_backend := HuggingFace,
                                canonical_uri := ''/vsihf/'' @ path,
                                res_target := ''/'' @ kind @ owner @ ''/'' @ name @ ''/resolve/'' @
                                  encode_path revision @ ''/'' @ encode_path file\<rparr>))))"

text \<open>The dispatch on the scheme, for a URI whose fragment has been taken off.\<close>

definition terminal_at :: "string \<Rightarrow> u64 \<Rightarrow> u64 \<Rightarrow> resolve_error + resolved" where
  "terminal_at uri off len =
         (if starts_with ''http://'' uri \<or> starts_with ''https://'' uri then terminal_http uri off len
          else if starts_with ''s3://'' uri
            then cloud off len S3 (drop 5 uri) ''s3://bucket/key'' ''/vsis3/'' False
          else if starts_with ''gs://'' uri
            then cloud off len Gcs (drop 5 uri) ''gs://bucket/key'' ''/vsigs/'' False
          else if starts_with ''az://'' uri
            then cloud off len Azure (drop 5 uri) ''az://container/blob'' ''/vsiaz/'' False
          else if starts_with ''abfs://'' uri
            then cloud off len Azure (drop 7 uri) ''abfs://container/blob'' ''/vsiadls/'' True
          else if starts_with ''source://'' uri then terminal_source (drop 9 uri) off len
          else if starts_with ''hf://'' uri then terminal_hf (drop 5 uri) off len
          else if starts_with ''file://'' uri then
            (if drop 7 uri = [] then Inl (malformed ''file:// has no path'')
             else finish_window off len
                    (empty_resolved\<lparr>res_target := drop 7 uri,
                                    canonical_uri := ''file://'' @ drop 7 uri\<rparr>))
          else if contains_sub ''://'' uri
            then Inl (malformed (''unknown scheme in '' @ quote_char # uri @ [quote_char]))
          else if uri = [] then Inl (malformed ''empty path'')
          else finish_window off len (empty_resolved\<lparr>res_target := uri, canonical_uri := uri\<rparr>))"

definition terminal :: "string \<Rightarrow> resolve_error + resolved" where
  "terminal uri0 =
     (case take_bytes_fragment uri0 of
        Inl e \<Rightarrow> Inl e
      | Inr (uri, off, len) \<Rightarrow> terminal_at uri off len)"

definition MAX_SUBFILE_DEPTH :: nat where
  "MAX_SUBFILE_DEPTH = 16"

text \<open>The \<open>OFFSET[_LENGTH]\<close> part of a subfile path; a negative length means the rest.\<close>

definition parse_subfile_spec :: "string \<Rightarrow> resolve_error + u64 \<times> u64" where
  "parse_subfile_spec spec =
     (case find_char CHR ''_'' spec of
        None \<Rightarrow>
          (case parse_u64 spec of Inl e \<Rightarrow> Inl e | Inr off \<Rightarrow> Inr (off, TO_END))
      | Some underscore \<Rightarrow>
          (case parse_u64 (take underscore spec) of
             Inl e \<Rightarrow> Inl e
           | Inr off \<Rightarrow>
               (let length_text = drop (underscore + 1) spec
                in if length_text \<noteq> [] \<and> hd length_text = CHR ''-'' then
                     (case parse_u64 (tl length_text) of
                        Inl _ \<Rightarrow> Inl (malformed ''negative subfile length is malformed'')
                      | Inr _ \<Rightarrow> Inr (off, TO_END))
                   else
                     (case parse_u64 length_text of Inl e \<Rightarrow> Inl e | Inr len \<Rightarrow> Inr (off, len)))))"

definition ALIASES :: "(string \<times> string) list" where
  "ALIASES = [(''/vsicurl/'', ''''), (''/vsis3/'', ''s3://''), (''/vsigs/'', ''gs://''),
     (''/vsiaz/'', ''az://''), (''/vsiadls/'', ''abfs://''), (''/vsihf/'', ''hf://''),
     (''/vsisource/'', ''source://'')]"

definition unsupported_handler :: "string \<Rightarrow> resolve_error" where
  "unsupported_handler uri =
     (let handler = (case find_if_from (\<lambda>c. c = CHR ''/'') 4 uri of None \<Rightarrow> uri | Some e \<Rightarrow> take (e + 1) uri)
      in \<lparr>err_code = Unsupported,
          err_message = ''unsupported virtual filesystem '' @ quote_char # handler @ [quote_char] @
            ''; Karu supports /vsisubfile/, /vsicurl/, /vsis3/, /vsigs/, '' @
            ''/vsiaz/, /vsiadls/, /vsihf/ and /vsisource/ (no *_streaming aliases)''\<rparr>)"

definition resolve_alias :: "string \<Rightarrow> resolve_error + resolved" where
  "resolve_alias uri =
     (case find (\<lambda>(pre, scheme). starts_with pre uri) ALIASES of
        Some (pre, scheme) \<Rightarrow>
          (let rest = drop (length pre) uri
           in if rest = [] then Inl (malformed (pre @ '' has no target''))
              else if pre = ''/vsicurl/'' \<and> \<not> starts_with ''http://'' rest \<and>
                      \<not> starts_with ''https://'' rest
              then Inl (malformed ''/vsicurl/ target must be an HTTP URL'')
              else terminal (scheme @ rest))
      | None \<Rightarrow>
          if starts_with ''/vsi'' uri then Inl (unsupported_handler uri) else terminal uri)"

function resolve_impl :: "string \<Rightarrow> nat \<Rightarrow> resolve_error + resolved" where
  "resolve_impl uri depth =
     (if uri = [] then Inl (malformed ''empty URI'')
      else if starts_with ''/vsisubfile/'' uri then
        (if depth = MAX_SUBFILE_DEPTH
         then Inl (malformed ''/vsisubfile/ nesting exceeds 16 levels'')
         else
           (let rest = drop 12 uri
            in case find_char CHR '','' rest of
                 None \<Rightarrow> Inl (malformed ''/vsisubfile/ wants OFFSET[_LENGTH],<uri>'')
               | Some comma \<Rightarrow>
                   (let spec = take comma rest; inner = drop (comma + 1) rest
                    in if inner = [] then Inl (malformed ''/vsisubfile/ has no inner URI'')
                       else case parse_subfile_spec spec of
                              Inl e \<Rightarrow> Inl e
                            | Inr (off, len) \<Rightarrow>
                                (case resolve_impl inner (depth + 1) of
                                   Inl e \<Rightarrow> Inl e
                                 | Inr child \<Rightarrow> apply_window child off len))))
      else resolve_alias uri)"
  by pat_completeness auto
termination
  by (relation "measure (\<lambda>(uri, depth). length uri)") auto

declare resolve_impl.simps [simp del]

definition resolve :: "string \<Rightarrow> resolve_error + resolved" where
  "resolve uri = resolve_impl uri 0"

section \<open>Windows as sub-ranges\<close>

text \<open>
  A window shows the positions \<open>i\<close> below its length (all of them when it is unbounded), and
  position \<open>i\<close> is byte \<open>absolute r i\<close> of the terminal object.
\<close>

definition in_window :: "resolved \<Rightarrow> nat \<Rightarrow> bool" where
  "in_window r i \<longleftrightarrow> window_length r = TO_END \<or> i < unat (window_length r)"

definition absolute :: "resolved \<Rightarrow> nat \<Rightarrow> nat" where
  "absolute r i = unat (window_offset r) + i"

definition bare :: "resolved \<Rightarrow> resolved" where
  "bare r = r\<lparr>window_offset := 0, window_length := TO_END\<rparr>"

lemma bare_simps [simp]:
  "canonical_uri (bare r) = canonical_uri r" "res_backend (bare r) = res_backend r"
  "bare (r\<lparr>window_offset := a, window_length := b\<rparr>) = bare r" "bare (bare r) = bare r"
  by (simp_all add: bare_def)

lemma unat_TO_END [u64_simps]: "unat TO_END = 2 ^ 64 - 1"
  by (simp add: TO_END_def u64_simps)

lemma bounded_iff: "(a :: u64) \<noteq> TO_END \<longleftrightarrow> unat a < 2 ^ 64 - 1"
proof -
  have "a = TO_END \<longleftrightarrow> unat a = 2 ^ 64 - 1"
    using u64_eq_iff [of a TO_END] by (simp only: unat_TO_END)
  then show ?thesis using unat_u64_le [of a] by linarith
qed

lemma apply_window_bare: "apply_window r off len = Inr r' \<Longrightarrow> bare r' = bare r"
  by (auto simp: apply_window_def split: if_splits)

lemma apply_window_canonical:
  "apply_window r off len = Inr r' \<Longrightarrow> canonical_uri r' = canonical_uri r"
  by (metis apply_window_bare bare_simps(1))

lemma apply_window_absolute:
  assumes "apply_window r off len = Inr r'"
  shows "absolute r' i = absolute r (unat off + i)"
proof -
  from assms have le: "window_offset r \<le> u64_max - off"
    and r': "window_offset r' = window_offset r + off"
    by (auto simp: apply_window_def split: if_splits)
  from le have "unat (window_offset r + off) = unat (window_offset r) + unat off"
    by (rule u64_add_guard)
  then show ?thesis by (simp add: absolute_def r')
qed

lemma apply_window_in_window:
  assumes "apply_window r off len = Inr r'"
  shows "in_window r' i \<longleftrightarrow> (len = TO_END \<or> i < unat len) \<and> in_window r (unat off + i)"
proof (cases "window_length r = TO_END")
  case True
  with assms have "window_length r' = len"
    by (auto simp: apply_window_def split: if_splits)
  with True show ?thesis by (simp add: in_window_def)
next
  case False
  with assms have le: "off \<le> window_length r"
    and r': "window_length r' = min len (window_length r - off)"
    by (auto simp: apply_window_def split: if_splits)
  have sub: "unat (window_length r - off) = unat (window_length r) - unat off"
    using le by (rule unat_sub)
  have small: "unat (window_length r) < 2 ^ 64 - 1"
    using False by (simp add: bounded_iff)
  have len: "unat (window_length r') = min (unat len) (unat (window_length r) - unat off)"
    by (simp add: r' unat_min_u64 sub)
  have "unat (window_length r') \<le> unat (window_length r) - unat off"
    unfolding len by (rule min.cobounded2)
  then have b': "window_length r' \<noteq> TO_END"
    using small by (simp add: bounded_iff)
  have e: "len = TO_END \<longleftrightarrow> \<not> unat len < 2 ^ 64 - 1"
    using bounded_iff by blast
  show ?thesis
    using False b' len small unat_u64_le [of len]
    unfolding in_window_def e by (auto simp: less_diff_conv add.commute)
qed

section \<open>Nested subfiles\<close>

text \<open>The path that nests windows around a URI, outermost first, and what it should mean.\<close>

fun subfile_path :: "(u64 \<times> u64) list \<Rightarrow> string \<Rightarrow> string" where
  "subfile_path [] uri = uri"
| "subfile_path ((off, len) # ws) uri =
     ''/vsisubfile/'' @ u64_string off @ ''_'' @ u64_string len @ '','' @ subfile_path ws uri"

fun nest_windows :: "(u64 \<times> u64) list \<Rightarrow> resolve_error + resolved \<Rightarrow> resolve_error + resolved" where
  "nest_windows [] r = r"
| "nest_windows ((off, len) # ws) r =
     (case nest_windows ws r of Inl e \<Rightarrow> Inl e | Inr child \<Rightarrow> apply_window child off len)"

lemma parse_u64_string [simp]: "parse_u64 (u64_string a) = Inr a"
  by (simp add: parse_u64_def)

lemma parse_subfile_spec_print:
  "parse_subfile_spec (u64_string off @ ''_'' @ u64_string len) = Inr (off, len)"
proof -
  have f: "find_char CHR ''_'' (u64_string off @ CHR ''_'' # u64_string len) =
    Some (length (u64_string off))"
    by (rule find_char_hit) simp
  have "hd (u64_string len) \<noteq> CHR ''-''"
    using u64_string_digits [of len] by (metis hd_in_set not_digit_char(1) u64_string_nonempty)
  with f show ?thesis by (simp add: parse_subfile_spec_def)
qed

lemma subfile_path_nonempty: "uri \<noteq> [] \<Longrightarrow> subfile_path ws uri \<noteq> []"
  by (cases ws) auto

lemma resolve_impl_subfile:
  assumes "inner \<noteq> []"
  shows "resolve_impl (''/vsisubfile/'' @ u64_string off @ ''_'' @ u64_string len @ '','' @ inner) depth =
    (if depth = MAX_SUBFILE_DEPTH then Inl (malformed ''/vsisubfile/ nesting exceeds 16 levels'')
     else case resolve_impl inner (depth + 1) of
            Inl e \<Rightarrow> Inl e | Inr child \<Rightarrow> apply_window child off len)"
proof -
  let ?spec = "u64_string off @ ''_'' @ u64_string len"
  have f: "find_char CHR '','' (?spec @ CHR '','' # inner) = Some (length ?spec)"
    by (rule find_char_hit) simp
  show ?thesis
    using assms f parse_subfile_spec_print [of off len]
    by (subst resolve_impl.simps) (simp split: sum.splits)
qed

lemma resolve_impl_nested:
  assumes "uri \<noteq> []" "\<not> starts_with ''/vsisubfile/'' uri"
  shows "depth + length ws \<le> MAX_SUBFILE_DEPTH \<Longrightarrow>
    resolve_impl (subfile_path ws uri) depth = nest_windows ws (resolve_alias uri)"
proof (induction ws arbitrary: depth)
  case Nil
  with assms show ?case by (simp add: resolve_impl.simps)
next
  case (Cons w ws)
  obtain off len where w: "w = (off, len)" by (cases w)
  have IH: "resolve_impl (subfile_path ws uri) (depth + 1) = nest_windows ws (resolve_alias uri)"
    using Cons by simp
  have "depth \<noteq> MAX_SUBFILE_DEPTH" using Cons.prems by simp
  then show ?case
    by (simp only: w subfile_path.simps nest_windows.simps IH if_False
        resolve_impl_subfile [OF subfile_path_nonempty [OF assms(1)]])
qed

lemma resolve_impl_too_deep:
  assumes "uri \<noteq> []"
  shows "depth \<le> MAX_SUBFILE_DEPTH \<Longrightarrow> MAX_SUBFILE_DEPTH < depth + length ws \<Longrightarrow>
    resolve_impl (subfile_path ws uri) depth =
    Inl (malformed ''/vsisubfile/ nesting exceeds 16 levels'')"
proof (induction ws arbitrary: depth)
  case Nil
  then show ?case by simp
next
  case (Cons w ws)
  obtain off len where w: "w = (off, len)" by (cases w)
  show ?case
  proof (cases "depth = MAX_SUBFILE_DEPTH")
    case True
    then show ?thesis
      by (simp only: w subfile_path.simps if_True simp_thms
          resolve_impl_subfile [OF subfile_path_nonempty [OF assms]])
  next
    case False
    with Cons.prems have "resolve_impl (subfile_path ws uri) (depth + 1) =
        Inl (malformed ''/vsisubfile/ nesting exceeds 16 levels'')"
      by (intro Cons.IH) auto
    with False show ?thesis
      by (simp only: w subfile_path.simps if_False sum.case
          resolve_impl_subfile [OF subfile_path_nonempty [OF assms]])
  qed
qed

section \<open>Aliases and canonical names\<close>

lemma resolve_uri_start:
  "c \<noteq> CHR ''/'' \<Longrightarrow> resolve (c # cs) = terminal (c # cs)"
  by (simp add: resolve_def resolve_impl.simps resolve_alias_def ALIASES_def)

lemma resolve_alias_cases:
  assumes "(vsi, scheme) \<in> set (tl ALIASES)" "rest \<noteq> []"
  shows "resolve (vsi @ rest) = terminal (scheme @ rest)"
  using assms
  by (auto simp: ALIASES_def resolve_def resolve_impl.simps [of "_ # _"] resolve_alias_def)

lemma sublist_hash_append:
  "CHR ''#'' \<notin> set p \<Longrightarrow> sublist (CHR ''#'' # x) (p @ rest) \<longleftrightarrow> sublist (CHR ''#'' # x) rest"
  by (induction p) (auto simp: sublist_Cons_right)

lemma take_bytes_fragment_none:
  assumes "\<not> sublist ''#bytes='' uri"
  shows "take_bytes_fragment uri = Inr (uri, 0, TO_END)"
proof (cases "rfind_char CHR ''#'' uri")
  case None
  then show ?thesis by (simp add: take_bytes_fragment_def)
next
  case (Some i)
  have "\<not> prefix ''#bytes='' (drop i uri)"
    using assms by (metis append_take_drop_id prefix_imp_sublist sublist_appendI
        sublist_order.dual_order.trans suffix_drop suffix_imp_sublist)
  with Some show ?thesis by (simp add: take_bytes_fragment_def)
qed

lemma finish_window_bare: "finish_window off len r = Inr r' \<Longrightarrow> bare r' = bare r"
  by (auto simp: finish_window_def apply_window_bare split: if_splits)

lemma finish_window_inv:
  "finish_window off len r = Inr r' \<Longrightarrow> bare r' = bare r \<and> canonical_uri r' = canonical_uri r"
  by (metis finish_window_bare bare_simps(1))

lemma finish_window_default [simp]: "finish_window 0 TO_END r = Inr r"
  by (simp add: finish_window_def)

lemma bare_empty_resolved [simp]: "bare empty_resolved = empty_resolved"
  by (simp add: bare_def empty_resolved_def)

lemma bare_update_simps [simp]:
  "bare (r\<lparr>res_backend := b\<rparr>) = (bare r)\<lparr>res_backend := b\<rparr>"
  "bare (r\<lparr>canonical_uri := u\<rparr>) = (bare r)\<lparr>canonical_uri := u\<rparr>"
  "bare (r\<lparr>res_target := t\<rparr>) = (bare r)\<lparr>res_target := t\<rparr>"
  "bare (r\<lparr>res_container := c\<rparr>) = (bare r)\<lparr>res_container := c\<rparr>"
  "bare (r\<lparr>res_key := k\<rparr>) = (bare r)\<lparr>res_key := k\<rparr>"
  "bare (r\<lparr>azure_dfs := d\<rparr>) = (bare r)\<lparr>azure_dfs := d\<rparr>"
  by (simp_all add: bare_def)

lemma split_object_join: "split_object s g = Inr (a, b) \<Longrightarrow> s = a @ ''/'' @ b \<and> a \<noteq> [] \<and> b \<noteq> []"
proof -
  assume "split_object s g = Inr (a, b)"
  then obtain i where f: "find_char CHR ''/'' s = Some i" and i: "i \<noteq> 0" "i + 1 < length s"
    and ab: "a = take i s" "b = drop (i + 1) s"
    by (auto simp: split_object_def Let_def split: option.splits if_splits)
  from f obtain x y where "s = x @ CHR ''/'' # y" "length x = i"
    by (rule find_char_SomeE)
  with i ab show ?thesis by auto
qed

lemma alias_vsi: "(pre, scheme) \<in> set ALIASES \<Longrightarrow> prefix ''/vsi'' pre"
  by (auto simp: ALIASES_def)

lemma resolve_plain:
  assumes "uri \<noteq> []" "\<not> starts_with ''/vsi'' uri"
  shows "resolve uri = terminal uri"
proof -
  have "find (\<lambda>(pre, scheme). starts_with pre uri) ALIASES = None"
    using assms(2) alias_vsi by (fastforce simp: find_None_iff intro: prefix_order.trans)
  moreover have "\<not> starts_with ''/vsisubfile/'' uri"
    using assms(2) by (auto simp: prefix_def)
  ultimately show ?thesis
    using assms by (simp add: resolve_def resolve_impl.simps resolve_alias_def)
qed

lemma take_bytes_fragment_prefix:
  "take_bytes_fragment uri = Inr (uri', off, len) \<Longrightarrow> prefix uri' uri"
  by (auto simp: take_bytes_fragment_def Let_def take_is_prefix
      split: option.splits sum.splits if_splits)

lemma cloud_inv:
  assumes "cloud off len b rest g vsi dfs = Inr r"
  shows "cloud 0 TO_END b rest g vsi dfs = Inr (bare r) \<and> canonical_uri r = vsi @ rest \<and> rest \<noteq> []"
proof -
  from assms obtain c k where s: "split_object rest g = Inr (c, k)"
    and f: "finish_window off len (empty_resolved\<lparr>res_backend := b, res_container := c, res_key := k,
      azure_dfs := dfs, canonical_uri := vsi @ c @ ''/'' @ k\<rparr>) = Inr r"
    by (auto simp: cloud_def split: sum.splits)
  from finish_window_inv [OF f] s split_object_join [OF s] show ?thesis
    by (auto simp: cloud_def)
qed

lemma terminal_source_inv:
  assumes "terminal_source rest off len = Inr r"
  shows "terminal_source rest 0 TO_END = Inr (bare r) \<and> canonical_uri r = ''/vsisource/'' @ rest \<and> rest \<noteq> []"
proof -
  from assms obtain c k x where s: "split_object rest ''source://account/product/key'' = Inr (c, k)"
    "split_object k ''source://account/product/key'' = Inr x"
    and f: "finish_window off len (empty_resolved\<lparr>res_backend := Source, res_container := c,
      res_key := k, canonical_uri := ''/vsisource/'' @ c @ ''/'' @ k\<rparr>) = Inr r"
    by (auto simp: terminal_source_def split: sum.splits)
  from finish_window_inv [OF f] s split_object_join [OF s(1)] show ?thesis
    by (auto simp: terminal_source_def)
qed

lemma terminal_hf_inv:
  assumes "terminal_hf path off len = Inr r"
  shows "terminal_hf path 0 TO_END = Inr (bare r) \<and> canonical_uri r = ''/vsihf/'' @ path \<and> path \<noteq> []"
proof -
  obtain kind rest where h: "hf_kind path = (kind, rest)" by (cases "hf_kind path")
  from assms h obtain owner tail repository path'
    where s: "split_object rest ''hf://owner/name/path'' = Inr (owner, tail)"
      "split_object tail ''hf://owner/name/path'' = Inr (repository, path')"
    by (auto simp: terminal_hf_def split: sum.splits)
  have "path \<noteq> []" using h split_object_join [OF s(1)] by (auto simp: hf_kind_def)
  with assms h s show ?thesis
    by (auto simp: terminal_hf_def Let_def
        dest!: finish_window_inv split: option.splits if_splits)
qed

lemma terminal_http_inv:
  assumes "terminal_http uri off len = Inr r"
  shows "terminal_http uri 0 TO_END = Inr (bare r) \<and> canonical_uri r = uri"
  using assms
  by (auto simp: terminal_http_def Let_def dest!: finish_window_inv split: if_splits)

lemma starts_with_cut: "starts_with p s \<Longrightarrow> length p = n \<Longrightarrow> s = p @ drop n s"
  by (auto simp: prefix_def)

text \<open>
  Every successful dispatch forgets its window under \<^const>\<open>bare\<close>, and names the object either
  by the text itself or by the VSI spelling of its scheme.
\<close>

definition names :: "string \<Rightarrow> resolved \<Rightarrow> bool" where
  "names uri r \<longleftrightarrow> canonical_uri r = uri \<or>
     (\<exists>vsi scheme rest. (vsi, scheme) \<in> set (tl ALIASES) \<and> uri = scheme @ rest \<and> rest \<noteq> [] \<and>
        canonical_uri r = vsi @ rest)"

lemma namesI: "(vsi, scheme) \<in> set (tl ALIASES) \<Longrightarrow> rest \<noteq> [] \<Longrightarrow>
    canonical_uri r = vsi @ rest \<Longrightarrow> names (scheme @ rest) r"
  unfolding names_def by blast

lemmas names_scheme =
  namesI [of "''/vsis3/''" "''s3://''", simplified ALIASES_def, simplified]
  namesI [of "''/vsigs/''" "''gs://''", simplified ALIASES_def, simplified]
  namesI [of "''/vsiaz/''" "''az://''", simplified ALIASES_def, simplified]
  namesI [of "''/vsiadls/''" "''abfs://''", simplified ALIASES_def, simplified]
  namesI [of "''/vsihf/''" "''hf://''", simplified ALIASES_def, simplified]
  namesI [of "''/vsisource/''" "''source://''", simplified ALIASES_def, simplified]

lemma terminal_at_inv:
  assumes "terminal_at uri off len = Inr r"
  shows "terminal_at uri 0 TO_END = Inr (bare r) \<and> names uri r"
proof -
  consider (http) "starts_with ''http://'' uri \<or> starts_with ''https://'' uri"
    | (s3) "starts_with ''s3://'' uri" | (gs) "starts_with ''gs://'' uri"
    | (az) "starts_with ''az://'' uri" | (abfs) "starts_with ''abfs://'' uri"
    | (source) "starts_with ''source://'' uri" | (hf) "starts_with ''hf://'' uri"
    | (path) "\<not> starts_with ''http://'' uri" "\<not> starts_with ''https://'' uri"
        "\<not> starts_with ''s3://'' uri" "\<not> starts_with ''gs://'' uri" "\<not> starts_with ''az://'' uri"
        "\<not> starts_with ''abfs://'' uri" "\<not> starts_with ''source://'' uri" "\<not> starts_with ''hf://'' uri"
    by blast
  then show ?thesis
  proof cases
    case http
    with assms show ?thesis
      by (auto simp: terminal_at_def names_def dest: terminal_http_inv)
  next
    case s3
    then obtain rest where u: "uri = ''s3://'' @ rest" by (auto simp: prefix_def)
    with cloud_inv [of off len S3 rest "''s3://bucket/key''" "''/vsis3/''" False r] assms show ?thesis
      by (auto simp: terminal_at_def intro: names_scheme)
  next
    case gs
    then obtain rest where u: "uri = ''gs://'' @ rest" by (auto simp: prefix_def)
    with cloud_inv [of off len Gcs rest "''gs://bucket/key''" "''/vsigs/''" False r] assms show ?thesis
      by (auto simp: terminal_at_def intro: names_scheme)
  next
    case az
    then obtain rest where u: "uri = ''az://'' @ rest" by (auto simp: prefix_def)
    with cloud_inv [of off len Azure rest "''az://container/blob''" "''/vsiaz/''" False r] assms
    show ?thesis
      by (auto simp: terminal_at_def intro: names_scheme)
  next
    case abfs
    then obtain rest where u: "uri = ''abfs://'' @ rest" by (auto simp: prefix_def)
    with cloud_inv [of off len Azure rest "''abfs://container/blob''" "''/vsiadls/''" True r] assms
    show ?thesis
      by (auto simp: terminal_at_def intro: names_scheme)
  next
    case source
    then obtain rest where u: "uri = ''source://'' @ rest" by (auto simp: prefix_def)
    with terminal_source_inv [of rest off len r] assms show ?thesis
      by (auto simp: terminal_at_def intro: names_scheme)
  next
    case hf
    then obtain rest where u: "uri = ''hf://'' @ rest" by (auto simp: prefix_def)
    with terminal_hf_inv [of rest off len r] assms show ?thesis
      by (auto simp: terminal_at_def intro: names_scheme)
  next
    case path
    with assms show ?thesis
      by (auto simp: terminal_at_def names_def prefix_def
          dest!: finish_window_inv split: if_splits)
  qed
qed

lemma terminal_canonical:
  assumes t: "terminal uri = Inr r" and v: "\<not> starts_with ''/vsi'' uri"
    and h: "\<not> sublist ''#bytes='' (canonical_uri r)"
  shows "resolve (canonical_uri r) = Inr (bare r)"
proof -
  from t obtain u off len where f: "take_bytes_fragment uri = Inr (u, off, len)"
    and a: "terminal_at u off len = Inr r"
    by (auto simp: terminal_def split: sum.splits)
  note inv = terminal_at_inv [OF a]
  have v': "\<not> starts_with ''/vsi'' u"
    using v take_bytes_fragment_prefix [OF f] by (meson prefix_order.trans)
  have ne: "u \<noteq> []"
    using a by (auto simp: terminal_at_def contains_sub_def)
  from inv have "names u r" ..
  then consider "canonical_uri r = u"
    | vsi scheme rest where "(vsi, scheme) \<in> set (tl ALIASES)" "u = scheme @ rest" "rest \<noteq> []"
      "canonical_uri r = vsi @ rest"
    unfolding names_def by blast
  then show ?thesis
  proof cases
    case 1
    with h inv resolve_plain [OF ne v'] show ?thesis
      by (simp add: terminal_def take_bytes_fragment_none)
  next
    case 2
    have "CHR ''#'' \<notin> set vsi" "CHR ''#'' \<notin> set scheme"
      using 2(1) by (auto simp: ALIASES_def)
    with h 2 have "\<not> sublist ''#bytes='' u"
      by (simp add: sublist_hash_append)
    with 2 inv resolve_alias_cases [OF 2(1,3)] show ?thesis
      by (simp add: terminal_def take_bytes_fragment_none)
  qed
qed

lemma resolve_alias_terminal:
  assumes "resolve_alias uri = Inr r"
  obtains u where "terminal u = Inr r" "\<not> starts_with ''/vsi'' u"
proof (cases "find (\<lambda>(pre, scheme). starts_with pre uri) ALIASES")
  case None
  with assms show thesis
    by (intro that [of uri]) (auto simp: resolve_alias_def split: if_splits)
next
  case (Some a)
  obtain pre scheme where a: "a = (pre, scheme)" by (cases a)
  with Some have mem: "(pre, scheme) \<in> set ALIASES"
    by (auto simp: find_Some_iff in_set_conv_nth)
  let ?rest = "drop (length pre) uri"
  from assms Some a have t: "terminal (scheme @ ?rest) = Inr r"
    and c: "pre = ''/vsicurl/'' \<Longrightarrow> starts_with ''http://'' ?rest \<or> starts_with ''https://'' ?rest"
    by (auto simp: resolve_alias_def Let_def split: if_splits)
  have "\<not> starts_with ''/vsi'' (scheme @ ?rest)"
    using mem c by (auto simp: ALIASES_def prefix_def)
  with t show thesis by (rule that)
qed

lemma resolve_impl_canonical:
  "resolve_impl uri depth = Inr r \<Longrightarrow> \<not> sublist ''#bytes='' (canonical_uri r) \<Longrightarrow>
   resolve (canonical_uri r) = Inr (bare r)"
proof (induction uri depth arbitrary: r rule: resolve_impl.induct)
  case (1 uri depth)
  show ?case
  proof (cases "starts_with ''/vsisubfile/'' uri")
    case False
    with "1.prems" have "resolve_alias uri = Inr r"
      by (subst (asm) resolve_impl.simps) (auto split: if_splits)
    then show ?thesis
      using terminal_canonical "1.prems"(2) by (elim resolve_alias_terminal) blast
  next
    case True
    from "1.prems"(1) True obtain comma off len child
      where step: "uri \<noteq> []" "depth \<noteq> MAX_SUBFILE_DEPTH" "find_char CHR '','' (drop 12 uri) = Some comma"
        "drop (comma + 1) (drop 12 uri) \<noteq> []"
        "parse_subfile_spec (take comma (drop 12 uri)) = Inr (off, len)"
        and child: "resolve_impl (drop (comma + 1) (drop 12 uri)) (depth + 1) = Inr child"
        and w: "apply_window child off len = Inr r"
      by (subst (asm) resolve_impl.simps)
        (auto simp: Let_def split: if_splits option.splits sum.splits)
    have "resolve (canonical_uri child) = Inr (bare child)"
      using "1.prems"(2) apply_window_canonical [OF w]
      by (intro "1.IH" [OF step(1) True step(2) refl step(3) refl refl step(4,5) refl child]) simp
    with apply_window_canonical [OF w] apply_window_bare [OF w] show ?thesis by simp
  qed
qed

section \<open>Percent encoding\<close>

text \<open>Reading percent escapes back, the inverse a server applies to an encoded path.\<close>

definition hex_value :: "char \<Rightarrow> nat" where
  "hex_value c = (let n = (of_char c :: nat) in if n \<le> 57 then n - 48 else n - 55)"

fun percent_decode :: "string \<Rightarrow> string" where
  "percent_decode [] = []"
| "percent_decode (c # cs) =
     (if c = CHR ''%'' then
        (case cs of a # b # rest \<Rightarrow> char_of (16 * hex_value a + hex_value b) # percent_decode rest
         | _ \<Rightarrow> c # percent_decode cs)
      else c # percent_decode cs)"

lemma hex_value_upper: "n < 16 \<Longrightarrow> hex_value (hex_upper n) = n"
proof -
  have "\<forall>n \<in> set [0..<16]. hex_value (hex_upper n) = n"
    by (simp add: hex_value_def hex_upper_def upt_rec)
  then show "n < 16 \<Longrightarrow> hex_value (hex_upper n) = n" by simp
qed

lemma percent_decode_char: "percent_decode (encode_path_char c @ s) = c # percent_decode s"
proof (cases "safe_path_char c")
  case True
  then have "c \<noteq> CHR ''%''" by (auto simp: safe_path_char_def)
  with True show ?thesis by (simp add: encode_path_char_def)
next
  case False
  let ?n = "of_char c :: nat"
  have "?n < 256" by simp
  then have "?n div 16 < 16" "?n mod 16 < 16" by linarith+
  with False show ?thesis
    by (simp add: encode_path_char_def hex_value_upper)
qed

lemma percent_decode_encode: "percent_decode (encode_path p) = p"
  by (induction p) (simp_all add: encode_path_def percent_decode_char)

section \<open>Redaction\<close>

lemma find_sub_scheme:
  "CHR '':'' \<notin> set s \<Longrightarrow> find_sub ''://'' (s @ CHR '':'' # CHR ''/'' # CHR ''/'' # x) = Some (length s)"
  by (induction s) (auto simp: Cons_prefix_Cons)

lemma find_if_from_append [text_simps]:
  "find_if_from P (length a) (a @ b) = map_option ((+) (length a)) (find_if P b)"
  by (simp add: find_if_from_def)

lemma redact_authority_userinfo:
  assumes s: "CHR '':'' \<notin> set s" and ui: "\<forall>c \<in> set ui. c \<notin> set ''/?#@''"
  shows "redact_authority (s @ ''://'' @ ui @ ''@'' @ rest) = s @ ''://<redacted>@'' @ rest"
proof -
  let ?a = "s @ ''://''" and ?t = "ui @ CHR ''@'' # rest"
  have f: "find_sub ''://'' (?a @ ?t) = Some (length s)"
    using find_sub_scheme [OF s] by simp
  have l: "length s + 3 = length ?a" by simp
  have "find_if (\<lambda>c. c = CHR ''@'') ?t = Some (length ui)"
    using ui by (intro find_if_hit) auto
  then have at: "find_if_from (\<lambda>c. c = CHR ''@'') (length ?a) (?a @ ?t) = Some (length ?a + length ui)"
    by (simp only: find_if_from_append option.map)
  have "case find_if (\<lambda>c. c \<in> set ''/?#'') ?t of None \<Rightarrow> True | Some e \<Rightarrow> length ui < e"
    using ui by (auto simp: find_if_append_skip split: option.splits)
  then have e: "case find_if_from (\<lambda>c. c \<in> set ''/?#'') (length ?a) (?a @ ?t) of
      None \<Rightarrow> True | Some e \<Rightarrow> length ?a + length ui < e"
    unfolding find_if_from_append by (auto split: option.splits)
  have "redact_authority (?a @ ?t) = take (length ?a) (?a @ ?t) @ ''<redacted>'' @ drop (length ?a + length ui) (?a @ ?t)"
    unfolding redact_authority_def f option.case Let_def l at if_P [OF e] ..
  also have "drop (length ?a + length ui) (?a @ ?t) = CHR ''@'' # rest"
    by (simp only: drop_append) simp
  finally show ?thesis by simp
qed

lemma redact_query_cut:
  assumes "CHR ''?'' \<notin> set a" "CHR ''#'' \<notin> set a"
  shows "redact_query (a @ ''?'' @ q) = a @ ''?<redacted>''"
    and "redact_query (a @ ''#'' @ q) = a @ ''#<redacted>''"
    and "redact_query a = a"
proof -
  have "find_char CHR ''?'' (a @ CHR ''?'' # q) = Some (length a)"
    "find_char CHR ''#'' (a @ CHR ''#'' # q) = Some (length a)"
    using assms by (simp_all add: find_char_hit)
  moreover have skip: "find_char c (a @ d # q) = map_option (\<lambda>i. length a + Suc i) (find_char c q)"
    if "c \<notin> set a" "c \<noteq> d" for c d
    using that by (rule find_char_skip)
  ultimately show "redact_query (a @ ''?'' @ q) = a @ ''?<redacted>''"
    "redact_query (a @ ''#'' @ q) = a @ ''#<redacted>''"
    using assms by (simp_all add: redact_query_def split: option.splits)
  have "find_char CHR ''?'' a = None" "find_char CHR ''#'' a = None"
    using assms by (simp_all add: find_char_None)
  then show "redact_query a = a" by (simp add: redact_query_def)
qed

section \<open>Properties\<close>

text \<open>
  C8. Windows compose as sub-ranges: when a window is applied to a resolved object, position
  \<open>i\<close> is visible exactly when it lies inside the new length and position \<open>off + i\<close> was
  visible before, and it is the same byte of the terminal object. No offset wraps around.
\<close>

theorem apply_window_composes:
  assumes "apply_window r off len = Inr r'"
  shows "(in_window r' i \<longleftrightarrow> (len = TO_END \<or> i < unat len) \<and> in_window r (unat off + i)) \<and>
    absolute r' i = absolute r (unat off + i)"
  using apply_window_in_window [OF assms] apply_window_absolute [OF assms] by simp

theorem apply_window_composes_witness:
  "apply_window (empty_resolved\<lparr>window_offset := 100, window_length := 50\<rparr>) 20 40 =
     Inr (empty_resolved\<lparr>window_offset := 120, window_length := 30\<rparr>) \<and>
   in_window (empty_resolved\<lparr>window_offset := 120, window_length := 30\<rparr>) 29 \<and>
   absolute (empty_resolved\<lparr>window_offset := 120, window_length := 30\<rparr>) 29 = 149"
proof -
  have h: "apply_window (empty_resolved\<lparr>window_offset := 100, window_length := 50\<rparr>) 20 40 =
     Inr (empty_resolved\<lparr>window_offset := 120, window_length := 30\<rparr>)"
    by (simp add: apply_window_def TO_END_def u64_max_def empty_resolved_def)
  show ?thesis
    using h apply_window_composes [OF h, of 29]
    by (simp add: in_window_def absolute_def TO_END_def u64_max_def)
qed

text \<open>
  C9. Nested subfile paths parse to what they print: up to sixteen windows around a URI resolve to
  that URI's object with the windows applied from the inside out, and one more is an error.
\<close>

theorem resolve_nested_subfiles:
  assumes "uri \<noteq> []" "\<not> starts_with ''/vsisubfile/'' uri"
  shows "resolve (subfile_path ws uri) =
    (if length ws \<le> MAX_SUBFILE_DEPTH then nest_windows ws (resolve uri)
     else Inl (malformed ''/vsisubfile/ nesting exceeds 16 levels''))"
proof -
  have "resolve uri = resolve_alias uri"
    using resolve_impl_nested [OF assms, of 0 "[]"] by (simp add: resolve_def MAX_SUBFILE_DEPTH_def)
  then show ?thesis
    using resolve_impl_nested [OF assms, of 0 ws] resolve_impl_too_deep [OF assms(1), of 0 ws]
    by (simp add: resolve_def)
qed

theorem resolve_nested_subfiles_witness:
  "resolve ''/vsisubfile/10_20,s3://b/k'' =
     Inr (empty_resolved\<lparr>res_backend := S3, canonical_uri := ''/vsis3/b/k'', res_container := ''b'',
            res_key := ''k'', window_offset := 10, window_length := 20\<rparr>)"
proof -
  have p: "subfile_path [(10, 20)] ''s3://b/k'' = ''/vsisubfile/10_20,s3://b/k''"
    by code_simp
  have r: "resolve ''s3://b/k'' =
      Inr (empty_resolved\<lparr>res_backend := S3, canonical_uri := ''/vsis3/b/k'', res_container := ''b'',
            res_key := ''k''\<rparr>)"
    by code_simp
  show ?thesis
    using resolve_nested_subfiles [of "''s3://b/k''" "[(10, 20)]"] unfolding p r
    by (simp add: MAX_SUBFILE_DEPTH_def apply_window_def empty_resolved_def u64_max_def)
qed

text \<open>
  C10. The canonical name of a resolved object resolves to that same object, without its window, as
  long as the name holds no \<open>#bytes=\<close> of its own. The condition is needed: only the last \<open>#bytes=\<close> of a URI
  is its window, so an earlier one stays in the canonical name and is read as a window when that name is
  resolved again (\<open>canonical_name_keeps_fragment\<close> below).
\<close>

theorem resolve_canonical_roundtrip:
  assumes "resolve uri = Inr r" "\<not> sublist ''#bytes='' (canonical_uri r)"
  shows "resolve (canonical_uri r) = Inr (bare r)"
  using assms unfolding resolve_def [of uri] by (rule resolve_impl_canonical)

theorem resolve_canonical_roundtrip_witness:
  "\<exists>r. resolve ''gs://b/k#bytes=5-9'' = Inr r \<and> window_length r = 5 \<and>
    resolve (canonical_uri r) = Inr (bare r)"
proof -
  let ?r = "empty_resolved\<lparr>res_backend := Gcs, canonical_uri := ''/vsigs/b/k'', res_container := ''b'',
    res_key := ''k'', window_offset := 5, window_length := 5\<rparr>"
  have h: "resolve ''gs://b/k#bytes=5-9'' = Inr ?r" by code_simp
  have "\<not> sublist ''#bytes='' (canonical_uri ?r)" by code_simp
  with h resolve_canonical_roundtrip [OF h] show ?thesis by (intro exI [of _ ?r]) simp
qed

lemma canonical_name_keeps_fragment:
  "case resolve ''gs://b/k#bytes=1-2#bytes=3-4'' of
     Inr r \<Rightarrow> canonical_uri r = ''/vsigs/b/k#bytes=1-2'' \<and> res_key r = ''k#bytes=1-2'' \<and>
       (case resolve (canonical_uri r) of Inr r' \<Rightarrow> res_key r' = ''k'' \<and> window_offset r' = 1 | Inl _ \<Rightarrow> False)
   | Inl _ \<Rightarrow> False"
  by code_simp

text \<open>
  The VSI spelling and the URI spelling of a cloud object are the same object: for every alias
  but \<open>/vsicurl/\<close> and every rest, the two texts resolve to the same result, errors included.
\<close>

theorem resolve_alias_same_object:
  assumes "(vsi, scheme) \<in> set (tl ALIASES)" "rest \<noteq> []"
  shows "resolve (vsi @ rest) = resolve (scheme @ rest)"
proof -
  have "scheme @ rest \<noteq> []" "\<not> starts_with ''/vsi'' (scheme @ rest)"
    using assms by (auto simp: ALIASES_def)
  then have "resolve (scheme @ rest) = terminal (scheme @ rest)" by (rule resolve_plain)
  with resolve_alias_cases [OF assms] show ?thesis by simp
qed

text \<open>
  Percent-encoding of paths loses nothing: decoding an encoded path gives the path back, for
  every byte string.
\<close>

theorem encode_path_roundtrip: "percent_decode (encode_path p) = p"
  by (rule percent_decode_encode)

text \<open>
  C24. Redaction hides user information in which \<open>@\<close>, \<open>/\<close>, \<open>?\<close> and \<open>#\<close> are percent-encoded, as a URL
  requires, and everything after the first \<open>?\<close> or \<open>#\<close>: for such a URL the shown text is a function of the
  scheme, the host and the path only. User information with a raw \<open>@\<close> is outside the claim, and
  \<open>redact_url_first_at\<close> below shows that its tail is not hidden.
\<close>

theorem redact_url_hides:
  assumes "CHR '':'' \<notin> set s" "\<forall>c \<in> set ui. c \<notin> set ''/?#@''"
    "\<forall>c \<in> set (s @ host_path). c \<notin> set ''?#''" "sep \<in> set ''?#''"
  shows "redact_url (s @ ''://'' @ ui @ ''@'' @ host_path @ sep # secret) =
    s @ ''://<redacted>@'' @ host_path @ sep # ''<redacted>''"
proof -
  let ?a = "s @ ''://<redacted>@'' @ host_path"
  have a: "CHR ''?'' \<notin> set ?a" "CHR ''#'' \<notin> set ?a" using assms(3) by auto
  show ?thesis
    using redact_authority_userinfo [OF assms(1,2), of "host_path @ sep # secret"] assms(4)
      redact_query_cut(1,2) [OF a, of secret] by (auto simp: redact_url_def)
qed

theorem redact_url_hides_witness:
  "redact_url ''https://user:pw@h/x?sig=abc'' = ''https://<redacted>@h/x?<redacted>''"
  using redact_url_hides [of "''https''" "''user:pw''" "''h/x''" "CHR ''?''" "''sig=abc''"] by simp

text \<open>
  Only the text before the first \<open>@\<close> of the authority is hidden: a password that holds a
  raw \<open>@\<close> is shown from that character on.
\<close>

lemma redact_url_first_at:
  "redact_url ''https://user:pa@ss@host/x'' = ''https://<redacted>@ss@host/x''"
  by code_simp

end
