(* ===== verification/Karu_Deadline.thy ===== *)
theory Karu_Deadline
  imports Karu_Prelude
begin

text \<open>
  The deadline of a request, \<open>src/src/runtime/deadline.hpp\<close>. Times of the steady clock are integers
  in nanoseconds; every operation takes the time its clock read answered. The lemmas show that a wait
  the deadline allows cannot outlive it and that libcurl's timeout rounds up by less than a
  millisecond.
\<close>

record request_deadline =
  dl_expires :: int
  dl_started :: bool
  dl_bounded :: bool

definition new_deadline :: request_deadline where
  "new_deadline = \<lparr>dl_expires = 0, dl_started = False, dl_bounded = False\<rparr>"

definition start :: "int \<Rightarrow> int \<Rightarrow> request_deadline \<Rightarrow> request_deadline" where
  "start now timeout_seconds d =
     (if dl_started d then d
      else if 0 < timeout_seconds
      then d\<lparr>dl_started := True, dl_expires := now + 1000000000 * timeout_seconds, dl_bounded := True\<rparr>
      else d\<lparr>dl_started := True\<rparr>)"

definition expired :: "int \<Rightarrow> request_deadline \<Rightarrow> bool" where
  "expired now d \<longleftrightarrow> dl_bounded d \<and> dl_expires d \<le> now"

text \<open>The delay is in milliseconds.\<close>

definition can_wait_for :: "int \<Rightarrow> int \<Rightarrow> request_deadline \<Rightarrow> bool" where
  "can_wait_for now delay d \<longleftrightarrow> \<not> dl_bounded d \<or> 1000000 * delay < dl_expires d - now"

definition long_max :: int where
  "long_max = 2 ^ 63 - 1"

definition curl_timeout_ms :: "int \<Rightarrow> request_deadline \<Rightarrow> int" where
  "curl_timeout_ms now d =
     (if \<not> dl_bounded d then 0
      else max 1 (min (- ((now - dl_expires d) div 1000000)) long_max))"

section \<open>Properties\<close>

lemma start_idempotent: "start now' s' (start now s d) = start now s d"
  by (simp add: start_def)

lemma ceil_div: "(r :: int) \<le> 1000000 * (- (- r div 1000000)) \<and> 1000000 * (- (- r div 1000000)) < r + 1000000"
  using div_mult_mod_eq [of "- r" 1000000] pos_mod_sign [of 1000000 "- r"] pos_mod_bound [of 1000000 "- r"]
  by linarith

text \<open>
  A deadline is fixed by its first start, allows only waits that end before it expires, and gives
  libcurl a timeout that covers the time left and overshoots it by less than a millisecond.
\<close>

theorem deadline_honest:
  assumes "0 < s" "\<not> dl_started d" "\<not> dl_bounded d" "\<not> expired now (start t0 s d)"
    "dl_expires (start t0 s d) - now < 1000000 * long_max"
  shows "start t1 s' (start t0 s d) = start t0 s d \<and> dl_expires (start t0 s d) = t0 + 1000000000 * s \<and>
    (can_wait_for now delay (start t0 s d) \<longrightarrow> \<not> expired (now + 1000000 * delay) (start t0 s d)) \<and>
    dl_expires (start t0 s d) - now \<le> 1000000 * curl_timeout_ms now (start t0 s d) \<and>
    1000000 * curl_timeout_ms now (start t0 s d) < dl_expires (start t0 s d) - now + 1000000"
proof -
  define r where "r = dl_expires (start t0 s d) - now"
  have b: "dl_bounded (start t0 s d)" "dl_expires (start t0 s d) = t0 + 1000000000 * s"
    using assms(1,2) by (simp_all add: start_def)
  have r: "0 < r" "r < 1000000 * long_max" using assms(4,5) b(1) by (simp_all add: r_def expired_def)
  note cd = ceil_div [of r]
  have "- (- r div 1000000) \<le> long_max" "1 \<le> - (- r div 1000000)" using r cd by linarith+
  then have "curl_timeout_ms now (start t0 s d) = - (- r div 1000000)"
    using b(1) by (simp add: curl_timeout_ms_def r_def)
  with cd b show ?thesis
    by (auto simp: start_idempotent can_wait_for_def expired_def r_def)
qed

end
