(* ===== verification/Karu_Types.thy ===== *)
theory Karu_Types
  imports Karu_Uri Karu_Deadline
begin

text \<open>
  The data the runtime components share: requests, parts and transfers
  (\<open>src/src/runtime/transfer.hpp\<close>), completions (\<open>src/src/runtime/batch.hpp\<close>), the client
  options (\<open>src/src/config.hpp\<close>) and the prepared request (\<open>src/src/request.hpp\<close>).
  A \<open>void*\<close> buffer is an \<^typ>\<open>addr option\<close>, \<^const>\<open>None\<close> for the null pointer; tags and
  batch pointers are numbers. The fields of \<open>Transfer\<close> that a new response resets are grouped in
  the record \<open>response\<close>; the libcurl handles and header lists are not modelled.
\<close>

section \<open>Requests and completions\<close>

record request =
  rq_locator :: resolved
  rq_offset :: u64
  rq_length :: u64
  rq_buffer :: "addr option"
  rq_tag :: tag
  rq_if_match :: string

record part =
  relative_offset :: u64
  part_length :: u64
  part_buffer :: "addr option"
  part_tag :: tag
  part_owned :: "addr option"

record completion =
  cp_tag :: tag
  cp_status :: karu_status
  cp_got :: u64
  cp_buffer :: "addr option"
  cp_owned :: "addr option"
  cp_detail :: string

record client_options =
  concurrency :: int
  io_threads :: int
  coalesce_gap :: u64
  coalesce_limit :: u64
  coalesce_parts :: u64
  coalesce_amplification :: u64
  range_fallback_limit :: u64
  max_attempts :: int
  request_timeout_seconds :: int
  connect_timeout_seconds :: int
  low_speed_time_seconds :: int
  low_speed_limit :: int

definition default_client_options :: client_options where
  "default_client_options = \<lparr>concurrency = 64, io_threads = 4, coalesce_gap = 1048576,
     coalesce_limit = 67108864, coalesce_parts = 1024, coalesce_amplification = 16,
     range_fallback_limit = 8388608, max_attempts = 8, request_timeout_seconds = 120,
     connect_timeout_seconds = 30, low_speed_time_seconds = 60, low_speed_limit = 1024\<rparr>"

section \<open>Prepared requests\<close>

datatype http_version = Automatic | Http1_1 | Http2Tls | Http2PriorKnowledge

record http_request_options =
  ho_version :: http_version
  follow_redirects :: bool
  same_origin_redirects_only :: bool
  ca_bundle :: string
  system_ca_bundle :: bool
  ca_path :: string
  proxy :: string
  proxy_user_password :: string
  user_agent :: string

definition default_http_request_options :: http_request_options where
  "default_http_request_options = \<lparr>ho_version = Http1_1, follow_redirects = True,
     same_origin_redirects_only = False, ca_bundle = [], system_ca_bundle = False, ca_path = [],
     proxy = [], proxy_user_password = [], user_agent = []\<rparr>"

record prepared_request =
  pr_url :: string
  pr_headers :: "(string \<times> string) list"
  pr_range :: string
  pr_http :: http_request_options
  routing_region :: string

record request_error =
  re_status :: karu_status
  re_message :: string

record provider_credentials =
  access_key_id :: string
  secret_access_key :: string
  session_token :: string
  bearer_token :: string
  sas_token :: string
  account_name :: string
  pc_region :: string
  cache_prefix :: string
  expires_at :: int

definition empty_credentials :: provider_credentials where
  "empty_credentials = \<lparr>access_key_id = [], secret_access_key = [], session_token = [],
     bearer_token = [], sas_token = [], account_name = [], pc_region = [], cache_prefix = [],
     expires_at = 0\<rparr>"

section \<open>Transfers\<close>

record encoding_headers =
  enc_content :: string
  enc_stored :: string
  transformation_warning :: bool

definition no_encoding :: encoding_headers where
  "no_encoding = \<lparr>enc_content = [], enc_stored = [], transformation_warning = False\<rparr>"

record response =
  response_etag :: string
  version_changed :: bool
  skip :: u64
  body_length :: int
  consume :: u64
  satisfied :: bool
  checked_status :: bool
  http_status :: int
  redirect_blocked :: bool
  content_range_seen :: bool
  content_range_valid :: bool
  content_range_matches :: bool
  content_range_start :: u64
  content_range_end :: u64
  content_range_total :: u64
  content_range_has_total :: bool
  range_fallback_rejected :: bool
  encoding :: encoding_headers
  response_region :: string
  retry_after :: int
  error_body :: string
  error_body_received :: u64

definition fresh_response :: response where
  "fresh_response = \<lparr>response_etag = [], version_changed = False, skip = 0, body_length = -1,
     consume = 0, satisfied = False, checked_status = False, http_status = 0,
     redirect_blocked = False, content_range_seen = False, content_range_valid = False,
     content_range_matches = False, content_range_start = 0, content_range_end = 0,
     content_range_total = 0, content_range_has_total = False, range_fallback_rejected = False,
     encoding = no_encoding, response_region = [], retry_after = 0, error_body = [],
     error_body_received = 0\<rparr>"

text \<open>
  Where received bytes go: nowhere yet, the only part's buffer, or the scratch vector that a
  coalesced local read fills.
\<close>

datatype sink = No_Sink | Buffer_Sink "addr option" | Scratch_Sink

record transfer =
  t_batch :: nat
  t_locator :: resolved
  t_offset :: u64
  t_length :: u64
  t_parts :: "part list"
  t_if_match :: string
  scattered :: bool
  t_sink :: sink
  scratch :: "byte list"
  scatter_cursor :: nat
  request_url :: string
  request_range :: string
  request_headers :: "(string \<times> string) list"
  t_http :: http_request_options
  region_hint :: string
  t_credentials :: "provider_credentials option"
  credentials_ready :: bool
  resumed :: u64
  resume_etag :: string
  received :: u64
  t_response :: response
  t_fallback_limit :: u64
  region_retried :: bool
  credentials_retried :: bool
  attempt :: int
  unreachable_attempts :: int
  t_deadline :: request_deadline

definition new_transfer :: transfer where
  "new_transfer = \<lparr>t_batch = 0, t_locator = empty_resolved, t_offset = 0, t_length = 0,
     t_parts = [], t_if_match = [], scattered = False, t_sink = No_Sink, scratch = [],
     scatter_cursor = 0, request_url = [], request_range = [], request_headers = [],
     t_http = default_http_request_options, region_hint = [], t_credentials = None,
     credentials_ready = False, resumed = 0, resume_etag = [], received = 0,
     t_response = fresh_response, t_fallback_limit = 0, region_retried = False,
     credentials_retried = False, attempt = 0, unreachable_attempts = 0,
     t_deadline = new_deadline\<rparr>"

end
