(* ===== verification/Karu_Config.thy ===== *)
theory Karu_Config
  imports Karu_Types
begin

text \<open>
  Configuration, \<open>src/src/config.cpp\<close>, \<open>config.hpp\<close> and \<open>config_options.hpp\<close>: option names and their
  aliases, the builder with its three layers (environment, explicit, path rules), and the frozen
  snapshot. An \<open>OptionMap\<close> is a map. The environment is a function from names to values, the file system
  test of \<open>system_ca_bundle\<close> a predicate on paths, and \<open>KARU_VERSION_STRING\<close>, which the build defines, a
  parameter. Null C strings are \<^const>\<open>None\<close>. The code for Linux is modelled; releasing a provider's user
  data is not.
  The lemmas show what every builder keeps, which layer answers a lookup, that a frozen snapshot has
  options within their documented bounds, and that equal scope keys mean equal options.
\<close>

section \<open>Text\<close>

definition ascii_upper :: "char \<Rightarrow> char" where
  "ascii_upper c =
     (if 97 \<le> (of_char c :: nat) \<and> (of_char c :: nat) \<le> 122 then char_of ((of_char c :: nat) - 32) else c)"

definition uppercase :: "string \<Rightarrow> string" where
  "uppercase s = map ascii_upper s"

definition lower_text :: "string \<Rightarrow> string" where
  "lower_text s = map ascii_lower s"

definition is_space :: "char \<Rightarrow> bool" where
  "is_space c \<longleftrightarrow> (of_char c :: nat) = 32 \<or> 9 \<le> (of_char c :: nat) \<and> (of_char c :: nat) \<le> 13"

definition trim_text :: "string \<Rightarrow> string" where
  "trim_text s = rev (dropWhile is_space (rev (dropWhile is_space s)))"

text \<open>Sequencing of fallible steps: the error returns early.\<close>

definition and_then :: "'e + 'a \<Rightarrow> ('a \<Rightarrow> 'e + 'b) \<Rightarrow> 'e + 'b" where
  "and_then x f = (case x of Inl e \<Rightarrow> Inl e | Inr a \<Rightarrow> f a)"

lemma and_then_simps [simp]: "and_then (Inl e) f = Inl e" "and_then (Inr a) f = f a"
  by (simp_all add: and_then_def)

lemma and_then_Inr: "and_then x f = Inr b \<longleftrightarrow> (\<exists>a. x = Inr a \<and> f a = Inr b)"
  by (cases x) auto

definition bounds_message :: "string \<Rightarrow> string \<Rightarrow> string \<Rightarrow> string" where
  "bounds_message name lo hi = name @ '' must be an integer in ['' @ lo @ '', '' @ hi @ '']''"

text \<open>\<open>parse_integer\<close> for a signed type of \<open>w\<close> bits and for the unsigned 64-bit types.\<close>

definition parse_signed :: "nat \<Rightarrow> string \<Rightarrow> string \<Rightarrow> int \<Rightarrow> int \<Rightarrow> string + int" where
  "parse_signed w name text lo hi =
     (case from_chars_signed w text of
        Some (v, rest) \<Rightarrow> (if rest \<noteq> [] \<or> v < lo \<or> hi < v then Inl (bounds_message name (int_string lo) (int_string hi)) else Inr v)
      | None \<Rightarrow> Inl (bounds_message name (int_string lo) (int_string hi)))"

definition parse_unsigned :: "string \<Rightarrow> string \<Rightarrow> u64 \<Rightarrow> u64 \<Rightarrow> string + u64" where
  "parse_unsigned name text lo hi =
     (case parse_whole_u64 text of
        Some v \<Rightarrow> (if v < lo \<or> hi < v then Inl (bounds_message name (u64_string lo) (u64_string hi)) else Inr v)
      | None \<Rightarrow> Inl (bounds_message name (u64_string lo) (u64_string hi)))"

section \<open>Names and paths\<close>

definition CORE :: "string list" where
  "CORE = [''KARU_CONCURRENCY'', ''KARU_IO_THREADS'', ''KARU_COALESCE_GAP'', ''KARU_COALESCE_LIMIT'', ''KARU_COALESCE_PARTS'',
     ''KARU_COALESCE_AMPLIFICATION'', ''KARU_RANGE_FALLBACK_LIMIT'', ''KARU_MAX_ATTEMPTS'', ''KARU_MAX_RETRIES'',
     ''KARU_REQUEST_TIMEOUT'', ''KARU_CONNECT_TIMEOUT'', ''KARU_LOW_SPEED_TIME'', ''KARU_LOW_SPEED_LIMIT'']"

definition S3_OPTIONS :: "string list" where
  "S3_OPTIONS = [''AWS_NO_SIGN_REQUEST'', ''AWS_ACCESS_KEY_ID'', ''AWS_SECRET_ACCESS_KEY'', ''AWS_SESSION_TOKEN'', ''AWS_REGION'',
     ''AWS_DEFAULT_REGION'', ''AWS_PROFILE'', ''AWS_DEFAULT_PROFILE'', ''AWS_SHARED_CREDENTIALS_FILE'', ''AWS_CONFIG_FILE'',
     ''AWS_S3_ENDPOINT'', ''AWS_ENDPOINT_URL_S3'', ''AWS_ENDPOINT_URL'', ''AWS_HTTPS'', ''AWS_VIRTUAL_HOSTING'',
     ''AWS_REQUEST_PAYER'', ''AWS_ROLE_ARN'', ''AWS_STS_ENDPOINT'', ''AWS_WEB_IDENTITY_TOKEN_FILE'', ''AWS_ROLE_SESSION_NAME'',
     ''AWS_CONTAINER_CREDENTIALS_RELATIVE_URI'', ''AWS_CONTAINER_CREDENTIALS_FULL_URI'', ''AWS_CONTAINER_AUTHORIZATION_TOKEN'',
     ''AWS_CONTAINER_AUTHORIZATION_TOKEN_FILE'', ''AWS_EC2_METADATA_DISABLED'', ''AWS_METADATA_SERVICE_TIMEOUT'']"

definition GCS_OPTIONS :: "string list" where
  "GCS_OPTIONS = [''GCS_NO_SIGN_REQUEST'', ''GCS_HMAC_ACCESS_KEY_ID'', ''GCS_HMAC_SECRET_ACCESS_KEY'', ''GCS_ACCESS_TOKEN'',
     ''GCS_REFRESH_TOKEN'', ''GCS_CLIENT_ID'', ''GCS_CLIENT_SECRET'', ''GCS_PRIVATE_KEY'', ''GCS_PRIVATE_KEY_FILE'',
     ''GCS_CLIENT_EMAIL'', ''GCS_SCOPE'', ''GCS_USER_PROJECT'', ''GCS_ENDPOINT'', ''GCS_METADATA_ENDPOINT'',
     ''GCS_METADATA_DISABLED'', ''GOOGLE_APPLICATION_CREDENTIALS'', ''CLOUDSDK_CONFIG'']"

definition AZURE_OPTIONS :: "string list" where
  "AZURE_OPTIONS = [''AZURE_NO_SIGN_REQUEST'', ''AZURE_STORAGE_CONNECTION_STRING'', ''AZURE_STORAGE_ACCOUNT'',
     ''AZURE_STORAGE_ACCESS_KEY'', ''AZURE_STORAGE_SAS_TOKEN'', ''AZURE_STORAGE_ACCESS_TOKEN'', ''AZURE_STORAGE_ENDPOINT'',
     ''AZURE_TENANT_ID'', ''AZURE_CLIENT_ID'', ''AZURE_CLIENT_SECRET'', ''AZURE_FEDERATED_TOKEN_FILE'', ''AZURE_AUTHORITY_HOST'',
     ''AZURE_STORAGE_SCOPE'', ''AZURE_STORAGE_RESOURCE'', ''AZURE_IMDS_OBJECT_ID'', ''AZURE_IMDS_CLIENT_ID'',
     ''AZURE_IMDS_MSI_RES_ID'', ''IDENTITY_ENDPOINT'', ''IDENTITY_HEADER'', ''IMDS_ENDPOINT'']"

definition HUGGING_FACE_OPTIONS :: "string list" where
  "HUGGING_FACE_OPTIONS = [''HF_ENDPOINT'', ''HF_TOKEN'', ''HF_TOKEN_PATH'', ''HF_HOME'', ''HUGGING_FACE_HUB_TOKEN'']"

definition SOURCE_OPTIONS :: "string list" where
  "SOURCE_OPTIONS = [''SOURCE_NO_SIGN_REQUEST'', ''SOURCE_ACCESS_KEY_ID'', ''SOURCE_SECRET_ACCESS_KEY'', ''SOURCE_SESSION_TOKEN'',
     ''SOURCE_PROFILE'', ''SOURCE_SHARED_CREDENTIALS_FILE'', ''SOURCE_CONFIG_FILE'', ''SOURCE_REGION'', ''SOURCE_ENDPOINT'',
     ''SOURCE_PROXY_URL'']"

definition HTTP_OPTIONS :: "string list" where
  "HTTP_OPTIONS = [''KARU_HTTP_HEADERS'', ''KARU_HTTP_VERSION'', ''KARU_HTTP_CA_BUNDLE'', ''CURL_CA_BUNDLE'', ''SSL_CERT_FILE'',
     ''KARU_HTTP_CA_PATH'', ''KARU_HTTP_PROXY'', ''KARU_HTTP_PROXY_CREDENTIALS'', ''KARU_HTTP_USER_AGENT'']"

definition environment_names :: "string list" where
  "environment_names = CORE @ S3_OPTIONS @ GCS_OPTIONS @ AZURE_OPTIONS @ HUGGING_FACE_OPTIONS @ SOURCE_OPTIONS @ HTTP_OPTIONS"

definition canonical_option_name :: "string \<Rightarrow> string" where
  "canonical_option_name name =
     (let result = uppercase name
      in if result = ''AWS_ENDPOINT_URL'' \<or> result = ''AWS_ENDPOINT_URL_S3'' then ''AWS_S3_ENDPOINT''
         else if result = ''AWS_DEFAULT_PROFILE'' then ''AWS_PROFILE''
         else if result = ''AWS_DEFAULT_REGION'' then ''AWS_REGION''
         else if result = ''KARU_MAX_RETRIES'' then ''KARU_MAX_ATTEMPTS''
         else if result = ''HUGGING_FACE_HUB_TOKEN'' then ''HF_TOKEN''
         else if result = ''CURL_CA_BUNDLE'' \<or> result = ''SSL_CERT_FILE'' then ''KARU_HTTP_CA_BUNDLE''
         else if result = ''SOURCE_PROXY_URL'' then ''SOURCE_ENDPOINT''
         else result)"

definition known_option :: "string \<Rightarrow> bool" where
  "known_option canonical \<longleftrightarrow> list_ex (\<lambda>candidate. canonical_option_name candidate = canonical) environment_names"

definition canonical_vsi_path :: "string \<Rightarrow> string" where
  "canonical_vsi_path path =
     (if starts_with ''s3://'' path then ''/vsis3/'' @ drop 5 path
      else if starts_with ''gs://'' path then ''/vsigs/'' @ drop 5 path
      else if starts_with ''az://'' path then ''/vsiaz/'' @ drop 5 path
      else if starts_with ''abfs://'' path then ''/vsiadls/'' @ drop 7 path
      else if starts_with ''hf://'' path then ''/vsihf/'' @ drop 5 path
      else if starts_with ''source://'' path then ''/vsisource/'' @ drop 9 path
      else path)"

definition path_prefix_matches :: "string \<Rightarrow> string \<Rightarrow> bool" where
  "path_prefix_matches path p \<longleftrightarrow>
     starts_with p path \<and> (length path = length p \<or> ends_with ''/'' p \<or> path ! length p = CHR ''/'')"

definition option_is_true :: "string \<Rightarrow> bool" where
  "option_is_true v \<longleftrightarrow>
     map ascii_lower v = ''yes'' \<or> map ascii_lower v = ''true'' \<or> map ascii_lower v = ''on'' \<or> v = ''1''"

definition valid_boolean :: "string \<Rightarrow> bool" where
  "valid_boolean v \<longleftrightarrow> uppercase v \<in> set [''YES'', ''NO'', ''TRUE'', ''FALSE'', ''ON'', ''OFF'', ''1'', ''0'']"

definition valid_http_version :: "string \<Rightarrow> bool" where
  "valid_http_version v \<longleftrightarrow> uppercase v \<in> set [''AUTO'', ''1.1'', ''2'', ''2TLS'', ''2PRIOR_KNOWLEDGE'']"

section \<open>Configured headers\<close>

record configured_header =
  ch_name :: string
  ch_lowercase :: string
  ch_value :: string
  ch_malformed :: bool

definition malformed_header :: configured_header where
  "malformed_header = \<lparr>ch_name = [], ch_lowercase = [], ch_value = [], ch_malformed = True\<rparr>"

definition line_break :: "char \<Rightarrow> bool" where
  "line_break c \<longleftrightarrow> c = CHR 0x0D \<or> c = CHR 0x0A"

lemma header_rest_shorter:
  "input \<noteq> [] \<Longrightarrow> length (dropWhile line_break (dropWhile (\<lambda>c. \<not> line_break c) input)) < length input"
proof (cases input)
  case (Cons c cs)
  have "length (dropWhile line_break (dropWhile (\<lambda>c. \<not> line_break c) cs)) \<le> length cs"
    by (meson le_trans length_dropWhile_le)
  moreover have "length (dropWhile line_break cs) \<le> length cs" by (rule length_dropWhile_le)
  ultimately show ?thesis using Cons by auto
qed simp

text \<open>The loop over the text from \<open>start\<close>; a malformed line ends it.\<close>

function parse_configured_headers :: "string \<Rightarrow> configured_header list" where
  "parse_configured_headers input =
     (if input = [] then []
      else (let line = trim_text (takeWhile (\<lambda>c. \<not> line_break c) input);
                rest = dropWhile line_break (dropWhile (\<lambda>c. \<not> line_break c) input)
            in if line = [] then parse_configured_headers rest
               else case find_char CHR '':'' line of
                      None \<Rightarrow> [malformed_header]
                    | Some colon \<Rightarrow>
                        (if colon = 0 then [malformed_header]
                         else (let name = trim_text (take colon line)
                               in \<lparr>ch_name = name, ch_lowercase = lower_text name, ch_value = trim_text (drop (colon + 1) line),
                                   ch_malformed = False\<rparr> # parse_configured_headers rest))))"
  by pat_completeness auto
termination
  by (relation "measure length") (auto simp: header_rest_shorter)

declare parse_configured_headers.simps [simp del]

section \<open>The builder\<close>

type_synonym option_map = "string \<rightharpoonup> string"

record credential_callback =
  cb_function :: addr
  cb_user_data :: "addr option"
  cb_release :: "addr option"

record path_options =
  po_prefix :: string
  po_values :: option_map

record config_builder =
  cb_environment :: option_map
  cb_explicit :: option_map
  cb_paths :: "path_options list"
  cb_providers :: "int \<rightharpoonup> credential_callback"
  home_directory :: string
  cache_directory :: string
  cb_system_ca_bundle :: string
  discover_default_credentials :: bool

definition CA_CANDIDATES :: "string list" where
  "CA_CANDIDATES = [''/etc/ssl/certs/ca-certificates.crt'', ''/etc/pki/tls/certs/ca-bundle.crt'', ''/etc/ssl/ca-bundle.pem'',
     ''/etc/pki/tls/cacert.pem'', ''/etc/pki/ca-trust/extracted/pem/tls-ca-bundle.pem'', ''/etc/ssl/cert.pem'']"

definition find_system_ca_bundle :: "(string \<Rightarrow> bool) \<Rightarrow> string" where
  "find_system_ca_bundle regular = (case List.find regular CA_CANDIDATES of Some p \<Rightarrow> p | None \<Rightarrow> [])"

definition read_environment :: "(string \<rightharpoonup> string) \<Rightarrow> option_map" where
  "read_environment env =
     foldl (\<lambda>m name. case env name of
              None \<Rightarrow> m
            | Some v \<Rightarrow> (if v = [] \<or> m (canonical_option_name name) \<noteq> None then m else m(canonical_option_name name \<mapsto> v)))
       Map.empty environment_names"

definition empty_builder :: config_builder where
  "empty_builder = \<lparr>cb_environment = Map.empty, cb_explicit = Map.empty, cb_paths = [], cb_providers = Map.empty,
     home_directory = [], cache_directory = [], cb_system_ca_bundle = [], discover_default_credentials = False\<rparr>"

definition new_builder :: "(string \<rightharpoonup> string) \<Rightarrow> (string \<Rightarrow> bool) \<Rightarrow> bool \<Rightarrow> config_builder" where
  "new_builder env regular include_environment =
     (if \<not> include_environment then empty_builder
      else empty_builder\<lparr>discover_default_credentials := True, cb_system_ca_bundle := find_system_ca_bundle regular,
             cb_environment := read_environment env,
             cache_directory := (case env ''XDG_CACHE_HOME'' of Some v \<Rightarrow> v | None \<Rightarrow> []),
             home_directory := (case env ''HOME'' of Some v \<Rightarrow> v | None \<Rightarrow> [])\<rparr>)"

definition unknown_option :: "string \<Rightarrow> string" where
  "unknown_option name = ''unknown Karu option '' @ [quote_char] @ name @ [quote_char]"

definition builder_set :: "string \<Rightarrow> string option \<Rightarrow> config_builder \<Rightarrow> string + config_builder" where
  "builder_set name v b =
     (if name = [] then Inl ''option name is empty''
      else (let canonical = canonical_option_name name
            in if \<not> known_option canonical then Inl (unknown_option name)
               else Inr (b\<lparr>cb_explicit := (cb_explicit b)(canonical := v)\<rparr>)))"

text \<open>The rule with a prefix, made at the end when there is none, gets the value.\<close>

fun put_rule :: "string \<Rightarrow> string \<Rightarrow> string option \<Rightarrow> path_options list \<Rightarrow> path_options list" where
  "put_rule p name v [] = [\<lparr>po_prefix = p, po_values = Map.empty(name := v)\<rparr>]"
| "put_rule p name v (r # rs) =
     (if po_prefix r = p then r\<lparr>po_values := (po_values r)(name := v)\<rparr> # rs else r # put_rule p name v rs)"

definition builder_set_path :: "string \<Rightarrow> string \<Rightarrow> string option \<Rightarrow> config_builder \<Rightarrow> string + config_builder" where
  "builder_set_path p name v b =
     (if p = [] then Inl ''path-specific option has an empty prefix''
      else if name = [] then Inl ''option name is empty''
      else (let canonical_prefix = canonical_vsi_path p; canonical_name = canonical_option_name name
            in if \<not> known_option canonical_name then Inl (unknown_option name)
               else if starts_with ''KARU_'' canonical_name
                 then Inl (canonical_name @ '' is client-wide and cannot be path-specific'')
               else Inr (b\<lparr>cb_paths := put_rule canonical_prefix canonical_name v (cb_paths b)\<rparr>)))"

definition KARU_CREDENTIALS_AWS :: int where "KARU_CREDENTIALS_AWS = 1"

definition KARU_CREDENTIALS_GCS :: int where "KARU_CREDENTIALS_GCS = 2"

definition KARU_CREDENTIALS_AZURE :: int where "KARU_CREDENTIALS_AZURE = 3"

definition KARU_CREDENTIALS_SOURCE :: int where "KARU_CREDENTIALS_SOURCE = 4"

definition builder_set_provider ::
  "int \<Rightarrow> addr option \<Rightarrow> addr option \<Rightarrow> addr option \<Rightarrow> config_builder \<Rightarrow> string + config_builder" where
  "builder_set_provider kind provider user_data release b =
     (if kind < KARU_CREDENTIALS_AWS \<or> KARU_CREDENTIALS_SOURCE < kind then Inl ''unknown credentials kind''
      else case provider of
             None \<Rightarrow> (if user_data \<noteq> None \<or> release \<noteq> None
                       then Inl ''clearing a credentials provider requires null user_data and release''
                       else Inr (b\<lparr>cb_providers := (cb_providers b)(kind := None)\<rparr>))
           | Some f \<Rightarrow> Inr (b\<lparr>cb_providers := (cb_providers b)(kind \<mapsto>
                         \<lparr>cb_function = f, cb_user_data = user_data, cb_release = release\<rparr>)\<rparr>))"

section \<open>Snapshots\<close>

record config_snapshot =
  cs_layers :: config_builder
  cs_client :: client_options
  cs_http :: http_request_options
  cs_headers :: "configured_header list"
  has_configured_headers :: bool

text \<open>The path rule that answers: the longest matching prefix, the first of equally long ones.\<close>

definition candidate :: "string \<Rightarrow> string \<Rightarrow> path_options \<Rightarrow> bool" where
  "candidate path name r \<longleftrightarrow> path_prefix_matches path (po_prefix r) \<and> po_values r name \<noteq> None"

definition better_rule :: "string \<Rightarrow> string \<Rightarrow> path_options option \<Rightarrow> path_options \<Rightarrow> path_options option" where
  "better_rule path name best r =
     (if \<not> candidate path name r then best
      else case best of
             None \<Rightarrow> Some r
           | Some b \<Rightarrow> (if length (po_prefix b) < length (po_prefix r) then Some r else Some b))"

definition best_rule :: "config_builder \<Rightarrow> string \<Rightarrow> string \<Rightarrow> path_options option" where
  "best_rule c path name = foldl (better_rule path name) None (cb_paths c)"

definition config_option :: "config_builder \<Rightarrow> string \<Rightarrow> string \<Rightarrow> string \<Rightarrow> string" where
  "config_option c path name fallback =
     (let n = canonical_option_name name
      in case best_rule c (canonical_vsi_path path) n of
           Some r \<Rightarrow> the (po_values r n)
         | None \<Rightarrow> (case cb_explicit c n of
                      Some v \<Rightarrow> v
                    | None \<Rightarrow> (case cb_environment c n of Some v \<Rightarrow> v | None \<Rightarrow> fallback)))"

definition missing :: string where
  "missing = CHR 0x00 # ''missing''"

definition has_option :: "config_builder \<Rightarrow> string \<Rightarrow> string \<Rightarrow> bool" where
  "has_option c path name \<longleftrightarrow> config_option c path name missing \<noteq> missing"

definition snapshot_provider :: "config_builder \<Rightarrow> int \<Rightarrow> credential_callback option" where
  "snapshot_provider c kind = cb_providers c kind"

text \<open>One line of a scope key: the option and the layer or the prefix that supplies it.\<close>

definition supplier :: "config_builder \<Rightarrow> string \<Rightarrow> string \<Rightarrow> string" where
  "supplier c path n =
     (case best_rule c path n of
        Some r \<Rightarrow> po_prefix r
      | None \<Rightarrow> (if cb_explicit c n \<noteq> None then ''explicit''
                 else if cb_environment c n \<noteq> None then ''environment'' else ''default''))"

definition scope_line :: "config_builder \<Rightarrow> string \<Rightarrow> string \<Rightarrow> string" where
  "scope_line c path raw_name = (let n = canonical_option_name raw_name in n @ ''='' @ supplier c path n @ [CHR 0x0A])"

definition scope_key :: "config_builder \<Rightarrow> string \<Rightarrow> string list \<Rightarrow> string" where
  "scope_key c path option_names = concat (map (scope_line c (canonical_vsi_path path)) option_names)"

definition expand_user_path :: "config_builder \<Rightarrow> string \<Rightarrow> string" where
  "expand_user_path c path =
     (if home_directory c = [] then path
      else if path = ''~'' then home_directory c
      else if \<not> starts_with ''~/'' path \<and> \<not> starts_with [CHR ''~'', CHR 0x5C] path then path
      else home_directory c @ drop 1 path)"

definition append_local_path :: "string \<Rightarrow> string \<Rightarrow> string" where
  "append_local_path base tail =
     (if base \<noteq> [] \<and> last base \<noteq> CHR ''/'' \<and> last base \<noteq> CHR 0x5C then base @ ''/'' @ tail else base @ tail)"

definition default_aws_path :: "config_builder \<Rightarrow> string \<Rightarrow> string" where
  "default_aws_path c tail = (if home_directory c = [] then [] else home_directory c @ ''/.aws/'' @ tail)"

definition default_gcloud_adc_path :: "config_builder \<Rightarrow> string" where
  "default_gcloud_adc_path c =
     (if home_directory c = [] then [] else home_directory c @ ''/.config/gcloud/application_default_credentials.json'')"

definition hugging_face_token_path :: "config_builder \<Rightarrow> string \<Rightarrow> string" where
  "hugging_face_token_path c path =
     (let configured = config_option c path ''HF_TOKEN_PATH'' []; home = config_option c path ''HF_HOME'' []
      in if configured \<noteq> [] then expand_user_path c configured
         else if home \<noteq> [] then append_local_path (expand_user_path c home) ''token''
         else if \<not> discover_default_credentials c then []
         else if cache_directory c \<noteq> [] then append_local_path (expand_user_path c (cache_directory c)) ''huggingface/token''
         else if home_directory c = [] then []
         else home_directory c @ ''/.cache/huggingface/token'')"

section \<open>Freezing\<close>

definition BOOLEAN_OPTIONS :: "string list" where
  "BOOLEAN_OPTIONS = [''AWS_NO_SIGN_REQUEST'', ''AWS_HTTPS'', ''AWS_VIRTUAL_HOSTING'', ''AWS_EC2_METADATA_DISABLED'',
     ''GCS_NO_SIGN_REQUEST'', ''GCS_METADATA_DISABLED'', ''AZURE_NO_SIGN_REQUEST'', ''SOURCE_NO_SIGN_REQUEST'']"

definition invalid_boolean :: "option_map \<Rightarrow> string \<Rightarrow> bool" where
  "invalid_boolean m name \<longleftrightarrow> (case m name of Some v \<Rightarrow> \<not> valid_boolean v | None \<Rightarrow> False)"

definition validate_values :: "option_map \<Rightarrow> string + unit" where
  "validate_values m =
     (case List.find (invalid_boolean m) BOOLEAN_OPTIONS of
        Some name \<Rightarrow> Inl (name @ '' must be YES/NO, TRUE/FALSE, ON/OFF, or 1/0'')
      | None \<Rightarrow>
          and_then (case m ''AWS_METADATA_SERVICE_TIMEOUT'' of
                      None \<Rightarrow> Inr 0 | Some v \<Rightarrow> parse_signed 64 ''AWS_METADATA_SERVICE_TIMEOUT'' v 1 60) (\<lambda>_.
          (if (case m ''AWS_REQUEST_PAYER'' of Some v \<Rightarrow> uppercase v \<noteq> ''REQUESTER'' | None \<Rightarrow> False)
           then Inl (''AWS_REQUEST_PAYER must be '' @ [quote_char] @ ''requester'' @ [quote_char])
           else if (case m ''KARU_HTTP_VERSION'' of Some v \<Rightarrow> \<not> valid_http_version v | None \<Rightarrow> False)
           then Inl ''KARU_HTTP_VERSION must be AUTO, 1.1, 2TLS, 2, or 2PRIOR_KNOWLEDGE''
           else Inr ())))"

fun validate_rules :: "path_options list \<Rightarrow> string + unit" where
  "validate_rules [] = Inr ()"
| "validate_rules (r # rs) =
     (case validate_values (po_values r) of Inl e \<Rightarrow> Inl (po_prefix r @ '': '' @ e) | Inr _ \<Rightarrow> validate_rules rs)"

definition parse_client_options :: "(string \<Rightarrow> string \<Rightarrow> string) \<Rightarrow> string + client_options" where
  "parse_client_options global =
     and_then (parse_signed 32 ''KARU_CONCURRENCY'' (global ''KARU_CONCURRENCY'' ''64'') 1 4096) (\<lambda>conc.
     and_then (parse_signed 32 ''KARU_IO_THREADS'' (global ''KARU_IO_THREADS'' ''4'') 1 64) (\<lambda>threads.
     and_then (parse_unsigned ''KARU_COALESCE_GAP'' (global ''KARU_COALESCE_GAP'' ''1048576'') 0 u64_max) (\<lambda>gap.
     and_then (parse_unsigned ''KARU_COALESCE_LIMIT'' (global ''KARU_COALESCE_LIMIT'' ''67108864'') 1 u64_max) (\<lambda>limit.
     and_then (parse_unsigned ''KARU_COALESCE_PARTS'' (global ''KARU_COALESCE_PARTS'' ''1024'') 1 1048576) (\<lambda>parts.
     and_then (parse_unsigned ''KARU_COALESCE_AMPLIFICATION'' (global ''KARU_COALESCE_AMPLIFICATION'' ''16'') 1 1048576) (\<lambda>amp.
     and_then (parse_unsigned ''KARU_RANGE_FALLBACK_LIMIT'' (global ''KARU_RANGE_FALLBACK_LIMIT'' ''8388608'') 0 u64_max) (\<lambda>fallback.
     and_then (parse_signed 32 ''KARU_MAX_ATTEMPTS'' (global ''KARU_MAX_ATTEMPTS'' ''8'') 1 16) (\<lambda>attempts.
     and_then (parse_signed 64 ''KARU_REQUEST_TIMEOUT'' (global ''KARU_REQUEST_TIMEOUT'' ''120'') 0 86400) (\<lambda>timeout.
     and_then (parse_signed 64 ''KARU_CONNECT_TIMEOUT'' (global ''KARU_CONNECT_TIMEOUT'' ''30'') 1 3600) (\<lambda>connect.
     and_then (parse_signed 64 ''KARU_LOW_SPEED_TIME'' (global ''KARU_LOW_SPEED_TIME'' ''60'') 0 3600) (\<lambda>low_time.
     and_then (parse_signed 64 ''KARU_LOW_SPEED_LIMIT'' (global ''KARU_LOW_SPEED_LIMIT'' ''1024'') 0 (2 ^ 63 - 1)) (\<lambda>low_limit.
       Inr \<lparr>concurrency = conc, io_threads = threads, coalesce_gap = gap, coalesce_limit = limit, coalesce_parts = parts,
            coalesce_amplification = amp, range_fallback_limit = fallback, max_attempts = attempts,
            request_timeout_seconds = timeout, connect_timeout_seconds = connect, low_speed_time_seconds = low_time,
            low_speed_limit = low_limit\<rparr>))))))))))))"

definition compute_http_options :: "string \<Rightarrow> config_builder \<Rightarrow> http_request_options" where
  "compute_http_options version_string c =
     (let version = uppercase (config_option c [] ''KARU_HTTP_VERSION'' ''1.1'');
          found = \<not> has_option c [] ''KARU_HTTP_CA_BUNDLE'' \<and> \<not> has_option c [] ''KARU_HTTP_CA_PATH''
      in default_http_request_options
           \<lparr>ho_version := (if version = ''AUTO'' then Automatic
                          else if version = ''2'' \<or> version = ''2TLS'' then Http2Tls
                          else if version = ''2PRIOR_KNOWLEDGE'' then Http2PriorKnowledge else Http1_1),
            ca_bundle := (if found then cb_system_ca_bundle c else config_option c [] ''KARU_HTTP_CA_BUNDLE'' []),
            system_ca_bundle := (found \<and> cb_system_ca_bundle c \<noteq> []),
            ca_path := config_option c [] ''KARU_HTTP_CA_PATH'' [],
            proxy := config_option c [] ''KARU_HTTP_PROXY'' [],
            proxy_user_password := config_option c [] ''KARU_HTTP_PROXY_CREDENTIALS'' [],
            user_agent := config_option c [] ''KARU_HTTP_USER_AGENT'' (''karu/'' @ version_string)\<rparr>)"

definition freeze :: "string \<Rightarrow> config_builder \<Rightarrow> string + config_snapshot" where
  "freeze version_string b =
     and_then (validate_values (cb_environment b)) (\<lambda>_.
     and_then (validate_values (cb_explicit b)) (\<lambda>_.
     and_then (validate_rules (cb_paths b)) (\<lambda>_.
     and_then (parse_client_options (config_option b [])) (\<lambda>client.
       (let headers = config_option b [] ''KARU_HTTP_HEADERS'' []
        in Inr \<lparr>cs_layers = b, cs_client = client, cs_http = compute_http_options version_string b,
                cs_headers = parse_configured_headers headers, has_configured_headers = (headers \<noteq> [])\<rparr>)))))"

section \<open>What every builder keeps\<close>

inductive buildable :: "config_builder \<Rightarrow> bool" where
  started: "buildable (new_builder env regular include_environment)"
| set_option: "buildable b \<Longrightarrow> builder_set name v b = Inr b' \<Longrightarrow> buildable b'"
| set_path_option: "buildable b \<Longrightarrow> builder_set_path p name v b = Inr b' \<Longrightarrow> buildable b'"
| set_credentials: "buildable b \<Longrightarrow> builder_set_provider kind provider user_data release b = Inr b' \<Longrightarrow> buildable b'"

definition path_names :: "option_map \<Rightarrow> bool" where
  "path_names m \<longleftrightarrow> (\<forall>n \<in> dom m. known_option n \<and> \<not> starts_with ''KARU_'' n)"

definition wf_builder :: "config_builder \<Rightarrow> bool" where
  "wf_builder b \<longleftrightarrow> distinct (map po_prefix (cb_paths b)) \<and>
     (\<forall>r \<in> set (cb_paths b). po_prefix r \<noteq> [] \<and> path_names (po_values r)) \<and>
     (\<forall>n \<in> dom (cb_explicit b) \<union> dom (cb_environment b). known_option n)"

lemma path_names_upd: "path_names m \<Longrightarrow> known_option n \<Longrightarrow> \<not> starts_with ''KARU_'' n \<Longrightarrow> path_names (m(n := v))"
  by (cases v) (auto simp: path_names_def)

lemma put_rule_prefixes:
  "map po_prefix (put_rule p n v rs) = (if p \<in> set (map po_prefix rs) then map po_prefix rs else map po_prefix rs @ [p])"
  by (induction rs) auto

lemma put_rule_wf:
  assumes "\<forall>r \<in> set rs. po_prefix r \<noteq> [] \<and> path_names (po_values r)" "p \<noteq> []" "known_option n" "\<not> starts_with ''KARU_'' n"
  shows "\<forall>r \<in> set (put_rule p n v rs). po_prefix r \<noteq> [] \<and> path_names (po_values r)"
proof -
  have "path_names Map.empty" by (simp add: path_names_def)
  with assms show ?thesis by (induction rs) (auto simp del: fun_upd_apply intro: path_names_upd)
qed

lemma canonical_vsi_path_nonempty: "p \<noteq> [] \<Longrightarrow> canonical_vsi_path p \<noteq> []"
  by (auto simp: canonical_vsi_path_def)

lemma environment_known: "n \<in> dom (read_environment env) \<Longrightarrow> known_option n"
proof -
  have "dom (foldl (\<lambda>m name. case env name of
              None \<Rightarrow> m
            | Some v \<Rightarrow> (if v = [] \<or> m (canonical_option_name name) \<noteq> None then m else m(canonical_option_name name \<mapsto> v)))
       m ns) \<subseteq> dom m \<union> canonical_option_name ` set ns" for m ns
  proof (induction ns arbitrary: m)
    case (Cons a ns)
    show ?case by (auto split: option.splits if_splits dest!: Cons [THEN subsetD])
  qed simp
  from this [of Map.empty environment_names] show "n \<in> dom (read_environment env) \<Longrightarrow> known_option n"
    by (auto simp: read_environment_def known_option_def list_ex_iff)
qed

lemma new_builder_wf: "wf_builder (new_builder env regular include_environment)"
  using environment_known [of _ env] by (auto simp: wf_builder_def new_builder_def empty_builder_def)

lemma builder_set_wf: "wf_builder b \<Longrightarrow> builder_set name v b = Inr b' \<Longrightarrow> wf_builder b'"
  by (cases v) (auto simp: builder_set_def wf_builder_def Let_def split: if_splits)

lemma builder_set_path_wf:
  assumes "wf_builder b" "builder_set_path p name v b = Inr b'"
  shows "wf_builder b'"
proof -
  have g: "p \<noteq> []" "known_option (canonical_option_name name)" "\<not> starts_with ''KARU_'' (canonical_option_name name)"
    "b' = b\<lparr>cb_paths := put_rule (canonical_vsi_path p) (canonical_option_name name) v (cb_paths b)\<rparr>"
    using assms(2) by (auto simp: builder_set_path_def Let_def split: if_splits)
  have w: "distinct (map po_prefix (cb_paths b))" "\<forall>r \<in> set (cb_paths b). po_prefix r \<noteq> [] \<and> path_names (po_values r)"
      "\<forall>n \<in> dom (cb_explicit b) \<union> dom (cb_environment b). known_option n"
    using assms(1) by (simp_all add: wf_builder_def)
  have "distinct (map po_prefix (cb_paths b'))" using w(1) by (simp add: g(4) put_rule_prefixes del: set_map)
  moreover have "\<forall>r \<in> set (cb_paths b'). po_prefix r \<noteq> [] \<and> path_names (po_values r)"
    using put_rule_wf [OF w(2) canonical_vsi_path_nonempty [OF g(1)] g(2,3)] by (simp add: g(4))
  ultimately show ?thesis using w(3) by (simp add: wf_builder_def g(4))
qed

lemma builder_set_provider_wf:
  "wf_builder b \<Longrightarrow> builder_set_provider kind provider user_data release b = Inr b' \<Longrightarrow> wf_builder b'"
  by (auto simp: builder_set_provider_def wf_builder_def split: if_splits option.splits)

lemma any_builder_wf: "buildable b \<Longrightarrow> wf_builder b"
  by (induction rule: buildable.induct)
    (blast intro: new_builder_wf builder_set_wf builder_set_path_wf builder_set_provider_wf)+

section \<open>Which layer answers\<close>

lemma better_rule_spec:
  "(case foldl (better_rule path n) b rs of
      None \<Rightarrow> b = None \<and> (\<forall>r \<in> set rs. \<not> candidate path n r)
    | Some r \<Rightarrow> (b = Some r \<or> r \<in> set rs \<and> candidate path n r) \<and>
        (\<forall>r' \<in> set rs. candidate path n r' \<longrightarrow> length (po_prefix r') \<le> length (po_prefix r)) \<and>
        (\<forall>b'. b = Some b' \<longrightarrow> length (po_prefix b') \<le> length (po_prefix r)))"
proof (induction rs arbitrary: b)
  case Nil
  then show ?case by (simp split: option.splits)
next
  case (Cons r rs)
  show ?case using Cons [of "better_rule path n b r"]
    by (auto simp: better_rule_def split: option.splits if_splits)
qed

lemma best_rule_None: "best_rule c path n = None \<longleftrightarrow> (\<forall>r \<in> set (cb_paths c). \<not> candidate path n r)"
  using better_rule_spec [where path = path and n = n and b = None and rs = "cb_paths c"] by (auto simp: best_rule_def split: option.splits)

lemma best_rule_SomeD:
  "best_rule c path n = Some r \<Longrightarrow> r \<in> set (cb_paths c) \<and> candidate path n r \<and>
     (\<forall>r' \<in> set (cb_paths c). candidate path n r' \<longrightarrow> length (po_prefix r') \<le> length (po_prefix r))"
  using better_rule_spec [where path = path and n = n and b = None and rs = "cb_paths c"] by (auto simp: best_rule_def split: option.splits)

text \<open>Rules of a well-formed builder are named by their prefixes.\<close>

lemma same_rule: "wf_builder c \<Longrightarrow> r \<in> set (cb_paths c) \<Longrightarrow> r' \<in> set (cb_paths c) \<Longrightarrow> po_prefix r = po_prefix r' \<Longrightarrow> r = r'"
  by (auto simp: wf_builder_def distinct_map inj_on_def)

text \<open>The most specific rule wins over every other layer.\<close>

lemma longest_prefix_wins:
  assumes "wf_builder c" "r \<in> set (cb_paths c)" "candidate (canonical_vsi_path path) (canonical_option_name name) r"
    "\<forall>r' \<in> set (cb_paths c). candidate (canonical_vsi_path path) (canonical_option_name name) r' \<longrightarrow>
       length (po_prefix r') \<le> length (po_prefix r)"
  shows "Some (config_option c path name fallback) = po_values r (canonical_option_name name)"
proof -
  let ?p = "canonical_vsi_path path" and ?n = "canonical_option_name name"
  obtain r' where r': "best_rule c ?p ?n = Some r'" using assms(2,3) best_rule_None [of c ?p ?n] by auto
  note b = best_rule_SomeD [OF r']
  have "prefix (po_prefix r) ?p" "prefix (po_prefix r') ?p" "length (po_prefix r) = length (po_prefix r')"
    using b assms(2-4) by (auto simp: candidate_def path_prefix_matches_def intro: le_antisym)
  then have "po_prefix r = po_prefix r'" by (metis prefix_length_prefix prefix_order.antisym order_refl)
  then have "r = r'" using same_rule [OF assms(1,2)] b by blast
  then show ?thesis using r' assms(3) by (auto simp: config_option_def Let_def candidate_def)
qed

text \<open>Options of the client are the same for every path.\<close>

lemma client_wide:
  assumes "wf_builder c" "starts_with ''KARU_'' (canonical_option_name name)"
  shows "config_option c path name fallback = config_option c path' name fallback"
proof -
  have "best_rule c p (canonical_option_name name) = None" for p
    using assms by (auto simp: best_rule_None candidate_def wf_builder_def path_names_def)
  then show ?thesis by (simp add: config_option_def)
qed

lemma has_option_iff:
  assumes "\<forall>r \<in> set (cb_paths c). missing \<notin> ran (po_values r)" "missing \<notin> ran (cb_explicit c)" "missing \<notin> ran (cb_environment c)"
  shows "has_option c path name \<longleftrightarrow>
    (let n = canonical_option_name name
     in (\<exists>r \<in> set (cb_paths c). candidate (canonical_vsi_path path) n r) \<or> cb_explicit c n \<noteq> None \<or> cb_environment c n \<noteq> None)"
proof (cases "best_rule c (canonical_vsi_path path) (canonical_option_name name)")
  case None
  then show ?thesis using assms(2,3) best_rule_None [THEN iffD1, OF None]
    by (auto simp: has_option_def config_option_def Let_def ran_def split: option.splits)
next
  case (Some r)
  then show ?thesis using assms(1) best_rule_SomeD [OF Some]
    by (auto simp: has_option_def config_option_def Let_def candidate_def ran_def)
qed

section \<open>Headers of the configuration\<close>

lemma set_trim: "set (trim_text s) \<subseteq> set s"
  unfolding trim_text_def by (auto dest!: set_dropWhileD)

lemma trim_nonempty: "s \<noteq> [] \<Longrightarrow> \<not> is_space (hd s) \<Longrightarrow> trim_text s \<noteq> []"
  by (cases s) (auto simp: trim_text_def dropWhile_eq_Nil_conv)

lemma hd_trim: "trim_text s \<noteq> [] \<Longrightarrow> \<not> is_space (hd (trim_text s))"
proof -
  assume ne: "trim_text s \<noteq> []"
  define t where "t = dropWhile is_space s"
  have "t \<noteq> []" using ne unfolding trim_text_def t_def [symmetric] by auto
  then have h: "\<not> is_space (hd t)" unfolding t_def by (rule hd_dropWhile)
  have "prefix (trim_text s) t"
    unfolding trim_text_def t_def [symmetric] using suffix_dropWhile [of is_space "rev t"]
    by (simp add: suffix_to_prefix)
  with h ne show ?thesis by (auto simp: prefix_def)
qed

lemma parsed_headers_clean:
  "h \<in> set (parse_configured_headers input) \<Longrightarrow> \<not> ch_malformed h \<Longrightarrow>
   ch_name h \<noteq> [] \<and> CHR '':'' \<notin> set (ch_name h) \<and> ch_lowercase h = lower_text (ch_name h) \<and>
   (\<forall>c \<in> set (ch_name h) \<union> set (ch_value h). \<not> line_break c)"
proof (induction input rule: parse_configured_headers.induct)
  case (1 input)
  define line where "line = trim_text (takeWhile (\<lambda>c. \<not> line_break c) input)"
  define rest where "rest = dropWhile line_break (dropWhile (\<lambda>c. \<not> line_break c) input)"
  have ne: "input \<noteq> []" using "1.prems"(1) by (auto simp: parse_configured_headers.simps)
  note IH1 = "1.IH"(1) [OF ne line_def rest_def] and IH2 = "1.IH"(2) [OF ne line_def rest_def]
  have clean: "\<forall>c \<in> set line. \<not> line_break c" 
    using set_trim [of "takeWhile (\<lambda>c. \<not> line_break c) input"] unfolding line_def by (blast dest: set_takeWhileD)
  have step: "parse_configured_headers input =
      (if line = [] then parse_configured_headers rest
       else case find_char CHR '':'' line of
              None \<Rightarrow> [malformed_header]
            | Some colon \<Rightarrow>
                (if colon = 0 then [malformed_header]
                 else \<lparr>ch_name = trim_text (take colon line), ch_lowercase = lower_text (trim_text (take colon line)),
                       ch_value = trim_text (drop (colon + 1) line), ch_malformed = False\<rparr> # parse_configured_headers rest))"
    using ne by (subst parse_configured_headers.simps) (simp only: line_def rest_def Let_def if_False)
  note h = "1.prems"(1) [unfolded step]
  show ?case
  proof (cases "line = []")
    case True
    then show ?thesis using IH1 "1.prems"(2) h by simp
  next
    case False
    show ?thesis
    proof (cases "find_char CHR '':'' line")
      case None
      then show ?thesis using False "1.prems"(2) h by (simp add: malformed_header_def)
    next
      case (Some colon)
      from Some obtain a b where ab: "line = a @ CHR '':'' # b" "length a = colon" "CHR '':'' \<notin> set a"
        by (rule find_char_SomeE)
      show ?thesis
      proof (cases "colon = 0")
        case True
        then show ?thesis using False Some "1.prems"(2) h by (simp add: malformed_header_def)
      next
        case pos: False
        then have "a \<noteq> []" using ab by auto
        moreover have "\<not> is_space (hd line)" using False hd_trim unfolding line_def by blast
        ultimately have "a \<noteq> []" "\<not> is_space (hd a)" using ab by auto
        then have "trim_text a \<noteq> []" by (rule trim_nonempty)
        moreover have "h = \<lparr>ch_name = trim_text a, ch_lowercase = lower_text (trim_text a), ch_value = trim_text b,
            ch_malformed = False\<rparr> \<or> h \<in> set (parse_configured_headers rest)"
          using False Some pos ab h by auto
        ultimately show ?thesis
          using IH2 [OF False Some pos] "1.prems"(2) clean ab set_trim [of a] set_trim [of b] by auto
      qed
    qed
  qed
qed

section \<open>Bounds of a frozen snapshot\<close>

definition client_ok :: "client_options \<Rightarrow> bool" where
  "client_ok c \<longleftrightarrow>
     1 \<le> concurrency c \<and> concurrency c \<le> 4096 \<and> 1 \<le> io_threads c \<and> io_threads c \<le> 64 \<and>
     1 \<le> coalesce_limit c \<and> 1 \<le> coalesce_parts c \<and> coalesce_parts c \<le> 1048576 \<and>
     1 \<le> coalesce_amplification c \<and> coalesce_amplification c \<le> 1048576 \<and>
     1 \<le> max_attempts c \<and> max_attempts c \<le> 16 \<and>
     0 \<le> request_timeout_seconds c \<and> request_timeout_seconds c \<le> 86400 \<and>
     1 \<le> connect_timeout_seconds c \<and> connect_timeout_seconds c \<le> 3600 \<and>
     0 \<le> low_speed_time_seconds c \<and> low_speed_time_seconds c \<le> 3600 \<and>
     0 \<le> low_speed_limit c \<and> low_speed_limit c < 2 ^ 63"

lemma parse_signed_InrD: "parse_signed w name input lo hi = Inr v \<Longrightarrow> lo \<le> v \<and> v \<le> hi"
  by (auto simp: parse_signed_def split: option.splits if_splits)

lemma parse_unsigned_InrD: "parse_unsigned name input lo hi = Inr v \<Longrightarrow> lo \<le> v \<and> v \<le> hi"
  by (auto simp: parse_unsigned_def split: option.splits if_splits)

lemma parse_client_options_ok: "parse_client_options global = Inr c \<Longrightarrow> client_ok c"
  unfolding parse_client_options_def and_then_Inr client_ok_def
  by (elim exE conjE) (auto dest!: parse_signed_InrD parse_unsigned_InrD)

text \<open>C35. A configuration that freezes has every numeric client option within its documented bounds:
  at least one and at most 4096 transfers, 1 to 64 loops, 1 to 16 attempts, positive coalescing limits
  and time-outs within a day, whatever the environment, the explicit options and the path rules say.\<close>

theorem frozen_options_bounded:
  assumes "freeze version_string b = Inr s"
  shows "client_ok (cs_client s)"
  using assms unfolding freeze_def Let_def and_then_Inr by (auto intro: parse_client_options_ok)

text \<open>The textual defaults are the defaults of \<open>ClientOptions\<close>.\<close>

lemma freeze_defaults:
  "freeze version_string empty_builder =
     Inr \<lparr>cs_layers = empty_builder, cs_client = default_client_options,
          cs_http = default_http_request_options\<lparr>user_agent := ''karu/'' @ version_string\<rparr>, cs_headers = [],
          has_configured_headers = False\<rparr>"
proof -
  have o: "config_option empty_builder [] n d = d" for n d
    by (simp add: config_option_def best_rule_def empty_builder_def)
  have v: "validate_values Map.empty = Inr ()"
    by (simp add: validate_values_def invalid_boolean_def BOOLEAN_OPTIONS_def)
  have c: "parse_client_options (config_option empty_builder []) = Inr default_client_options"
    unfolding o [abs_def] by code_simp
  have h: "parse_configured_headers [] = []" by (subst parse_configured_headers.simps) simp
  have "uppercase ''1.1'' = ''1.1''" by code_simp
  then have "compute_http_options version_string empty_builder = default_http_request_options\<lparr>user_agent := ''karu/'' @ version_string\<rparr>"
    unfolding compute_http_options_def o has_option_def Let_def
    by (simp add: empty_builder_def default_http_request_options_def)
  moreover have "validate_values (cb_environment empty_builder) = Inr ()" "validate_values (cb_explicit empty_builder) = Inr ()"
      "validate_rules (cb_paths empty_builder) = Inr ()"
    by (simp_all add: empty_builder_def v)
  ultimately show ?thesis unfolding freeze_def c o Let_def h by simp
qed

theorem frozen_options_bounded_witness:
  "client_ok (cs_client (projr (freeze ''0.4.0'' empty_builder))) \<and>
   max_attempts (cs_client (projr (freeze ''0.4.0'' empty_builder))) = 8"
proof
  show "client_ok (cs_client (projr (freeze ''0.4.0'' empty_builder)))"
    by (rule frozen_options_bounded [where version_string = "''0.4.0''" and b = empty_builder]) (simp add: freeze_defaults)
  show "max_attempts (cs_client (projr (freeze ''0.4.0'' empty_builder))) = 8"
    by (simp add: freeze_defaults default_client_options_def)
qed

section \<open>Scope keys\<close>

lemma line_cancel:
  "c \<notin> set x \<Longrightarrow> c \<notin> set y \<Longrightarrow> x @ c # u = y @ c # v \<Longrightarrow> x = y \<and> u = v"
  by (induction x arbitrary: y) (case_tac y; auto)+

text \<open>Every line of the key can be read back.\<close>

lemma scope_key_lines:
  assumes "\<And>n. CHR 0x0A \<notin> set (supplier c (canonical_vsi_path p) n)" "\<And>n. CHR 0x0A \<notin> set (supplier c (canonical_vsi_path q) n)"
    "scope_key c p ns = scope_key c q ns" "n \<in> set ns"
  shows "supplier c (canonical_vsi_path p) (canonical_option_name n) = supplier c (canonical_vsi_path q) (canonical_option_name n)"
  using assms(3,4)
proof (induction ns)
  case (Cons m ns)
  let ?p = "supplier c (canonical_vsi_path p) (canonical_option_name m)"
    and ?q = "supplier c (canonical_vsi_path q) (canonical_option_name m)"
  have "?p @ CHR 0x0A # scope_key c p ns = ?q @ CHR 0x0A # scope_key c q ns"
    using Cons.prems(1) by (simp add: scope_key_def scope_line_def Let_def)
  then have "?p = ?q \<and> scope_key c p ns = scope_key c q ns" by (rule line_cancel [OF assms(1,2)])
  then show ?case using Cons by auto
qed simp

lemma supplier_rule:
  assumes "best_rule c path n = Some r" "starts_with ''/'' path" "wf_builder c"
  shows "\<exists>t. po_prefix r = CHR ''/'' # t"
proof -
  have "prefix (po_prefix r) path" "po_prefix r \<noteq> []"
    using best_rule_SomeD [OF assms(1)] assms(3) by (auto simp: candidate_def path_prefix_matches_def wf_builder_def)
  then show ?thesis using assms(2) by (cases "po_prefix r") (auto simp: prefix_def)
qed

lemma supplier_determines:
  assumes w: "wf_builder c" and p: "starts_with ''/'' p" and q: "starts_with ''/'' q" and eq: "supplier c p n = supplier c q n"
  shows "best_rule c p n = best_rule c q n"
proof -
  have layer: "best_rule c x n = None \<or> best_rule c y n \<noteq> None"
    if "starts_with ''/'' x" "starts_with ''/'' y" "supplier c x n = supplier c y n" for x y
  proof (rule ccontr)
    assume "\<not> ?thesis"
    then obtain r where r: "best_rule c x n = Some r" "best_rule c y n = None" by auto
    then show False using supplier_rule [OF r(1) that(1) w] that(3) by (auto simp: supplier_def split: if_splits)
  qed
  show ?thesis
  proof (cases "best_rule c p n")
    case None
    then show ?thesis using layer [OF q p eq [symmetric]] by simp
  next
    case (Some r)
    then obtain r' where r': "best_rule c q n = Some r'" using layer [OF p q eq] by auto
    then have "po_prefix r = po_prefix r'" using eq Some by (simp add: supplier_def)
    then show ?thesis using same_rule [OF w] best_rule_SomeD [OF Some] best_rule_SomeD [OF r'] Some r' by auto
  qed
qed

lemma supplier_one_line:
  assumes "\<forall>r \<in> set (cb_paths c). CHR 0x0A \<notin> set (po_prefix r)"
  shows "CHR 0x0A \<notin> set (supplier c path n)"
  using assms best_rule_SomeD [of c path n] by (auto simp: supplier_def split: option.splits)

text \<open>C36. The credential cache keys its entries by \<open>scope_key\<close>, which names the layer that supplies each
  option and no secret. For any builder the API can make whose path prefixes have no line feed, two cloud
  paths with the same key get the same value for every option of the key: sharing the cached credentials
  never crosses configuration scopes. Prefixes with a line feed, which \<open>set_path\<close> accepts, are excluded because
  the claim fails for them: see \<open>scope_key_line_feed_clash\<close> below.\<close>

theorem scope_key_sound:
  assumes "buildable c" "\<forall>r \<in> set (cb_paths c). CHR 0x0A \<notin> set (po_prefix r)"
    "starts_with ''/'' (canonical_vsi_path p)" "starts_with ''/'' (canonical_vsi_path q)"
    "scope_key c p ns = scope_key c q ns" "name \<in> set ns"
  shows "config_option c p name fallback = config_option c q name fallback"
proof -
  have "supplier c (canonical_vsi_path p) (canonical_option_name name) = supplier c (canonical_vsi_path q) (canonical_option_name name)"
    by (rule scope_key_lines [OF supplier_one_line supplier_one_line]) (use assms in auto)
  then have "best_rule c (canonical_vsi_path p) (canonical_option_name name) = best_rule c (canonical_vsi_path q) (canonical_option_name name)"
    by (rule supplier_determines [OF any_builder_wf [OF assms(1)] assms(3,4)])
  then show ?thesis by (simp add: config_option_def)
qed

text \<open>Two objects of one bucket with a rule of its own, and an object of another bucket.\<close>

definition sample_builder :: config_builder where
  "sample_builder = empty_builder\<lparr>cb_paths := [\<lparr>po_prefix = ''/vsis3/a'', po_values = Map.empty(''AWS_REGION'' := Some ''eu'')\<rparr>]\<rparr>"

lemma sample_builder_built: "buildable sample_builder"
proof (rule buildable.set_path_option [where b = empty_builder])
  have names: "canonical_option_name ''aws_default_region'' = ''AWS_REGION''" "known_option ''AWS_REGION''"
      "canonical_vsi_path ''s3://a'' = ''/vsis3/a''"
    by code_simp+
  show "buildable empty_builder" using buildable.started [of Map.empty "\<lambda>_. False" False] by (simp add: new_builder_def)
  show "builder_set_path ''s3://a'' ''aws_default_region'' (Some ''eu'') empty_builder = Inr sample_builder"
    using names by (simp add: builder_set_path_def sample_builder_def empty_builder_def)
qed

theorem scope_key_sound_witness:
  "config_option sample_builder ''s3://a/x'' ''AWS_REGION'' [] = config_option sample_builder ''/vsis3/a/y'' ''AWS_REGION'' [] \<and>
   scope_key sample_builder ''s3://a/x'' [''AWS_REGION''] \<noteq> scope_key sample_builder ''s3://b/x'' [''AWS_REGION'']"
proof
  show "config_option sample_builder ''s3://a/x'' ''AWS_REGION'' [] = config_option sample_builder ''/vsis3/a/y'' ''AWS_REGION'' []"
    by (rule scope_key_sound [OF sample_builder_built, where ns = "[''AWS_REGION'']"]) (simp add: sample_builder_def, code_simp+)
  show "scope_key sample_builder ''s3://a/x'' [''AWS_REGION''] \<noteq> scope_key sample_builder ''s3://b/x'' [''AWS_REGION'']"
    by code_simp
qed

text \<open>
  Without the condition on line feeds the key does not tell scopes apart: \<open>set_path\<close> accepts a prefix that holds
  the end of one line of the key and the start of the next, and then two objects share a key, and so their
  cached credentials, while an option of the key has different values for them.
\<close>

definition clash_builder :: "string + config_builder" where
  "clash_builder =
     (case builder_set_path ''/vsis3/v/'' ''AWS_REGION'' (Some ''eu'') empty_builder of
        Inl e \<Rightarrow> Inl e
      | Inr b1 \<Rightarrow>
          (case builder_set_path (''/vsis3/v/'' @ [CHR 0x0A] @ ''AWS_PROFILE=/vsis3/v/'') ''AWS_REGION'' (Some ''us'') b1 of
             Inl e \<Rightarrow> Inl e
           | Inr b2 \<Rightarrow> builder_set_path (''/vsis3/v/'' @ [CHR 0x0A] @ ''AWS_PROFILE=default'') ''AWS_PROFILE'' (Some ''p'') b2))"

lemma clash_builder_built: "clash_builder = Inr b \<Longrightarrow> buildable b"
proof -
  assume "clash_builder = Inr b"
  then obtain b1 b2 where b: "builder_set_path ''/vsis3/v/'' ''AWS_REGION'' (Some ''eu'') empty_builder = Inr b1"
    "builder_set_path (''/vsis3/v/'' @ [CHR 0x0A] @ ''AWS_PROFILE=/vsis3/v/'') ''AWS_REGION'' (Some ''us'') b1 = Inr b2"
    "builder_set_path (''/vsis3/v/'' @ [CHR 0x0A] @ ''AWS_PROFILE=default'') ''AWS_PROFILE'' (Some ''p'') b2 = Inr b"
    unfolding clash_builder_def by (auto split: sum.splits)
  have "buildable empty_builder" using buildable.started [of Map.empty "\<lambda>_. False" False] by (simp add: new_builder_def)
  then have "buildable b1" using b(1) by (rule buildable.set_path_option)
  then have "buildable b2" using b(2) by (rule buildable.set_path_option)
  then show "buildable b" using b(3) by (rule buildable.set_path_option)
qed

lemma scope_key_line_feed_clash:
  "case clash_builder of
     Inr b \<Rightarrow>
       scope_key b (''/vsis3/v/'' @ [CHR 0x0A] @ ''AWS_PROFILE=/vsis3/v/x'') [''AWS_REGION'', ''AWS_PROFILE''] =
       scope_key b (''/vsis3/v/'' @ [CHR 0x0A] @ ''AWS_PROFILE=default'') [''AWS_REGION'', ''AWS_PROFILE''] \<and>
       config_option b (''/vsis3/v/'' @ [CHR 0x0A] @ ''AWS_PROFILE=/vsis3/v/x'') ''AWS_REGION'' [] = ''us'' \<and>
       config_option b (''/vsis3/v/'' @ [CHR 0x0A] @ ''AWS_PROFILE=default'') ''AWS_REGION'' [] = ''eu''
   | Inl _ \<Rightarrow> False"
  by code_simp

end
