(* ===== verification/Karu_Credential_Cache.thy ===== *)
theory Karu_Credential_Cache
  imports Karu_Config "HOL-Library.AList"
begin

text \<open>
  The credential cache, \<open>src/src/credential_cache.cpp\<close>: when cached credentials may be used again, the
  flights that let concurrent callers share one load, and invalidation. The mutex makes each critical
  section atomic; a call is its first section, the load outside the mutex, and its last section. The
  clock readings and what the provider did are arguments. A \<open>shared_ptr<Flight>\<close> is an index into the
  table of all flights ever made; the table of entries is an association list whose order has no meaning.
  Times are seconds; 64-bit overflow of a clock reading and running out of memory while an error text is built are
  out of scope.
\<close>

section \<open>Loading\<close>

type_synonym 'a request_result = "request_error + 'a"

definition credential_error :: "string \<Rightarrow> request_error" where
  "credential_error m = \<lparr>re_status = KARU_ERR_CREDENTIALS, re_message = m\<rparr>"

datatype 'a load_outcome = Returned 'a | Bad_Alloc | Std_Exception string | Unknown_Exception

primrec load_credentials :: "provider_credentials request_result load_outcome \<Rightarrow> provider_credentials request_result" where
  "load_credentials (Returned r) = r"
| "load_credentials Bad_Alloc = Inl \<lparr>re_status = KARU_ERR_NOMEM, re_message = ''out of memory loading credentials''\<rparr>"
| "load_credentials (Std_Exception w) = Inl (credential_error (''credential provider: '' @ w))"
| "load_credentials Unknown_Exception = Inl (credential_error ''credential provider raised an unknown exception'')"

text \<open>The value of the callback must cover the path it was asked for.\<close>

definition scoped_credentials :: "string \<Rightarrow> provider_credentials request_result \<Rightarrow> provider_credentials request_result" where
  "scoped_credentials path r =
     (case r of
        Inl e \<Rightarrow> Inl e
      | Inr v \<Rightarrow>
          (if cache_prefix v = [] then Inr v
           else (let v' = v\<lparr>cache_prefix := canonical_vsi_path (cache_prefix v)\<rparr>
                 in if path_prefix_matches path (cache_prefix v') then Inr v'
                    else Inl (credential_error ''custom credential cache_prefix does not contain the requested path''))))"

definition load_custom :: "string \<Rightarrow> provider_credentials request_result load_outcome \<Rightarrow> provider_credentials request_result" where
  "load_custom path w = (case w of Returned r \<Rightarrow> scoped_credentials path r | _ \<Rightarrow> load_credentials w)"

definition refuse_expired :: "string \<Rightarrow> int \<Rightarrow> provider_credentials request_result \<Rightarrow> provider_credentials request_result" where
  "refuse_expired m loaded_at r =
     (case r of
        Inr v \<Rightarrow> (if expires_at v \<noteq> 0 \<and> expires_at v \<le> loaded_at then Inl (credential_error m) else r)
      | Inl _ \<Rightarrow> r)"

section \<open>Entries\<close>

definition kStaticCredentialTtlSeconds :: int where
  "kStaticCredentialTtlSeconds = 60"

record cache_entry =
  ce_credentials :: provider_credentials
  ce_refresh_at :: int

definition refresh_time :: "provider_credentials \<Rightarrow> int \<Rightarrow> bool \<Rightarrow> int" where
  "refresh_time v now refresh_static =
     (if expires_at v = 0 then (if refresh_static then now + kStaticCredentialTtlSeconds else 2 ^ 63 - 1)
      else if expires_at v \<le> now then now
      else (let lifetime = expires_at v - now; margin = max 1 (min 60 (lifetime div 10))
            in max (now + 1) (expires_at v - margin)))"

definition reusable :: "cache_entry \<Rightarrow> int \<Rightarrow> bool" where
  "reusable e now \<longleftrightarrow>
     now < ce_refresh_at e \<and> (expires_at (ce_credentials e) = 0 \<or> now < expires_at (ce_credentials e))"

section \<open>Keys\<close>

definition credential_family :: "string \<Rightarrow> int \<Rightarrow> string" where
  "credential_family source kind = source @ [CHR 0x0A] @ int_string kind @ [CHR 0x0A]"

definition credential_key :: "string \<Rightarrow> string \<Rightarrow> string" where
  "credential_key family scope = family @ scope"

text \<open>What the cache uses of a \<open>CloudProvider\<close>.\<close>

record cloud_provider =
  cp_kind :: int
  no_sign_option :: string
  anonymous_by_default :: bool
  credential_options :: "string list"

definition native_credential_key :: "config_builder \<Rightarrow> cloud_provider \<Rightarrow> string \<Rightarrow> string" where
  "native_credential_key c provider path =
     credential_key (credential_family ''native'' (cp_kind provider)) (scope_key c path (credential_options provider))"

section \<open>The cache\<close>

record flight =
  fl_done :: bool
  fl_invalidated :: bool
  fl_result :: "provider_credentials request_result option"

definition new_flight :: flight where
  "new_flight = \<lparr>fl_done = False, fl_invalidated = False, fl_result = None\<rparr>"

record credential_cache =
  cc_entries :: "(string \<times> cache_entry) list"
  cc_flights :: "string \<rightharpoonup> nat"
  cc_table :: "flight list"

definition empty_cache :: credential_cache where
  "empty_cache = \<lparr>cc_entries = [], cc_flights = Map.empty, cc_table = []\<rparr>"

text \<open>How the first section ends: with cached credentials, with a flight to wait for, or with one to fly.\<close>

datatype begun = Found provider_credentials | Joined nat | Started nat

definition join_or_start :: "string \<Rightarrow> credential_cache \<Rightarrow> begun \<times> credential_cache" where
  "join_or_start key c =
     (case cc_flights c key of
        Some f \<Rightarrow> (Joined f, c)
      | None \<Rightarrow> (Started (length (cc_table c)),
                 c\<lparr>cc_flights := (cc_flights c)(key \<mapsto> length (cc_table c)), cc_table := cc_table c @ [new_flight]\<rparr>))"

definition begin_native :: "string \<Rightarrow> int \<Rightarrow> credential_cache \<Rightarrow> begun \<times> credential_cache" where
  "begin_native key checked_at c =
     (case map_of (cc_entries c) key of
        Some e \<Rightarrow> (if reusable e checked_at then (Found (ce_credentials e), c) else join_or_start key c)
      | None \<Rightarrow> join_or_start key c)"

text \<open>\<open>find_reusable\<close>: of the current entries that cover the path, the one with the longest prefix.\<close>

definition covers :: "string \<Rightarrow> string \<Rightarrow> string \<times> cache_entry \<Rightarrow> bool" where
  "covers family path ke \<longleftrightarrow>
     starts_with family (fst ke) \<and> path_prefix_matches path (cache_prefix (ce_credentials (snd ke)))"

definition better_entry ::
  "string \<Rightarrow> string \<Rightarrow> int \<Rightarrow> cache_entry option \<Rightarrow> string \<times> cache_entry \<Rightarrow> cache_entry option" where
  "better_entry family path now best ke =
     (if covers family path ke \<and> reusable (snd ke) now \<and>
         (case best of None \<Rightarrow> True
          | Some b \<Rightarrow> length (cache_prefix (ce_credentials b)) < length (cache_prefix (ce_credentials (snd ke))))
      then Some (snd ke) else best)"

definition find_reusable :: "string \<Rightarrow> string \<Rightarrow> int \<Rightarrow> (string \<times> cache_entry) list \<Rightarrow> cache_entry option" where
  "find_reusable family path now es = foldl (better_entry family path now) None es"

definition begin_custom :: "string \<Rightarrow> string \<Rightarrow> int \<Rightarrow> credential_cache \<Rightarrow> begun \<times> credential_cache" where
  "begin_custom family path checked_at c =
     (case find_reusable family path checked_at (cc_entries c) of
        Some e \<Rightarrow> (Found (ce_credentials e), c)
      | None \<Rightarrow> join_or_start (credential_key family path) c)"

text \<open>Publishing a result: the entry unless the flight was invalidated or the insertion failed, then the flight.\<close>

definition store_entry :: "bool \<Rightarrow> nat \<Rightarrow> string \<Rightarrow> cache_entry \<Rightarrow> credential_cache \<Rightarrow> credential_cache" where
  "store_entry memory f key e c =
     (if memory \<and> \<not> fl_invalidated (cc_table c ! f) then c\<lparr>cc_entries := AList.update key e (cc_entries c)\<rparr> else c)"

definition complete_flight :: "nat \<Rightarrow> string \<Rightarrow> provider_credentials request_result \<Rightarrow> credential_cache \<Rightarrow> credential_cache" where
  "complete_flight f key r c =
     c\<lparr>cc_table := (cc_table c)[f := (cc_table c ! f)\<lparr>fl_result := Some r, fl_done := True\<rparr>],
       cc_flights := (if cc_flights c key = Some f then (cc_flights c)(key := None) else cc_flights c)\<rparr>"

definition finish_custom ::
  "string \<Rightarrow> string \<Rightarrow> nat \<Rightarrow> bool \<Rightarrow> int \<Rightarrow> provider_credentials request_result load_outcome \<Rightarrow> credential_cache \<Rightarrow>
   provider_credentials request_result \<times> credential_cache" where
  "finish_custom family path f memory loaded_at w c =
     (let r = refuse_expired ''custom credential provider returned expired credentials'' loaded_at (load_custom path w);
          c1 = (case r of
                  Inr v \<Rightarrow> (if cache_prefix v \<noteq> []
                            then store_entry memory f (credential_key family (cache_prefix v))
                                   \<lparr>ce_credentials = v, ce_refresh_at = refresh_time v loaded_at False\<rparr> c
                            else c)
                | Inl _ \<Rightarrow> c)
      in (r, complete_flight f (credential_key family path) r c1))"

definition present :: "provider_credentials \<Rightarrow> bool" where
  "present v \<longleftrightarrow> access_key_id v \<noteq> [] \<or> secret_access_key v \<noteq> [] \<or> session_token v \<noteq> [] \<or> bearer_token v \<noteq> [] \<or> sas_token v \<noteq> []"

definition finish_native ::
  "string \<Rightarrow> nat \<Rightarrow> bool \<Rightarrow> int \<Rightarrow> provider_credentials request_result load_outcome \<Rightarrow> credential_cache \<Rightarrow>
   provider_credentials request_result \<times> credential_cache" where
  "finish_native key f memory loaded_at w c =
     (let r = refuse_expired ''credential provider returned expired credentials'' loaded_at (load_credentials w);
          c1 = (case r of
                  Inr v \<Rightarrow> (if present v
                            then store_entry memory f key \<lparr>ce_credentials = v, ce_refresh_at = refresh_time v loaded_at True\<rparr> c
                            else c)
                | Inl _ \<Rightarrow> c)
      in (r, complete_flight f key r c1))"

text \<open>The wait on a flight's condition variable ends with its result.\<close>

definition await_flight :: "nat \<Rightarrow> credential_cache \<Rightarrow> provider_credentials request_result option" where
  "await_flight f c = (if f < length (cc_table c) \<and> fl_done (cc_table c ! f) then fl_result (cc_table c ! f) else None)"

definition cancel_flight :: "string \<Rightarrow> credential_cache \<Rightarrow> credential_cache" where
  "cancel_flight key c =
     (case cc_flights c key of
        None \<Rightarrow> c
      | Some f \<Rightarrow> c\<lparr>cc_table := (cc_table c)[f := (cc_table c ! f)\<lparr>fl_invalidated := True\<rparr>],
                    cc_flights := (cc_flights c)(key := None)\<rparr>)"

definition invalidate_native :: "string \<Rightarrow> credential_cache \<Rightarrow> credential_cache" where
  "invalidate_native key c = cancel_flight key (c\<lparr>cc_entries := AList.delete key (cc_entries c)\<rparr>)"

definition invalidate_custom :: "string \<Rightarrow> string \<Rightarrow> credential_cache \<Rightarrow> credential_cache" where
  "invalidate_custom family path c =
     (let c1 = cancel_flight (credential_key family path) c
      in c1\<lparr>cc_entries := filter (\<lambda>ke. \<not> covers family path ke) (cc_entries c1)\<rparr>)"

definition invalidate :: "config_builder \<Rightarrow> cloud_provider \<Rightarrow> string \<Rightarrow> bool \<Rightarrow> credential_cache \<Rightarrow> credential_cache" where
  "invalidate cfg provider path custom c =
     (if \<not> custom then invalidate_native (native_credential_key cfg provider path) c
      else invalidate_custom (credential_family ''custom'' (cp_kind provider)) path c)"

section \<open>Concurrent callers\<close>

text \<open>The calls between their two sections, by flight.\<close>

datatype loading = Native_Load string | Custom_Load string string

primrec load_key :: "loading \<Rightarrow> string" where
  "load_key (Native_Load key) = key"
| "load_key (Custom_Load family path) = credential_key family path"

record calls =
  ca_cache :: credential_cache
  ca_loading :: "(nat \<times> loading) list"

definition no_calls :: calls where
  "no_calls = \<lparr>ca_cache = empty_cache, ca_loading = []\<rparr>"

definition after_begin :: "loading \<Rightarrow> begun \<times> credential_cache \<Rightarrow> calls \<Rightarrow> calls" where
  "after_begin l r s =
     s\<lparr>ca_cache := snd r, ca_loading := (case fst r of Started f \<Rightarrow> (f, l) # ca_loading s | _ \<Rightarrow> ca_loading s)\<rparr>"

definition finish_load :: "nat \<Rightarrow> loading \<Rightarrow> bool \<Rightarrow> int \<Rightarrow> provider_credentials request_result load_outcome \<Rightarrow> calls \<Rightarrow> calls" where
  "finish_load f l memory loaded_at w s =
     s\<lparr>ca_cache := snd (case l of
          Native_Load key \<Rightarrow> finish_native key f memory loaded_at w (ca_cache s)
        | Custom_Load family path \<Rightarrow> finish_custom family path f memory loaded_at w (ca_cache s)),
       ca_loading := filter (\<lambda>(g, _). g \<noteq> f) (ca_loading s)\<rparr>"

datatype cache_event = Asked_Native string | Asked_Custom string string | Finished nat | Invalidated_Native string
  | Invalidated_Custom string string

inductive cache_step :: "cache_event \<Rightarrow> calls \<Rightarrow> calls \<Rightarrow> bool" where
  asks_native: "key = native_credential_key cfg provider path \<Longrightarrow>
    cache_step (Asked_Native key) s (after_begin (Native_Load key) (begin_native key now (ca_cache s)) s)"
| asks_custom: "family = credential_family ''custom'' kind \<Longrightarrow>
    cache_step (Asked_Custom family path) s (after_begin (Custom_Load family path) (begin_custom family path now (ca_cache s)) s)"
| finishes: "(f, l) \<in> set (ca_loading s) \<Longrightarrow> cache_step (Finished f) s (finish_load f l memory loaded_at w s)"
| invalidates_native: "key = native_credential_key cfg provider path \<Longrightarrow>
    cache_step (Invalidated_Native key) s (s\<lparr>ca_cache := invalidate cfg provider path False (ca_cache s)\<rparr>)"
| invalidates_custom:
    "cache_step (Invalidated_Custom (credential_family ''custom'' (cp_kind provider)) path) s
       (s\<lparr>ca_cache := invalidate cfg provider path True (ca_cache s)\<rparr>)"

inductive cache_runs :: "cache_event list \<Rightarrow> calls \<Rightarrow> calls \<Rightarrow> bool" where
  none: "cache_runs [] s s"
| some: "cache_step e s s' \<Longrightarrow> cache_runs es s' s'' \<Longrightarrow> cache_runs (e # es) s s''"

section \<open>Flights\<close>

text \<open>Every flight is finished, or a call is loading it and it is the flight of its key unless it was invalidated.\<close>

definition flights_ok :: "(string \<rightharpoonup> nat) \<Rightarrow> flight list \<Rightarrow> (nat \<times> loading) list \<Rightarrow> bool" where
  "flights_ok fl tb ld \<longleftrightarrow>
     distinct (map fst ld) \<and>
     (\<forall>k f. fl k = Some f \<longrightarrow> (\<exists>l. (f, l) \<in> set ld \<and> load_key l = k) \<and> \<not> fl_invalidated (tb ! f)) \<and>
     (\<forall>f l. (f, l) \<in> set ld \<longrightarrow> f < length tb \<and> \<not> fl_done (tb ! f) \<and> (fl_invalidated (tb ! f) \<or> fl (load_key l) = Some f)) \<and>
     (\<forall>f < length tb. f \<notin> fst ` set ld \<longrightarrow> fl_done (tb ! f) \<and> fl_result (tb ! f) \<noteq> None)"

definition calls_ok :: "calls \<Rightarrow> bool" where
  "calls_ok s \<longleftrightarrow> flights_ok (cc_flights (ca_cache s)) (cc_table (ca_cache s)) (ca_loading s)"

lemma flights_ok_start:
  assumes "flights_ok fl tb ld" "fl (load_key l) = None"
  shows "flights_ok (fl(load_key l \<mapsto> length tb)) (tb @ [new_flight]) ((length tb, l) # ld)"
  using assms by (fastforce simp: flights_ok_def nth_append new_flight_def)

lemma flights_ok_finish:
  assumes ok: "flights_ok fl tb ld" and l: "(f, l) \<in> set ld"
  shows "flights_ok (if fl (load_key l) = Some f then fl(load_key l := None) else fl)
    (tb[f := (tb ! f)\<lparr>fl_result := Some r, fl_done := True\<rparr>]) (filter (\<lambda>(g, _). g \<noteq> f) ld)"
    (is "flights_ok ?fl ?tb ?ld")
proof -
  have d: "distinct (map fst ld)" and f: "f < length tb" using ok l by (auto simp: flights_ok_def)
  have same: "m = l" if "(f, m) \<in> set ld" for m using d that l eq_key_imp_eq_value by metis
  have keep: "g \<noteq> f" if "?fl k = Some g" for k g
  proof
    assume "g = f"
    then have "fl k = Some f" "k \<noteq> load_key l" using that by (auto split: if_splits)
    moreover then obtain m where "(f, m) \<in> set ld" "load_key m = k" using ok by (auto simp: flights_ok_def)
    ultimately show False using same by blast
  qed
  have "\<exists>m. (g, m) \<in> set ?ld \<and> load_key m = k" "\<not> fl_invalidated (?tb ! g)" if "?fl k = Some g" for k g
    using ok keep [OF that] that by (auto simp: flights_ok_def split: if_splits)
  moreover have "g < length ?tb \<and> \<not> fl_done (?tb ! g) \<and> (fl_invalidated (?tb ! g) \<or> ?fl (load_key m) = Some g)"
    if "(g, m) \<in> set ?ld" for g m
  proof -
    have p: "(g, m) \<in> set ld" "g \<noteq> f" using that by auto
    then have "g < length tb \<and> \<not> fl_done (tb ! g) \<and> (fl_invalidated (tb ! g) \<or> fl (load_key m) = Some g)"
      using ok by (simp add: flights_ok_def)
    with p(2) show ?thesis by auto
  qed
  moreover have "fl_done (?tb ! g) \<and> fl_result (?tb ! g) \<noteq> None" if "g < length ?tb" "g \<notin> fst ` set ?ld" for g
  proof (cases "g = f")
    case False
    then have "g \<notin> fst ` set ld" using that(2) by force
    then show ?thesis using ok that(1) False by (simp add: flights_ok_def)
  qed (use f in simp)
  moreover have "distinct (map fst ?ld)" using d by (simp add: distinct_map_filter)
  ultimately show ?thesis unfolding flights_ok_def by blast
qed

lemma flights_ok_cancel:
  assumes ok: "flights_ok fl tb ld" and k: "fl k = Some f"
  shows "flights_ok (fl(k := None)) (tb[f := (tb ! f)\<lparr>fl_invalidated := True\<rparr>]) ld"
proof -
  have d: "distinct (map fst ld)" using ok by (simp add: flights_ok_def)
  obtain l where l: "(f, l) \<in> set ld" "load_key l = k" using ok k by (auto simp: flights_ok_def)
  have same: "m = l" if "(f, m) \<in> set ld" for m using d that l eq_key_imp_eq_value by metis
  have other: "g \<noteq> f" if g: "fl k' = Some g" "k' \<noteq> k" for k' g
  proof -
    obtain m where "(g, m) \<in> set ld" "load_key m = k'" using ok g(1) by (auto simp: flights_ok_def)
    then show ?thesis using same l(2) g(2) by blast
  qed
  have f: "f < length tb" using ok l(1) by (auto simp: flights_ok_def)
  show ?thesis unfolding flights_ok_def
  proof (intro conjI allI impI d)
    fix k' g assume "(fl(k := None)) k' = Some g"
    then have g: "fl k' = Some g" "k' \<noteq> k" by (auto split: if_splits)
    then show "\<exists>l. (g, l) \<in> set ld \<and> load_key l = k'" using ok by (auto simp: flights_ok_def)
    show "\<not> fl_invalidated (tb[f := (tb ! f)\<lparr>fl_invalidated := True\<rparr>] ! g)"
      using ok g other [OF g] by (auto simp: flights_ok_def)
  next
    fix g m assume m: "(g, m) \<in> set ld"
    then have "g < length tb" "\<not> fl_done (tb ! g)" "fl_invalidated (tb ! g) \<or> fl (load_key m) = Some g"
      using ok by (auto simp: flights_ok_def)
    then show "g < length (tb[f := (tb ! f)\<lparr>fl_invalidated := True\<rparr>])" "\<not> fl_done (tb[f := (tb ! f)\<lparr>fl_invalidated := True\<rparr>] ! g)"
        "fl_invalidated (tb[f := (tb ! f)\<lparr>fl_invalidated := True\<rparr>] ! g) \<or> (fl(k := None)) (load_key m) = Some g"
      using k f by (cases "g = f"; auto)+
  next
    fix g assume "g < length (tb[f := (tb ! f)\<lparr>fl_invalidated := True\<rparr>])" "g \<notin> fst ` set ld"
    then show "fl_done (tb[f := (tb ! f)\<lparr>fl_invalidated := True\<rparr>] ! g)" "fl_result (tb[f := (tb ! f)\<lparr>fl_invalidated := True\<rparr>] ! g) \<noteq> None"
      using ok f by (cases "g = f"; auto simp: flights_ok_def)+
  qed
qed

lemma store_entry_flights [simp]:
  "cc_flights (store_entry memory f key e c) = cc_flights c" "cc_table (store_entry memory f key e c) = cc_table c"
  by (simp_all add: store_entry_def)

text \<open>Both calls begin with a look at the entries and end by completing their flight.\<close>

lemma begin_cases:
  assumes "begin_native key now c = (b, c') \<or> (begin_custom family path now c = (b, c') \<and> key = credential_key family path)"
  shows "(\<exists>v. b = Found v \<and> c' = c) \<or> (b, c') = join_or_start key c"
  using assms by (auto simp: begin_native_def begin_custom_def split: option.splits if_splits)

lemma after_begin_ok:
  assumes "calls_ok s" "(\<exists>v. b = Found v \<and> c' = ca_cache s) \<or> (b, c') = join_or_start (load_key l) (ca_cache s)"
  shows "calls_ok (after_begin l (b, c') s)"
  using assms flights_ok_start [of "cc_flights (ca_cache s)" "cc_table (ca_cache s)" "ca_loading s" l]
  by (auto simp: calls_ok_def after_begin_def join_or_start_def split: option.splits)

lemma finish_parts:
  "cc_flights (ca_cache (finish_load f l memory t w s)) =
     (if cc_flights (ca_cache s) (load_key l) = Some f then (cc_flights (ca_cache s))(load_key l := None) else cc_flights (ca_cache s))"
  "\<exists>r. cc_table (ca_cache (finish_load f l memory t w s)) =
     (cc_table (ca_cache s))[f := (cc_table (ca_cache s) ! f)\<lparr>fl_result := Some r, fl_done := True\<rparr>]"
  by (cases l; simp add: finish_load_def finish_native_def finish_custom_def complete_flight_def Let_def split: sum.split; blast)+

lemma finish_load_ok:
  assumes "calls_ok s" "(f, l) \<in> set (ca_loading s)"
  shows "calls_ok (finish_load f l memory t w s)"
proof -
  have "ca_loading (finish_load f l memory t w s) = filter (\<lambda>(g, _). g \<noteq> f) (ca_loading s)" by (simp add: finish_load_def)
  moreover obtain r where "cc_table (ca_cache (finish_load f l memory t w s)) =
      (cc_table (ca_cache s))[f := (cc_table (ca_cache s) ! f)\<lparr>fl_result := Some r, fl_done := True\<rparr>]"
    using finish_parts(2) by blast
  ultimately show ?thesis using flights_ok_finish [OF assms(1) [unfolded calls_ok_def] assms(2), of r]
    by (simp only: calls_ok_def finish_parts(1))
qed

lemma cancel_flight_ok: "calls_ok s \<Longrightarrow> calls_ok (s\<lparr>ca_cache := cancel_flight key (ca_cache s)\<rparr>)"
  using flights_ok_cancel [of "cc_flights (ca_cache s)" "cc_table (ca_cache s)" "ca_loading s" key]
  by (auto simp: calls_ok_def cancel_flight_def split: option.split)

lemma cancel_flight_parts:
  "cc_flights (cancel_flight key (c\<lparr>cc_entries := es\<rparr>)) = cc_flights (cancel_flight key c)"
  "cc_table (cancel_flight key (c\<lparr>cc_entries := es\<rparr>)) = cc_table (cancel_flight key c)"
  "cc_entries (cancel_flight key c) = cc_entries c"
  by (auto simp: cancel_flight_def split: option.split)

lemma invalidate_ok: "calls_ok s \<Longrightarrow> calls_ok (s\<lparr>ca_cache := invalidate cfg provider path custom (ca_cache s)\<rparr>)"
  using cancel_flight_ok [of s]
  by (auto simp: calls_ok_def invalidate_def invalidate_native_def invalidate_custom_def Let_def cancel_flight_parts)

lemma cache_step_ok: "cache_step e s s' \<Longrightarrow> calls_ok s \<Longrightarrow> calls_ok s'"
proof (induction rule: cache_step.induct)
  case (asks_native key cfg provider path s now)
  obtain b c' where b: "begin_native key now (ca_cache s) = (b, c')" by fastforce
  show ?case unfolding b
    by (rule after_begin_ok [OF asks_native(2)]) (use begin_cases [OF disjI1, OF b] in simp)
next
  case (asks_custom family kind path s now)
  obtain b c' where b: "begin_custom family path now (ca_cache s) = (b, c')" by fastforce
  show ?case unfolding b
    by (rule after_begin_ok [OF asks_custom(2)]) (use begin_cases [OF disjI2, OF conjI, OF b refl] in simp)
qed (simp_all add: finish_load_ok invalidate_ok)

lemma cache_runs_ok: "cache_runs es s s' \<Longrightarrow> calls_ok s \<Longrightarrow> calls_ok s'"
  by (induction rule: cache_runs.induct) (auto intro: cache_step_ok)

lemma no_calls_ok: "calls_ok no_calls"
  by (simp add: calls_ok_def flights_ok_def no_calls_def empty_cache_def)

text \<open>C37. A caller that finds a load of its key under way waits for that flight. In every interleaving of
  callers, loads and invalidations, a flight without a result has a call that is loading it, and when
  that call ends, with credentials, an error or any exception, with or without memory for the entry,
  and invalidated or not, the flight has a result: no waiter is left behind.\<close>

theorem waiters_are_answered:
  assumes "cache_runs es no_calls s" "f < length (cc_table (ca_cache s))" "await_flight f (ca_cache s) = None"
  shows "\<exists>l. (f, l) \<in> set (ca_loading s) \<and>
    (\<forall>memory loaded_at w. await_flight f (ca_cache (finish_load f l memory loaded_at w s)) \<noteq> None)"
proof -
  have ok: "calls_ok s" by (rule cache_runs_ok [OF assms(1) no_calls_ok])
  obtain l where l: "(f, l) \<in> set (ca_loading s)"
    using ok assms(2,3) by (force simp: calls_ok_def flights_ok_def await_flight_def)
  have "await_flight f (ca_cache (finish_load f l memory t w s)) \<noteq> None" for memory t w
    using finish_parts(2) [of f l memory t w s] assms(2) by (auto simp: await_flight_def)
  with l show ?thesis by blast
qed

section \<open>Reuse\<close>

text \<open>Credentials that expire are refreshed before they do, and not at once.\<close>

lemma refresh_time_bounds:
  assumes "now < expires_at v" "expires_at v \<noteq> 0"
  shows "now < refresh_time v now b \<and> refresh_time v now b \<le> expires_at v \<and> expires_at v - refresh_time v now b \<le> 60"
  using assms by (auto simp: refresh_time_def Let_def max_def min_def)

lemma find_reusable_SomeD:
  assumes "find_reusable family path now es = Some e"
  shows "\<exists>k. (k, e) \<in> set es \<and> covers family path (k, e) \<and> reusable e now"
proof -
  have "foldl (better_entry family path now) b es = Some e \<Longrightarrow>
      b = Some e \<or> (\<exists>k. (k, e) \<in> set es \<and> covers family path (k, e) \<and> reusable e now)" for b
    by (induction es arbitrary: b) (fastforce simp: better_entry_def split: if_splits option.splits)+
  from this [of None] assms show ?thesis by (simp add: find_reusable_def)
qed

text \<open>What a call finds in the cache has not expired, and a custom entry covers the path.\<close>

lemma found_credentials_usable:
  assumes "begin_native key now c = (Found v, c') \<or> begin_custom family path now c = (Found v, c') \<and> family \<noteq> []"
  shows "expires_at v = 0 \<or> now < expires_at v"
  using assms
  by (auto simp: begin_native_def begin_custom_def join_or_start_def reusable_def dest!: find_reusable_SomeD split: option.splits if_splits)

section \<open>Invalidation\<close>

definition custom_families :: "calls \<Rightarrow> bool" where
  "custom_families s \<longleftrightarrow> (\<forall>f family path. (f, Custom_Load family path) \<in> set (ca_loading s) \<longrightarrow> (\<exists>kind. family = credential_family ''custom'' kind))"

text \<open>No entry under the key, and no load of it that may still make one.\<close>

definition kept_out :: "string \<Rightarrow> calls \<Rightarrow> bool" where
  "kept_out key s \<longleftrightarrow> map_of (cc_entries (ca_cache s)) key = None \<and>
     (\<forall>f. (f, Native_Load key) \<in> set (ca_loading s) \<longrightarrow> fl_invalidated (cc_table (ca_cache s) ! f))"

lemma native_custom_keys: "native_credential_key cfg provider path \<noteq> credential_key (credential_family ''custom'' kind) scope"
  by (simp add: native_credential_key_def credential_key_def credential_family_def)

lemma custom_families_step: "cache_step e s s' \<Longrightarrow> custom_families s \<Longrightarrow> custom_families s'"
  by (induction rule: cache_step.induct) (auto simp: custom_families_def after_begin_def finish_load_def split: begun.splits)

lemma map_of_filter_None: "map_of xs k = None \<Longrightarrow> map_of (filter P xs) k = None"
  by (induction xs) (auto split: if_splits)

lemma begin_native_parts:
  "begin_native key now c = (b, c') \<Longrightarrow> cc_entries c' = cc_entries c \<and> (\<forall>f < length (cc_table c). cc_table c' ! f = cc_table c ! f)"
  "begin_custom family path now c = (b, c') \<Longrightarrow> cc_entries c' = cc_entries c \<and> (\<forall>f < length (cc_table c). cc_table c' ! f = cc_table c ! f)"
  by (auto simp: begin_native_def begin_custom_def join_or_start_def nth_append split: option.splits if_splits)

lemma kept_out_begin:
  assumes "kept_out key s" "calls_ok s" "l \<noteq> Native_Load key" "cc_entries c' = cc_entries (ca_cache s)"
    "\<forall>f < length (cc_table (ca_cache s)). cc_table c' ! f = cc_table (ca_cache s) ! f"
  shows "kept_out key (after_begin l (b, c') s)"
  using assms by (auto simp: kept_out_def calls_ok_def flights_ok_def after_begin_def split: begun.splits)

lemma finish_entries:
  assumes "map_of (cc_entries (ca_cache s)) key = None" "l = Native_Load key \<Longrightarrow> fl_invalidated (cc_table (ca_cache s) ! f)"
    "\<And>family path. l = Custom_Load family path \<Longrightarrow> \<exists>kind. family = credential_family ''custom'' kind"
    "key = native_credential_key cfg provider p"
  shows "map_of (cc_entries (ca_cache (finish_load f l memory t w s))) key = None"
proof (cases l)
  case (Native_Load k)
  then show ?thesis using assms(1,2)
    by (auto simp: finish_load_def finish_native_def complete_flight_def store_entry_def Let_def update_conv' split: sum.splits)
next
  case (Custom_Load family path)
  then have "key \<noteq> credential_key family scope" for scope using assms(3,4) native_custom_keys by metis
  then show ?thesis using assms(1) Custom_Load
    by (auto simp: finish_load_def finish_custom_def complete_flight_def store_entry_def Let_def update_conv' split: sum.splits)
qed

lemma finish_invalidated:
  "fl_invalidated (cc_table (ca_cache s) ! g) \<Longrightarrow> g < length (cc_table (ca_cache s)) \<Longrightarrow>
   fl_invalidated (cc_table (ca_cache (finish_load f l memory t w s)) ! g)"
  using finish_parts(2) [of f l memory t w s] by (cases "g = f") auto

lemma mark_invalidated:
  "fl_invalidated (tb ! g) \<Longrightarrow> g < length tb \<Longrightarrow> fl_invalidated (tb[x := (tb ! x)\<lparr>fl_invalidated := True\<rparr>] ! g)"
  by (cases "g = x") auto

lemma invalidate_invalidated:
  "fl_invalidated (cc_table c ! g) \<Longrightarrow> g < length (cc_table c) \<Longrightarrow> fl_invalidated (cc_table (invalidate cfg provider path custom c) ! g)"
  by (auto simp: invalidate_def invalidate_native_def invalidate_custom_def cancel_flight_def Let_def mark_invalidated split: option.split)

lemma invalidate_entries:
  "map_of (cc_entries c) key = None \<Longrightarrow> map_of (cc_entries (invalidate cfg provider path custom c)) key = None"
  by (simp add: invalidate_def invalidate_native_def invalidate_custom_def cancel_flight_parts Let_def map_of_filter_None delete_conv')

lemma kept_out_step:
  assumes "cache_step e s s'" "kept_out key s" "calls_ok s" "custom_families s" "e \<noteq> Asked_Native key"
    "key = native_credential_key cfg provider p"
  shows "kept_out key s'"
  using assms
proof (induction rule: cache_step.induct)
  case (asks_native k cfg' provider' path s now)
  obtain b c' where b: "begin_native k now (ca_cache s) = (b, c')" by fastforce
  show ?case unfolding b by (rule kept_out_begin) (use asks_native begin_native_parts(1) [OF b] in auto)
next
  case (asks_custom family kind path s now)
  obtain b c' where b: "begin_custom family path now (ca_cache s) = (b, c')" by fastforce
  show ?case unfolding b by (rule kept_out_begin) (use asks_custom begin_native_parts(2) [OF b] in auto)
next
  case (finishes f l s memory loaded_at w)
  have "map_of (cc_entries (ca_cache (finish_load f l memory loaded_at w s))) key = None"
    by (rule finish_entries) (use finishes in \<open>auto simp: kept_out_def custom_families_def\<close>)
  moreover have "fl_invalidated (cc_table (ca_cache (finish_load f l memory loaded_at w s)) ! g)"
    if "(g, Native_Load key) \<in> set (ca_loading (finish_load f l memory loaded_at w s))" for g
  proof (rule finish_invalidated)
    have "(g, Native_Load key) \<in> set (ca_loading s)" using that by (simp add: finish_load_def)
    then show "fl_invalidated (cc_table (ca_cache s) ! g)" "g < length (cc_table (ca_cache s))"
      using finishes by (auto simp: kept_out_def calls_ok_def flights_ok_def)
  qed
  ultimately show ?case by (simp add: kept_out_def)
qed (auto simp: kept_out_def calls_ok_def flights_ok_def intro: invalidate_invalidated invalidate_entries)

lemma kept_out_run:
  assumes "cache_runs es s s'" "kept_out key s" "calls_ok s" "custom_families s" "Asked_Native key \<notin> set es"
    "key = native_credential_key cfg provider p"
  shows "kept_out key s'"
  using assms
proof (induction rule: cache_runs.induct)
  case (some e s s' es s'')
  have "kept_out key s'" by (rule kept_out_step [OF some(1)]) (use some in auto)
  then show ?case using some cache_step_ok custom_families_step by auto
qed simp

lemma invalidate_native_out:
  assumes "calls_ok s" "key = native_credential_key cfg provider path"
  shows "kept_out key (s\<lparr>ca_cache := invalidate cfg provider path False (ca_cache s)\<rparr>)"
proof -
  have "fl_invalidated (cc_table (invalidate cfg provider path False (ca_cache s)) ! f)"
    if "(f, Native_Load key) \<in> set (ca_loading s)" for f
  proof -
    have "f < length (cc_table (ca_cache s))" "fl_invalidated (cc_table (ca_cache s) ! f) \<or> cc_flights (ca_cache s) key = Some f"
      using assms(1) that by (force simp: calls_ok_def flights_ok_def)+
    then show ?thesis
      by (auto simp: invalidate_def invalidate_native_def cancel_flight_def assms(2) mark_invalidated split: option.splits)
  qed
  then show ?thesis
    by (simp add: kept_out_def invalidate_def invalidate_native_def cancel_flight_parts assms(2) delete_conv')
qed

lemma custom_families_run: "cache_runs es s s' \<Longrightarrow> custom_families s \<Longrightarrow> custom_families s'"
  by (induction rule: cache_runs.induct) (auto intro: custom_families_step)

text \<open>C38. When the server rejects native credentials, their entry is dropped, and it stays away until a
  call asks for them anew: loads that were already under way, however many and in whatever order they
  end, do not put the rejected credentials back.\<close>

theorem invalidated_native_stays_out:
  assumes "cache_runs es no_calls s" "key = native_credential_key cfg provider path"
    "cache_runs es' (s\<lparr>ca_cache := invalidate cfg provider path False (ca_cache s)\<rparr>) s'" "Asked_Native key \<notin> set es'"
  shows "map_of (cc_entries (ca_cache s')) key = None"
proof -
  have ok: "calls_ok s" by (rule cache_runs_ok [OF assms(1) no_calls_ok])
  have "custom_families s" by (rule custom_families_run [OF assms(1)]) (simp add: custom_families_def no_calls_def)
  then have "kept_out key s'"
    by (intro kept_out_run [OF assms(3) _ _ _ assms(4,2)])
      (use ok assms(2) in \<open>auto simp: custom_families_def intro: invalidate_native_out invalidate_ok\<close>)
  then show ?thesis by (simp add: kept_out_def)
qed

section \<open>Examples\<close>

definition sample_provider :: cloud_provider where
  "sample_provider = \<lparr>cp_kind = KARU_CREDENTIALS_AWS, no_sign_option = ''AWS_NO_SIGN_REQUEST'', anonymous_by_default = False,
     credential_options = [''AWS_REGION'']\<rparr>"

definition sample_native_key :: string where
  "sample_native_key = native_credential_key sample_builder sample_provider ''/vsis3/a/x''"

definition sample_credentials :: provider_credentials where
  "sample_credentials = empty_credentials\<lparr>access_key_id := ''AK'', cache_prefix := ''/vsis3/a''\<rparr>"

text \<open>A load of native credentials under way.\<close>

definition sample_asked :: calls where
  "sample_asked = \<lparr>ca_cache = \<lparr>cc_entries = [], cc_flights = [sample_native_key \<mapsto> 0], cc_table = [new_flight]\<rparr>,
     ca_loading = [(0, Native_Load sample_native_key)]\<rparr>"

lemma sample_asked_runs: "cache_runs [Asked_Native sample_native_key] no_calls sample_asked"
proof (rule cache_runs.some [OF _ cache_runs.none])
  have "sample_asked = after_begin (Native_Load sample_native_key) (begin_native sample_native_key 5 (ca_cache no_calls)) no_calls"
    by (simp add: sample_asked_def after_begin_def begin_native_def join_or_start_def no_calls_def empty_cache_def)
  then show "cache_step (Asked_Native sample_native_key) no_calls sample_asked"
    using cache_step.asks_native [OF sample_native_key_def, where s = no_calls and now = 5] by simp
qed

theorem waiters_are_answered_witness:
  "\<exists>l. (0, l) \<in> set (ca_loading sample_asked) \<and>
     (\<forall>memory loaded_at w. await_flight 0 (ca_cache (finish_load 0 l memory loaded_at w sample_asked)) \<noteq> None)"
  by (rule waiters_are_answered [OF sample_asked_runs]) (simp_all add: sample_asked_def await_flight_def new_flight_def)

definition sample_rejected :: calls where
  "sample_rejected = sample_asked\<lparr>ca_cache := invalidate sample_builder sample_provider ''/vsis3/a/x'' False (ca_cache sample_asked)\<rparr>"

definition sample_late :: calls where
  "sample_late = finish_load 0 (Native_Load sample_native_key) True 6 (Returned (Inr sample_credentials)) sample_rejected"

theorem invalidated_native_stays_out_witness:
  "map_of (cc_entries (ca_cache sample_late)) sample_native_key = None"
proof (rule invalidated_native_stays_out [OF sample_asked_runs sample_native_key_def])
  have "cache_step (Finished 0) sample_rejected sample_late"
    unfolding sample_late_def by (rule cache_step.finishes) (simp add: sample_rejected_def sample_asked_def)
  then show "cache_runs [Finished 0] (sample_asked\<lparr>ca_cache := invalidate sample_builder sample_provider ''/vsis3/a/x'' False
      (ca_cache sample_asked)\<rparr>) sample_late"
    unfolding sample_rejected_def by (rule cache_runs.some [OF _ cache_runs.none])
qed simp

text \<open>
  Custom credentials are weaker: invalidation marks the flight of the exact path only. A load for
  another path of the same scope, begun before the rejection, puts the rejected credentials back, and the
  path they were rejected for finds them again.
\<close>

definition sample_family :: string where
  "sample_family = credential_family ''custom'' (cp_kind sample_provider)"

definition sample_first :: calls where
  "sample_first = after_begin (Custom_Load sample_family ''/vsis3/a/x'') (begin_custom sample_family ''/vsis3/a/x'' 5 empty_cache) no_calls"

definition sample_refused :: calls where
  "sample_refused = sample_first\<lparr>ca_cache := invalidate sample_builder sample_provider ''/vsis3/a/y'' True (ca_cache sample_first)\<rparr>"

definition sample_sibling :: calls where
  "sample_sibling = finish_load 0 (Custom_Load sample_family ''/vsis3/a/x'') True 9 (Returned (Inr sample_credentials)) sample_refused"

theorem sibling_load_refills_rejected:
  "cache_runs [Asked_Custom sample_family ''/vsis3/a/x'', Invalidated_Custom sample_family ''/vsis3/a/y'', Finished 0]
     no_calls sample_sibling \<and>
   fst (begin_custom sample_family ''/vsis3/a/y'' 10 (ca_cache sample_sibling)) = Found sample_credentials"
proof
  have "cache_step (Asked_Custom sample_family ''/vsis3/a/x'') no_calls sample_first"
    using cache_step.asks_custom [OF sample_family_def, where s = no_calls and path = "''/vsis3/a/x''" and now = 5]
    by (simp add: sample_first_def no_calls_def)
  moreover have "cache_step (Invalidated_Custom sample_family ''/vsis3/a/y'') sample_first sample_refused"
    unfolding sample_refused_def sample_family_def by (rule cache_step.invalidates_custom)
  moreover have "cache_step (Finished 0) sample_refused sample_sibling"
    unfolding sample_sibling_def
    by (rule cache_step.finishes)
      (simp add: sample_refused_def sample_first_def after_begin_def begin_custom_def find_reusable_def join_or_start_def
        no_calls_def empty_cache_def)
  ultimately show "cache_runs [Asked_Custom sample_family ''/vsis3/a/x'', Invalidated_Custom sample_family ''/vsis3/a/y'', Finished 0]
     no_calls sample_sibling"
    by (blast intro: cache_runs.intros)
  show "fst (begin_custom sample_family ''/vsis3/a/y'' 10 (ca_cache sample_sibling)) = Found sample_credentials"
    by code_simp
qed

end
