(* ===== verification/Karu_Signing.thy ===== *)
theory Karu_Signing
  imports Karu_Credential_Cache
begin

text \<open>
  URLs of endpoints (\<open>src/src/backends/url.cpp\<close>), dates, message authentication (\<open>crypto.cpp\<close>) and
  requests signed for S3-compatible services (\<open>s3_signing.cpp\<close>). OpenSSL's digest, its HMAC for SHA-1 and its
  base64 coders are the record \<open>crypto\<close>; \<open>gmtime\<close> and \<open>strftime\<close> are written out for the two formats in use.
  The thread-local cache of the last signing key is a state that is passed along.
  The lemmas show that the keys it answers are the derived ones, that the code for HMAC-SHA256 is the
  construction of RFC 2104, and what a signed request carries.
\<close>

unbundle bit_operations_syntax

section \<open>URLs\<close>

definition trim :: "string \<Rightarrow> string" where
  "trim s = (let first = length (takeWhile is_space s); past = length s - length (takeWhile is_space (rev s))
     in if past \<le> first then [] else take (past - first) (drop first s))"

definition lower :: "string \<Rightarrow> string" where
  "lower s = map ascii_lower s"

function without_trailing_slash :: "string \<Rightarrow> string" where
  "without_trailing_slash s = (if 1 < length s \<and> ends_with ''/'' s then without_trailing_slash (butlast s) else s)"
  by pat_completeness auto
termination
  by (relation "measure length") auto

declare without_trailing_slash.simps [simp del]

definition starts_with_scheme :: "string \<Rightarrow> bool" where
  "starts_with_scheme endpoint \<longleftrightarrow>
     (let n = lower (take 8 endpoint) in starts_with ''http://'' n \<or> starts_with ''https://'' n)"

definition config_error :: "string \<Rightarrow> request_error" where
  "config_error m = \<lparr>re_status = KARU_ERR_CONFIG, re_message = m\<rparr>"

definition http_endpoint :: "string \<Rightarrow> string \<Rightarrow> bool \<Rightarrow> string request_result" where
  "http_endpoint endpoint opt use_https =
     (if starts_with_scheme endpoint then Inr endpoint
      else if find_sub ''://'' endpoint \<noteq> None then Inl (config_error (opt @ '' must use HTTP or HTTPS''))
      else Inr ((if use_https then ''https://'' else ''http://'') @ endpoint))"

record url_parts =
  up_scheme :: string
  up_authority :: string
  up_path :: string
  up_query :: string

definition url_tail :: "string \<Rightarrow> string \<times> string" where
  "url_tail tail =
     (let q = find_char CHR ''?'' tail; p = (case q of None \<Rightarrow> tail | Some i \<Rightarrow> take i tail)
      in (if p = [] \<or> hd p = CHR ''?'' then ''/'' else p, (case q of None \<Rightarrow> [] | Some i \<Rightarrow> drop (i + 1) tail)))"

definition split_url :: "string \<Rightarrow> url_parts request_result" where
  "split_url url =
     (case find_sub ''://'' url of
        None \<Rightarrow> Inl (config_error ''endpoint has no URL scheme'')
      | Some marker \<Rightarrow>
          (let rest = drop (marker + 3) url;
               path_start = find_first_of ''/?'' rest;
               scheme = lower (take marker url);
               authority = (case path_start of None \<Rightarrow> rest | Some i \<Rightarrow> take i rest)
           in if scheme \<noteq> ''http'' \<and> scheme \<noteq> ''https'' then Inl (config_error ''endpoint must use HTTP or HTTPS'')
              else if authority = [] then Inl (config_error ''endpoint has no authority'')
              else if find_char CHR ''@'' authority \<noteq> None then Inl (config_error ''endpoint must not contain user information'')
              else if find_char CHR ''#'' rest \<noteq> None then Inl (config_error ''endpoint must not contain a fragment'')
              else (case path_start of
                      None \<Rightarrow> Inr \<lparr>up_scheme = scheme, up_authority = authority, up_path = ''/'', up_query = []\<rparr>
                    | Some i \<Rightarrow> (let (p, q) = url_tail (drop i rest)
                                 in Inr \<lparr>up_scheme = scheme, up_authority = authority, up_path = p, up_query = q\<rparr>))))"

definition append_object :: "string \<Rightarrow> string \<Rightarrow> string \<Rightarrow> string" where
  "append_object endpoint container key = without_trailing_slash endpoint @ ''/'' @ container @ ''/'' @ encode_path key"

definition form_encode_char :: "char \<Rightarrow> string" where
  "form_encode_char c =
     (if safe_path_char c \<and> c \<noteq> CHR ''/'' then [c]
      else [CHR ''%'', hex_upper (of_char c div 16), hex_upper (of_char c mod 16)])"

definition form_encode :: "string \<Rightarrow> string" where
  "form_encode s = concat (map form_encode_char s)"

section \<open>Dates\<close>

record utc =
  tm_year :: int
  tm_mon :: int
  tm_mday :: int
  tm_hour :: int
  tm_min :: int
  tm_sec :: int
  tm_wday :: int

text \<open>\<open>gmtime_r\<close>: the civil date of a Unix time in the proleptic Gregorian calendar; months from 1.\<close>

definition gmtime :: "int \<Rightarrow> utc" where
  "gmtime t =
     (let days = t div 86400; s = t mod 86400;
          z = days + 719468; era = z div 146097; doe = z mod 146097;
          yoe = (doe - doe div 1460 + doe div 36524 - doe div 146096) div 365;
          doy = doe - (365 * yoe + yoe div 4 - yoe div 100);
          mp = (5 * doy + 2) div 153; m = (if mp < 10 then mp + 3 else mp - 9)
      in \<lparr>tm_year = yoe + era * 400 + (if m \<le> 2 then 1 else 0), tm_mon = m, tm_mday = doy - (153 * mp + 2) div 5 + 1,
          tm_hour = s div 3600, tm_min = s mod 3600 div 60, tm_sec = s mod 60, tm_wday = (days + 4) mod 7\<rparr>)"

definition two_digits :: "int \<Rightarrow> string" where
  "two_digits n = [digit_char (nat (n div 10)), digit_char (nat (n mod 10))]"

definition WEEKDAYS :: "string list" where
  "WEEKDAYS = [''Sun'', ''Mon'', ''Tue'', ''Wed'', ''Thu'', ''Fri'', ''Sat'']"

definition MONTHS :: "string list" where
  "MONTHS = [''Jan'', ''Feb'', ''Mar'', ''Apr'', ''May'', ''Jun'', ''Jul'', ''Aug'', ''Sep'', ''Oct'', ''Nov'', ''Dec'']"

text \<open>\<open>date_utc(now, "%Y%m%dT%H%M%SZ")\<close> and \<open>rfc7231_date(now)\<close>.\<close>

definition amz_date :: "int \<Rightarrow> string" where
  "amz_date now =
     (let u = gmtime now
      in int_string (tm_year u) @ two_digits (tm_mon u) @ two_digits (tm_mday u) @ ''T'' @ two_digits (tm_hour u) @
         two_digits (tm_min u) @ two_digits (tm_sec u) @ ''Z'')"

definition rfc7231_date :: "int \<Rightarrow> string" where
  "rfc7231_date now =
     (let u = gmtime now
      in WEEKDAYS ! nat (tm_wday u) @ '', '' @ two_digits (tm_mday u) @ '' '' @ MONTHS ! nat (tm_mon u - 1) @ '' '' @
         int_string (tm_year u) @ '' '' @ two_digits (tm_hour u) @ '':'' @ two_digits (tm_min u) @ '':'' @
         two_digits (tm_sec u) @ '' GMT'')"

section \<open>Message authentication\<close>

type_synonym bytes = "byte list"

text \<open>What the code uses of OpenSSL; \<^const>\<open>None\<close> is a failure.\<close>

record crypto =
  evp_sha256 :: "bytes \<Rightarrow> bytes option"
  hmac_evp_sha1 :: "bytes \<Rightarrow> bytes \<Rightarrow> bytes option"
  evp_encode_block :: "bytes \<Rightarrow> string"
  evp_decode_block :: "string \<Rightarrow> bytes option"

definition kSha256Block :: nat where "kSha256Block = 64"

definition digest_parts :: "crypto \<Rightarrow> bytes list \<Rightarrow> bytes option" where
  "digest_parts cr parts =
     (case evp_sha256 cr (concat parts) of Some d \<Rightarrow> (if length d = 32 then Some d else None) | None \<Rightarrow> None)"

text \<open>\<open>hmac(EVP_sha1(), key, value)\<close>.\<close>

definition hmac_sha1 :: "crypto \<Rightarrow> bytes \<Rightarrow> string \<Rightarrow> bytes request_result" where
  "hmac_sha1 cr key v =
     (if 2 ^ 31 - 1 < length key then Inl (credential_error ''HMAC parameters are not supported'')
      else case hmac_evp_sha1 cr key v of
             None \<Rightarrow> Inl (credential_error ''OpenSSL HMAC failed'')
           | Some d \<Rightarrow> Inr d)"

definition sha256 :: "crypto \<Rightarrow> string \<Rightarrow> bytes request_result" where
  "sha256 cr v =
     (case digest_parts cr [v] of None \<Rightarrow> Inl (credential_error ''OpenSSL SHA256 failed'') | Some d \<Rightarrow> Inr d)"

definition xor_byte :: "nat \<Rightarrow> byte \<Rightarrow> byte" where
  "xor_byte n c = char_of ((of_char c :: nat) XOR n)"

text \<open>The key in a block of zeros, replaced by its digest when it is longer.\<close>

definition key_block :: "crypto \<Rightarrow> bytes \<Rightarrow> bytes option" where
  "key_block cr key =
     map_option (\<lambda>k. k @ replicate (kSha256Block - length k) (CHR 0x00))
       (if kSha256Block < length key then digest_parts cr [key] else Some key)"

definition hmac_sha256 :: "crypto \<Rightarrow> bytes \<Rightarrow> string \<Rightarrow> bytes request_result" where
  "hmac_sha256 cr key v =
     (case (case key_block cr key of
              None \<Rightarrow> None
            | Some block \<Rightarrow>
                (case digest_parts cr [map (xor_byte 0x36) block, v] of
                   None \<Rightarrow> None
                 | Some inner \<Rightarrow> digest_parts cr [map (xor_byte 0x5C) block, inner])) of
        None \<Rightarrow> Inl (credential_error ''OpenSSL HMAC failed'')
      | Some d \<Rightarrow> Inr d)"

definition base64 :: "crypto \<Rightarrow> bytes \<Rightarrow> string" where
  "base64 cr bs = (if bs = [] then [] else evp_encode_block cr bs)"

definition hex :: "bytes \<Rightarrow> string" where
  "hex bs = concat (map (\<lambda>b. [''0123456789abcdef'' ! (of_char b div 16), ''0123456789abcdef'' ! (of_char b mod 16)]) bs)"

section \<open>Signing keys\<close>

record signing_key_cache =
  sk_secret :: string
  sk_date :: string
  sk_region :: string
  sk_key :: bytes
  sk_valid :: bool

definition new_signing_cache :: signing_key_cache where
  "new_signing_cache = \<lparr>sk_secret = [], sk_date = [], sk_region = [], sk_key = replicate 32 (CHR 0x00), sk_valid = False\<rparr>"

definition derive_key :: "crypto \<Rightarrow> string \<times> string \<times> string \<Rightarrow> bytes request_result" where
  "derive_key cr k =
     (case k of (secret, date, region) \<Rightarrow>
        and_then (hmac_sha256 cr (''AWS4'' @ secret) date) (\<lambda>date_key.
        and_then (hmac_sha256 cr date_key region) (\<lambda>region_key.
        and_then (hmac_sha256 cr region_key ''s3'') (\<lambda>service_key.
        hmac_sha256 cr service_key ''aws4_request''))))"

definition signing_key ::
  "crypto \<Rightarrow> string \<times> string \<times> string \<Rightarrow> signing_key_cache \<Rightarrow> bytes request_result \<times> signing_key_cache" where
  "signing_key cr k c =
     (if sk_valid c \<and> (sk_secret c, sk_date c, sk_region c) = k then (Inr (sk_key c), c)
      else case derive_key cr k of
             Inl e \<Rightarrow> (Inl e, c)
           | Inr key \<Rightarrow> (Inr key, (case k of (secret, date, region) \<Rightarrow>
               \<lparr>sk_secret = secret, sk_date = date, sk_region = region, sk_key = key, sk_valid = True\<rparr>)))"

section \<open>Signed requests\<close>

record s3_get_request =
  sg_endpoint :: string
  sg_endpoint_option :: string
  sg_bucket :: string
  sg_key :: string
  sg_region :: string
  sg_virtual_hosting :: bool
  sg_request_payer :: string

definition virtual_host_url :: "url_parts \<Rightarrow> string \<Rightarrow> string \<Rightarrow> string" where
  "virtual_host_url endpoint bucket key =
     up_scheme endpoint @ ''://'' @ bucket @ ''.'' @ up_authority endpoint @
     (if up_path endpoint = ''/'' then ''/'' else without_trailing_slash (up_path endpoint) @ ''/'') @ encode_path key"

definition signed_host :: "url_parts \<Rightarrow> string" where
  "signed_host url =
     (let port = (if up_scheme url = ''https'' then '':443'' else '':80'')
      in if ends_with port (up_authority url) then take (length (up_authority url) - length port) (up_authority url)
         else up_authority url)"

definition is_alnum :: "char \<Rightarrow> bool" where
  "is_alnum c \<longleftrightarrow>
     (let n = (of_char c :: nat) in (97 \<le> n \<and> n \<le> 122) \<or> (65 \<le> n \<and> n \<le> 90) \<or> (48 \<le> n \<and> n \<le> 57))"

definition valid_aws_region :: "string \<Rightarrow> bool" where
  "valid_aws_region region \<longleftrightarrow> region \<noteq> [] \<and> list_all (\<lambda>c. is_alnum c \<or> c = CHR ''-'') region"

type_synonym header = "string \<times> string"

definition payload :: string where
  "payload = ''UNSIGNED-PAYLOAD''"

definition signed_headers ::
  "s3_get_request \<Rightarrow> provider_credentials \<Rightarrow> url_parts \<Rightarrow> string \<Rightarrow> string \<Rightarrow> string \<Rightarrow> header list" where
  "signed_headers target cred url rng if_match timestamp =
     sort_key fst
       ([(''host'', signed_host url), (''range'', rng), (''x-amz-content-sha256'', payload), (''x-amz-date'', timestamp)] @
        (if if_match \<noteq> [] then [(''if-match'', if_match)] else []) @
        (if session_token cred \<noteq> [] then [(''x-amz-security-token'', session_token cred)] else []) @
        (if lower (sg_request_payer target) = ''requester'' then [(''x-amz-request-payer'', ''requester'')] else []))"

definition canonical_headers :: "header list \<Rightarrow> string" where
  "canonical_headers hs = concat (map (\<lambda>(n, v). lower n @ '':'' @ trim v @ [CHR 0x0A]) hs)"

definition signed_names :: "header list \<Rightarrow> string" where
  "signed_names hs = foldl (\<lambda>acc (n, _). (if acc \<noteq> [] then acc @ '';'' else acc) @ lower n) [] hs"

definition canonical_request :: "url_parts \<Rightarrow> header list \<Rightarrow> string" where
  "canonical_request url hs =
     ''GET'' @ [CHR 0x0A] @ up_path url @ [CHR 0x0A] @ up_query url @ [CHR 0x0A] @ canonical_headers hs @ [CHR 0x0A] @
     signed_names hs @ [CHR 0x0A] @ payload"

definition string_to_sign :: "string \<Rightarrow> string \<Rightarrow> bytes \<Rightarrow> string" where
  "string_to_sign timestamp scope digest =
     ''AWS4-HMAC-SHA256'' @ [CHR 0x0A] @ timestamp @ [CHR 0x0A] @ scope @ [CHR 0x0A] @ hex digest"

definition new_request :: "string \<Rightarrow> header list \<Rightarrow> prepared_request" where
  "new_request url hs = \<lparr>pr_url = url, pr_headers = hs, pr_range = [], pr_http = default_http_request_options, routing_region = []\<rparr>"

definition without_redirects :: "prepared_request \<Rightarrow> prepared_request" where
  "without_redirects p = p\<lparr>pr_http := (pr_http p)\<lparr>follow_redirects := False\<rparr>\<rparr>"

text \<open>The request with its signature.\<close>

definition sign_request ::
  "crypto \<Rightarrow> s3_get_request \<Rightarrow> provider_credentials \<Rightarrow> string \<Rightarrow> url_parts \<Rightarrow> string \<Rightarrow> string \<Rightarrow> int \<Rightarrow> signing_key_cache \<Rightarrow>
   prepared_request request_result \<times> signing_key_cache" where
  "sign_request cr target cred url parts rng if_match now c =
     (let timestamp = amz_date now;
          date = take 8 timestamp;
          hs = signed_headers target cred parts rng if_match timestamp;
          scope = date @ ''/'' @ sg_region target @ ''/s3/aws4_request''
      in case sha256 cr (canonical_request parts hs) of
           Inl e \<Rightarrow> (Inl e, c)
         | Inr digest \<Rightarrow>
             (case signing_key cr (secret_access_key cred, date, sg_region target) c of
                (Inl e, c') \<Rightarrow> (Inl e, c')
              | (Inr key, c') \<Rightarrow>
                  (case hmac_sha256 cr key (string_to_sign timestamp scope digest) of
                     Inl e \<Rightarrow> (Inl e, c')
                   | Inr sig \<Rightarrow>
                       (Inr (without_redirects (new_request url
                          (filter (\<lambda>(n, _). n \<noteq> ''host'' \<and> n \<noteq> ''range'') hs @
                           [(''Authorization'', ''AWS4-HMAC-SHA256 Credential='' @ access_key_id cred @ ''/'' @ scope @
                             '', SignedHeaders='' @ signed_names hs @ '', Signature='' @ hex sig)]))), c'))))"

definition if_match_header :: "string \<Rightarrow> header list" where
  "if_match_header if_match = (if if_match \<noteq> [] then [(''If-Match'', if_match)] else [])"

definition prepare_s3_get ::
  "crypto \<Rightarrow> s3_get_request \<Rightarrow> provider_credentials option \<Rightarrow> string \<Rightarrow> string \<Rightarrow> int \<Rightarrow> signing_key_cache \<Rightarrow>
   prepared_request request_result \<times> signing_key_cache" where
  "prepare_s3_get cr target cred rng if_match now c =
     (case split_url (sg_endpoint target) of
        Inl e \<Rightarrow> (Inl e, c)
      | Inr endpoint \<Rightarrow>
          (if up_query endpoint \<noteq> [] then (Inl (config_error (sg_endpoint_option target @ '' cannot contain a query'')), c)
           else (let url = (if sg_virtual_hosting target then virtual_host_url endpoint (sg_bucket target) (sg_key target)
                            else append_object (sg_endpoint target) (sg_bucket target) (sg_key target))
                 in case cred of
                      None \<Rightarrow> (Inr (new_request url (if_match_header if_match)), c)
                    | Some v \<Rightarrow>
                        (case split_url url of
                           Inl e \<Rightarrow> (Inl e, c)
                         | Inr parts \<Rightarrow> sign_request cr target v url parts rng if_match now c))))"

section \<open>Texts and URLs\<close>

text \<open>Both trimming functions of the sources agree.\<close>

lemma trim_is_trim_text: "trim s = trim_text s"
proof (cases "dropWhile is_space s = []")
  case True
  then have "\<forall>c \<in> set s. is_space c" by (simp add: dropWhile_eq_Nil_conv)
  then have "takeWhile is_space (rev s) = rev s" by (simp add: takeWhile_eq_all_conv)
  then have "length (takeWhile is_space (rev s)) = length s" by (metis length_rev)
  then show ?thesis unfolding trim_def trim_text_def True by (simp add: Let_def)
next
  case False
  define t where "t = dropWhile is_space s"
  have "\<not> is_space (hd t)" using False hd_dropWhile unfolding t_def by blast
  then have x: "\<exists>x \<in> set (rev t). \<not> is_space x" using False t_def by (metis hd_in_set set_rev)
  have s: "s = takeWhile is_space s @ t" by (simp add: t_def)
  then have tw: "takeWhile is_space (rev s) = takeWhile is_space (rev t)"
    using x by (metis rev_append takeWhile_append1)
  have len: "length s = length (takeWhile is_space s) + length t" by (subst s) simp
  have less: "length (takeWhile is_space (rev t)) < length t"
  proof (rule ccontr)
    assume "\<not> ?thesis"
    then have "takeWhile is_space (rev t) = rev t" by (metis length_rev not_less takeWhile_eq_take take_all)
    with x show False by (metis takeWhile_eq_all_conv)
  qed
  have d: "drop (length (takeWhile is_space s)) s = t" by (simp add: t_def dropWhile_eq_drop)
  have r: "trim_text s = take (length t - length (takeWhile is_space (rev t))) t"
    by (simp add: trim_text_def t_def [symmetric] dropWhile_eq_drop [of is_space "rev t"] rev_drop)
  show ?thesis unfolding trim_def Let_def tw d len r using less by simp
qed

lemma form_encode_roundtrip: "percent_decode (form_encode s) = s"
proof -
  have "percent_decode (form_encode_char c @ r) = c # percent_decode r" for c r
  proof (cases "safe_path_char c \<and> c \<noteq> CHR ''/''")
    case True
    then have "c \<noteq> CHR ''%''" by (auto simp: safe_path_char_def)
    with True show ?thesis by (simp add: form_encode_char_def)
  next
    case False
    have "(of_char c :: nat) < 256" by simp
    then have "(of_char c :: nat) div 16 < 16" "(of_char c :: nat) mod 16 < 16" by linarith+
    moreover have "\<not> safe_path_char CHR ''%''" by (simp add: safe_path_char_def)
    ultimately show ?thesis using False by (auto simp: form_encode_char_def hex_value_upper)
  qed
  then show ?thesis by (induction s) (simp_all add: form_encode_def)
qed

lemma no_trailing_slash: "1 < length (without_trailing_slash s) \<Longrightarrow> \<not> ends_with ''/'' (without_trailing_slash s)"
proof (induction s rule: without_trailing_slash.induct)
  case (1 s)
  show ?case
  proof (cases "1 < length s \<and> ends_with ''/'' s")
    case True
    then have "without_trailing_slash s = without_trailing_slash (butlast s)" by (subst without_trailing_slash.simps) simp
    with 1 True show ?thesis by simp
  next
    case False
    then have "without_trailing_slash s = s" by (subst without_trailing_slash.simps) (simp only: if_False)
    with 1(2) False show ?thesis by simp
  qed
qed

section \<open>Keys that are remembered\<close>

text \<open>Calls one after another that share a state.\<close>

fun run_calls :: "('k \<Rightarrow> 'c \<Rightarrow> 'r \<times> 'c) \<Rightarrow> 'k list \<Rightarrow> 'c \<Rightarrow> 'r list" where
  "run_calls call [] c = []"
| "run_calls call (k # ks) c = (case call k c of (r, c') \<Rightarrow> r # run_calls call ks c')"

text \<open>A function with a memory of its last result.\<close>

locale last_result_memo =
  fixes f :: "'k \<Rightarrow> 'e + 'v"
    and call :: "'k \<Rightarrow> 'c \<Rightarrow> ('e + 'v) \<times> 'c"
    and holds :: "'c \<Rightarrow> ('k \<times> 'v) option"
  assumes hit: "holds c = Some (k, v) \<Longrightarrow> call k c = (Inr v, c)"
    and miss: "\<forall>v. holds c \<noteq> Some (k, v) \<Longrightarrow>
      call k c = (f k, c') \<longrightarrow> holds c' = holds c \<or> (\<exists>v. f k = Inr v \<and> holds c' = Some (k, v))"
    and answer: "\<forall>v. holds c \<noteq> Some (k, v) \<Longrightarrow> fst (call k c) = f k"
begin

definition sound :: "'c \<Rightarrow> bool" where
  "sound c \<longleftrightarrow> (\<forall>k v. holds c = Some (k, v) \<longrightarrow> f k = Inr v)"

lemma call_sound:
  assumes "sound c"
  shows "fst (call k c) = f k \<and> sound (snd (call k c))"
proof (cases "\<exists>v. holds c = Some (k, v)")
  case True
  then show ?thesis using assms hit by (auto simp: sound_def)
next
  case False
  then have a: "fst (call k c) = f k" using answer by blast
  then have "call k c = (f k, snd (call k c))" by (metis prod.collapse)
  then have "holds (snd (call k c)) = holds c \<or> (\<exists>v. f k = Inr v \<and> holds (snd (call k c)) = Some (k, v))"
    using miss False by blast
  with a assms show ?thesis by (auto simp: sound_def)
qed

lemma run_calls_exact: "sound c \<Longrightarrow> run_calls call ks c = map f ks"
proof (induction ks arbitrary: c)
  case (Cons k ks)
  obtain r c' where r: "call k c = (r, c')" by fastforce
  then have "r = f k" "sound c'" using call_sound [OF Cons.prems, of k] by simp_all
  then show ?case using Cons.IH r by simp
qed simp

end

definition held_key :: "signing_key_cache \<Rightarrow> ((string \<times> string \<times> string) \<times> bytes) option" where
  "held_key c = (if sk_valid c then Some ((sk_secret c, sk_date c, sk_region c), sk_key c) else None)"

interpretation signing_memo: last_result_memo "derive_key cr" "signing_key cr" held_key for cr
  by unfold_locales
    (auto simp: signing_key_def held_key_def split: if_splits sum.splits prod.splits)

text \<open>C33. The thread-local cache of the signing key is transparent: for any sequence of requests, with any
  secrets, dates and regions, and with failures of the digest in between, each call of \<open>signing_key\<close>
  answers exactly the key that deriving it afresh gives.\<close>

theorem signing_keys_exact:
  "run_calls (signing_key cr) requests new_signing_cache = map (derive_key cr) requests"
  by (rule signing_memo.run_calls_exact) (simp add: signing_memo.sound_def held_key_def new_signing_cache_def)

section \<open>HMAC\<close>

text \<open>RFC 2104 for a hash function \<open>H\<close> with blocks of \<open>B\<close> bytes.\<close>

definition rfc2104 :: "(bytes \<Rightarrow> bytes) \<Rightarrow> nat \<Rightarrow> bytes \<Rightarrow> bytes \<Rightarrow> bytes" where
  "rfc2104 H B K message =
     (let K0 = (if B < length K then H K else K); block = K0 @ replicate (B - length K0) (CHR 0x00)
      in H (map (xor_byte 0x5C) block @ H (map (xor_byte 0x36) block @ message)))"

lemma hmac_sha256_is_rfc2104:
  assumes "\<And>x. evp_sha256 cr x = Some (H x)" "\<And>x. length (H x) = 32"
  shows "hmac_sha256 cr key v = Inr (rfc2104 H 64 key v)"
  using assms by (simp add: hmac_sha256_def key_block_def digest_parts_def rfc2104_def kSha256Block_def Let_def)

section \<open>Signed requests carry what they sign\<close>

lemma signed_headers_set:
  "set (signed_headers target cred url rng if_match timestamp) =
     {(''host'', signed_host url), (''range'', rng), (''x-amz-content-sha256'', payload), (''x-amz-date'', timestamp)} \<union>
     (if if_match \<noteq> [] then {(''if-match'', if_match)} else {}) \<union>
     (if session_token cred \<noteq> [] then {(''x-amz-security-token'', session_token cred)} else {}) \<union>
     (if lower (sg_request_payer target) = ''requester'' then {(''x-amz-request-payer'', ''requester'')} else {})"
  by (auto simp: signed_headers_def)

lemma sign_request_headers:
  assumes "sign_request cr target cred url parts rng if_match now c = (Inr p, c')"
  shows "\<exists>sig. pr_headers p = filter (\<lambda>(n, _). n \<noteq> ''host'' \<and> n \<noteq> ''range'')
      (signed_headers target cred parts rng if_match (amz_date now)) @ [(''Authorization'', sig)]"
    and "\<not> follow_redirects (pr_http p)" and "pr_url p = url"
  using assms
  by (auto simp: sign_request_def Let_def new_request_def without_redirects_def split: sum.splits prod.splits)

lemma prepare_s3_get_redirects:
  assumes "prepare_s3_get cr target cred rng if_match now c = (Inr p, c')"
  shows "follow_redirects (pr_http p) \<longrightarrow> cred = None \<and> pr_headers p = if_match_header if_match"
  using assms sign_request_headers(2)
  by (fastforce simp: prepare_s3_get_def Let_def new_request_def split: sum.splits option.splits if_splits)

end
