(* ===== verification/Karu_Backends.thy ===== *)
theory Karu_Backends
  imports Karu_Signing
begin

text \<open>
  The backends (\<open>src/src/backends/\<close>): the providers with their options, and how each prepares the request
  for one range of an object: plain HTTP, Hugging Face, S3, Google Cloud Storage, Azure and Source. Reads of
  the Hugging Face token are arguments (\<open>files\<close>), as are OpenSSL and the time of signing. Loading
  credentials from profiles, token endpoints and metadata services is not modelled.
  The lemmas show which requests follow redirects, and what configured headers may add.
\<close>

section \<open>Providers\<close>

definition S3_CREDENTIAL_OPTIONS :: "string list" where
  "S3_CREDENTIAL_OPTIONS = [''AWS_ACCESS_KEY_ID'', ''AWS_SECRET_ACCESS_KEY'', ''AWS_SESSION_TOKEN'', ''AWS_PROFILE'',
     ''AWS_SHARED_CREDENTIALS_FILE'', ''AWS_CONFIG_FILE'', ''AWS_ROLE_ARN'', ''AWS_STS_ENDPOINT'', ''AWS_WEB_IDENTITY_TOKEN_FILE'',
     ''AWS_ROLE_SESSION_NAME'', ''AWS_CONTAINER_CREDENTIALS_RELATIVE_URI'', ''AWS_CONTAINER_CREDENTIALS_FULL_URI'',
     ''AWS_CONTAINER_AUTHORIZATION_TOKEN'', ''AWS_CONTAINER_AUTHORIZATION_TOKEN_FILE'', ''AWS_EC2_METADATA_DISABLED'',
     ''AWS_METADATA_SERVICE_TIMEOUT'']"

definition s3_provider :: cloud_provider where
  "s3_provider = \<lparr>cp_kind = KARU_CREDENTIALS_AWS, no_sign_option = ''AWS_NO_SIGN_REQUEST'', anonymous_by_default = False,
     credential_options = S3_CREDENTIAL_OPTIONS\<rparr>"

definition GCS_CREDENTIAL_OPTIONS :: "string list" where
  "GCS_CREDENTIAL_OPTIONS = [''GCS_HMAC_ACCESS_KEY_ID'', ''GCS_HMAC_SECRET_ACCESS_KEY'', ''GCS_ACCESS_TOKEN'', ''GCS_REFRESH_TOKEN'',
     ''GCS_CLIENT_ID'', ''GCS_CLIENT_SECRET'', ''GCS_PRIVATE_KEY'', ''GCS_PRIVATE_KEY_FILE'', ''GCS_CLIENT_EMAIL'', ''GCS_SCOPE'',
     ''GOOGLE_APPLICATION_CREDENTIALS'', ''CLOUDSDK_CONFIG'', ''GCS_METADATA_DISABLED'', ''GCS_METADATA_ENDPOINT'']"

definition gcs_provider :: cloud_provider where
  "gcs_provider = \<lparr>cp_kind = KARU_CREDENTIALS_GCS, no_sign_option = ''GCS_NO_SIGN_REQUEST'', anonymous_by_default = False,
     credential_options = GCS_CREDENTIAL_OPTIONS\<rparr>"

definition AZURE_CREDENTIAL_OPTIONS :: "string list" where
  "AZURE_CREDENTIAL_OPTIONS = [''AZURE_STORAGE_CONNECTION_STRING'', ''AZURE_STORAGE_ACCOUNT'', ''AZURE_STORAGE_ACCESS_KEY'',
     ''AZURE_STORAGE_SAS_TOKEN'', ''AZURE_STORAGE_ACCESS_TOKEN'', ''AZURE_TENANT_ID'', ''AZURE_CLIENT_ID'', ''AZURE_CLIENT_SECRET'',
     ''AZURE_FEDERATED_TOKEN_FILE'', ''AZURE_AUTHORITY_HOST'', ''AZURE_STORAGE_SCOPE'', ''AZURE_STORAGE_RESOURCE'',
     ''AZURE_IMDS_OBJECT_ID'', ''AZURE_IMDS_CLIENT_ID'', ''AZURE_IMDS_MSI_RES_ID'', ''IDENTITY_ENDPOINT'', ''IDENTITY_HEADER'',
     ''IMDS_ENDPOINT'']"

definition azure_provider :: cloud_provider where
  "azure_provider = \<lparr>cp_kind = KARU_CREDENTIALS_AZURE, no_sign_option = ''AZURE_NO_SIGN_REQUEST'', anonymous_by_default = False,
     credential_options = AZURE_CREDENTIAL_OPTIONS\<rparr>"

definition SOURCE_CREDENTIAL_OPTIONS :: "string list" where
  "SOURCE_CREDENTIAL_OPTIONS = [''SOURCE_ACCESS_KEY_ID'', ''SOURCE_SECRET_ACCESS_KEY'', ''SOURCE_SESSION_TOKEN'', ''SOURCE_PROFILE'',
     ''SOURCE_SHARED_CREDENTIALS_FILE'', ''SOURCE_CONFIG_FILE'']"

definition source_provider :: cloud_provider where
  "source_provider = \<lparr>cp_kind = KARU_CREDENTIALS_SOURCE, no_sign_option = ''SOURCE_NO_SIGN_REQUEST'', anonymous_by_default = True,
     credential_options = SOURCE_CREDENTIAL_OPTIONS\<rparr>"

fun provider_of :: "backend \<Rightarrow> cloud_provider option" where
  "provider_of S3 = Some s3_provider"
| "provider_of Gcs = Some gcs_provider"
| "provider_of Azure = Some azure_provider"
| "provider_of Source = Some source_provider"
| "provider_of _ = None"

section \<open>Headers\<close>

definition range_header :: "u64 \<Rightarrow> u64 \<Rightarrow> string" where
  "range_header first len = ''bytes='' @ u64_string first @ ''-'' @ u64_string (first + len - 1)"

definition suffix_range_header :: "u64 \<Rightarrow> string" where
  "suffix_range_header len = ''bytes=-'' @ u64_string len"

definition valid_header :: "header \<Rightarrow> bool" where
  "valid_header h \<longleftrightarrow> fst h \<noteq> [] \<and> find_first_of [CHR '':'', CHR 0x0D, CHR 0x0A] (fst h) = None \<and>
     find_first_of [CHR 0x0D, CHR 0x0A] (snd h) = None"

definition protected_name :: "string \<Rightarrow> bool" where
  "protected_name n \<longleftrightarrow> n = ''authorization'' \<or> n = ''date'' \<or> n = ''if-match'' \<or> starts_with ''x-amz-'' n \<or>
     starts_with ''x-goog-'' n \<or> starts_with ''x-ms-'' n"

fun append_configured :: "bool \<Rightarrow> configured_header list \<Rightarrow> header list \<Rightarrow> header list request_result" where
  "append_configured protect [] hs = Inr hs"
| "append_configured protect (h # rest) hs =
     (if ch_malformed h then Inl (config_error ''KARU_HTTP_HEADERS contains a malformed header'')
      else (let n = ch_lowercase h
            in if n = ''host'' \<or> n = ''range'' \<or> list_ex (\<lambda>x. lower (fst x) = n) hs \<or> protect \<and> protected_name n
               then Inl (config_error (''KARU_HTTP_HEADERS cannot override Karu-managed header '' @ [quote_char] @ ch_name h @ [quote_char]))
               else append_configured protect rest (hs @ [(ch_name h, ch_value h)])))"

definition add_configured_headers :: "config_snapshot \<Rightarrow> bool \<Rightarrow> header list \<Rightarrow> header list request_result" where
  "add_configured_headers cfg protect hs =
     (if \<not> list_all valid_header hs then Inl (config_error ''a generated HTTP header is invalid'')
      else append_configured protect (cs_headers cfg) hs)"

section \<open>HTTP and Hugging Face\<close>

definition with_configured :: "config_snapshot \<Rightarrow> bool \<Rightarrow> prepared_request \<Rightarrow> prepared_request request_result" where
  "with_configured cfg protect p = and_then (add_configured_headers cfg protect (pr_headers p)) (\<lambda>hs. Inr (p\<lparr>pr_headers := hs\<rparr>))"

definition prepare_http :: "config_snapshot \<Rightarrow> resolved \<Rightarrow> string \<Rightarrow> prepared_request request_result" where
  "prepare_http cfg obj if_match = with_configured cfg False (new_request (res_target obj) (if_match_header if_match))"

text \<open>The file system: whether a path exists, or the error's message, and the content of a file that
  opens with whether its end was reached.\<close>

record files =
  file_exists :: "string \<Rightarrow> string + bool"
  file_content :: "string \<Rightarrow> (string \<times> bool) option"

definition path_exists :: "files \<Rightarrow> string \<Rightarrow> string \<Rightarrow> bool request_result" where
  "path_exists fs path purpose =
     (case file_exists fs path of
        Inl m \<Rightarrow> Inl (credential_error (purpose @ '': cannot inspect '' @ [quote_char] @ path @ [quote_char] @ '': '' @ m))
      | Inr b \<Rightarrow> Inr b)"

definition TEXT_LIMIT :: nat where "TEXT_LIMIT = 1048576"

text \<open>The reads of 4096 bytes; a short one is the last.\<close>

function read_chunks :: "string \<Rightarrow> string \<Rightarrow> string option" where
  "read_chunks acc rest =
     (let n = min 4096 (length rest)
      in if TEXT_LIMIT - length acc < n then None
         else if n < 4096 then Some (acc @ take n rest)
         else read_chunks (acc @ take n rest) (drop n rest))"
  by pat_completeness auto
termination
  by (relation "measure (length \<circ> snd)") auto

declare read_chunks.simps [simp del]

definition read_text_file :: "files \<Rightarrow> string \<Rightarrow> string \<Rightarrow> string request_result" where
  "read_text_file fs path purpose =
     (case file_content fs path of
        None \<Rightarrow> Inl (credential_error (purpose @ '': cannot open '' @ [quote_char] @ path @ [quote_char]))
      | Some (content, reached_end) \<Rightarrow>
          (case read_chunks [] content of
             None \<Rightarrow> Inl (credential_error (purpose @ '': file exceeds 1 MiB''))
           | Some s \<Rightarrow> (if reached_end then Inr s
                        else Inl (credential_error (purpose @ '': cannot read '' @ [quote_char] @ path @ [quote_char])))))"

definition hugging_face_token :: "files \<Rightarrow> config_builder \<Rightarrow> string \<Rightarrow> string request_result" where
  "hugging_face_token fs c path =
     (let token = config_option c path ''HF_TOKEN'' []; token_path = hugging_face_token_path c path
      in if token \<noteq> [] then Inr token
         else if token_path = [] then Inr []
         else and_then (path_exists fs token_path ''Hugging Face token'') (\<lambda>exists.
              if \<not> exists then Inr []
              else and_then (read_text_file fs token_path ''Hugging Face token'') (\<lambda>contents. Inr (trim contents))))"

definition prepare_hugging_face :: "files \<Rightarrow> config_snapshot \<Rightarrow> resolved \<Rightarrow> string \<Rightarrow> prepared_request request_result" where
  "prepare_hugging_face fs cfg obj if_match =
     (let c = cs_layers cfg; path = canonical_uri obj
      in and_then (http_endpoint (without_trailing_slash (config_option c path ''HF_ENDPOINT'' ''https://huggingface.co''))
                     ''HF_ENDPOINT'' True) (\<lambda>normalized.
         (let endpoint = without_trailing_slash normalized
          in and_then (split_url endpoint) (\<lambda>parts.
             if up_query parts \<noteq> [] then Inl (config_error ''HF_ENDPOINT cannot contain a query'')
             else and_then (hugging_face_token fs c path) (\<lambda>token.
               with_configured cfg True (new_request (endpoint @ res_target obj)
                 ((if token \<noteq> [] then [(''Authorization'', ''Bearer '' @ token)] else []) @ if_match_header if_match)))))))"

section \<open>S3 and Source\<close>

record request_context =
  rc_config :: config_builder
  rc_object :: resolved
  rc_credentials :: "provider_credentials option"
  rc_range :: string
  rc_region_hint :: string
  rc_if_match :: string
  rc_signing_time :: int

definition credential_region :: "request_context \<Rightarrow> string" where
  "credential_region ctx = (case rc_credentials ctx of None \<Rightarrow> [] | Some v \<Rightarrow> pc_region v)"

definition aws_region :: "request_context \<Rightarrow> string" where
  "aws_region ctx =
     (if rc_region_hint ctx = []
      then config_option (rc_config ctx) (canonical_uri (rc_object ctx)) ''AWS_REGION''
             (if credential_region ctx = [] then ''us-east-1'' else credential_region ctx)
      else rc_region_hint ctx)"

definition aws_credentials :: "request_context \<Rightarrow> provider_credentials option request_result" where
  "aws_credentials ctx =
     (let path = canonical_uri (rc_object ctx); get = (\<lambda>name. config_option (rc_config ctx) path name [])
      in if option_is_true (config_option (rc_config ctx) path ''AWS_NO_SIGN_REQUEST'' ''NO'') then Inr None
         else (let v = (case rc_credentials ctx of
                          Some v \<Rightarrow> v
                        | None \<Rightarrow> empty_credentials\<lparr>access_key_id := get ''AWS_ACCESS_KEY_ID'',
                                    secret_access_key := get ''AWS_SECRET_ACCESS_KEY'', session_token := get ''AWS_SESSION_TOKEN''\<rparr>)
               in if access_key_id v = [] \<or> secret_access_key v = []
                  then Inl (credential_error (path @ '': no AWS credentials; set AWS_ACCESS_KEY_ID and AWS_SECRET_ACCESS_KEY, install a custom provider, or set AWS_NO_SIGN_REQUEST=YES for a public object''))
                  else Inr (Some v)))"

definition prepare_aws ::
  "crypto \<Rightarrow> request_context \<Rightarrow> signing_key_cache \<Rightarrow> prepared_request request_result \<times> signing_key_cache" where
  "prepare_aws cr ctx k =
     (let path = canonical_uri (rc_object ctx);
          get = config_option (rc_config ctx) path;
          region = aws_region ctx;
          configured = get ''AWS_S3_ENDPOINT'' [];
          endpoint = (if configured = [] then ''s3.'' @ region @ ''.amazonaws.com'' else configured)
      in if \<not> valid_aws_region region then (Inl (config_error (path @ '': AWS region contains invalid characters'')), k)
         else case http_endpoint endpoint ''AWS_S3_ENDPOINT'' (option_is_true (get ''AWS_HTTPS'' ''YES'')) of
                Inl e \<Rightarrow> (Inl e, k)
              | Inr normalized \<Rightarrow>
                  (case aws_credentials ctx of
                     Inl e \<Rightarrow> (Inl e, k)
                   | Inr cred \<Rightarrow>
                       (let virtual_default = (configured = [] \<and> find_char CHR ''.'' (res_container (rc_object ctx)) = None);
                            virtual_hosting = option_is_true (get ''AWS_VIRTUAL_HOSTING'' (if virtual_default then ''YES'' else ''NO''));
                            request = \<lparr>sg_endpoint = normalized, sg_endpoint_option = ''AWS_S3_ENDPOINT'',
                              sg_bucket = res_container (rc_object ctx), sg_key = res_key (rc_object ctx), sg_region = region,
                              sg_virtual_hosting = virtual_hosting, sg_request_payer = get ''AWS_REQUEST_PAYER'' []\<rparr>
                        in case prepare_s3_get cr request cred (rc_range ctx) (rc_if_match ctx) (rc_signing_time ctx) k of
                             (Inl e, k') \<Rightarrow> (Inl e, k')
                           | (Inr p, k') \<Rightarrow> (Inr (p\<lparr>routing_region := region\<rparr>), k'))))"

definition prepare_source ::
  "crypto \<Rightarrow> request_context \<Rightarrow> signing_key_cache \<Rightarrow> prepared_request request_result \<times> signing_key_cache" where
  "prepare_source cr ctx k =
     (let path = canonical_uri (rc_object ctx); get = config_option (rc_config ctx) path
      in case http_endpoint (get ''SOURCE_ENDPOINT'' ''https://data.source.coop'') ''SOURCE_ENDPOINT'' True of
           Inl e \<Rightarrow> (Inl e, k)
         | Inr endpoint \<Rightarrow>
             (let region = get ''SOURCE_REGION'' (if credential_region ctx = [] then ''us-east-1'' else credential_region ctx)
              in if \<not> valid_aws_region region then (Inl (config_error (path @ '': Source region contains invalid characters'')), k)
                 else if (case rc_credentials ctx of Some v \<Rightarrow> access_key_id v = [] \<or> secret_access_key v = [] | None \<Rightarrow> False)
                   then (Inl (credential_error (path @ '': Source credentials require an access key and secret'')), k)
                 else prepare_s3_get cr \<lparr>sg_endpoint = endpoint, sg_endpoint_option = ''SOURCE_ENDPOINT'',
                        sg_bucket = res_container (rc_object ctx), sg_key = res_key (rc_object ctx), sg_region = region,
                        sg_virtual_hosting = False, sg_request_payer = []\<rparr>
                        (rc_credentials ctx) (rc_range ctx) (rc_if_match ctx) (rc_signing_time ctx) k))"

section \<open>Google Cloud Storage\<close>

definition gcs_headers :: "string \<Rightarrow> string \<Rightarrow> header list" where
  "gcs_headers if_match user_project =
     [(''Accept-Encoding'', ''gzip'')] @ if_match_header if_match @
     (if user_project \<noteq> [] then [(''x-goog-user-project'', user_project)] else [])"

definition gcs_credentials :: "config_builder \<Rightarrow> string \<Rightarrow> provider_credentials option \<Rightarrow> provider_credentials" where
  "gcs_credentials c path custom =
     (case custom of
        Some v \<Rightarrow> v
      | None \<Rightarrow> empty_credentials\<lparr>access_key_id := config_option c path ''GCS_HMAC_ACCESS_KEY_ID'' [],
                  secret_access_key := config_option c path ''GCS_HMAC_SECRET_ACCESS_KEY'' [],
                  bearer_token := config_option c path ''GCS_ACCESS_TOKEN'' []\<rparr>)"

definition gcs_string_to_sign :: "string \<Rightarrow> string \<Rightarrow> resolved \<Rightarrow> string" where
  "gcs_string_to_sign date user_project obj =
     ''GET'' @ [CHR 0x0A, CHR 0x0A, CHR 0x0A] @ date @ [CHR 0x0A] @
     (if user_project = [] then [] else ''x-goog-user-project:'' @ user_project @ [CHR 0x0A]) @
     ''/'' @ res_container obj @ ''/'' @ encode_path (res_key obj)"

definition prepare_gcs :: "crypto \<Rightarrow> request_context \<Rightarrow> prepared_request request_result" where
  "prepare_gcs cr ctx =
     (let obj = rc_object ctx; path = canonical_uri obj; get = config_option (rc_config ctx) path
      in and_then (http_endpoint (get ''GCS_ENDPOINT'' ''https://storage.googleapis.com'') ''GCS_ENDPOINT'' True) (\<lambda>endpoint.
         and_then (split_url endpoint) (\<lambda>parts.
           if up_query parts \<noteq> [] then Inl (config_error ''GCS_ENDPOINT cannot contain a query'')
           else (let url = append_object endpoint (res_container obj) (res_key obj);
                     user_project = get ''GCS_USER_PROJECT'' [];
                     headers = gcs_headers (rc_if_match ctx) user_project;
                     v = gcs_credentials (rc_config ctx) path (rc_credentials ctx);
                     date = rfc7231_date (rc_signing_time ctx)
                 in if option_is_true (get ''GCS_NO_SIGN_REQUEST'' ''NO'') then Inr (new_request url headers)
                    else if bearer_token v \<noteq> []
                      then Inr (without_redirects (new_request url (headers @ [(''Authorization'', ''Bearer '' @ bearer_token v)])))
                    else if access_key_id v \<noteq> [] \<and> secret_access_key v \<noteq> []
                      then and_then (hmac_sha1 cr (secret_access_key v) (gcs_string_to_sign date user_project obj)) (\<lambda>sig.
                             Inr (without_redirects (new_request url (headers @
                               [(''Date'', date), (''Authorization'', ''GOOG1 '' @ access_key_id v @ '':'' @ base64 cr sig)]))))
                    else Inl (credential_error (path @ '': no GCS credentials; set GCS_ACCESS_TOKEN, configure GCS_HMAC_ACCESS_KEY_ID/GCS_HMAC_SECRET_ACCESS_KEY, install a custom provider, or set GCS_NO_SIGN_REQUEST=YES''))))))"

section \<open>Azure\<close>

definition SERVICE_VERSION :: string where
  "SERVICE_VERSION = ''2023-11-03''"

lemma find_char_bound: "find_char c s = Some i \<Longrightarrow> i < length s"
  by (simp add: find_char_def find_if_Some_iff)

function connection_items :: "string \<Rightarrow> string list" where
  "connection_items s =
     (case find_char CHR '';'' s of None \<Rightarrow> [s] | Some i \<Rightarrow> take i s # connection_items (drop (i + 1) s))"
  by pat_completeness auto
termination
  by (relation "measure length") (auto dest: find_char_bound)

declare connection_items.simps [simp del]

text \<open>The first item of a name stays, as with \<open>emplace\<close>.\<close>

definition parse_connection_string :: "string \<Rightarrow> (string \<times> string) list" where
  "parse_connection_string s =
     List.map_filter (\<lambda>item. case find_char CHR ''='' item of
        None \<Rightarrow> None | Some i \<Rightarrow> Some (lower (take i item), drop (i + 1) item)) (connection_items s)"

definition connection_value :: "(string \<times> string) list \<Rightarrow> string \<Rightarrow> string" where
  "connection_value conn name = (case map_of conn name of None \<Rightarrow> [] | Some v \<Rightarrow> v)"

definition decode_base64 :: "crypto \<Rightarrow> string \<Rightarrow> string \<Rightarrow> bytes request_result" where
  "decode_base64 cr raw context =
     (let v = filter (\<lambda>c. \<not> is_space c) raw; bad = Inl (credential_error (context @ '' is not base64''))
      in if v = [] \<or> length v mod 4 \<noteq> 0 then bad
         else case evp_decode_block cr v of
                None \<Rightarrow> bad
              | Some bs \<Rightarrow> Inr (take (length bs - (if ends_with ''=='' v then 2 else if ends_with ''='' v then 1 else 0)) bs))"

definition azure_credentials ::
  "config_builder \<Rightarrow> string \<Rightarrow> (string \<times> string) list \<Rightarrow> provider_credentials option \<Rightarrow> provider_credentials" where
  "azure_credentials c path conn custom =
     (let v = (case custom of Some v \<Rightarrow> v | None \<Rightarrow> empty_credentials); get = config_option c path
      in v\<lparr>account_name := (if account_name v = [] then get ''AZURE_STORAGE_ACCOUNT'' (connection_value conn ''accountname'')
                           else account_name v),
           secret_access_key := (if secret_access_key v = []
                           then get ''AZURE_STORAGE_ACCESS_KEY'' (connection_value conn ''accountkey'') else secret_access_key v),
           sas_token := (if sas_token v = []
                           then get ''AZURE_STORAGE_SAS_TOKEN'' (connection_value conn ''sharedaccesssignature'') else sas_token v),
           bearer_token := (if bearer_token v = [] then get ''AZURE_STORAGE_ACCESS_TOKEN'' [] else bearer_token v)\<rparr>)"

definition azure_endpoint ::
  "config_builder \<Rightarrow> resolved \<Rightarrow> (string \<times> string) list \<Rightarrow> provider_credentials \<Rightarrow> string request_result" where
  "azure_endpoint c obj conn v =
     (let path = canonical_uri obj;
          configured = config_option c path ''AZURE_STORAGE_ENDPOINT'' [];
          endpoint = (if configured = [] then connection_value conn (if azure_dfs obj then ''dfsendpoint'' else ''blobendpoint'')
                      else configured)
      in if endpoint = []
         then (if account_name v = []
               then Inl (config_error (path @ '': Azure needs AZURE_STORAGE_ACCOUNT or an explicit endpoint''))
               else (let suffix0 = connection_value conn ''endpointsuffix'';
                         host_suffix = (if suffix0 = [] then ''core.windows.net'' else suffix0);
                         protocol0 = lower (connection_value conn ''defaultendpointsprotocol'');
                         protocol = (if protocol0 = [] then ''https'' else protocol0)
                     in if protocol \<noteq> ''http'' \<and> protocol \<noteq> ''https''
                        then Inl (config_error ''Azure DefaultEndpointsProtocol must be http or https'')
                        else Inr (protocol @ ''://'' @ account_name v @ (if azure_dfs obj then ''.dfs.'' else ''.blob.'') @ host_suffix)))
         else http_endpoint endpoint ''AZURE_STORAGE_ENDPOINT'' True)"

definition azure_string_to_sign :: "string \<Rightarrow> string \<Rightarrow> string \<Rightarrow> string \<Rightarrow> string \<Rightarrow> string" where
  "azure_string_to_sign if_match rng date account path =
     ''GET'' @ [CHR 0x0A] @
     concat (map (\<lambda>v. v @ [CHR 0x0A]) [[], [], [], [], [], [], [], if_match, [], [], rng]) @
     ''x-ms-date:'' @ date @ [CHR 0x0A] @ ''x-ms-version:'' @ SERVICE_VERSION @ [CHR 0x0A] @ ''/'' @ account @ path"

definition azure_sign ::
  "crypto \<Rightarrow> request_context \<Rightarrow> provider_credentials \<Rightarrow> string \<Rightarrow> header list \<Rightarrow> prepared_request request_result" where
  "azure_sign cr ctx v url headers =
     and_then (decode_base64 cr (secret_access_key v) ''AZURE_STORAGE_ACCESS_KEY'') (\<lambda>key.
     and_then (split_url url) (\<lambda>parts.
       (let date = rfc7231_date (rc_signing_time ctx)
        in and_then (hmac_sha256 cr key (azure_string_to_sign (rc_if_match ctx) (rc_range ctx) date (account_name v) (up_path parts))) (\<lambda>sig.
             Inr (without_redirects (new_request url (headers @
               [(''x-ms-date'', date), (''Authorization'', ''SharedKey '' @ account_name v @ '':'' @ base64 cr sig)])))))))"

definition prepare_azure :: "crypto \<Rightarrow> request_context \<Rightarrow> prepared_request request_result" where
  "prepare_azure cr ctx =
     (let obj = rc_object ctx; path = canonical_uri obj; c = rc_config ctx; get = config_option c path;
          conn = parse_connection_string (get ''AZURE_STORAGE_CONNECTION_STRING'' []);
          v = azure_credentials c path conn (rc_credentials ctx)
      in and_then (azure_endpoint c obj conn v) (\<lambda>endpoint.
         and_then (split_url endpoint) (\<lambda>parts.
           if up_query parts \<noteq> [] then Inl (config_error ''AZURE_STORAGE_ENDPOINT cannot contain a query'')
           else (let url = append_object endpoint (res_container obj) (res_key obj);
                     headers = if_match_header (rc_if_match ctx) @ [(''x-ms-version'', SERVICE_VERSION)]
                 in if option_is_true (get ''AZURE_NO_SIGN_REQUEST'' ''NO'') then Inr (new_request url headers)
                    else if sas_token v \<noteq> []
                      then Inr (without_redirects (new_request (url @ (if find_char CHR ''?'' url = None then ''?'' else ''&'') @
                             dropWhile (\<lambda>x. x = CHR ''?'' \<or> x = CHR ''&'') (sas_token v)) headers))
                    else if bearer_token v \<noteq> []
                      then Inr (without_redirects (new_request url (headers @ [(''Authorization'', ''Bearer '' @ bearer_token v)])))
                    else if account_name v = [] \<or> secret_access_key v = []
                      then Inl (credential_error (path @ '': no Azure credentials; configure a SAS, access token or account key, install a custom provider, or set AZURE_NO_SIGN_REQUEST=YES''))
                    else azure_sign cr ctx v url headers))))"

section \<open>Configured headers\<close>

lemma append_configured_new:
  "append_configured protect cs hs = Inr hs' \<Longrightarrow>
   hs' = hs @ map (\<lambda>h. (ch_name h, ch_value h)) cs \<and> (\<forall>h \<in> set cs. \<not> ch_malformed h) \<and>
   (\<forall>h \<in> set cs. ch_lowercase h \<noteq> ''host'' \<and> ch_lowercase h \<noteq> ''range'' \<and> (protect \<longrightarrow> \<not> protected_name (ch_lowercase h)))"
proof (induction cs arbitrary: hs)
  case (Cons h cs)
  let ?n = "ch_lowercase h"
  have ok: "\<not> ch_malformed h" "\<not> (?n = ''host'' \<or> ?n = ''range'' \<or> list_ex (\<lambda>x. lower (fst x) = ?n) hs \<or> protect \<and> protected_name ?n)"
    and rest: "append_configured protect cs (hs @ [(ch_name h, ch_value h)]) = Inr hs'"
    using Cons.prems unfolding append_configured.simps Let_def by (metis Inl_Inr_False)+
  show ?case using Cons.IH [OF rest] ok by (simp del: append_configured.simps)
qed simp

text \<open>A frozen configuration adds well-formed headers only, behind the generated ones, and no name the
  library manages.\<close>

lemma configured_headers_safe:
  assumes "freeze version_string b = Inr cfg" "add_configured_headers cfg protect hs = Inr hs'"
  shows "\<exists>new. hs' = hs @ new \<and> list_all valid_header hs' \<and>
    (\<forall>h \<in> set new. lower (fst h) \<noteq> ''host'' \<and> lower (fst h) \<noteq> ''range'' \<and> (protect \<longrightarrow> \<not> protected_name (lower (fst h))))"
proof -
  obtain text0 where cs: "cs_headers cfg = parse_configured_headers text0"
    using assms(1) unfolding freeze_def Let_def and_then_Inr by auto
  have a: "append_configured protect (cs_headers cfg) hs = Inr hs'" "list_all valid_header hs"
    using assms(2) by (auto simp: add_configured_headers_def split: if_splits)
  note new = append_configured_new [OF a(1)]
  have clean: "valid_header (ch_name h, ch_value h) \<and> ch_lowercase h = lower (ch_name h)" if h: "h \<in> set (cs_headers cfg)" for h
  proof -
    have c: "ch_name h \<noteq> [] \<and> CHR '':'' \<notin> set (ch_name h) \<and> ch_lowercase h = lower_text (ch_name h) \<and>
        (\<forall>c \<in> set (ch_name h) \<union> set (ch_value h). \<not> line_break c)"
      by (rule parsed_headers_clean [of _ text0]) (use h new cs in auto)
    then show ?thesis
      by (auto simp: valid_header_def find_first_of_def find_if_None line_break_def lower_def lower_text_def)
  qed
  show ?thesis
    by (rule exI [of _ "map (\<lambda>h. (ch_name h, ch_value h)) (cs_headers cfg)"])
      (use new clean a(2) in \<open>auto simp: list_all_iff\<close>)
qed

section \<open>Redirects carry no secrets\<close>

text \<open>
  What a request may show of credentials without authenticating: the account and the region. Only the credentials
  a loader or a callback returned are meant; what the configuration holds is the same on both sides of a comparison.
\<close>

definition public_part :: "provider_credentials \<Rightarrow> provider_credentials" where
  "public_part v = empty_credentials\<lparr>account_name := account_name v, pc_region := pc_region v\<rparr>"

definition public_context :: "request_context \<Rightarrow> request_context" where
  "public_context ctx = ctx\<lparr>rc_credentials := map_option public_part (rc_credentials ctx)\<rparr>"

lemma public_context_simps [simp]:
  "rc_config (public_context ctx) = rc_config ctx" "rc_object (public_context ctx) = rc_object ctx"
  "rc_range (public_context ctx) = rc_range ctx" "rc_region_hint (public_context ctx) = rc_region_hint ctx"
  "rc_if_match (public_context ctx) = rc_if_match ctx" "rc_signing_time (public_context ctx) = rc_signing_time ctx"
  "rc_credentials (public_context ctx) = map_option public_part (rc_credentials ctx)"
  "credential_region (public_context ctx) = credential_region ctx"
  by (simp_all add: public_context_def credential_region_def public_part_def empty_credentials_def split: option.split)

lemma prepare_s3_get_anonymous:
  assumes "prepare_s3_get cr req cred rng if_match now c = (Inr p, c')" "follow_redirects (pr_http p)"
  shows "cred = None"
  using prepare_s3_get_redirects [OF assms(1)] assms(2) by blast

lemma prepare_aws_public:
  assumes "prepare_aws cr ctx k = (Inr p, k')" "follow_redirects (pr_http p)"
  shows "fst (prepare_aws cr (public_context ctx) k) = Inr p"
proof -
  have region: "aws_region (public_context ctx) = aws_region ctx" by (simp add: aws_region_def)
  obtain cred where cred: "aws_credentials ctx = Inr cred"
    using assms(1) by (auto simp: prepare_aws_def Let_def split: if_splits sum.splits)
  have "cred = None"
    using assms cred prepare_s3_get_anonymous
    by (fastforce simp: prepare_aws_def Let_def split: if_splits sum.splits prod.splits)
  then have "option_is_true (config_option (rc_config ctx) (canonical_uri (rc_object ctx)) ''AWS_NO_SIGN_REQUEST'' ''NO'')"
    using cred by (auto simp: aws_credentials_def Let_def split: if_splits option.splits)
  then have same: "aws_credentials (public_context ctx) = aws_credentials ctx" by (simp add: aws_credentials_def)
  have "prepare_aws cr (public_context ctx) k = prepare_aws cr ctx k"
    unfolding prepare_aws_def region public_context_simps same ..
  with assms(1) show ?thesis by simp
qed

lemma prepare_source_public:
  assumes "prepare_source cr ctx k = (Inr p, k')" "follow_redirects (pr_http p)"
  shows "fst (prepare_source cr (public_context ctx) k) = Inr p"
proof -
  have "rc_credentials ctx = None"
    using assms prepare_s3_get_anonymous by (fastforce simp: prepare_source_def Let_def split: if_splits sum.splits)
  then have "public_context ctx = ctx" by (simp add: public_context_def)
  with assms(1) show ?thesis by simp
qed

lemma redirects_off [simp]: "\<not> follow_redirects (pr_http (without_redirects p))"
  by (simp add: without_redirects_def)

lemma prepare_gcs_public:
  assumes "prepare_gcs cr ctx = Inr p" "follow_redirects (pr_http p)"
  shows "prepare_gcs cr (public_context ctx) = Inr p"
proof -
  have "option_is_true (config_option (rc_config ctx) (canonical_uri (rc_object ctx)) ''GCS_NO_SIGN_REQUEST'' ''NO'')"
    using assms by (auto simp: prepare_gcs_def Let_def and_then_Inr split: if_splits)
  with assms(1) show ?thesis by (simp add: prepare_gcs_def Let_def cong: if_cong)
qed

lemma azure_account_public: "account_name (azure_credentials c path conn (map_option public_part cred)) = account_name (azure_credentials c path conn cred)"
  by (cases cred) (simp_all add: azure_credentials_def Let_def public_part_def)

lemma azure_endpoint_account: "account_name v = account_name w \<Longrightarrow> azure_endpoint c obj conn v = azure_endpoint c obj conn w"
  unfolding azure_endpoint_def by (simp only:)

lemma prepare_azure_public:
  assumes "prepare_azure cr ctx = Inr p" "follow_redirects (pr_http p)"
  shows "prepare_azure cr (public_context ctx) = Inr p"
proof -
  have "option_is_true (config_option (rc_config ctx) (canonical_uri (rc_object ctx)) ''AZURE_NO_SIGN_REQUEST'' ''NO'')"
    using assms by (auto simp: prepare_azure_def azure_sign_def Let_def and_then_Inr split: if_splits)
  with assms(1) show ?thesis
    using azure_endpoint_account [OF azure_account_public] by (simp add: prepare_azure_def Let_def cong: if_cong)
qed

end
