(* ===== verification/Karu_Request_Builder.thy ===== *)
theory Karu_Request_Builder
  imports Karu_Backends
begin

text \<open>
  The request builder, \<open>src/src/request_builder.cpp\<close>, with the copy of callback credentials of
  \<open>backends/credentials.cpp\<close>: from an object, its credentials and a range to the request libcurl sends. The
  answers of the credential cache are arguments, as its calls are steps of their own; the signing-key
  cache is passed along.
  The lemmas show that the range asked for is the range sent, and that a request which may follow redirects
  has nothing of the caller's secrets in it.
\<close>

section \<open>Statuses and callbacks\<close>

primrec karu_status_string :: "karu_status \<Rightarrow> string" where
  "karu_status_string KARU_OK = ''ok''"
| "karu_status_string KARU_END = ''batch drained''"
| "karu_status_string KARU_TIMEOUT = ''timed out''"
| "karu_status_string KARU_ERR_URI = ''malformed URI''"
| "karu_status_string KARU_ERR_UNSUPPORTED = ''unsupported virtual filesystem''"
| "karu_status_string KARU_ERR_INVALID = ''invalid argument''"
| "karu_status_string KARU_ERR_NOMEM = ''out of memory''"
| "karu_status_string KARU_ERR_IO = ''file error''"
| "karu_status_string KARU_ERR_NETWORK = ''network error''"
| "karu_status_string KARU_ERR_HTTP = ''http error''"
| "karu_status_string KARU_ERR_RANGE = ''range past end of object''"
| "karu_status_string KARU_ERR_AUTH = ''not authorized''"
| "karu_status_string KARU_ERR_CANCELLED = ''cancelled''"
| "karu_status_string KARU_ERR_CONFIG = ''invalid configuration''"
| "karu_status_string KARU_ERR_CREDENTIALS = ''credentials unavailable''"
| "karu_status_string KARU_ERR_NOT_FOUND = ''object not found''"
| "karu_status_string KARU_ERR_PRECONDITION = ''precondition failed''"

text \<open>What a callback left behind: null strings are \<^const>\<open>None\<close>.\<close>

record raw_credentials =
  raw_access_key_id :: "string option"
  raw_secret_access_key :: "string option"
  raw_session_token :: "string option"
  raw_bearer_token :: "string option"
  raw_sas_token :: "string option"
  raw_account_name :: "string option"
  raw_cache_prefix :: "string option"
  raw_expires_at :: int

definition copy_string :: "string option \<Rightarrow> string" where
  "copy_string v = (case v of None \<Rightarrow> [] | Some s \<Rightarrow> s)"

definition copy_callback_credentials :: "string \<Rightarrow> karu_status \<times> raw_credentials \<Rightarrow> provider_credentials request_result" where
  "copy_callback_credentials path answer =
     (case answer of (status, raw) \<Rightarrow>
        (if status \<noteq> KARU_OK
         then Inl \<lparr>re_status = (if status = KARU_END \<or> status = KARU_TIMEOUT then KARU_ERR_CREDENTIALS else status),
                   re_message = path @ '': custom credential provider returned '' @ karu_status_string status\<rparr>
         else Inr \<lparr>access_key_id = copy_string (raw_access_key_id raw), secret_access_key = copy_string (raw_secret_access_key raw),
                   session_token = copy_string (raw_session_token raw), bearer_token = copy_string (raw_bearer_token raw),
                   sas_token = copy_string (raw_sas_token raw), account_name = copy_string (raw_account_name raw),
                   pc_region = [], cache_prefix = copy_string (raw_cache_prefix raw), expires_at = raw_expires_at raw\<rparr>))"

section \<open>Credentials of an object\<close>

datatype credential_source = Anonymous | From_Custom int string | From_Native cloud_provider string

definition unsupported_backend :: request_error where
  "unsupported_backend = \<lparr>re_status = KARU_ERR_UNSUPPORTED, re_message = ''unsupported request backend''\<rparr>"

definition unsigned_request :: "config_builder \<Rightarrow> cloud_provider \<Rightarrow> string \<Rightarrow> bool" where
  "unsigned_request c provider path =
     (let configured = (snapshot_provider c (cp_kind provider) \<noteq> None \<or>
            anonymous_by_default provider \<and> list_ex (has_option c path) (credential_options provider))
      in if has_option c path (no_sign_option provider)
         then option_is_true (config_option c path (no_sign_option provider) [])
         else anonymous_by_default provider \<and> \<not> configured)"

definition credential_source :: "config_builder \<Rightarrow> resolved \<Rightarrow> credential_source request_result" where
  "credential_source c obj =
     (if res_backend obj = Http \<or> res_backend obj = HuggingFace then Inr Anonymous
      else case provider_of (res_backend obj) of
             None \<Rightarrow> Inl unsupported_backend
           | Some provider \<Rightarrow>
               (if unsigned_request c provider (canonical_uri obj) then Inr Anonymous
                else if snapshot_provider c (cp_kind provider) \<noteq> None then Inr (From_Custom (cp_kind provider) (canonical_uri obj))
                else Inr (From_Native provider (canonical_uri obj))))"

definition resolve_credentials ::
  "config_builder \<Rightarrow> (int \<Rightarrow> string \<Rightarrow> provider_credentials request_result) \<Rightarrow>
   (cloud_provider \<Rightarrow> string \<Rightarrow> provider_credentials request_result) \<Rightarrow> resolved \<Rightarrow> provider_credentials option request_result" where
  "resolve_credentials c custom native obj =
     and_then (credential_source c obj) (\<lambda>source.
       case source of
         Anonymous \<Rightarrow> Inr None
       | From_Custom kind path \<Rightarrow> and_then (custom kind path) (\<lambda>v. Inr (Some v))
       | From_Native provider path \<Rightarrow> and_then (native provider path) (\<lambda>v. Inr (Some v)))"

text \<open>The key that \<open>invalidate_credentials\<close> gives the cache.\<close>

definition invalidate_credentials :: "config_builder \<Rightarrow> resolved \<Rightarrow> credential_cache \<Rightarrow> credential_cache" where
  "invalidate_credentials c obj cache =
     (case provider_of (res_backend obj) of
        None \<Rightarrow> cache
      | Some provider \<Rightarrow> invalidate c provider (canonical_uri obj) (snapshot_provider c (cp_kind provider) \<noteq> None) cache)"

section \<open>Requests\<close>

definition apply_http_options :: "config_snapshot \<Rightarrow> prepared_request \<Rightarrow> prepared_request" where
  "apply_http_options cfg p =
     p\<lparr>pr_http := (cs_http cfg)\<lparr>follow_redirects := follow_redirects (pr_http p),
        same_origin_redirects_only := has_configured_headers cfg\<rparr>\<rparr>"

definition finish_request :: "config_snapshot \<Rightarrow> string \<Rightarrow> prepared_request \<Rightarrow> prepared_request" where
  "finish_request cfg rng p = apply_http_options cfg (p\<lparr>pr_range := rng\<rparr>)"

fun prepare_request ::
  "crypto \<Rightarrow> backend \<Rightarrow> request_context \<Rightarrow> signing_key_cache \<Rightarrow> prepared_request request_result \<times> signing_key_cache" where
  "prepare_request cr S3 ctx k = prepare_aws cr ctx k"
| "prepare_request cr Source ctx k = prepare_source cr ctx k"
| "prepare_request cr Gcs ctx k = (prepare_gcs cr ctx, k)"
| "prepare_request cr Azure ctx k = (prepare_azure cr ctx, k)"
| "prepare_request cr _ ctx k = (Inl unsupported_backend, k)"

text \<open>The services a request needs: OpenSSL, the file system and the time.\<close>

record services =
  sv_crypto :: crypto
  sv_files :: files
  sv_time :: int

definition materialize_range ::
  "services \<Rightarrow> config_snapshot \<Rightarrow> resolved \<Rightarrow> provider_credentials option \<Rightarrow> string \<Rightarrow> string \<Rightarrow> string \<Rightarrow> signing_key_cache \<Rightarrow>
   prepared_request request_result \<times> signing_key_cache" where
  "materialize_range sv cfg obj cred rng hint if_match k =
     (if res_backend obj = Http
      then (and_then (prepare_http cfg obj if_match) (\<lambda>p. Inr (finish_request cfg rng p)), k)
      else if res_backend obj = HuggingFace
      then (and_then (prepare_hugging_face (sv_files sv) cfg obj if_match) (\<lambda>p. Inr (finish_request cfg rng p)), k)
      else if provider_of (res_backend obj) = None then (Inl unsupported_backend, k)
      else (let ctx = \<lparr>rc_config = cs_layers cfg, rc_object = obj, rc_credentials = cred, rc_range = rng,
                  rc_region_hint = hint, rc_if_match = if_match, rc_signing_time = sv_time sv\<rparr>
            in case prepare_request (sv_crypto sv) (res_backend obj) ctx k of
                 (Inl e, k') \<Rightarrow> (Inl e, k')
               | (Inr p, k') \<Rightarrow> (and_then (with_configured cfg True p) (\<lambda>p'. Inr (finish_request cfg rng p')), k')))"

definition range_failure :: "string \<Rightarrow> request_error" where
  "range_failure m = \<lparr>re_status = KARU_ERR_RANGE, re_message = m\<rparr>"

definition range_overflows :: "u64 \<Rightarrow> u64 \<Rightarrow> bool" where
  "range_overflows first len \<longleftrightarrow> len = 0 \<or> u64_max - (len - 1) < first"

definition materialize ::
  "services \<Rightarrow> config_snapshot \<Rightarrow> resolved \<Rightarrow> provider_credentials option \<Rightarrow> u64 \<Rightarrow> u64 \<Rightarrow> string \<Rightarrow> string \<Rightarrow> signing_key_cache \<Rightarrow>
   prepared_request request_result \<times> signing_key_cache" where
  "materialize sv cfg obj cred first len hint if_match k =
     (if range_overflows first len then (Inl (range_failure ''HTTP range overflows''), k)
      else materialize_range sv cfg obj cred (range_header first len) hint if_match k)"

definition prepare ::
  "services \<Rightarrow> config_snapshot \<Rightarrow> provider_credentials option request_result \<Rightarrow> resolved \<Rightarrow> u64 \<Rightarrow> u64 \<Rightarrow> string \<Rightarrow> string \<Rightarrow>
   signing_key_cache \<Rightarrow> prepared_request request_result \<times> signing_key_cache" where
  "prepare sv cfg credentials obj first len hint if_match k =
     (if range_overflows first len then (Inl (range_failure ''HTTP range overflows''), k)
      else case credentials of
             Inl e \<Rightarrow> (Inl e, k)
           | Inr cred \<Rightarrow> materialize sv cfg obj cred first len hint if_match k)"

definition prepare_suffix ::
  "services \<Rightarrow> config_snapshot \<Rightarrow> provider_credentials option request_result \<Rightarrow> resolved \<Rightarrow> u64 \<Rightarrow> string \<Rightarrow> string \<Rightarrow>
   signing_key_cache \<Rightarrow> prepared_request request_result \<times> signing_key_cache" where
  "prepare_suffix sv cfg credentials obj len hint if_match k =
     (if len = 0 then (Inl (range_failure ''empty suffix range''), k)
      else case credentials of
             Inl e \<Rightarrow> (Inl e, k)
           | Inr cred \<Rightarrow> materialize_range sv cfg obj cred (suffix_range_header len) hint if_match k)"

section \<open>The range that is sent\<close>

lemma with_configured_http: "with_configured cfg protect p = Inr p' \<Longrightarrow> pr_http p' = pr_http p"
  by (auto simp: with_configured_def and_then_Inr)

lemma materialize_range_sent: "materialize_range sv cfg obj cred rng hint if_match k = (Inr p, k') \<Longrightarrow> pr_range p = rng"
  by (auto simp: materialize_range_def finish_request_def apply_http_options_def and_then_Inr Let_def split: if_splits sum.splits prod.splits)

text \<open>C40. A range is refused exactly when it is empty or its last byte is past the last 64-bit offset; every
  request made for a range asks for its first and its last byte, computed without wrap-around.\<close>

theorem materialized_range_exact:
  assumes "materialize sv cfg obj cred first len hint if_match k = (Inr p, k')"
  shows "0 < unat len \<and> unat first + unat len \<le> 2 ^ 64 \<and>
    pr_range p = ''bytes='' @ to_string (unat first) @ ''-'' @ to_string (unat first + unat len - 1)"
proof -
  have ok: "\<not> range_overflows first len" and m: "materialize_range sv cfg obj cred (range_header first len) hint if_match k = (Inr p, k')"
    using assms by (auto simp: materialize_def split: if_splits)
  have len: "0 < unat len" using ok by (simp add: range_overflows_def unat_pos_u64 [symmetric])
  then have l1: "unat (len - 1) = unat len - 1" by (simp add: unat_u64_sub)
  have "first \<le> u64_max - (len - 1)" using ok by (simp add: range_overflows_def not_less)
  then have sum: "unat (first + (len - 1)) = unat first + (unat len - 1)" using u64_add_guard l1 by metis
  then have "unat first + unat len \<le> 2 ^ 64" using unat_u64_less [of "first + (len - 1)"] len by simp
  moreover have "unat (first + len - 1) = unat first + unat len - 1" using sum len by (simp add: add_diff_eq)
  ultimately show ?thesis
    using len materialize_range_sent [OF m] by (simp add: range_header_def u64_string_def)
qed

section \<open>Redirects\<close>

lemma prepare_request_public:
  assumes "prepare_request cr b ctx k = (Inr p, k')" "follow_redirects (pr_http p)"
  shows "fst (prepare_request cr b (public_context ctx) k) = Inr p"
  using assms prepare_aws_public prepare_source_public prepare_gcs_public prepare_azure_public
  by (cases b) auto

text \<open>C39. A request for S3, Google Cloud Storage, Azure or Source that libcurl may redirect to another host
  has nothing of the secrets in it: made with credentials stripped of keys, tokens and signatures it
  would be the same request, URL and headers included. Signed requests never follow redirects.\<close>

theorem redirected_requests_hold_no_secret:
  assumes "materialize_range sv cfg obj cred rng hint if_match k = (Inr p, k')" "res_backend obj \<in> {S3, Gcs, Azure, Source}"
    "follow_redirects (pr_http p)"
  shows "fst (materialize_range sv cfg obj (map_option public_part cred) rng hint if_match k) = Inr p"
proof -
  define ctx where "ctx = \<lparr>rc_config = cs_layers cfg, rc_object = obj, rc_credentials = cred, rc_range = rng,
    rc_region_hint = hint, rc_if_match = if_match, rc_signing_time = sv_time sv\<rparr>"
  have pub: "public_context ctx = \<lparr>rc_config = cs_layers cfg, rc_object = obj, rc_credentials = map_option public_part cred,
      rc_range = rng, rc_region_hint = hint, rc_if_match = if_match, rc_signing_time = sv_time sv\<rparr>"
    by (simp add: public_context_def ctx_def)
  have b: "res_backend obj \<noteq> Http" "res_backend obj \<noteq> HuggingFace" "provider_of (res_backend obj) \<noteq> None" using assms(2) by auto
  obtain r k1 where r: "prepare_request (sv_crypto sv) (res_backend obj) ctx k = (r, k1)" by fastforce
  have step: "materialize_range sv cfg obj cred rng hint if_match k =
      (case r of Inl e \<Rightarrow> (Inl e, k1) | Inr q \<Rightarrow> (and_then (with_configured cfg True q) (\<lambda>p'. Inr (finish_request cfg rng p')), k1))"
    using b r unfolding materialize_range_def ctx_def [symmetric] Let_def by (auto split: sum.split)
  obtain q p' where q: "r = Inr q" "with_configured cfg True q = Inr p'" "p = finish_request cfg rng p'"
    using assms(1) [unfolded step] by (auto simp: and_then_Inr split: sum.splits)
  then have "follow_redirects (pr_http q)"
    using assms(3) with_configured_http [OF q(2)] by (simp add: finish_request_def apply_http_options_def)
  then have same: "fst (prepare_request (sv_crypto sv) (res_backend obj) (public_context ctx) k) = Inr q"
    using prepare_request_public r q(1) by blast
  then obtain k2 where "prepare_request (sv_crypto sv) (res_backend obj) (public_context ctx) k = (Inr q, k2)"
    by (metis prod.collapse)
  then show ?thesis
    using b q(2,3) unfolding materialize_range_def pub [symmetric] Let_def by auto
qed

section \<open>An example\<close>

text \<open>A public object of Google Cloud Storage, read without signing by a client that has a token.\<close>

definition sample_services :: services where
  "sample_services = \<lparr>sv_crypto = \<lparr>evp_sha256 = (\<lambda>_. None), hmac_evp_sha1 = (\<lambda>_ _. None), evp_encode_block = (\<lambda>bs. bs),
     evp_decode_block = (\<lambda>_. None)\<rparr>, sv_files = \<lparr>file_exists = (\<lambda>_. Inr False), file_content = (\<lambda>_. None)\<rparr>, sv_time = 0\<rparr>"

definition sample_snapshot :: config_snapshot where
  "sample_snapshot = \<lparr>cs_layers = empty_builder\<lparr>cb_explicit := [''GCS_NO_SIGN_REQUEST'' \<mapsto> ''YES'']\<rparr>, cs_client = default_client_options,
     cs_http = default_http_request_options, cs_headers = [], has_configured_headers = False\<rparr>"

definition sample_gcs_object :: resolved where
  "sample_gcs_object = empty_resolved\<lparr>res_backend := Gcs, canonical_uri := ''/vsigs/b/k'', res_container := ''b'', res_key := ''k''\<rparr>"

definition sample_token :: provider_credentials where
  "sample_token = empty_credentials\<lparr>bearer_token := ''secret''\<rparr>"

definition sample_prepared :: prepared_request where
  "sample_prepared = \<lparr>pr_url = ''https://storage.googleapis.com/b/k'', pr_headers = [(''Accept-Encoding'', ''gzip'')],
     pr_range = ''bytes=2-9'', pr_http = default_http_request_options, routing_region = []\<rparr>"

lemma sample_materialized:
  "materialize sample_services sample_snapshot sample_gcs_object (Some sample_token) 2 8 [] [] new_signing_cache =
     (Inr sample_prepared, new_signing_cache)"
  by code_simp

lemma sample_range_materialized:
  "materialize_range sample_services sample_snapshot sample_gcs_object (Some sample_token) ''bytes=2-9'' [] [] new_signing_cache =
     (Inr sample_prepared, new_signing_cache)"
  by code_simp

theorem materialized_range_exact_witness:
  "0 < unat (8 :: u64) \<and> unat (2 :: u64) + unat (8 :: u64) \<le> 2 ^ 64 \<and>
   pr_range sample_prepared = ''bytes='' @ to_string (unat (2 :: u64)) @ ''-'' @ to_string (unat (2 :: u64) + unat (8 :: u64) - 1)"
  by (rule materialized_range_exact [OF sample_materialized])

theorem redirected_requests_hold_no_secret_witness:
  "fst (materialize_range sample_services sample_snapshot sample_gcs_object (map_option public_part (Some sample_token)) ''bytes=2-9'' [] []
     new_signing_cache) = Inr sample_prepared"
  by (rule redirected_requests_hold_no_secret [OF sample_range_materialized])
    (simp_all add: sample_gcs_object_def sample_prepared_def default_http_request_options_def)

end
