(* ===== verification/Karu_Planner.thy ===== *)
theory Karu_Planner
  imports Karu_Types
begin

text \<open>
  The request planner, \<open>src/src/runtime/planner.cpp\<close>: validation of ranges against the locator
  window and 64-bit overflow, the stable sort by resource and offset, and the coalescing of nearby
  ranges into transfers. \<open>malloc\<close> is a parameter: the answer to the \<open>n\<close>-th allocation.
  The lemmas show that the comparator is a strict weak order, that every request becomes exactly one
  part or one immediate completion, and that every transfer spans its parts within the limits.
\<close>

section \<open>Stable sorting by a strict weak order\<close>

text \<open>\<open>std::stable_sort\<close> with a comparator: equivalent elements keep their order.\<close>

fun insert_stable :: "('a \<Rightarrow> 'a \<Rightarrow> bool) \<Rightarrow> 'a \<Rightarrow> 'a list \<Rightarrow> 'a list" where
  "insert_stable lt x [] = [x]"
| "insert_stable lt x (y # ys) = (if lt y x then y # insert_stable lt x ys else x # y # ys)"

definition stable_sort :: "('a \<Rightarrow> 'a \<Rightarrow> bool) \<Rightarrow> 'a list \<Rightarrow> 'a list" where
  "stable_sort lt xs = foldr (insert_stable lt) xs []"

lemma mset_insert_stable [simp]: "mset (insert_stable lt x xs) = add_mset x (mset xs)"
  by (induction xs) auto

lemma mset_stable_sort [simp]: "mset (stable_sort lt xs) = mset xs"
  by (induction xs) (simp_all add: stable_sort_def)

lemma set_insert_stable [simp]: "set (insert_stable lt x xs) = insert x (set xs)"
  by (metis mset_insert_stable set_mset_add_mset_insert set_mset_mset)

lemma set_stable_sort [simp]: "set (stable_sort lt xs) = set xs"
  by (metis mset_stable_sort set_mset_mset)

locale strict_weak_order =
  fixes lt :: "'a \<Rightarrow> 'a \<Rightarrow> bool"
  assumes irreflexive: "\<not> lt x x"
    and transitive: "lt x y \<Longrightarrow> lt y z \<Longrightarrow> lt x z"
    and not_less_transitive: "\<not> lt x y \<Longrightarrow> \<not> lt y z \<Longrightarrow> \<not> lt x z"
begin

lemma asymmetric: "lt x y \<Longrightarrow> \<not> lt y x"
  using irreflexive transitive by blast

lemma insert_stable_sorted:
  "sorted_wrt (\<lambda>a b. \<not> lt b a) xs \<Longrightarrow> sorted_wrt (\<lambda>a b. \<not> lt b a) (insert_stable lt x xs)"
proof (induction xs)
  case Nil
  then show ?case by simp
next
  case (Cons y ys)
  show ?case
  proof (cases "lt y x")
    case True
    with Cons show ?thesis using asymmetric by auto
  next
    case False
    with Cons show ?thesis using not_less_transitive by auto
  qed
qed

lemma stable_sort_sorted: "sorted_wrt (\<lambda>a b. \<not> lt b a) (stable_sort lt xs)"
  by (induction xs) (simp_all add: stable_sort_def insert_stable_sorted)

lemma insert_stable_equivalent:
  "sorted_wrt (\<lambda>a b. \<not> lt b a) xs \<Longrightarrow>
   filter (\<lambda>a. \<not> lt a k \<and> \<not> lt k a) (insert_stable lt x xs) =
   filter (\<lambda>a. \<not> lt a k \<and> \<not> lt k a) (x # xs)"
proof (induction xs)
  case Nil
  then show ?case by simp
next
  case (Cons y ys)
  show ?case
  proof (cases "lt y x")
    case True
    have "\<not> (\<not> lt x k \<and> \<not> lt k x \<and> \<not> lt y k \<and> \<not> lt k y)"
      using True not_less_transitive by blast
    with True Cons show ?thesis by auto
  next
    case False
    then show ?thesis by simp
  qed
qed

lemma stable_sort_equivalent:
  "filter (\<lambda>a. \<not> lt a k \<and> \<not> lt k a) (stable_sort lt xs) =
   filter (\<lambda>a. \<not> lt a k \<and> \<not> lt k a) xs"
proof (induction xs)
  case Nil
  then show ?case by (simp add: stable_sort_def)
next
  case (Cons x xs)
  have "filter (\<lambda>a. \<not> lt a k \<and> \<not> lt k a) (insert_stable lt x (stable_sort lt xs)) =
      filter (\<lambda>a. \<not> lt a k \<and> \<not> lt k a) (x # stable_sort lt xs)"
    by (rule insert_stable_equivalent [OF stable_sort_sorted])
  with Cons show ?case by (simp add: stable_sort_def)
qed

end

section \<open>Validation\<close>

record validated =
  v_request :: request
  v_absolute :: u64
  v_last :: u64

definition resource_key :: "request \<Rightarrow> backend \<times> string \<times> string" where
  "resource_key r = (res_backend (rq_locator r), canonical_uri (rq_locator r), rq_if_match r)"

definition same_resource :: "request \<Rightarrow> request \<Rightarrow> bool" where
  "same_resource l r \<longleftrightarrow>
     res_backend (rq_locator l) = res_backend (rq_locator r) \<and>
     canonical_uri (rq_locator l) = canonical_uri (rq_locator r) \<and> rq_if_match l = rq_if_match r"

definition resource_less :: "request \<Rightarrow> request \<Rightarrow> bool" where
  "resource_less l r \<longleftrightarrow> resource_key l < resource_key r"

definition shown_uri :: "resolved \<Rightarrow> string" where
  "shown_uri r = (if res_backend r = Http then redact_url (canonical_uri r) else canonical_uri r)"

definition range_error :: "request \<Rightarrow> string \<Rightarrow> string" where
  "range_error r reason =
     shown_uri (rq_locator r) @ '': range ['' @ u64_string (rq_offset r) @ '', +'' @
     u64_string (rq_length r) @ '') '' @ reason"

definition validate :: "request \<Rightarrow> string + validated" where
  "validate r =
     (let w = rq_locator r
      in if window_length w \<noteq> TO_END \<and>
            (window_length w < rq_offset r \<or> window_length w - rq_offset r < rq_length r)
         then Inl (range_error r ''leaves the locator window'')
         else if u64_max - window_offset w < rq_offset r
         then Inl (range_error r ''overflows its absolute offset'')
         else
           (let abs = window_offset w + rq_offset r
            in if u64_max - abs < rq_length r - 1
               then Inl (range_error r ''overflows its end offset'')
               else Inr \<lparr>v_request = r, v_absolute = abs, v_last = abs + rq_length r - 1\<rparr>))"

text \<open>The \<open>n\<close>-th call of \<open>malloc\<close> with a size answers a pointer, or null.\<close>

type_synonym malloc = "nat \<Rightarrow> u64 \<Rightarrow> addr option"

definition allocate_part :: "malloc \<Rightarrow> nat \<Rightarrow> part \<Rightarrow> bool \<times> nat \<times> part" where
  "allocate_part malloc n p =
     (if part_buffer p \<noteq> None then (True, n, p)
      else if u64_max < part_length p then (False, n, p)
      else (let a = malloc n (part_length p)
            in (a \<noteq> None, Suc n, p\<lparr>part_owned := a, part_buffer := a\<rparr>)))"

fun allocate_parts :: "malloc \<Rightarrow> nat \<Rightarrow> part list \<Rightarrow> (nat \<times> part list) option" where
  "allocate_parts malloc n [] = Some (n, [])"
| "allocate_parts malloc n (p # ps) =
     (case allocate_part malloc n p of
        (False, _, _) \<Rightarrow> None
      | (True, n', p') \<Rightarrow>
          (case allocate_parts malloc n' ps of None \<Rightarrow> None | Some (m, qs) \<Rightarrow> Some (m, p' # qs)))"

definition excessive_amplification :: "u64 \<Rightarrow> u64 \<Rightarrow> u64 \<Rightarrow> bool" where
  "excessive_amplification span useful maximum =
     (if u64_max div maximum < useful then False else useful * maximum < span)"

section \<open>Planning\<close>

definition ordered_before :: "validated \<Rightarrow> validated \<Rightarrow> bool" where
  "ordered_before l r =
     (if resource_less (v_request l) (v_request r) then True
      else if resource_less (v_request r) (v_request l) then False
      else v_absolute l < v_absolute r)"

definition merged_useful :: "u64 \<Rightarrow> u64 \<Rightarrow> u64" where
  "merged_useful useful len = (if u64_max - useful < len then u64_max else useful + len)"

definition part_for :: "u64 \<Rightarrow> validated \<Rightarrow> part" where
  "part_for off v = \<lparr>relative_offset = v_absolute v - off, part_length = rq_length (v_request v),
     part_buffer = rq_buffer (v_request v), part_tag = rq_tag (v_request v), part_owned = None\<rparr>"

definition gap_for :: "client_options \<Rightarrow> validated \<Rightarrow> u64" where
  "gap_for opt h = (if res_backend (rq_locator (v_request h)) = File then 0 else coalesce_gap opt)"

text \<open>
  The guards of one iteration of the coalescing loop, in the order of its breaks: \<open>absorbs\<close>
  holds when none of them stops the loop, for the head \<open>h\<close>, \<open>n\<close> parts, the last byte \<open>b\<close>
  they reach, \<open>u\<close> useful bytes and the candidate \<open>c\<close>.
\<close>

definition absorbs :: "client_options \<Rightarrow> validated \<Rightarrow> nat \<Rightarrow> u64 \<Rightarrow> u64 \<Rightarrow> validated \<Rightarrow> bool" where
  "absorbs opt h n b u c \<longleftrightarrow>
     (let merged_last = max b (v_last c);
          merged_length = merged_last - v_absolute h + 1
      in 0 < coalesce_gap opt \<and>
         same_resource (v_request h) (v_request c) \<and>
         \<not> (b < v_absolute c \<and> gap_for opt h < v_absolute c - b - 1) \<and>
         merged_last - v_absolute h \<noteq> u64_max \<and>
         \<not> (of_nat n = coalesce_parts opt \<or> coalesce_limit opt < merged_length \<or>
            excessive_amplification merged_length (merged_useful u (rq_length (v_request c)))
              (coalesce_amplification opt)))"

text \<open>
  The coalescing loop of one transfer: the parts so far, the last byte they reach and the useful
  bytes, over the requests that follow the head. The result is the parts, the last byte and the
  requests left for the next transfer.
\<close>

fun coalesce :: "client_options \<Rightarrow> validated \<Rightarrow> part list \<Rightarrow> u64 \<Rightarrow> u64 \<Rightarrow> validated list \<Rightarrow>
    part list \<times> u64 \<times> validated list" where
  "coalesce opt h ps b u [] = (ps, b, [])"
| "coalesce opt h ps b u (c # cs) =
     (if absorbs opt h (length ps) b u c
      then coalesce opt h (ps @ [part_for (v_absolute h) c]) (max b (v_last c))
             (merged_useful u (rq_length (v_request c))) cs
      else (ps, b, c # cs))"

definition is_scattered :: "part list \<Rightarrow> u64 \<Rightarrow> bool" where
  "is_scattered ps len \<longleftrightarrow> length ps \<noteq> 1 \<or> relative_offset (hd ps) \<noteq> 0 \<or> part_length (hd ps) \<noteq> len"

definition share_locator :: "resolved option \<Rightarrow> resolved \<Rightarrow> resolved" where
  "share_locator shared w =
     (case shared of
        Some s \<Rightarrow> (if res_backend s \<noteq> res_backend w \<or> canonical_uri s \<noteq> canonical_uri w then w else s)
      | None \<Rightarrow> w)"

lemma coalesce_length: "coalesce opt h ps b u cs = (ps', b', rest) \<Longrightarrow> length rest \<le> length cs"
proof (induction opt h ps b u cs rule: coalesce.induct)
  case (1 opt h ps b u)
  then show ?case by simp
next
  case (2 opt h ps b u c cs)
  then show ?case by (auto split: if_splits)
qed

function plan_loop :: "malloc \<Rightarrow> nat \<Rightarrow> client_options \<Rightarrow> nat \<Rightarrow> resolved option \<Rightarrow> validated list \<Rightarrow>
    karu_status \<times> transfer list" where
  "plan_loop malloc batch opt n shared [] = (KARU_OK, [])"
| "plan_loop malloc batch opt n shared (h # vs) =
     (let loc = share_locator shared (rq_locator (v_request h));
          (ps, last_byte, rest) =
            coalesce opt h [part_for (v_absolute h) h] (v_last h) (rq_length (v_request h)) vs;
          len = last_byte - v_absolute h + 1
      in case allocate_parts malloc n ps of
           None \<Rightarrow> (KARU_ERR_NOMEM, [])
         | Some (n', parts) \<Rightarrow>
             (let t = new_transfer\<lparr>t_batch := batch, t_locator := loc, t_offset := v_absolute h,
                        t_length := len, t_parts := parts, t_if_match := rq_if_match (v_request h),
                        scattered := is_scattered parts len\<rparr>;
                  (status, ts) = plan_loop malloc batch opt n' (Some loc) rest
              in (status, t # ts)))"
  by pat_completeness auto
termination
proof (relation "measure (\<lambda>(malloc, batch, opt, n, shared, vs). length vs)", goal_cases)
  case 1
  show ?case by simp
next
  case (2 malloc batch opt n shared h vs loc x ps y last_byte rest len a n' parts t)
  then have "coalesce opt h [part_for (v_absolute h) h] (v_last h) (rq_length (v_request h)) vs =
      (ps, last_byte, rest)"
    by simp
  from coalesce_length [OF this] show ?case by simp
qed

definition reject :: "request \<Rightarrow> karu_status \<Rightarrow> string \<Rightarrow> completion" where
  "reject r status detail = \<lparr>cp_tag = rq_tag r, cp_status = status, cp_got = 0,
     cp_buffer = rq_buffer r, cp_owned = None, cp_detail = detail\<rparr>"

fun screen_requests :: "request list \<Rightarrow> validated list \<times> completion list" where
  "screen_requests [] = ([], [])"
| "screen_requests (r # rs) =
     (let (valid, immediate) = screen_requests rs
      in if res_backend (rq_locator r) = File \<and> rq_if_match r \<noteq> []
         then (valid, reject r KARU_ERR_UNSUPPORTED (canonical_uri (rq_locator r) @
                 '': ETag preconditions are not available for local files'') # immediate)
         else case validate r of
                Inr v \<Rightarrow> (v # valid, immediate)
              | Inl detail \<Rightarrow> (valid, reject r KARU_ERR_RANGE detail # immediate))"

record transfer_plan =
  plan_status :: karu_status
  plan_immediate :: "completion list"
  plan_transfers_of :: "transfer list"

definition plan_transfers :: "malloc \<Rightarrow> nat \<Rightarrow> client_options \<Rightarrow> request list \<Rightarrow> transfer_plan" where
  "plan_transfers malloc batch opt requests =
     (let (valid, immediate) = screen_requests requests;
          (status, ts) = plan_loop malloc batch opt 0 None (stable_sort ordered_before valid)
      in \<lparr>plan_status = status, plan_immediate = immediate, plan_transfers_of = ts\<rparr>)"

section \<open>The comparator\<close>

text \<open>The comparator is the lexicographic order of resource and offset, so sorting is well defined.\<close>

definition order_key :: "validated \<Rightarrow> (backend \<times> string \<times> string) \<times> u64" where
  "order_key v = (resource_key (v_request v), v_absolute v)"

lemma lex_less_if:
  fixes a c :: "'a :: linorder" and b d :: "'b :: linorder"
  shows "(a, b) < (c, d) \<longleftrightarrow> (if a < c then True else if c < a then False else b < d)"
  by (auto simp: not_less)

lemma ordered_before_key: "ordered_before l r \<longleftrightarrow> order_key l < order_key r"
  by (simp only: ordered_before_def order_key_def resource_less_def lex_less_if)

lemma same_resource_key: "same_resource l r \<longleftrightarrow> resource_key l = resource_key r"
  by (simp add: same_resource_def resource_key_def)

interpretation request_order: strict_weak_order ordered_before
  by unfold_locales (auto simp: ordered_before_key)

lemma sorted_by_key: "sorted_wrt (\<lambda>a b. order_key a \<le> order_key b) (stable_sort ordered_before vs)"
  using request_order.stable_sort_sorted by (simp add: ordered_before_key not_less)

section \<open>Validation\<close>

definition fits :: "request \<Rightarrow> bool" where
  "fits r \<longleftrightarrow>
     (window_length (rq_locator r) = TO_END \<or>
        unat (rq_offset r) + unat (rq_length r) \<le> unat (window_length (rq_locator r))) \<and>
     unat (window_offset (rq_locator r)) + unat (rq_offset r) + unat (rq_length r) \<le> 2 ^ 64"

definition first_byte :: "request \<Rightarrow> nat" where
  "first_byte r = unat (window_offset (rq_locator r)) + unat (rq_offset r)"

definition exact :: "validated \<Rightarrow> bool" where
  "exact v \<longleftrightarrow> rq_length (v_request v) \<noteq> 0 \<and> fits (v_request v) \<and>
     unat (v_absolute v) = first_byte (v_request v) \<and>
     unat (v_last v) + 1 = first_byte (v_request v) + unat (rq_length (v_request v))"

lemma window_guard:
  "window_length w \<noteq> TO_END \<and> (window_length w < off \<or> window_length w - off < len) \<longleftrightarrow>
   \<not> (window_length w = TO_END \<or> unat off + unat (len :: u64) \<le> unat (window_length w))"
proof (cases "off \<le> window_length w")
  case True
  then have "unat (window_length w - off) = unat (window_length w) - unat off" by (rule unat_sub)
  with True show ?thesis by (auto simp: u64_simps)
next
  case False
  then show ?thesis by (auto simp: u64_simps)
qed

lemma unat_u64_minus1: "(a :: u64) \<noteq> 0 \<Longrightarrow> unat (a - 1) = unat a - 1"
  by (rule unat_minus_one)

lemma validate_fits:
  assumes "rq_length r \<noteq> 0"
  shows "validate r = (if fits r then Inr \<lparr>v_request = r,
        v_absolute = window_offset (rq_locator r) + rq_offset r,
        v_last = window_offset (rq_locator r) + rq_offset r + rq_length r - 1\<rparr>
      else Inl (range_error r
        (if \<not> (window_length (rq_locator r) = TO_END \<or>
                unat (rq_offset r) + unat (rq_length r) \<le> unat (window_length (rq_locator r)))
         then ''leaves the locator window''
         else if 2 ^ 64 \<le> first_byte r then ''overflows its absolute offset''
         else ''overflows its end offset'')))"
proof -
  let ?w = "rq_locator r" and ?off = "rq_offset r" and ?len = "rq_length r"
  have len: "unat (?len - 1) = unat ?len - 1" "0 < unat ?len"
    using assms by (simp_all add: unat_u64_minus1 unat_gt_0)
  have g1: "u64_max - window_offset ?w < ?off \<longleftrightarrow> 2 ^ 64 \<le> first_byte r"
    using unat_u64_le [of "window_offset ?w"] by (auto simp: u64_simps first_byte_def)
  have g2: "u64_max - (window_offset ?w + ?off) < ?len - 1 \<longleftrightarrow>
      2 ^ 64 < first_byte r + unat ?len" if "\<not> 2 ^ 64 \<le> first_byte r"
  proof -
    have "unat (window_offset ?w + ?off) = first_byte r"
      using that by (simp add: unat_u64_add first_byte_def)
    then show ?thesis using that len by (auto simp: u64_simps)
  qed
  show ?thesis
    unfolding validate_def Let_def window_guard g1
    using g2 len(2) by (auto simp: fits_def first_byte_def)
qed

lemma validate_exact:
  assumes "validate r = Inr v" "rq_length r \<noteq> 0"
  shows "exact v \<and> v_request v = r"
proof -
  let ?w = "rq_locator r" and ?off = "rq_offset r" and ?len = "rq_length r"
  from assms have f: "fits r" and v: "v = \<lparr>v_request = r, v_absolute = window_offset ?w + ?off,
      v_last = window_offset ?w + ?off + ?len - 1\<rparr>"
    by (auto simp: validate_fits split: if_splits)
  have len: "0 < unat ?len" using assms(2) by (simp add: unat_gt_0)
  have a: "unat (window_offset ?w + ?off) = first_byte r"
    using f len by (simp add: unat_u64_add first_byte_def fits_def)
  have "unat (window_offset ?w + ?off + (?len - 1)) = first_byte r + (unat ?len - 1)"
    using f len a assms(2)
    by (subst unat_u64_add) (auto simp: unat_u64_minus1 fits_def first_byte_def)
  then have "unat (window_offset ?w + ?off + ?len - 1) + 1 = first_byte r + unat ?len"
    using len by (simp add: add_diff_eq)
  with a f v assms(2) show ?thesis by (simp add: exact_def)
qed

definition accepted :: "request \<Rightarrow> bool" where
  "accepted r \<longleftrightarrow> \<not> (res_backend (rq_locator r) = File \<and> rq_if_match r \<noteq> []) \<and> fits r"

lemma screen_requests_spec:
  assumes "\<forall>r \<in> set rs. rq_length r \<noteq> 0"
  shows "map v_request (fst (screen_requests rs)) = filter accepted rs \<and>
    (\<forall>v \<in> set (fst (screen_requests rs)). exact v) \<and>
    map cp_tag (snd (screen_requests rs)) = map rq_tag (filter (\<lambda>r. \<not> accepted r) rs) \<and>
    (\<forall>c \<in> set (snd (screen_requests rs)). cp_status c = KARU_ERR_UNSUPPORTED \<or> cp_status c = KARU_ERR_RANGE)"
  using assms
proof (induction rs)
  case Nil
  then show ?case by simp
next
  case (Cons r rs)
  then have len: "rq_length r \<noteq> 0" by simp
  show ?case
  proof (cases "validate r")
    case (Inl d)
    then have "\<not> fits r" using validate_fits [OF len] by (auto split: if_splits)
    with Inl Cons show ?thesis
      by (auto simp: Let_def accepted_def reject_def split: prod.splits)
  next
    case (Inr v)
    then have "fits r" "exact v" "v_request v = r"
      using validate_fits [OF len] validate_exact [OF Inr len] by (auto split: if_splits)
    with Inr Cons show ?thesis
      by (auto simp: Let_def accepted_def reject_def split: prod.splits)
  qed
qed

section \<open>One transfer\<close>

text \<open>An invariant of the loop state that every absorbed request keeps holds for the result.\<close>

lemma coalesce_invariant:
  assumes "coalesce opt h (map (part_for (v_absolute h)) vs) b u cs = (ps', b', rest)"
    and "I vs b u"
    and step: "\<And>vs b u c. I vs b u \<Longrightarrow> absorbs opt h (length vs) b u c \<Longrightarrow> c \<in> set cs \<Longrightarrow>
      I (vs @ [c]) (max b (v_last c)) (merged_useful u (rq_length (v_request c)))"
  shows "\<exists>ab u'. cs = ab @ rest \<and> ps' = map (part_for (v_absolute h)) (vs @ ab) \<and> I (vs @ ab) b' u'"
  using assms
proof (induction cs arbitrary: vs b u)
  case Nil
  then show ?case by auto
next
  case (Cons c cs)
  show ?case
  proof (cases "absorbs opt h (length vs) b u c")
    case False
    with Cons.prems(1,2) show ?thesis by (auto simp: coalesce.simps)
  next
    case True
    let ?b = "max b (v_last c)" and ?u = "merged_useful u (rq_length (v_request c))"
    from True Cons.prems(1) have r: "coalesce opt h (map (part_for (v_absolute h)) (vs @ [c])) ?b ?u cs =
        (ps', b', rest)"
      by (simp add: coalesce.simps)
    have "I (vs @ [c]) ?b ?u"
      using Cons.prems(2) True by (rule Cons.prems(3)) simp
    from Cons.IH [OF r this Cons.prems(3)] obtain ab u' where
      "cs = ab @ rest" "ps' = map (part_for (v_absolute h)) ((vs @ [c]) @ ab)" "I ((vs @ [c]) @ ab) b' u'"
      by auto
    then show ?thesis by (intro exI [of _ "c # ab"] exI [of _ u']) simp
  qed
qed

text \<open>What the loop keeps true of the requests \<open>vs\<close> merged so far (the head first).\<close>

definition spans :: "validated list \<Rightarrow> u64 \<Rightarrow> bool" where
  "spans vs b \<longleftrightarrow> (\<forall>v \<in> set vs. unat (v_last v) \<le> unat b) \<and> (\<exists>v \<in> set vs. v_last v = b)"

definition gap_free :: "nat \<Rightarrow> validated list \<Rightarrow> nat \<Rightarrow> nat \<Rightarrow> bool" where
  "gap_free g vs lo hi \<longleftrightarrow>
     (\<forall>x. lo \<le> x \<and> x \<le> hi \<longrightarrow>
        (\<exists>v \<in> set vs. unat (v_absolute v) \<le> x \<and> x \<le> unat (v_last v) + g))"

lemma spans_step: "spans vs b \<Longrightarrow> spans (vs @ [c]) (max b (v_last c))"
  by (force simp: spans_def unat_max_u64 max_def u64_simps)

lemma gap_free_step:
  assumes "gap_free (unat g) vs lo (unat b)" "spans vs b"
    and a: "\<not> (b < v_absolute c \<and> g < v_absolute c - b - 1)"
    and o: "\<forall>v \<in> set vs. unat (v_absolute v) \<le> unat (v_last v)" "unat (v_absolute c) \<le> unat (v_last c)"
  shows "gap_free (unat g) (vs @ [c]) lo (unat (max b (v_last c)))"
  unfolding gap_free_def
proof (intro allI impI)
  fix x
  assume x: "lo \<le> x \<and> x \<le> unat (max b (v_last c))"
  have near: "unat (v_absolute c) \<le> unat b + 1 + unat g"
  proof (cases "b < v_absolute c")
    case True
    then have p: "unat (v_absolute c - b) = unat (v_absolute c) - unat b" "0 < unat (v_absolute c - b)"
      by (simp_all add: unat_u64_sub u64_simps)
    then have "unat (v_absolute c - b - 1) = unat (v_absolute c) - unat b - 1"
      by (metis unat_gt_0 unat_u64_minus1)
    with True a p show ?thesis by (auto simp: u64_simps)
  next
    case False
    then show ?thesis by (simp add: u64_simps)
  qed
  obtain w where w: "w \<in> set vs" "v_last w = b" using assms(2) by (auto simp: spans_def)
  show "\<exists>v \<in> set (vs @ [c]). unat (v_absolute v) \<le> x \<and> x \<le> unat (v_last v) + unat g"
  proof (cases "x \<le> unat b")
    case True
    with assms(1) x show ?thesis by (auto simp: gap_free_def)
  next
    case False
    with x have c: "x \<le> unat (v_last c)" by (auto simp: unat_max_u64 max_def split: if_splits)
    show ?thesis
    proof (cases "unat (v_absolute c) \<le> x")
      case True
      with c show ?thesis by auto
    next
      case 2: False
      with near False w o(1) show ?thesis by (intro bexI [of _ w]) auto
    qed
  qed
qed

subsection \<open>Limits\<close>

text \<open>The options \<open>freeze()\<close> accepts: at least one part, and an amplification of at least one.\<close>

definition usable_options :: "client_options \<Rightarrow> bool" where
  "usable_options opt \<longleftrightarrow> coalesce_parts opt \<noteq> 0 \<and> coalesce_amplification opt \<noteq> 0"

lemma excessive_amplification_iff:
  assumes "m \<noteq> 0"
  shows "excessive_amplification span useful m \<longleftrightarrow> unat useful * unat m < unat span"
proof (cases "u64_max div m < useful")
  case True
  have m: "0 < unat m" using assms by (simp add: unat_gt_0)
  have "unat (u64_max div m) = (2 ^ 64 - 1) div unat m"
    by (simp only: unat_div unat_u64_max)
  with True have "(2 ^ 64 - 1) div unat m < unat useful" by (simp add: u64_less_iff)
  then have "2 ^ 64 - 1 < unat useful * unat m"
    using m by (simp only: div_less_iff_less_mult)
  with unat_u64_le [of span] True show ?thesis
    by (simp add: excessive_amplification_def)
next
  case False
  then have "unat useful * unat m < 2 ^ 64"
    using div_lt' [of useful u64_max m] by (simp add: not_less)
  then have "unat (useful * m) = unat useful * unat m" by (rule unat_u64_mult)
  with False show ?thesis by (simp add: excessive_amplification_def u64_less_iff)
qed

definition useful_bytes :: "validated list \<Rightarrow> nat" where
  "useful_bytes vs = sum_list (map (\<lambda>v. unat (rq_length (v_request v))) vs)"

lemma merged_useful_min:
  "unat (merged_useful u len) = min (2 ^ 64 - 1) (unat u + unat len)"
proof (cases "u64_max - u < len")
  case True
  then show ?thesis
    using unat_u64_le [of u] by (auto simp: merged_useful_def u64_simps)
next
  case False
  then have "unat (len + u) = unat len + unat u"
    by (intro u64_add_guard) (simp add: not_less)
  with False show ?thesis
    using unat_u64_le [of u] by (auto simp: merged_useful_def u64_simps add.commute)
qed

text \<open>The invariant of the coalescing loop.\<close>

definition merged :: "client_options \<Rightarrow> validated \<Rightarrow> validated list \<Rightarrow> u64 \<Rightarrow> u64 \<Rightarrow> bool" where
  "merged opt h vs b u \<longleftrightarrow>
     vs \<noteq> [] \<and> hd vs = h \<and> spans vs b \<and>
     gap_free (unat (gap_for opt h)) vs (unat (v_absolute h)) (unat b) \<and>
     (\<forall>v \<in> set vs. exact v \<and> same_resource (v_request h) (v_request v) \<and>
        unat (v_absolute h) \<le> unat (v_absolute v)) \<and>
     unat u = min (2 ^ 64 - 1) (useful_bytes vs) \<and>
     length vs \<le> unat (coalesce_parts opt) \<and>
     (1 < length vs \<longrightarrow> unat (b - v_absolute h + 1) \<le> unat (coalesce_limit opt) \<and>
        unat (b - v_absolute h + 1) \<le> useful_bytes vs * unat (coalesce_amplification opt)) \<and>
     b - v_absolute h \<noteq> u64_max"

lemma exact_last: "exact v \<Longrightarrow> unat (v_absolute v) \<le> unat (v_last v)"
  by (auto simp: exact_def unat_pos_u64)

lemma merged_head:
  assumes "exact h" "usable_options opt"
  shows "merged opt h [h] (v_last h) (rq_length (v_request h))"
proof -
  have "1 \<le> unat (coalesce_parts opt)"
    using assms(2) by (simp add: usable_options_def unat_pos_u64 Suc_le_eq)
  moreover have "unat (v_last h - v_absolute h) + 1 = unat (rq_length (v_request h))"
    using assms(1) exact_last [OF assms(1)] unat_u64_sub [of "v_absolute h" "v_last h"]
    by (auto simp: exact_def)
  then have "v_last h - v_absolute h \<noteq> u64_max"
    using unat_u64_less [of "rq_length (v_request h)"] by (auto simp: unat_u64_max)
  ultimately show ?thesis
    using assms(1) exact_last [OF assms(1)] unat_u64_le [of "rq_length (v_request h)"]
    by (auto simp: merged_def spans_def gap_free_def useful_bytes_def same_resource_def)
qed

lemma merged_step:
  assumes m: "merged opt h vs b u" and a: "absorbs opt h (length vs) b u c"
    and c: "exact c" "unat (v_absolute h) \<le> unat (v_absolute c)" and opt: "usable_options opt"
  shows "merged opt h (vs @ [c]) (max b (v_last c)) (merged_useful u (rq_length (v_request c)))"
proof -
  let ?b = "max b (v_last c)" and ?u = "merged_useful u (rq_length (v_request c))"
  from a have g: "same_resource (v_request h) (v_request c)"
    "\<not> (b < v_absolute c \<and> gap_for opt h < v_absolute c - b - 1)" "?b - v_absolute h \<noteq> u64_max"
    "of_nat (length vs) \<noteq> coalesce_parts opt" "?b - v_absolute h + 1 \<le> coalesce_limit opt"
    "\<not> excessive_amplification (?b - v_absolute h + 1) ?u (coalesce_amplification opt)"
    by (simp_all add: absorbs_def Let_def not_less)
  have len: "length vs < unat (coalesce_parts opt)"
  proof -
    have le: "length vs \<le> unat (coalesce_parts opt)" using m by (simp add: merged_def)
    then have "unat (of_nat (length vs) :: u64) = length vs"
      using unat_u64_less [of "coalesce_parts opt"] by (intro unat_of_nat_u64) simp
    with g(4) have "length vs \<noteq> unat (coalesce_parts opt)"
      by (metis u64_eq_iff)
    with le show ?thesis by simp
  qed
  have u: "unat ?u = min (2 ^ 64 - 1) (useful_bytes (vs @ [c]))"
    using m by (auto simp: merged_useful_min merged_def useful_bytes_def)
  have "unat (?b - v_absolute h + 1) \<le> unat ?u * unat (coalesce_amplification opt)"
    using g(6) opt by (simp add: excessive_amplification_iff usable_options_def)
  also have "\<dots> \<le> useful_bytes (vs @ [c]) * unat (coalesce_amplification opt)"
    unfolding u by (rule mult_le_mono1) simp
  finally have amp: "unat (?b - v_absolute h + 1) \<le>
      useful_bytes (vs @ [c]) * unat (coalesce_amplification opt)" .
  have gap: "gap_free (unat (gap_for opt h)) (vs @ [c]) (unat (v_absolute h)) (unat ?b)"
    using m g(2) c(1) exact_last
    by (intro gap_free_step) (auto simp: merged_def)
  have lim: "unat (?b - v_absolute h + 1) \<le> unat (coalesce_limit opt)"
    using g(5) by (simp add: u64_le_iff)
  show ?thesis
    using m g(1,3) c len u amp gap lim spans_step [of vs b c]
    by (auto simp: merged_def)
qed

lemma coalesce_merged:
  assumes "coalesce opt h [part_for (v_absolute h) h] (v_last h) (rq_length (v_request h)) cs =
      (ps, b, rest)"
    and "exact h" "\<forall>c \<in> set cs. exact c \<and> (same_resource (v_request h) (v_request c) \<longrightarrow> unat (v_absolute h) \<le> unat (v_absolute c))"
    and "usable_options opt"
  shows "\<exists>ab u. cs = ab @ rest \<and> ps = map (part_for (v_absolute h)) (h # ab) \<and> merged opt h (h # ab) b u"
proof -
  have "\<exists>ab u'. cs = ab @ rest \<and> ps = map (part_for (v_absolute h)) ([h] @ ab) \<and> merged opt h ([h] @ ab) b u'"
  proof (rule coalesce_invariant [where I = "merged opt h"])
    show "coalesce opt h (map (part_for (v_absolute h)) [h]) (v_last h) (rq_length (v_request h)) cs = (ps, b, rest)"
      using assms(1) by simp
    show "merged opt h [h] (v_last h) (rq_length (v_request h))"
      using assms(2,4) by (simp add: merged_head)
    show "merged opt h (vs @ [c]) (max b (v_last c)) (merged_useful u (rq_length (v_request c)))"
      if "merged opt h vs b u" "absorbs opt h (length vs) b u c" "c \<in> set cs" for vs b u c
      using that assms(3,4) by (intro merged_step) (auto simp: absorbs_def Let_def)
  qed
  then show ?thesis by simp
qed

section \<open>The whole plan\<close>

definition shape :: "part \<Rightarrow> u64 \<times> u64 \<times> tag" where
  "shape p = (relative_offset p, part_length p, part_tag p)"

text \<open>The caller's buffer of a part: none when the part owns the memory it was given.\<close>

definition user_buffer :: "part \<Rightarrow> addr option" where
  "user_buffer p = (if part_owned p = None then part_buffer p else None)"

lemma allocate_part_ok:
  assumes "allocate_part malloc n p = (True, n', q)" "part_owned p = None"
  shows "shape q = shape p \<and> user_buffer q = part_buffer p \<and> part_buffer q \<noteq> None"
  using assms by (auto simp: allocate_part_def shape_def user_buffer_def Let_def split: if_splits)

lemma allocate_parts_ok:
  "allocate_parts malloc n ps = Some (n', qs) \<Longrightarrow> \<forall>p \<in> set ps. part_owned p = None \<Longrightarrow>
   map shape qs = map shape ps \<and> map user_buffer qs = map part_buffer ps \<and>
   (\<forall>q \<in> set qs. part_buffer q \<noteq> None)"
proof (induction malloc n ps arbitrary: qs n' rule: allocate_parts.induct)
  case (1 malloc n)
  then show ?case by simp
next
  case (2 malloc n p ps)
  from "2.prems"(1) obtain m q qs' where a: "allocate_part malloc n p = (True, m, q)"
    and r: "allocate_parts malloc m ps = Some (n', qs')" and qs: "qs = q # qs'"
    by (auto split: prod.splits bool.splits option.splits)
  have "map shape qs' = map shape ps \<and> map user_buffer qs' = map part_buffer ps \<and>
      (\<forall>q \<in> set qs'. part_buffer q \<noteq> None)"
    using "2.IH" [OF a [symmetric] refl refl r] "2.prems"(2) by simp
  with allocate_part_ok [OF a] "2.prems"(2) qs show ?case by simp
qed

definition transfer_key :: "transfer \<Rightarrow> backend \<times> string \<times> string" where
  "transfer_key t = (res_backend (t_locator t), canonical_uri (t_locator t), t_if_match t)"

lemma share_locator_same:
  "res_backend (share_locator shared w) = res_backend w"
  "canonical_uri (share_locator shared w) = canonical_uri w"
  by (auto simp: share_locator_def split: option.splits)

text \<open>\<open>built opt batch g t\<close>: the transfer \<open>t\<close> reads the group \<open>g\<close> of validated requests.\<close>

definition built :: "client_options \<Rightarrow> nat \<Rightarrow> validated list \<Rightarrow> transfer \<Rightarrow> bool" where
  "built opt batch g t \<longleftrightarrow>
     g \<noteq> [] \<and> t_batch t = batch \<and> transfer_key t = resource_key (v_request (hd g)) \<and>
     t_offset t = v_absolute (hd g) \<and>
     (\<exists>b u. merged opt (hd g) g b u \<and> t_length t = b - v_absolute (hd g) + 1) \<and>
     map shape (t_parts t) = map (shape \<circ> part_for (v_absolute (hd g))) g \<and>
     map user_buffer (t_parts t) = map (rq_buffer \<circ> v_request) g \<and>
     (\<forall>p \<in> set (t_parts t). part_buffer p \<noteq> None) \<and>
     scattered t = is_scattered (t_parts t) (t_length t)"

lemma sorted_head_least:
  assumes "sorted_wrt (\<lambda>a b. order_key a \<le> order_key b) (h # vs)" "c \<in> set vs"
    "same_resource (v_request h) (v_request c)"
  shows "unat (v_absolute h) \<le> unat (v_absolute c)"
  using assms by (auto simp: order_key_def same_resource_key u64_le_iff less_eq_prod_def)

lemma plan_loop_groups:
  assumes "plan_loop malloc batch opt n shared vs = (st, ts)" "usable_options opt"
    "\<forall>v \<in> set vs. exact v" "sorted_wrt (\<lambda>a b. order_key a \<le> order_key b) vs"
  shows "\<exists>gs. list_all2 (built opt batch) gs ts \<and> prefix (concat gs) vs \<and>
    (st = KARU_OK \<longrightarrow> concat gs = vs) \<and> (st = KARU_OK \<or> st = KARU_ERR_NOMEM)"
  using assms
proof (induction malloc batch opt n shared vs arbitrary: st ts rule: plan_loop.induct)
  case (1 malloc batch opt n shared)
  then show ?case by (intro exI [of _ "[]"]) simp
next
  case (2 malloc batch opt n shared h vs)
  let ?loc = "share_locator shared (rq_locator (v_request h))"
  obtain ps b rest where co: "coalesce opt h [part_for (v_absolute h) h] (v_last h)
      (rq_length (v_request h)) vs = (ps, b, rest)"
    by (metis prod_cases3)
  have "exact h" "\<forall>c \<in> set vs. exact c \<and>
      (same_resource (v_request h) (v_request c) \<longrightarrow> unat (v_absolute h) \<le> unat (v_absolute c))"
    using "2.prems"(3,4) sorted_head_least [OF "2.prems"(4)] by auto
  from coalesce_merged [OF co this "2.prems"(2)] obtain ab u where vs: "vs = ab @ rest"
    and ps: "ps = map (part_for (v_absolute h)) (h # ab)" and m: "merged opt h (h # ab) b u"
    by blast
  show ?case
  proof (cases "allocate_parts malloc n ps")
    case None
    with "2.prems"(1) co show ?thesis by (intro exI [of _ "[]"]) simp
  next
    case (Some a)
    obtain n' parts where a: "a = (n', parts)" by (cases a)
    let ?len = "b - v_absolute h + 1"
    define t where "t = new_transfer\<lparr>t_batch := batch, t_locator := ?loc, t_offset := v_absolute h,
      t_length := ?len, t_parts := parts, t_if_match := rq_if_match (v_request h),
      scattered := is_scattered parts ?len\<rparr>"
    obtain st' ts' where r: "plan_loop malloc batch opt n' (Some ?loc) rest = (st', ts')"
      by (cases "plan_loop malloc batch opt n' (Some ?loc) rest")
    have out: "st = st'" "ts = t # ts'"
      using "2.prems"(1) co Some a r by (simp_all add: t_def Let_def)
    have "\<exists>gs. list_all2 (built opt batch) gs ts' \<and> prefix (concat gs) rest \<and>
        (st' = KARU_OK \<longrightarrow> concat gs = rest) \<and> (st' = KARU_OK \<or> st' = KARU_ERR_NOMEM)"
      using "2.prems"(2,3,4) vs
      by (intro "2.IH" [OF refl co [symmetric] refl refl refl Some a [symmetric] refl r])
        (auto simp: sorted_wrt_append)
    then obtain gs where gs: "list_all2 (built opt batch) gs ts'" "prefix (concat gs) rest"
      "st' = KARU_OK \<longrightarrow> concat gs = rest" "st' = KARU_OK \<or> st' = KARU_ERR_NOMEM" by blast
    have "built opt batch (h # ab) t"
      using allocate_parts_ok [OF Some [unfolded a]] m ps
      by (auto simp: built_def t_def transfer_key_def resource_key_def share_locator_same
          part_for_def comp_def)
    with gs out vs show ?thesis
      by (intro exI [of _ "(h # ab) # gs"]) auto
  qed
qed

section \<open>What a transfer promises\<close>

text \<open>
  A transfer reads the bytes \<open>t_offset .. t_offset + t_length - 1\<close> of its object. Its parts lie
  inside, in the order of their offsets, the first at the start and one up to the end.
\<close>

definition wf_transfer :: "transfer \<Rightarrow> bool" where
  "wf_transfer t \<longleftrightarrow>
     t_parts t \<noteq> [] \<and> relative_offset (hd (t_parts t)) = 0 \<and>
     sorted (map (unat \<circ> relative_offset) (t_parts t)) \<and>
     (\<forall>p \<in> set (t_parts t). 0 < unat (part_length p) \<and>
        unat (relative_offset p) + unat (part_length p) \<le> unat (t_length t)) \<and>
     (\<exists>p \<in> set (t_parts t). unat (relative_offset p) + unat (part_length p) = unat (t_length t)) \<and>
     unat (t_offset t) + unat (t_length t) \<le> 2 ^ 64 \<and>
     (\<forall>p \<in> set (t_parts t). part_buffer p \<noteq> None)"

definition within_limits :: "client_options \<Rightarrow> transfer \<Rightarrow> bool" where
  "within_limits opt t \<longleftrightarrow>
     length (t_parts t) \<le> unat (coalesce_parts opt) \<and>
     (1 < length (t_parts t) \<longrightarrow>
        unat (t_length t) \<le> unat (coalesce_limit opt) \<and>
        unat (t_length t) \<le>
          sum_list (map (unat \<circ> part_length) (t_parts t)) * unat (coalesce_amplification opt))"

text \<open>Every byte read is at most a gap behind a byte some part asked for; local reads have no gaps.\<close>

definition close_to_parts :: "client_options \<Rightarrow> transfer \<Rightarrow> bool" where
  "close_to_parts opt t \<longleftrightarrow>
     (\<forall>x < unat (t_length t). \<exists>p \<in> set (t_parts t). unat (relative_offset p) \<le> x \<and>
        x < unat (relative_offset p) + unat (part_length p) +
            (if res_backend (t_locator t) = File then 0 else unat (coalesce_gap opt)))"

lemma map_shape_fields:
  assumes "map shape ps = map (shape \<circ> f) vs"
  shows "map relative_offset ps = map (relative_offset \<circ> f) vs"
    "map part_length ps = map (part_length \<circ> f) vs" "map part_tag ps = map (part_tag \<circ> f) vs"
    "length ps = length vs"
proof -
  have "map fst (map shape ps) = map fst (map (shape \<circ> f) vs)"
    "map (fst \<circ> snd) (map shape ps) = map (fst \<circ> snd) (map (shape \<circ> f) vs)"
    "map (snd \<circ> snd) (map shape ps) = map (snd \<circ> snd) (map (shape \<circ> f) vs)"
    "length (map shape ps) = length (map (shape \<circ> f) vs)"
    by (simp_all only: assms)
  then show "map relative_offset ps = map (relative_offset \<circ> f) vs"
    "map part_length ps = map (part_length \<circ> f) vs" "map part_tag ps = map (part_tag \<circ> f) vs"
    "length ps = length vs"
    by (simp_all add: shape_def comp_def)
qed

lemma shapes_cover:
  assumes "map shape ps = map (shape \<circ> part_for off) vs"
  shows "p \<in> set ps \<Longrightarrow> \<exists>v \<in> set vs. relative_offset p = v_absolute v - off \<and>
      part_length p = rq_length (v_request v)"
    and "v \<in> set vs \<Longrightarrow> \<exists>p \<in> set ps. relative_offset p = v_absolute v - off \<and>
      part_length p = rq_length (v_request v)"
proof -
  have s: "shape ` set ps = (shape \<circ> part_for off) ` set vs"
    using assms by (metis list.set_map)
  show "p \<in> set ps \<Longrightarrow> \<exists>v \<in> set vs. relative_offset p = v_absolute v - off \<and>
      part_length p = rq_length (v_request v)"
  proof -
    assume "p \<in> set ps"
    then have "shape p \<in> (shape \<circ> part_for off) ` set vs" using s by blast
    then show ?thesis by (auto simp: shape_def part_for_def)
  qed
  show "v \<in> set vs \<Longrightarrow> \<exists>p \<in> set ps. relative_offset p = v_absolute v - off \<and>
      part_length p = rq_length (v_request v)"
  proof -
    assume "v \<in> set vs"
    then have "shape (part_for off v) \<in> shape ` set ps" using s by auto
    then show ?thesis by (auto simp: shape_def part_for_def)
  qed
qed

lemma merged_ranges:
  assumes "merged opt h vs b u"
  shows "unat (b - v_absolute h + 1) = unat b - unat (v_absolute h) + 1"
    and "unat (v_absolute h) \<le> unat b"
    and "v \<in> set vs \<Longrightarrow> unat (v_absolute v - v_absolute h) = unat (v_absolute v) - unat (v_absolute h)"
    and "v \<in> set vs \<Longrightarrow> unat (v_absolute v) + unat (rq_length (v_request v)) = unat (v_last v) + 1"
proof -
  have ex: "\<forall>v \<in> set vs. exact v \<and> unat (v_absolute h) \<le> unat (v_absolute v)" "h \<in> set vs"
    using assms by (auto simp: merged_def)
  have "unat (v_last h) \<le> unat b"
    using assms ex(2) by (simp add: merged_def spans_def)
  with ex exact_last [of h] show le: "unat (v_absolute h) \<le> unat b" by simp
  have "unat (b - v_absolute h) + unat (1 :: u64) < 2 ^ 64"
    using assms unat_u64_le [of "b - v_absolute h"] u64_eq_iff [of "b - v_absolute h" u64_max]
    by (auto simp: merged_def unat_u64_max)
  then have "unat (b - v_absolute h + 1) = unat (b - v_absolute h) + unat (1 :: u64)"
    by (rule unat_u64_add)
  then show "unat (b - v_absolute h + 1) = unat b - unat (v_absolute h) + 1"
    using le by (simp add: unat_u64_sub)
  show "unat (v_absolute v - v_absolute h) = unat (v_absolute v) - unat (v_absolute h)" if "v \<in> set vs"
    using that ex by (simp add: unat_u64_sub)
  show "unat (v_absolute v) + unat (rq_length (v_request v)) = unat (v_last v) + 1" if "v \<in> set vs"
    using that ex by (auto simp: exact_def)
qed

lemma built_wf:
  assumes bt: "built opt batch g t" and so: "sorted_wrt (\<lambda>a b. order_key a \<le> order_key b) g"
  shows "wf_transfer t"
proof -
  obtain h where h: "hd g = h" by simp
  with bt have g: "g \<noteq> []" and off: "t_offset t = v_absolute h"
    and sh: "map shape (t_parts t) = map (shape \<circ> part_for (v_absolute h)) g"
    and bufs: "\<forall>p \<in> set (t_parts t). part_buffer p \<noteq> None"
    by (auto simp: built_def)
  from bt h obtain b u where m: "merged opt h g b u" and len: "t_length t = b - v_absolute h + 1"
    by (auto simp: built_def)
  note r = merged_ranges [OF m] and f = map_shape_fields [OF sh]
  have ne: "t_parts t \<noteq> []" using f(4) g by auto
  have "hd (map relative_offset (t_parts t)) = hd (map (relative_offset \<circ> part_for (v_absolute h)) g)"
    by (simp only: f(1))
  then have first: "relative_offset (hd (t_parts t)) = 0"
    using g h ne by (simp add: hd_map part_for_def)
  have same: "\<forall>v \<in> set g. resource_key (v_request v) = resource_key (v_request h)"
    using m by (auto simp: merged_def same_resource_key)
  have "sorted_wrt (\<lambda>a b. unat (v_absolute a - v_absolute h) \<le> unat (v_absolute b - v_absolute h)) g"
    using so by (rule sorted_wrt_mono_rel [rotated])
      (use same in \<open>auto simp: r(3) order_key_def less_eq_prod_def u64_le_iff\<close>)
  then have "sorted (map (unat \<circ> relative_offset \<circ> part_for (v_absolute h)) g)"
    by (simp add: sorted_map part_for_def)
  then have sorted: "sorted (map (unat \<circ> relative_offset) (t_parts t))"
    using f(1) by (metis comp_assoc map_map)
  have inside: "0 < unat (part_length p) \<and>
      unat (relative_offset p) + unat (part_length p) \<le> unat (t_length t)" if p: "p \<in> set (t_parts t)" for p
  proof -
    obtain v where v: "v \<in> set g" "relative_offset p = v_absolute v - v_absolute h"
      "part_length p = rq_length (v_request v)" using shapes_cover(1) [OF sh p] by blast
    have "0 < unat (rq_length (v_request v))" "unat (v_last v) \<le> unat b"
      using m v(1) by (auto simp: merged_def exact_def spans_def unat_pos_u64)
    with r(1,2) r(3,4) [OF v(1)] v m show ?thesis by (auto simp: len merged_def)
  qed
  have reach: "\<exists>p \<in> set (t_parts t). unat (relative_offset p) + unat (part_length p) = unat (t_length t)"
  proof -
    obtain v where v: "v \<in> set g" "v_last v = b" using m by (auto simp: merged_def spans_def)
    obtain p where "p \<in> set (t_parts t)" "relative_offset p = v_absolute v - v_absolute h"
      "part_length p = rq_length (v_request v)" using shapes_cover(2) [OF sh v(1)] by blast
    moreover have "unat (v_absolute h) \<le> unat (v_absolute v)" using m v(1) by (simp add: merged_def)
    ultimately show ?thesis
      using r(1,2) r(3,4) [OF v(1)] v(2) by (intro bexI [of _ p]) (auto simp: len)
  qed
  have "unat (t_offset t) + unat (t_length t) \<le> 2 ^ 64"
    using r(1,2) unat_u64_le [of b] by (simp add: off len)
  with ne first sorted inside reach bufs show ?thesis by (simp add: wf_transfer_def)
qed

lemma built_limits:
  assumes "built opt batch g t"
  shows "within_limits opt t"
proof -
  from assms obtain b u where m: "merged opt (hd g) g b u"
    and len: "t_length t = b - v_absolute (hd g) + 1"
    and sh: "map shape (t_parts t) = map (shape \<circ> part_for (v_absolute (hd g))) g"
    by (auto simp: built_def)
  note f = map_shape_fields [OF sh]
  have "map (unat \<circ> part_length) (t_parts t) = map (\<lambda>v. unat (rq_length (v_request v))) g"
    using arg_cong [OF f(2), of "map unat"] by (simp add: part_for_def comp_def)
  then show ?thesis
    using m f(4) by (auto simp: within_limits_def merged_def len useful_bytes_def)
qed

lemma built_close:
  assumes bt: "built opt batch g t"
  shows "close_to_parts opt t"
  unfolding close_to_parts_def
proof (intro allI impI)
  fix x
  assume x: "x < unat (t_length t)"
  let ?h = "hd g"
  from bt obtain b u where m: "merged opt ?h g b u" and len: "t_length t = b - v_absolute ?h + 1"
    and sh: "map shape (t_parts t) = map (shape \<circ> part_for (v_absolute ?h)) g"
    and key: "transfer_key t = resource_key (v_request ?h)"
    by (auto simp: built_def)
  note r = merged_ranges [OF m]
  have "unat (v_absolute ?h) + x \<le> unat b" using x r(1,2) by (simp add: len)
  moreover have "gap_free (unat (gap_for opt ?h)) g (unat (v_absolute ?h)) (unat b)"
    using m by (simp add: merged_def)
  ultimately obtain v where v: "v \<in> set g" "unat (v_absolute v) \<le> unat (v_absolute ?h) + x"
    "unat (v_absolute ?h) + x \<le> unat (v_last v) + unat (gap_for opt ?h)"
    unfolding gap_free_def by (meson le_add1)
  obtain p where "p \<in> set (t_parts t)" "relative_offset p = v_absolute v - v_absolute ?h"
      "part_length p = rq_length (v_request v)" using shapes_cover(2) [OF sh v(1)] by blast
  moreover have "unat (v_absolute ?h) \<le> unat (v_absolute v)" using m v(1) by (simp add: merged_def)
  moreover have "unat (gap_for opt ?h) =
      (if res_backend (t_locator t) = File then 0 else unat (coalesce_gap opt))"
    using key by (simp add: gap_for_def transfer_key_def resource_key_def)
  ultimately show "\<exists>p \<in> set (t_parts t). unat (relative_offset p) \<le> x \<and>
        x < unat (relative_offset p) + unat (part_length p) +
            (if res_backend (t_locator t) = File then 0 else unat (coalesce_gap opt))"
    using r(3,4) [OF v(1)] v(2,3) by (intro bexI [of _ p]) auto
qed

section \<open>Conservation of requests\<close>

text \<open>What a request asks for, and what a part of a transfer delivers: resource, first byte, length,
  tag and the caller's buffer.\<close>

definition request_what ::
    "request \<Rightarrow> (backend \<times> string \<times> string) \<times> u64 \<times> u64 \<times> tag \<times> addr option" where
  "request_what r = (resource_key r, window_offset (rq_locator r) + rq_offset r, rq_length r,
     rq_tag r, rq_buffer r)"

definition part_what ::
    "transfer \<Rightarrow> part \<Rightarrow> (backend \<times> string \<times> string) \<times> u64 \<times> u64 \<times> tag \<times> addr option" where
  "part_what t p = (transfer_key t, t_offset t + relative_offset p, part_length p, part_tag p,
     user_buffer p)"

lemma exact_absolute:
  assumes "exact v"
  shows "v_absolute v = window_offset (rq_locator (v_request v)) + rq_offset (v_request v)"
proof -
  have "0 < unat (rq_length (v_request v))" "fits (v_request v)"
    using assms by (simp_all add: exact_def unat_pos_u64)
  then have "unat (window_offset (rq_locator (v_request v)) + rq_offset (v_request v)) =
      first_byte (v_request v)"
    unfolding first_byte_def by (intro unat_u64_add) (auto simp: fits_def)
  with assms show ?thesis by (simp add: u64_eq_iff exact_def)
qed

lemma built_what:
  assumes "built opt batch g t"
  shows "map (part_what t) (t_parts t) = map (request_what \<circ> v_request) g"
proof -
  let ?f = "\<lambda>(s, b). (transfer_key t, t_offset t + fst s, fst (snd s), snd (snd s), b)"
  from assms obtain b u where m: "merged opt (hd g) g b u"
    and off: "t_offset t = v_absolute (hd g)"
    and sh: "map shape (t_parts t) = map (shape \<circ> part_for (v_absolute (hd g))) g"
    and ub: "map user_buffer (t_parts t) = map (rq_buffer \<circ> v_request) g"
    and key: "transfer_key t = resource_key (v_request (hd g))"
    by (auto simp: built_def)
  have "map (part_what t) (t_parts t) = map ?f (zip (map shape (t_parts t)) (map user_buffer (t_parts t)))"
    by (simp add: zip_map_map zip_same_conv_map shape_def part_what_def comp_def)
  also have "\<dots> = map ?f (zip (map (shape \<circ> part_for (v_absolute (hd g))) g) (map (rq_buffer \<circ> v_request) g))"
    by (simp only: sh ub)
  also have "\<dots> = map (request_what \<circ> v_request) g"
    using m exact_absolute
    by (auto simp: zip_map_map zip_same_conv_map shape_def part_for_def request_what_def off key
        merged_def same_resource_key)
  finally show ?thesis .
qed

lemma list_all2_what:
  "list_all2 (built opt batch) gs ts \<Longrightarrow>
   concat (map (\<lambda>t. map (part_what t) (t_parts t)) ts) = map (request_what \<circ> v_request) (concat gs)"
  by (induction rule: list_all2_induct) (simp_all add: built_what)

lemma plan_transfers_groups:
  fixes malloc :: malloc and batch :: nat and opt :: client_options and rs :: "request list"
  assumes "usable_options opt" "\<forall>r \<in> set rs. rq_length r \<noteq> 0"
  defines "plan \<equiv> plan_transfers malloc batch opt rs"
    and "valid \<equiv> stable_sort ordered_before (fst (screen_requests rs))"
  shows "\<exists>gs. list_all2 (built opt batch) gs (plan_transfers_of plan) \<and> prefix (concat gs) valid \<and>
    (plan_status plan = KARU_OK \<longrightarrow> concat gs = valid)"
proof -
  obtain st ts where l: "plan_loop malloc batch opt 0 None valid = (st, ts)"
    by (cases "plan_loop malloc batch opt 0 None valid")
  then have plan: "plan_status plan = st" "plan_transfers_of plan = ts"
    by (simp_all add: plan_def plan_transfers_def valid_def case_prod_beta)
  have "\<forall>v \<in> set valid. exact v"
    using screen_requests_spec [OF assms(2)] by (simp add: valid_def)
  moreover have "sorted_wrt (\<lambda>a b. order_key a \<le> order_key b) valid"
    unfolding valid_def by (rule sorted_by_key)
  ultimately show ?thesis
    using plan_loop_groups [OF l assms(1)] unfolding plan by blast
qed

lemma built_groups_wf:
  "list_all2 (built opt batch) gs ts \<Longrightarrow> sorted_wrt (\<lambda>a b. order_key a \<le> order_key b) (concat gs) \<Longrightarrow>
   \<forall>t \<in> set ts. wf_transfer t \<and> within_limits opt t \<and> close_to_parts opt t \<and> t_batch t = batch \<and>
     scattered t = is_scattered (t_parts t) (t_length t)"
proof (induction rule: list_all2_induct)
  case Nil
  then show ?case by simp
next
  case (Cons g gs t ts)
  then have so: "sorted_wrt (\<lambda>a b. order_key a \<le> order_key b) g"
    "sorted_wrt (\<lambda>a b. order_key a \<le> order_key b) (concat gs)"
    by (auto simp: sorted_wrt_append)
  have "t_batch t = batch" "scattered t = is_scattered (t_parts t) (t_length t)"
    using Cons(1) by (auto simp: built_def)
  with built_wf [OF Cons(1) so(1)] built_limits [OF Cons(1)] built_close [OF Cons(1)] Cons.IH [OF so(2)]
  show ?case by simp
qed

text \<open>The plan succeeds whenever every buffer the planner must allocate can be allocated.\<close>

definition allocatable :: "malloc \<Rightarrow> part \<Rightarrow> bool" where
  "allocatable malloc p \<longleftrightarrow> part_buffer p \<noteq> None \<or> (\<forall>n. malloc n (part_length p) \<noteq> None)"

lemma allocate_parts_succeeds:
  "\<forall>p \<in> set ps. allocatable malloc p \<Longrightarrow> \<exists>n' qs. allocate_parts malloc n ps = Some (n', qs)"
proof (induction ps arbitrary: n)
  case Nil
  then show ?case by simp
next
  case (Cons p ps)
  have "fst (allocate_part malloc n p)"
    using Cons.prems leD [OF u64_le_max [of "part_length p"]]
    by (auto simp: allocate_part_def allocatable_def Let_def)
  then obtain m q where a: "allocate_part malloc n p = (True, m, q)"
    by (metis prod.collapse)
  from Cons obtain n' qs where "allocate_parts malloc m ps = Some (n', qs)" by fastforce
  with a show ?case by simp
qed

lemma coalesce_parts_from:
  "coalesce opt h ps b u cs = (ps', b', rest) \<Longrightarrow>
   \<forall>p \<in> set ps. allocatable malloc p \<Longrightarrow>
   \<forall>c \<in> set cs. rq_buffer (v_request c) \<noteq> None \<or> (\<forall>n. malloc n (rq_length (v_request c)) \<noteq> None) \<Longrightarrow>
   (\<forall>p \<in> set ps'. allocatable malloc p) \<and> set rest \<subseteq> set cs"
proof (induction opt h ps b u cs rule: coalesce.induct)
  case (1 opt h ps b u)
  then show ?case by auto
next
  case (2 opt h ps b u c cs)
  show ?case
  proof (cases "absorbs opt h (length ps) b u c")
    case True
    with 2 show ?thesis by (auto simp: allocatable_def part_for_def)
  next
    case False
    with 2 show ?thesis by auto
  qed
qed

lemma plan_loop_succeeds:
  "\<forall>v \<in> set vs. rq_buffer (v_request v) \<noteq> None \<or> (\<forall>n. malloc n (rq_length (v_request v)) \<noteq> None) \<Longrightarrow>
   fst (plan_loop malloc batch opt n shared vs) = KARU_OK"
proof (induction malloc batch opt n shared vs rule: plan_loop.induct)
  case (1 malloc batch opt n shared)
  then show ?case by simp
next
  case (2 malloc batch opt n shared h vs)
  obtain ps b rest where co: "coalesce opt h [part_for (v_absolute h) h] (v_last h)
      (rq_length (v_request h)) vs = (ps, b, rest)"
    by (metis prod_cases3)
  have ok: "\<forall>p \<in> set ps. allocatable malloc p" "set rest \<subseteq> set vs"
    using coalesce_parts_from [OF co, of malloc] "2.prems" by (auto simp: allocatable_def part_for_def)
  then obtain n' parts where a: "allocate_parts malloc n ps = Some (n', parts)"
    using allocate_parts_succeeds by blast
  have "fst (plan_loop malloc batch opt n' (Some (share_locator shared (rq_locator (v_request h)))) rest) = KARU_OK"
    using "2.prems" ok(2) by (intro "2.IH" [OF refl co [symmetric] refl refl refl a refl refl]) auto
  with co a show ?case by (simp add: Let_def case_prod_beta)
qed

section \<open>The properties of the plan\<close>

text \<open>A concrete batch for the witnesses: two ranges of one object 100 bytes apart, the second with
  the caller's buffer, and one that leaves a window of 20 bytes.\<close>

definition sample_object :: resolved where
  "sample_object = empty_resolved\<lparr>res_backend := Http, canonical_uri := ''https://h/o'',
     res_target := ''https://h/o''\<rparr>"

definition sample_request :: "u64 \<Rightarrow> u64 \<Rightarrow> addr option \<Rightarrow> tag \<Rightarrow> request" where
  "sample_request off len buf tg = \<lparr>rq_locator = sample_object, rq_offset = off, rq_length = len,
     rq_buffer = buf, rq_tag = tg, rq_if_match = []\<rparr>"

definition sample_batch :: "request list" where
  "sample_batch = [sample_request 200 50 (Some 4096) 1, sample_request 0 100 None 2,
     (sample_request 15 10 None 3)\<lparr>rq_locator := sample_object\<lparr>window_length := 20\<rparr>\<rparr>]"

definition sample_malloc :: malloc where
  "sample_malloc n len = Some (65536 * Suc n)"

definition sample_plan :: transfer_plan where
  "sample_plan = plan_transfers sample_malloc 7 default_client_options sample_batch"

lemma sample_plan_values:
  "plan_status sample_plan = KARU_OK \<and> plan_transfers_of sample_plan \<noteq> [] \<and>
   length (t_parts (hd (plan_transfers_of sample_plan))) = 2 \<and>
   t_length (hd (plan_transfers_of sample_plan)) = 250"
  by code_simp

lemma sample_batch_ok: "usable_options default_client_options" "\<forall>r \<in> set sample_batch. rq_length r \<noteq> 0"
  by code_simp+

lemmas sample_defs = sample_object_def sample_request_def sample_batch_def empty_resolved_def

text \<open>
  C2. Every transfer the planner builds is well formed: its parts are sorted, non-empty, inside the
  range it reads, the first at its start and one up to its end, and each has a buffer; the transfer
  stays within the part, size and amplification limits, and no byte it reads is further than the
  coalescing gap behind a byte that was asked for (no gap at all for local files).
\<close>

theorem plan_transfers_wf:
  assumes "usable_options opt" "\<forall>r \<in> set rs. rq_length r \<noteq> 0"
    "t \<in> set (plan_transfers_of (plan_transfers malloc batch opt rs))"
  shows "wf_transfer t \<and> within_limits opt t \<and> close_to_parts opt t \<and> t_batch t = batch"
proof -
  let ?valid = "stable_sort ordered_before (fst (screen_requests rs))"
  obtain gs where gs: "list_all2 (built opt batch) gs (plan_transfers_of (plan_transfers malloc batch opt rs))"
    "prefix (concat gs) ?valid"
    using plan_transfers_groups [OF assms(1,2)] by blast
  have "sorted_wrt (\<lambda>a b. order_key a \<le> order_key b) (concat gs)"
    using gs(2) sorted_by_key [of "fst (screen_requests rs)"]
    by (auto simp: prefix_def sorted_wrt_append)
  from built_groups_wf [OF gs(1) this] assms(3) show ?thesis by blast
qed

theorem plan_transfers_wf_witness:
  "let t = hd (plan_transfers_of (plan_transfers sample_malloc 7 default_client_options sample_batch))
   in wf_transfer t \<and> within_limits default_client_options t \<and>
      close_to_parts default_client_options t \<and> length (t_parts t) = 2 \<and> t_length t = 250"
proof -
  let ?ts = "plan_transfers_of (plan_transfers sample_malloc 7 default_client_options sample_batch)"
  note v = sample_plan_values [unfolded sample_plan_def]
  have "hd ?ts \<in> set ?ts" using v by simp
  from plan_transfers_wf [OF sample_batch_ok this] v show ?thesis by (simp add: Let_def)
qed

text \<open>
  C1. Planning loses, duplicates and changes nothing: when it succeeds, the parts of all transfers
  are, as a multiset of resource, first byte, length, tag and caller buffer, exactly the requests
  that fit their window, and the others complete at once, in order, with their own tag.
\<close>

theorem plan_conserves_requests:
  assumes "usable_options opt" "\<forall>r \<in> set rs. rq_length r \<noteq> 0"
    "plan_status (plan_transfers malloc batch opt rs) = KARU_OK"
  shows "mset (concat (map (\<lambda>t. map (part_what t) (t_parts t))
           (plan_transfers_of (plan_transfers malloc batch opt rs)))) =
         mset (map request_what (filter accepted rs)) \<and>
         map cp_tag (plan_immediate (plan_transfers malloc batch opt rs)) =
         map rq_tag (filter (\<lambda>r. \<not> accepted r) rs)"
proof (rule conjI)
  let ?valid = "stable_sort ordered_before (fst (screen_requests rs))"
  obtain gs where gs: "list_all2 (built opt batch) gs (plan_transfers_of (plan_transfers malloc batch opt rs))"
    "concat gs = ?valid"
    using plan_transfers_groups [OF assms(1,2)] assms(3) by blast
  note sc = screen_requests_spec [OF assms(2)]
  have "mset (map (request_what \<circ> v_request) ?valid) =
      mset (map request_what (map v_request (fst (screen_requests rs))))"
    by simp
  with gs sc show "mset (concat (map (\<lambda>t. map (part_what t) (t_parts t))
           (plan_transfers_of (plan_transfers malloc batch opt rs)))) =
         mset (map request_what (filter accepted rs))"
    by (simp only: list_all2_what)
  show "map cp_tag (plan_immediate (plan_transfers malloc batch opt rs)) =
         map rq_tag (filter (\<lambda>r. \<not> accepted r) rs)"
    using sc by (simp add: plan_transfers_def case_prod_beta)
qed

theorem plan_conserves_requests_witness:
  "mset (concat (map (\<lambda>t. map (part_what t) (t_parts t))
     (plan_transfers_of (plan_transfers sample_malloc 7 default_client_options sample_batch)))) =
   mset (map request_what [sample_request 200 50 (Some 4096) 1, sample_request 0 100 None 2]) \<and>
   map cp_tag (plan_immediate (plan_transfers sample_malloc 7 default_client_options sample_batch)) = [3]"
proof -
  note v = sample_batch_ok sample_plan_values [unfolded sample_plan_def]
  have "filter accepted sample_batch =
      [sample_request 200 50 (Some 4096) 1, sample_request 0 100 None 2]"
    by (simp add: sample_defs accepted_def fits_def TO_END_def u64_max_def)
  moreover have "map rq_tag (filter (\<lambda>r. \<not> accepted r) sample_batch) = [3]"
    by (simp add: sample_defs accepted_def fits_def TO_END_def u64_max_def)
  ultimately show ?thesis
    using plan_conserves_requests [of default_client_options sample_batch sample_malloc 7] v by simp
qed

text \<open>
  C6. Planning fails only for memory: when every request brings its buffer or its length can be
  allocated, the status is \<open>KARU_OK\<close>.
\<close>

theorem plan_succeeds:
  assumes "\<forall>r \<in> set rs. rq_length r \<noteq> 0"
    "\<forall>r \<in> set rs. rq_buffer r \<noteq> None \<or> (\<forall>n. malloc n (rq_length r) \<noteq> None)"
  shows "plan_status (plan_transfers malloc batch opt rs) = KARU_OK"
proof -
  let ?valid = "stable_sort ordered_before (fst (screen_requests rs))"
  have "v_request v \<in> set rs" if "v \<in> set ?valid" for v
    using that screen_requests_spec [OF assms(1)]
    by (metis (no_types, lifting) filter_is_subset image_eqI list.set_map set_stable_sort subsetD)
  then have "fst (plan_loop malloc batch opt 0 None ?valid) = KARU_OK"
    using assms(2) by (intro plan_loop_succeeds) blast
  then show ?thesis by (simp add: plan_transfers_def case_prod_beta)
qed

theorem plan_succeeds_witness:
  "plan_status (plan_transfers sample_malloc 7 default_client_options sample_batch) = KARU_OK"
proof (rule plan_succeeds)
  show "\<forall>r \<in> set sample_batch. rq_length r \<noteq> 0" by code_simp
  show "\<forall>r \<in> set sample_batch. rq_buffer r \<noteq> None \<or> (\<forall>n. sample_malloc n (rq_length r) \<noteq> None)"
    by (simp add: sample_malloc_def)
qed

text \<open>
  C7. Validation accepts exactly the ranges that lie in the locator window and end below
  \<open>2 ^ 64\<close>, computes their first and last byte without wrap-around, and names the guard that
  refused any other.
\<close>

theorem validate_accepts_exactly:
  assumes "rq_length r \<noteq> 0"
  shows "case validate r of
      Inr v \<Rightarrow> fits r \<and> v_request v = r \<and> unat (v_absolute v) = first_byte r \<and>
        unat (v_last v) + 1 = first_byte r + unat (rq_length r)
    | Inl detail \<Rightarrow> \<not> fits r \<and> detail = range_error r
        (if \<not> (window_length (rq_locator r) = TO_END \<or>
                unat (rq_offset r) + unat (rq_length r) \<le> unat (window_length (rq_locator r)))
         then ''leaves the locator window''
         else if 2 ^ 64 \<le> first_byte r then ''overflows its absolute offset''
         else ''overflows its end offset'')"
proof (cases "validate r")
  case (Inl d)
  then show ?thesis using validate_fits [OF assms] by (auto split: if_splits)
next
  case (Inr v)
  then show ?thesis using validate_exact [OF Inr assms] by (auto simp: exact_def)
qed

theorem validate_accepts_exactly_witness:
  "fits (sample_request 200 50 None 1) \<and>
   (case validate (sample_request 200 50 None 1) of
      Inr v \<Rightarrow> unat (v_absolute v) = 200 \<and> unat (v_last v) = 249 | Inl _ \<Rightarrow> False)"
proof -
  have "rq_length (sample_request 200 50 None 1) \<noteq> 0" "fits (sample_request 200 50 None 1)"
    "first_byte (sample_request 200 50 None 1) = 200"
    "unat (rq_length (sample_request 200 50 None 1)) = 50"
    by (simp_all add: sample_defs fits_def first_byte_def TO_END_def)
  with validate_accepts_exactly [OF this(1)] show ?thesis
    by (cases "validate (sample_request 200 50 None 1)") simp_all
qed

text \<open>
  The planner's comparator sorts: its result is ordered by resource and first byte, is a
  permutation of its input, and requests for the same resource and byte keep the caller's order.
\<close>

theorem plan_order_stable:
  "sorted_wrt (\<lambda>a b. \<not> ordered_before b a) (stable_sort ordered_before vs) \<and>
   mset (stable_sort ordered_before vs) = mset vs \<and>
   filter (\<lambda>v. \<not> ordered_before v k \<and> \<not> ordered_before k v) (stable_sort ordered_before vs) =
   filter (\<lambda>v. \<not> ordered_before v k \<and> \<not> ordered_before k v) vs"
  by (intro conjI request_order.stable_sort_sorted mset_stable_sort request_order.stable_sort_equivalent)

end
