(* ===== verification/Karu_Http_Response.thy ===== *)
theory Karu_Http_Response
  imports Karu_Types
begin

text \<open>
  Judging an HTTP response, \<open>src/src/runtime/http_response.cpp\<close>: the classification of statuses and
  transport errors, the retry delays, transformed bodies, and the error a failed transfer reports.
  libcurl's date parser, its error texts and the random source are parameters.
\<close>

section \<open>Transport results\<close>

text \<open>The \<open>CURLcode\<close> values the sources name; any other code is \<open>CURLE_OTHER\<close>.\<close>

datatype curl_code =
    CURLE_OK
  | CURLE_OPERATION_TIMEDOUT
  | CURLE_COULDNT_CONNECT
  | CURLE_COULDNT_RESOLVE_HOST
  | CURLE_GOT_NOTHING
  | CURLE_SEND_ERROR
  | CURLE_RECV_ERROR
  | CURLE_PARTIAL_FILE
  | CURLE_SSL_CONNECT_ERROR
  | CURLE_HTTP2
  | CURLE_HTTP2_STREAM
  | CURLE_WRITE_ERROR
  | CURLE_FAILED_INIT
  | CURLE_OTHER nat

record transport_failure =
  f_status :: karu_status
  f_detail :: string

definition kErrorSummaryLimit :: nat where
  "kErrorSummaryLimit = 200"

definition kMaximumRetryAfterSeconds :: int where
  "kMaximumRetryAfterSeconds = 60"

definition kUnreachableAttempts :: int where
  "kUnreachableAttempts = 3"

section \<open>Bodies and encodings\<close>

definition coding :: "string \<Rightarrow> string" where
  "coding v = (if v = [] then ''identity'' else v)"

definition same_coding :: "string \<Rightarrow> string \<Rightarrow> bool" where
  "same_coding l r \<longleftrightarrow> map ascii_lower (coding l) = map ascii_lower (coding r)"

definition blank :: "char \<Rightarrow> bool" where
  "blank c \<longleftrightarrow> (of_char c :: nat) \<le> 32"

text \<open>The loop of \<open>summarize\<close>: the pending space, the result so far and the body left.\<close>

fun summarize_loop :: "bool \<Rightarrow> string \<Rightarrow> string \<Rightarrow> string" where
  "summarize_loop pending result [] = result"
| "summarize_loop pending result (c # cs) =
     (if blank c then summarize_loop True result cs
      else (let spaced = (if pending \<and> result \<noteq> [] then result @ '' '' else result);
                result' = spaced @ [c]
            in if length result' = kErrorSummaryLimit then result'
               else summarize_loop False result' cs))"

definition summarize :: "string \<Rightarrow> string" where
  "summarize body = summarize_loop False [] body"

definition transformed :: "encoding_headers \<Rightarrow> bool" where
  "transformed e \<longleftrightarrow> transformation_warning e \<or>
     (enc_stored e \<noteq> [] \<and> \<not> same_coding (enc_content e) (enc_stored e))"

definition transformation_detail :: "string \<Rightarrow> encoding_headers \<Rightarrow> string" where
  "transformation_detail url e =
     (if enc_stored e \<noteq> [] \<and> enc_content e = [] then
        url @ '': the server decoded an object stored with Content-Encoding '' @ enc_stored e @
        '' (GCS decompressive transcoding), so the body is not the stored bytes; '' @
        ''read it through gs:// or send '' @ [CHR 0x27] @ ''Accept-Encoding: '' @ enc_stored e @
        [CHR 0x27] @ '' with KARU_HTTP_HEADERS''
      else if enc_stored e \<noteq> [] \<and> \<not> same_coding (enc_content e) (enc_stored e) then
        url @ '': the server sent Content-Encoding '' @ enc_content e @
        '' for an object stored as '' @ coding (enc_stored e) @ '', so the body is not the stored bytes''
      else
        url @ '': the response carries Warning 214 (transformation applied), so the '' @
        ''body is not the stored bytes'')"

section \<open>Classification\<close>

definition status_for_http :: "int \<Rightarrow> karu_status" where
  "status_for_http status =
     (if status = 401 \<or> status = 403 then KARU_ERR_AUTH
      else if status = 404 then KARU_ERR_NOT_FOUND
      else if status = 412 then KARU_ERR_PRECONDITION
      else if status = 416 then KARU_ERR_RANGE
      else KARU_ERR_HTTP)"

fun transient :: "curl_code \<Rightarrow> int \<Rightarrow> bool" where
  "transient CURLE_OPERATION_TIMEDOUT _ = True"
| "transient CURLE_COULDNT_CONNECT _ = True"
| "transient CURLE_COULDNT_RESOLVE_HOST _ = True"
| "transient CURLE_GOT_NOTHING _ = True"
| "transient CURLE_SEND_ERROR _ = True"
| "transient CURLE_RECV_ERROR _ = True"
| "transient CURLE_PARTIAL_FILE _ = True"
| "transient CURLE_SSL_CONNECT_ERROR _ = True"
| "transient CURLE_HTTP2 _ = True"
| "transient CURLE_HTTP2_STREAM _ = True"
| "transient _ status \<longleftrightarrow>
     status = 408 \<or> status = 425 \<or> status = 429 \<or> (500 \<le> status \<and> status < 600)"

definition s3_region :: "string \<Rightarrow> string" where
  "s3_region body =
     (case find_sub ''<Region>'' body of
        None \<Rightarrow> []
      | Some first \<Rightarrow>
          (let begin = first + length ''<Region>''
           in case find_sub_from ''</Region>'' begin body of
                None \<Rightarrow> []
              | Some e \<Rightarrow> substr begin (Some (e - begin)) body))"

definition credentials_expired :: "backend \<Rightarrow> int \<Rightarrow> string \<Rightarrow> bool" where
  "credentials_expired b status body =
     (if status = 401 \<and> (b = Gcs \<or> b = Azure \<or> b = Source) then True
      else if status \<noteq> 403 \<or> (b \<noteq> S3 \<and> b \<noteq> Source) then False
      else contains_sub ''<Code>ExpiredToken</Code>'' body \<or>
           contains_sub ''<Code>InvalidToken</Code>'' body \<or>
           contains_sub ''<Code>RequestExpired</Code>'' body)"

definition transfer_credentials_expired :: "transfer \<Rightarrow> bool" where
  "transfer_credentials_expired t =
     credentials_expired (res_backend (t_locator t)) (http_status (t_response t)) (error_body (t_response t))"

text \<open>
  \<open>getdate\<close> is \<open>curl_getdate\<close>, which answers \<open>-1\<close> for a date it cannot read. It sees the value up
  to its first NUL, the end of the copied C string.
\<close>

definition retry_after_seconds :: "(string \<Rightarrow> int) \<Rightarrow> string \<Rightarrow> int \<Rightarrow> int" where
  "retry_after_seconds getdate value now =
     (case from_chars_signed 64 value of
        Some (seconds, []) \<Rightarrow> (if seconds \<le> 0 then 0 else min seconds (2 ^ 31 - 1))
      | _ \<Rightarrow>
          (if 128 \<le> length value then 0
           else (let when = getdate (takeWhile (\<lambda>c. c \<noteq> CHR 0x00) value)
                 in if when = -1 \<or> when \<le> now then 0 else min (when - now) (2 ^ 31 - 1))))"

text \<open>
  The delay before the next attempt, in milliseconds. \<open>jitter b\<close> is the draw of
  \<open>std::uniform_int_distribution<int>(0, b)\<close>.
\<close>

definition retry_delay :: "int \<Rightarrow> int \<Rightarrow> (int \<Rightarrow> int) \<Rightarrow> int" where
  "retry_delay att after jitter =
     (let requested = max 0 (min after kMaximumRetryAfterSeconds)
      in if 0 < requested then 1000 * requested + jitter 1000
         else (let base = 100 * 2 ^ nat (max 0 (min att 6)) in base + jitter base))"

section \<open>The outcome of a transfer\<close>

definition succeeded :: "transfer \<Rightarrow> curl_code \<Rightarrow> bool" where
  "succeeded t code =
     (let r = t_response t
      in if \<not> (code = CURLE_OK \<or> satisfied r) \<or> http_status r < 200 \<or> 300 \<le> http_status r then False
         else if transformed (encoding r) then False
         else if http_status r \<noteq> 206 then True
         else if \<not> content_range_matches r then False
         else received t - resumed t = content_range_end r - content_range_start r + 1)"

definition retryable :: "transfer \<Rightarrow> curl_code \<Rightarrow> bool" where
  "retryable t code =
     (let r = t_response t
      in if transient code (http_status r) then True
         else if t_if_match t = [] \<and>
                 (version_changed r \<or> (http_status r = 412 \<and> resume_etag t \<noteq> [])) then True
         else http_status r = 400 \<and> contains_sub ''RequestTimeout'' (error_body r))"

definition unreachable :: "curl_code \<Rightarrow> bool" where
  "unreachable code \<longleftrightarrow> code = CURLE_COULDNT_RESOLVE_HOST \<or> code = CURLE_COULDNT_CONNECT"

text \<open>
  \<open>error_text\<close> is the transfer's libcurl error buffer and \<open>strerror\<close> is \<open>curl_easy_strerror\<close>.
\<close>

definition curl_message :: "(curl_code \<Rightarrow> string) \<Rightarrow> string \<Rightarrow> curl_code \<Rightarrow> string" where
  "curl_message strerror error_text code = (if error_text \<noteq> [] then error_text else strerror code)"

definition content_range_failure :: "transfer \<Rightarrow> string" where
  "content_range_failure t =
     (let r = t_response t;
          requested_first = u64_string (t_offset t + resumed t);
          requested_end = u64_string (t_offset t + t_length t - 1)
      in if \<not> content_range_seen r then
           '': missing Content-Range for requested ['' @ requested_first @ '', '' @ requested_end @ '']''
         else if \<not> content_range_valid r then
           '': malformed Content-Range for requested ['' @ requested_first @ '', '' @ requested_end @ '']''
         else
           '': Content-Range ['' @ u64_string (content_range_start r) @ '', '' @
           u64_string (content_range_end r) @ ''] does not satisfy requested ['' @
           requested_first @ '', '' @ requested_end @ '']'')"

definition transfer_failure ::
    "(curl_code \<Rightarrow> string) \<Rightarrow> string \<Rightarrow> transfer \<Rightarrow> curl_code \<Rightarrow> transport_failure" where
  "transfer_failure strerror error_text t code =
     (let r = t_response t;
          url = redact_url (request_url t);
          message = curl_message strerror error_text code
      in if redirect_blocked r then
           \<lparr>f_status = KARU_ERR_HTTP,
            f_detail = url @ '': cross-origin redirect blocked because KARU_HTTP_HEADERS is set''\<rparr>
         else if 200 \<le> http_status r \<and> http_status r < 300 \<and> transformed (encoding r) then
           \<lparr>f_status = KARU_ERR_HTTP, f_detail = transformation_detail url (encoding r)\<rparr>
         else if version_changed r \<and> t_if_match t \<noteq> [] then
           \<lparr>f_status = KARU_ERR_PRECONDITION,
            f_detail = url @ '': the server ignored If-Match and sent ETag '' @ response_etag r @
              '', so the object no longer matches if_match''\<rparr>
         else if version_changed r \<or>
                 (http_status r = 412 \<and> t_if_match t = [] \<and> resume_etag t \<noteq> []) then
           \<lparr>f_status = KARU_ERR_HTTP,
            f_detail = url @ '': the object changed while an interrupted read was being resumed''\<rparr>
         else if range_fallback_rejected r then
           \<lparr>f_status = KARU_ERR_HTTP,
            f_detail = url @ '': server ignored Range; refusing to discard '' @ u64_string (t_offset t) @
              '' bytes (limit '' @ u64_string (t_fallback_limit t) @ '')''\<rparr>
         else if http_status r = 206 \<and> \<not> content_range_matches r then
           \<lparr>f_status = KARU_ERR_HTTP, f_detail = url @ content_range_failure t\<rparr>
         else if code \<noteq> CURLE_OK \<and> 300 \<le> http_status r \<and> http_status r < 400 \<and>
                 follow_redirects (t_http t) then
           \<lparr>f_status = KARU_ERR_NETWORK, f_detail = url @ '': '' @ message\<rparr>
         else if 300 \<le> http_status r then
           (let body = summarize (error_body r)
            in \<lparr>f_status = status_for_http (http_status r),
                f_detail = url @ '': HTTP '' @ int_string (http_status r) @
                  (if body \<noteq> [] then '': '' @ body else [])\<rparr>)
         else \<lparr>f_status = KARU_ERR_NETWORK, f_detail = url @ '': '' @ message\<rparr>)"

section \<open>The summary of an error body\<close>

text \<open>The reference: the words between runs of blanks, joined by single spaces.\<close>

function blank_words :: "string \<Rightarrow> string list" where
  "blank_words [] = []"
| "blank_words (c # cs) =
     (if blank c then blank_words cs
      else (c # takeWhile (\<lambda>x. \<not> blank x) cs) # blank_words (dropWhile (\<lambda>x. \<not> blank x) cs))"
  by pat_completeness auto
termination
  by (relation "measure length") (auto simp: le_imp_less_Suc length_dropWhile_le)

fun unwords :: "string list \<Rightarrow> string" where
  "unwords [] = []"
| "unwords [w] = w"
| "unwords (w # ws) = w @ '' '' @ unwords ws"

text \<open>What the loop still appends: a space is due when one is pending and the result has started.\<close>

fun collapse :: "bool \<Rightarrow> bool \<Rightarrow> string \<Rightarrow> string" where
  "collapse pending started [] = []"
| "collapse pending started (c # cs) =
     (if blank c then collapse True started cs
      else (if pending \<and> started then '' '' else []) @ c # collapse False True cs)"

lemma blank_space [simp]: "blank CHR '' ''"
  by (simp add: blank_def)

lemma collapse_word:
  "collapse False True cs = takeWhile (\<lambda>x. \<not> blank x) cs @ collapse False True (dropWhile (\<lambda>x. \<not> blank x) cs)"
  by (induction cs) auto

lemma collapse_pending: "rs = [] \<or> blank (hd rs) \<Longrightarrow> collapse False st rs = collapse True st rs"
  by (cases rs) auto

lemma unwords_Cons: "unwords (w # ws) = w @ (if ws = [] then [] else '' '' @ unwords ws)"
  by (cases ws) simp_all

lemma blank_words_blank [simp]: "cs \<noteq> [] \<Longrightarrow> blank (hd cs) \<Longrightarrow> blank_words cs = blank_words (tl cs)"
  by (cases cs) simp_all

lemma collapse_words:
  "collapse True st cs = (if blank_words cs = [] then [] else (if st then '' '' else []) @ unwords (blank_words cs))"
proof (induction cs arbitrary: st rule: blank_words.induct)
  case 1
  then show ?case by simp
next
  case (2 c cs)
  show ?case
  proof (cases "blank c")
    case True
    with 2 show ?thesis by simp
  next
    case False
    let ?rest = "dropWhile (\<lambda>x. \<not> blank x) cs"
    have "collapse False True ?rest = collapse True True ?rest"
      by (rule collapse_pending) (use hd_dropWhile [of "\<lambda>x. \<not> blank x" cs] in blast)
    also have "\<dots> = (if blank_words ?rest = [] then [] else '' '' @ unwords (blank_words ?rest))"
      using "2.IH"(2) [OF False] by simp
    finally show ?thesis
      using False by (simp add: collapse_word [of cs] unwords_Cons)
  qed
qed

lemma collapse_not_started: "collapse p False cs = collapse q False cs"
  by (induction cs arbitrary: p q) auto

lemma collapse_body: "collapse False False body = unwords (blank_words body)"
  using collapse_words [of False body] collapse_not_started [of False body True] by simp

definition cut_summary :: "string \<Rightarrow> string" where
  "cut_summary full =
     (if kErrorSummaryLimit \<le> length full \<and> full ! (kErrorSummaryLimit - 1) \<noteq> CHR '' ''
      then take kErrorSummaryLimit full else full)"

lemma summarize_loop_past:
  "kErrorSummaryLimit < length res \<Longrightarrow> summarize_loop p res cs = res @ collapse p True cs"
  by (induction cs arbitrary: p res) (auto simp: Let_def kErrorSummaryLimit_def)

lemma summarize_loop_collapse:
  "length res < kErrorSummaryLimit \<Longrightarrow>
   summarize_loop p res cs = cut_summary (res @ collapse p (res \<noteq> []) cs)"
proof (induction cs arbitrary: p res)
  case Nil
  then show ?case by (simp add: cut_summary_def)
next
  case (Cons c cs)
  show ?case
  proof (cases "blank c")
    case True
    with Cons show ?thesis by simp
  next
    case False
    then have c: "c \<noteq> CHR '' ''" by auto
    define sp where "sp = (if p \<and> res \<noteq> [] then '' '' else [])"
    let ?res = "res @ sp @ [c]"
    have out: "summarize_loop p res (c # cs) =
        (if length ?res = kErrorSummaryLimit then ?res else summarize_loop False ?res cs)"
      using False by (auto simp: sp_def Let_def)
    have rest: "res @ collapse p (res \<noteq> []) (c # cs) = ?res @ collapse False True cs"
      using False by (simp add: sp_def)
    have "length ?res = kErrorSummaryLimit \<or> length ?res < kErrorSummaryLimit \<or>
        length res = kErrorSummaryLimit - 1 \<and> sp = '' ''"
      using Cons.prems by (auto simp: sp_def kErrorSummaryLimit_def)
    then consider (stop) "length ?res = kErrorSummaryLimit" | (more) "length ?res < kErrorSummaryLimit"
      | (past) "length res = kErrorSummaryLimit - 1" "sp = '' ''" by blast
    then show ?thesis
    proof cases
      case stop
      then show ?thesis
        using c by (simp only: out rest) (auto simp: cut_summary_def nth_append kErrorSummaryLimit_def)
    next
      case more
      then show ?thesis
        using Cons.IH [OF more, of False] by (simp only: out rest) simp
    next
      case past
      then show ?thesis
        using summarize_loop_past [of ?res False cs]
        by (simp only: out rest) (simp add: cut_summary_def nth_append kErrorSummaryLimit_def)
    qed
  qed
qed

section \<open>Properties\<close>

text \<open>
  The summary of an error body is its words joined by single spaces, cut at 200 characters
  unless the 200th is a space, in which case the loop steps over its limit and keeps everything.
\<close>

theorem summarize_exact:
  "summarize body =
     (let full = unwords (blank_words body)
      in if 200 \<le> length full \<and> full ! 199 \<noteq> CHR '' '' then take 200 full else full)"
  using summarize_loop_collapse [of "[]" False body]
  by (simp add: summarize_def collapse_body cut_summary_def kErrorSummaryLimit_def Let_def)

text \<open>
  The 200-character limit of an error summary does not hold: for every length there is a body
  whose summary is at least that long.
\<close>

theorem summarize_exceeds_limit:
  "length (summarize (replicate 199 CHR ''a'' @ '' '' @ replicate (Suc n) CHR ''b'')) = 201 + n"
proof -
  let ?body = "replicate 199 CHR ''a'' @ '' '' @ replicate (Suc n) CHR ''b''"
  have a: "\<not> blank CHR ''a''" "\<not> blank CHR ''b''" by (simp_all add: blank_def)
  have "collapse False True (replicate m CHR ''b'') = replicate m CHR ''b''" for m
    using a(2) by (induction m) auto
  then have b: "collapse True True (replicate (Suc n) CHR ''b'') = '' '' @ replicate (Suc n) CHR ''b''"
    using a(2) by simp
  have "collapse False st (replicate k CHR ''a'' @ r) =
      replicate k CHR ''a'' @ collapse False (st \<or> 0 < k) r" for k st r
    using a(1) by (induction k arbitrary: st) auto
  from this [of False 199] b have "collapse False False ?body = ?body"
    by (simp del: replicate.simps)
  then have "summarize ?body = cut_summary ?body"
    using summarize_loop_collapse [of "[]" False] by (simp add: summarize_def kErrorSummaryLimit_def)
  then show ?thesis
    by (simp add: cut_summary_def kErrorSummaryLimit_def nth_append)
qed

text \<open>
  Retry delays are bounded: without a Retry-After they lie between the exponential base and
  twice it, at most 12.8 seconds; a Retry-After is honoured up to a minute, plus at most a second.
\<close>

theorem retry_delay_bounds:
  assumes "\<And>b. 0 \<le> b \<Longrightarrow> 0 \<le> jitter b \<and> jitter b \<le> b"
  shows "if 0 < after
    then 1000 * min after 60 \<le> retry_delay att after jitter \<and>
         retry_delay att after jitter \<le> 1000 * min after 60 + 1000
    else 100 * 2 ^ nat (min (max att 0) 6) \<le> retry_delay att after jitter \<and>
         retry_delay att after jitter \<le> 200 * 2 ^ nat (min (max att 0) 6) \<and>
         retry_delay att after jitter \<le> 12800"
proof (cases "0 < after")
  case True
  then show ?thesis
    using assms [of 1000] by (auto simp: retry_delay_def kMaximumRetryAfterSeconds_def Let_def)
next
  case False
  define e where "e = nat (max 0 (min att 6))"
  have "e \<le> 6" by (simp add: e_def)
  then have "(2 :: int) ^ e \<le> 2 ^ 6" by (intro power_increasing) auto
  moreover have "nat (min (max att 0) 6) = e" by (simp add: e_def min_def max_def)
  moreover have "0 \<le> jitter (100 * 2 ^ e) \<and> jitter (100 * 2 ^ e) \<le> 100 * 2 ^ e"
    by (rule assms) simp
  ultimately show ?thesis
    using False by (auto simp: retry_delay_def kMaximumRetryAfterSeconds_def Let_def e_def [symmetric])
qed

end
