(* ===== verification/Karu_Delivery.thy ===== *)
theory Karu_Delivery
  imports Karu_Transport
begin

text \<open>
  Delivery of a response body: streaming any chunking of the body through the callbacks of
  \<open>src/src/runtime/transport.cpp\<close> leaves exactly the object's bytes in the parts' buffers.
  The locale \<open>sequential_store\<close> states what the callbacks need of the place the bytes go to; it is
  interpreted here on \<open>store_payload\<close> and in the probe theory on the probe's destination.
\<close>

section \<open>A place that bytes are appended to\<close>

text \<open>
  One callback step over a store: drop the bytes still to skip, then append at most what fits.
\<close>

definition feed :: "('s \<Rightarrow> nat) \<Rightarrow> ('s \<Rightarrow> nat) \<Rightarrow> ('s \<Rightarrow> byte list \<Rightarrow> 's option) \<Rightarrow>
    nat \<times> 's \<Rightarrow> byte list \<Rightarrow> (nat \<times> 's) option" where
  "feed pos cap put st d =
     (let rest = drop (fst st) d; s = snd st; tk = min (cap s - pos s) (length rest)
      in map_option (Pair (fst st - min (fst st) (length d)))
           (if 0 < tk then put s (take tk rest) else Some s))"

definition slice_at :: "(nat \<Rightarrow> byte) \<Rightarrow> nat \<Rightarrow> byte list \<Rightarrow> bool" where
  "slice_at obj c d \<longleftrightarrow> (\<forall>i < length d. d ! i = obj (c + i))"

lemma slice_at_drop: "slice_at obj c d \<Longrightarrow> slice_at obj (c + n) (drop n d)"
  by (simp add: slice_at_def add.assoc)

lemma slice_at_take: "slice_at obj c d \<Longrightarrow> slice_at obj c (take n d)"
  by (simp add: slice_at_def)

lemma slice_at_append: "slice_at obj c (d @ e) \<longleftrightarrow> slice_at obj c d \<and> slice_at obj (c + length d) e"
proof
  assume l: "slice_at obj c (d @ e)"
  from slice_at_take [OF l, of "length d"] slice_at_drop [OF l, of "length d"]
  show "slice_at obj c d \<and> slice_at obj (c + length d) e" by simp
next
  assume r: "slice_at obj c d \<and> slice_at obj (c + length d) e"
  show "slice_at obj c (d @ e)"
    unfolding slice_at_def
  proof (intro allI impI)
    fix i
    assume i: "i < length (d @ e)"
    show "(d @ e) ! i = obj (c + i)"
    proof (cases "i < length d")
      case True
      with r show ?thesis by (simp add: slice_at_def nth_append)
    next
      case False
      with i r have "e ! (i - length d) = obj (c + length d + (i - length d))"
        by (simp add: slice_at_def)
      with False show ?thesis by (simp add: nth_append)
    qed
  qed
qed

lemma slice_at_list: "slice_at obj c []" "slice_at obj c (x # xs) \<longleftrightarrow> x = obj c \<and> slice_at obj (c + 1) xs"
  using slice_at_append [of obj c "[x]" xs] by (simp_all add: slice_at_def)

text \<open>
  \<open>base\<close> is the position in the object of the first byte the store wants, \<open>pos\<close> how many bytes
  it has, \<open>cap\<close> how many it wants, and \<open>holds obj s\<close> that what it has are the object's bytes.
\<close>

locale sequential_store =
  fixes base pos cap :: "'s \<Rightarrow> nat" and ready :: "'s \<Rightarrow> bool"
    and holds :: "(nat \<Rightarrow> byte) \<Rightarrow> 's \<Rightarrow> bool" and put :: "'s \<Rightarrow> byte list \<Rightarrow> 's option"
  assumes pos_le: "ready s \<Longrightarrow> pos s \<le> cap s"
    and put_accepts: "ready s \<Longrightarrow> pos s + length d \<le> cap s \<Longrightarrow> put s d \<noteq> None"
    and put_ready: "ready s \<Longrightarrow> pos s + length d \<le> cap s \<Longrightarrow> put s d = Some s' \<Longrightarrow>
      ready s' \<and> base s' = base s \<and> cap s' = cap s \<and> pos s' = pos s + length d"
    and put_holds: "ready s \<Longrightarrow> pos s + length d \<le> cap s \<Longrightarrow> put s d = Some s' \<Longrightarrow>
      holds obj s \<Longrightarrow> slice_at obj (base s + pos s) d \<Longrightarrow> holds obj s'"
begin

text \<open>The next body byte is byte \<open>c\<close> of the object: what is skipped and stored fits that.\<close>

definition aligned :: "(nat \<Rightarrow> byte) \<Rightarrow> nat \<Rightarrow> nat \<times> 's \<Rightarrow> bool" where
  "aligned obj c st \<longleftrightarrow> ready (snd st) \<and> holds obj (snd st) \<and>
     (if 0 < fst st then c + fst st = base (snd st) + pos (snd st)
      else pos (snd st) = cap (snd st) \<or> c = base (snd st) + pos (snd st))"

lemma feed_aligned:
  assumes al: "aligned obj c (sk, s)" and d: "slice_at obj c d"
  shows "\<exists>s'. feed pos cap put (sk, s) d = Some (sk - min sk (length d), s') \<and>
    aligned obj (c + length d) (sk - min sk (length d), s') \<and> base s' = base s \<and> cap s' = cap s"
proof -
  let ?rest = "drop sk d"
  define tk where "tk = min (cap s - pos s) (length ?rest)"
  have r: "ready s" and h: "holds obj s" using al by (simp_all add: aligned_def)
  have f: "feed pos cap put (sk, s) d = map_option (Pair (sk - min sk (length d)))
      (if 0 < tk then put s (take tk ?rest) else Some s)"
    by (simp add: feed_def tk_def Let_def)
  show ?thesis
  proof (cases "0 < tk")
    case False
    have "aligned obj (c + length d) (sk - min sk (length d), s)"
    proof (cases "length d < sk")
      case True
      then show ?thesis using al by (auto simp: aligned_def)
    next
      case 2: False
      with False have "cap s \<le> pos s \<or> length d = sk" by (auto simp: tk_def)
      then show ?thesis using al pos_le [OF r] 2 by (auto simp: aligned_def split: if_splits)
    qed
    with f False show ?thesis by (intro exI [of _ s]) simp
  next
    case True
    then have sk: "sk < length d" "tk \<le> cap s - pos s" "tk \<le> length d - sk" "pos s < cap s"
      by (auto simp: tk_def)
    let ?d = "take tk ?rest"
    have len: "length ?d = tk" using sk by simp
    have fits: "pos s + length ?d \<le> cap s" using sk len by simp
    have at: "c + sk = base s + pos s" using al sk by (auto simp: aligned_def split: if_splits)
    have sl: "slice_at obj (base s + pos s) ?d"
      unfolding at [symmetric] using d by (intro slice_at_take slice_at_drop)
    obtain s' where p: "put s ?d = Some s'" using put_accepts [OF r fits] by blast
    note pr = put_ready [OF r fits p]
    have h': "holds obj s'" using put_holds [OF r fits p h sl] .
    have "pos s' = cap s' \<or> c + length d = base s' + pos s'"
      using pr len at sk by (auto simp: tk_def min_def split: if_splits)
    then have "aligned obj (c + length d) (sk - min sk (length d), s')"
      using pr h' sk by (simp add: aligned_def)
    with f p pr True show ?thesis by (intro exI [of _ s']) simp
  qed
qed

lemma aligned_complete:
  assumes "aligned obj c (sk, s)" "base s + cap s \<le> c"
  shows "pos s = cap s"
proof -
  have "pos s \<le> cap s" using assms(1) by (intro pos_le) (simp add: aligned_def)
  with assms show ?thesis by (auto simp: aligned_def split: if_splits)
qed

end

section \<open>Scattering over buffers\<close>

definition part_region :: "part \<Rightarrow> addr set" where
  "part_region p = {the (part_buffer p) ..< the (part_buffer p) + unat (part_length p)}"

definition disjoint_parts :: "part list \<Rightarrow> bool" where
  "disjoint_parts ps \<longleftrightarrow> sorted_wrt (\<lambda>p q. part_region p \<inter> part_region q = {}) ps"

text \<open>\<open>stored m m' ps c d\<close>: from \<open>m\<close> to \<open>m'\<close> the bytes \<open>d\<close> at position \<open>c\<close> reached the parts, nothing else changed.\<close>

definition stored :: "memory \<Rightarrow> memory \<Rightarrow> part list \<Rightarrow> nat \<Rightarrow> byte list \<Rightarrow> bool" where
  "stored m m' ps c d \<longleftrightarrow>
     (\<forall>p \<in> set ps. \<forall>i < unat (part_length p).
        m' (the (part_buffer p) + i) =
          (let x = unat (relative_offset p) + i
           in if c \<le> x \<and> x < c + length d then d ! (x - c) else m (the (part_buffer p) + i))) \<and>
     (\<forall>a. (\<forall>p \<in> set ps. a \<notin> part_region p) \<longrightarrow> m' a = m a)"

definition reachable_parts :: "part list \<Rightarrow> bool" where
  "reachable_parts ps \<longleftrightarrow> sorted (map (unat \<circ> relative_offset) ps) \<and> disjoint_parts ps \<and>
     (\<forall>p \<in> set ps. part_buffer p \<noteq> None \<and> unat (relative_offset p) + unat (part_length p) < 2 ^ 64)"

lemma reachable_parts_Cons:
  "reachable_parts (p # ps) \<Longrightarrow> reachable_parts ps \<and> part_buffer p \<noteq> None \<and>
     unat (relative_offset p + part_length p) = unat (relative_offset p) + unat (part_length p) \<and>
     (\<forall>q \<in> set ps. unat (relative_offset p) \<le> unat (relative_offset q) \<and> part_region p \<inter> part_region q = {})"
  by (auto simp: reachable_parts_def disjoint_parts_def unat_u64_add)

lemma in_part_region: "i < unat (part_length p) \<Longrightarrow> the (part_buffer p) + i \<in> part_region p"
  by (simp add: part_region_def)

lemma stored_frame: "stored m m' ps c d \<Longrightarrow> \<forall>p \<in> set ps. a \<notin> part_region p \<Longrightarrow> m' a = m a"
  by (simp add: stored_def)

lemma stored_skip_head:
  assumes "stored m m' ps c d" "\<forall>q \<in> set ps. part_region p \<inter> part_region q = {}"
    "\<forall>i < unat (part_length p). \<not> (c \<le> unat (relative_offset p) + i \<and> unat (relative_offset p) + i < c + length d)"
  shows "stored m m' (p # ps) c d"
proof -
  have "m' (the (part_buffer p) + i) = m (the (part_buffer p) + i)" if "i < unat (part_length p)" for i
    using assms(1) by (rule stored_frame) (use assms(2) in_part_region [OF that] in blast)
  with assms(1,3) show ?thesis by (auto simp: stored_def Let_def)
qed

lemma memcpy_outside: "\<not> (a \<le> x \<and> x < a + length bs) \<Longrightarrow> memcpy m a bs x = m x"
  by (auto simp: memcpy_def)

lemma stored_write_head:
  fixes m m' :: memory and p :: part
  defines "a \<equiv> the (part_buffer p)" and "r \<equiv> unat (relative_offset p)" and "l \<equiv> unat (part_length p)"
  assumes st: "stored (memcpy m (a + (b - r)) (take (e - b) (drop (b - c) d))) m' ps c d"
    and dj: "\<forall>q \<in> set ps. part_region p \<inter> part_region q = {}"
    and b: "b = max c r" and e: "e = min (c + length d) (r + l)" and "b < e"
  shows "stored m m' (p # ps) c d"
proof -
  let ?d = "take (e - b) (drop (b - c) d)"
  have len: "length ?d = e - b" using b e by auto
  have sub: "a + (b - r) \<le> x \<and> x < a + (b - r) + length ?d \<Longrightarrow> x \<in> part_region p" for x
    using b e \<open>b < e\<close> len by (auto simp: part_region_def a_def [symmetric] l_def [symmetric])
  have own: "m' (a + i) = (let x = r + i in if c \<le> x \<and> x < c + length d then d ! (x - c) else m (a + i))"
    if i: "i < l" for i
  proof -
    have "m' (a + i) = memcpy m (a + (b - r)) ?d (a + i)"
      using st by (rule stored_frame) (use dj in_part_region [of i p] i a_def l_def in blast)
    also have "\<dots> = (let x = r + i in if c \<le> x \<and> x < c + length d then d ! (x - c) else m (a + i))"
    proof (cases "c \<le> r + i \<and> r + i < c + length d")
      case True
      then have "a + (b - r) \<le> a + i" "a + i < a + (b - r) + length ?d" "i - (b - r) < e - b"
        using i b e \<open>b < e\<close> len by auto
      moreover have "?d ! (i - (b - r)) = d ! (r + i - c)"
        using True i b e \<open>b < e\<close> by (auto simp: nth_drop add.commute)
      ultimately show ?thesis using True by (simp add: memcpy_def)
    next
      case False
      then have "\<not> (a + (b - r) \<le> a + i \<and> a + i < a + (b - r) + length ?d)"
        using b e \<open>b < e\<close> len by auto
      with False show ?thesis by (auto simp: memcpy_outside)
    qed
    finally show ?thesis .
  qed
  have other: "m' (the (part_buffer q) + i) = (let x = unat (relative_offset q) + i
      in if c \<le> x \<and> x < c + length d then d ! (x - c) else m (the (part_buffer q) + i))"
    if q: "q \<in> set ps" and i: "i < unat (part_length q)" for q i
  proof -
    have "the (part_buffer q) + i \<notin> part_region p" using dj q in_part_region [OF i] by blast
    then have "memcpy m (a + (b - r)) ?d (the (part_buffer q) + i) = m (the (part_buffer q) + i)"
      using sub by (intro memcpy_outside) blast
    with st q i show ?thesis by (simp add: stored_def Let_def)
  qed
  have "m' x = m x" if x: "\<forall>q \<in> set (p # ps). x \<notin> part_region q" for x
  proof -
    have "m' x = memcpy m (a + (b - r)) ?d x" using st by (rule stored_frame) (use x in simp)
    also have "\<dots> = m x" using x sub by (intro memcpy_outside) auto
    finally show ?thesis .
  qed
  then show ?thesis
    unfolding stored_def using own [unfolded a_def r_def l_def] other by simp
qed

lemma scatter_stored:
  assumes "reachable_parts ps" "unat ce = unat cb + length d"
  shows "\<exists>m'. scatter cb ce d ps m = Some m' \<and> stored m m' ps (unat cb) d"
  using assms(1)
proof (induction ps arbitrary: m)
  case Nil
  then show ?case by (simp add: stored_def)
next
  case (Cons p ps)
  note pc = reachable_parts_Cons [OF Cons.prems]
  let ?r = "unat (relative_offset p)" and ?l = "unat (part_length p)"
  let ?b = "max cb (relative_offset p)" and ?e = "min ce (relative_offset p + part_length p)"
  obtain a where a: "part_buffer p = Some a" using pc by blast
  have b: "unat ?b = max (unat cb) ?r" by (simp add: unat_max_u64)
  have e: "unat ?e = min (unat cb + length d) (?r + ?l)" using pc assms(2) by (simp add: unat_min_u64)
  consider "ce \<le> relative_offset p" | "\<not> ce \<le> relative_offset p" "?e \<le> ?b"
    | "\<not> ce \<le> relative_offset p" "\<not> ?e \<le> ?b" by blast
  then show ?case
  proof cases
    case 1
    then have "unat cb + length d \<le> ?r" using assms(2) by (simp add: u64_le_iff)
    then have "\<forall>q \<in> set (p # ps). unat cb + length d \<le> unat (relative_offset q)" using pc by auto
    then have "stored m m (p # ps) (unat cb) d" by (fastforce simp: stored_def Let_def)
    with 1 show ?thesis by simp
  next
    case 2
    obtain m' where m': "scatter cb ce d ps m = Some m'" "stored m m' ps (unat cb) d"
      using Cons.IH pc by blast
    have "unat ?e \<le> unat ?b" using 2(2) by (simp only: u64_le_iff)
    then have "stored m m' (p # ps) (unat cb) d"
      using m'(2) pc by (intro stored_skip_head) (auto simp: b e)
    with 2 m'(1) show ?thesis by (simp add: Let_def)
  next
    case 3
    have lt: "unat ?b < unat ?e" using 3(2) by (simp only: u64_le_iff not_le)
    have "unat (?e - ?b) = unat ?e - unat ?b" by (rule unat_u64_sub) (use lt in simp)
    moreover have "unat (?b - relative_offset p) = unat ?b - ?r" "unat (?b - cb) = unat ?b - unat cb"
      by (rule unat_u64_sub, simp add: b)+
    ultimately have sub: "unat (?e - ?b) = unat ?e - unat ?b" "unat (?b - relative_offset p) = unat ?b - ?r"
      "unat (?b - cb) = unat ?b - unat cb" by blast+
    let ?m = "memcpy m (a + (unat ?b - ?r)) (take (unat ?e - unat ?b) (drop (unat ?b - unat cb) d))"
    obtain m' where m': "scatter cb ce d ps ?m = Some m'" "stored ?m m' ps (unat cb) d"
      using Cons.IH pc by blast
    have "stored m m' (p # ps) (unat cb) d"
      using m'(2) pc b e lt a by (intro stored_write_head [where b = "unat ?b" and e = "unat ?e"]) auto
    with 3 m'(1) a sub show ?thesis by (simp add: Let_def)
  qed
qed

section \<open>A transfer that can receive\<close>

definition cursor_ok :: "transfer \<Rightarrow> bool" where
  "cursor_ok t \<longleftrightarrow> (\<forall>p \<in> set (take (scatter_cursor t) (t_parts t)).
     unat (relative_offset p) + unat (part_length p) \<le> unat (received t))"

text \<open>
  The transfer is well formed, its buffers do not overlap in memory, and its sink is set when it
  needs one.
\<close>

definition receiving :: "transfer \<Rightarrow> bool" where
  "receiving t \<longleftrightarrow> wf_transfer t \<and> disjoint_parts (t_parts t) \<and> cursor_ok t \<and>
     scattered t = is_scattered (t_parts t) (t_length t) \<and>
     (\<not> scattered t \<longrightarrow> t_sink t = Buffer_Sink (part_buffer (hd (t_parts t)))) \<and>
     unat (received t) \<le> unat (t_length t)"

lemma receiving_parts: "receiving t \<Longrightarrow> reachable_parts (t_parts t)"
  unfolding receiving_def wf_transfer_def reachable_parts_def
  using unat_u64_less [of "t_length t"] by (auto intro: le_less_trans)

lemma reachable_parts_drop: "reachable_parts ps \<Longrightarrow> reachable_parts (drop n ps)"
  by (auto simp: reachable_parts_def disjoint_parts_def drop_map [symmetric] sorted_wrt_drop dest: in_set_dropD)

lemma stored_behind:
  assumes "stored m m' (drop n ps) c d" "reachable_parts ps"
    "\<forall>p \<in> set (take n ps). unat (relative_offset p) + unat (part_length p) \<le> c"
  shows "stored m m' ps c d"
  using assms
proof (induction n arbitrary: ps)
  case 0
  then show ?case by simp
next
  case (Suc n)
  show ?case
  proof (cases ps)
    case Nil
    with Suc.prems show ?thesis by simp
  next
    case (Cons p qs)
    note pc = reachable_parts_Cons [OF Suc.prems(2) [unfolded Cons]]
    have ends: "unat (relative_offset p) + unat (part_length p) \<le> c"
      "\<forall>q \<in> set (take n qs). unat (relative_offset q) + unat (part_length q) \<le> c"
      using Suc.prems(3) Cons by simp_all
    have "stored m m' (drop n qs) c d" "reachable_parts qs" using Suc.prems(1) pc Cons by simp_all
    from Suc.IH [OF this ends(2)] have "stored m m' qs c d" .
    then show ?thesis
      unfolding Cons
    proof (rule stored_skip_head)
      show "\<forall>q \<in> set qs. part_region p \<inter> part_region q = {}" using pc by blast
      show "\<forall>i < unat (part_length p). \<not> (c \<le> unat (relative_offset p) + i \<and>
          unat (relative_offset p) + i < c + length d)"
        using ends(1) by (auto simp: not_le)
    qed
  qed
qed

lemma parts_behind_ends:
  assumes "\<forall>p \<in> set ps. unat (relative_offset p) + unat (part_length p) < 2 ^ 64"
  shows "\<forall>p \<in> set (take (parts_behind c ps) ps). unat (relative_offset p) + unat (part_length p) \<le> unat c"
  using assms by (induction c ps rule: parts_behind.induct) (auto simp: unat_u64_add u64_simps)

text \<open>Storing a chunk that fits: the bytes reach every part that wants them and nothing else.\<close>

lemma store_payload_stored:
  assumes r: "receiving t" and fit: "unat (received t) + length d \<le> unat (t_length t)"
  shows "\<exists>m' cur. store_payload t m d =
      Some (t\<lparr>received := received t + of_nat (length d), scatter_cursor := cur\<rparr>, m') \<and>
    stored m m' (t_parts t) (unat (received t)) d \<and>
    receiving (t\<lparr>received := received t + of_nat (length d), scatter_cursor := cur\<rparr>) \<and>
    unat (received t + of_nat (length d)) = unat (received t) + length d"
proof -
  let ?ce = "received t + of_nat (length d)"
  have small: "unat (received t) + length d < 2 ^ 64" using fit unat_u64_less [of "t_length t"] by simp
  have "unat (of_nat (length d) :: u64) = length d" using small by (intro unat_of_nat_u64) simp
  then have ce: "unat ?ce = unat (received t) + length d" using small by (simp add: unat_u64_add)
  note rp = receiving_parts [OF r]
  have keep: "receiving (t\<lparr>received := ?ce, scatter_cursor := cur\<rparr>)"
    if "\<forall>p \<in> set (take cur (t_parts t)). unat (relative_offset p) + unat (part_length p) \<le> unat (received t)" for cur
    using r that ce fit by (auto simp: receiving_def cursor_ok_def wf_transfer_def)
  show ?thesis
  proof (cases "scattered t")
    case False
    then have one: "length (t_parts t) = 1" "relative_offset (hd (t_parts t)) = 0"
      "part_length (hd (t_parts t)) = t_length t"
      using r by (auto simp: receiving_def is_scattered_def)
    then obtain p where p: "t_parts t = [p]" by (cases "t_parts t") auto
    obtain a where a: "part_buffer p = Some a" using rp p by (auto simp: reachable_parts_def)
    have sp: "store_payload t m d = Some (t\<lparr>received := ?ce\<rparr>, memcpy m (a + unat (received t)) d)"
      using r False p a by (simp add: store_payload_def receiving_def Let_def)
    have len: "part_length p = t_length t" "relative_offset p = 0" using one p by simp_all
    have "stored m (memcpy m (a + unat (received t)) d) [p] (unat (received t)) d"
      unfolding stored_def memcpy_def part_region_def Let_def using len a fit by auto
    moreover have "t\<lparr>received := ?ce\<rparr> = t\<lparr>received := ?ce, scatter_cursor := scatter_cursor t\<rparr>" by simp
    moreover have "receiving (t\<lparr>received := ?ce, scatter_cursor := scatter_cursor t\<rparr>)"
      by (rule keep) (use r in \<open>simp add: receiving_def cursor_ok_def\<close>)
    ultimately show ?thesis using sp ce unfolding p by metis
  next
    case True
    let ?cur = "scatter_cursor t + parts_behind (received t) (drop (scatter_cursor t) (t_parts t))"
    obtain m' where m': "scatter (received t) ?ce d (drop ?cur (t_parts t)) m = Some m'"
      "stored m m' (drop ?cur (t_parts t)) (unat (received t)) d"
      using scatter_stored [OF reachable_parts_drop [OF rp] ce] by blast
    have "\<forall>p \<in> set (drop (scatter_cursor t) (t_parts t)). unat (relative_offset p) + unat (part_length p) < 2 ^ 64"
      using rp by (auto simp: reachable_parts_def dest: in_set_dropD)
    from parts_behind_ends [OF this, of "received t"] have
      behind: "\<forall>p \<in> set (take ?cur (t_parts t)). unat (relative_offset p) + unat (part_length p) \<le> unat (received t)"
      using r by (auto simp: receiving_def cursor_ok_def take_add)
    have "stored m m' (t_parts t) (unat (received t)) d"
      using stored_behind [OF m'(2) rp behind] .
    moreover have "store_payload t m d = Some (t\<lparr>received := ?ce, scatter_cursor := ?cur\<rparr>, m')"
      using True m'(1) by (simp add: store_payload_def Let_def)
    ultimately show ?thesis using keep [OF behind] ce by blast
  qed
qed

section \<open>The payload store\<close>

definition t_base :: "transfer \<times> memory \<Rightarrow> nat" where
  "t_base s = unat (t_offset (fst s))"

definition t_pos :: "transfer \<times> memory \<Rightarrow> nat" where
  "t_pos s = unat (received (fst s))"

definition t_cap :: "transfer \<times> memory \<Rightarrow> nat" where
  "t_cap s = unat (t_length (fst s))"

definition t_put :: "transfer \<times> memory \<Rightarrow> byte list \<Rightarrow> (transfer \<times> memory) option" where
  "t_put s d = store_payload (fst s) (snd s) d"

text \<open>The buffers hold the object's bytes up to what was received.\<close>

definition holds_parts :: "(nat \<Rightarrow> byte) \<Rightarrow> transfer \<times> memory \<Rightarrow> bool" where
  "holds_parts obj s \<longleftrightarrow>
     (\<forall>p \<in> set (t_parts (fst s)). \<forall>i < unat (part_length p).
        unat (relative_offset p) + i < unat (received (fst s)) \<longrightarrow>
        snd s (the (part_buffer p) + i) = obj (unat (t_offset (fst s)) + unat (relative_offset p) + i))"

text \<open>The transfer still is the one planned as \<open>t0\<close>, and memory differs from \<open>m0\<close> only in its buffers.\<close>

definition receiving_from :: "transfer \<Rightarrow> memory \<Rightarrow> transfer \<times> memory \<Rightarrow> bool" where
  "receiving_from t0 m0 s \<longleftrightarrow> receiving (fst s) \<and> t_parts (fst s) = t_parts t0 \<and>
     t_offset (fst s) = t_offset t0 \<and> t_length (fst s) = t_length t0 \<and>
     (\<forall>a. (\<forall>p \<in> set (t_parts t0). a \<notin> part_region p) \<longrightarrow> snd s a = m0 a)"

lemma t_put_Some:
  assumes "receiving_from t0 m0 s" "t_pos s + length d \<le> t_cap s"
  obtains m' cur where "t_put s d = Some ((fst s)\<lparr>received := received (fst s) + of_nat (length d),
      scatter_cursor := cur\<rparr>, m')"
    "stored (snd s) m' (t_parts (fst s)) (t_pos s) d"
    "receiving ((fst s)\<lparr>received := received (fst s) + of_nat (length d), scatter_cursor := cur\<rparr>)"
    "unat (received (fst s) + of_nat (length d)) = t_pos s + length d"
  using store_payload_stored [of "fst s" d "snd s"] assms
  by (auto simp: receiving_from_def t_put_def t_pos_def t_cap_def)

lemma stored_holds:
  assumes st: "stored m m' (t_parts t) (unat (received t)) d" and h: "holds_parts obj (t, m)"
    and sl: "slice_at obj (unat (t_offset t) + unat (received t)) d"
    and len: "unat (received t') = unat (received t) + length d"
    and same: "t_parts t' = t_parts t" "t_offset t' = t_offset t"
  shows "holds_parts obj (t', m')"
  unfolding holds_parts_def fst_conv snd_conv same
proof (intro ballI allI impI)
  fix p i
  assume p: "p \<in> set (t_parts t)" and i: "i < unat (part_length p)"
    and x: "unat (relative_offset p) + i < unat (received t')"
  let ?x = "unat (relative_offset p) + i"
  have m': "m' (the (part_buffer p) + i) =
      (if unat (received t) \<le> ?x \<and> ?x < unat (received t) + length d then d ! (?x - unat (received t))
       else m (the (part_buffer p) + i))"
    using st p i by (simp add: stored_def Let_def)
  show "m' (the (part_buffer p) + i) = obj (unat (t_offset t) + unat (relative_offset p) + i)"
  proof (cases "unat (received t) \<le> ?x")
    case True
    with x len have "d ! (?x - unat (received t)) = obj (unat (t_offset t) + unat (received t) + (?x - unat (received t)))"
      using sl by (simp add: slice_at_def)
    with True m' x len show ?thesis by (simp add: add.assoc)
  next
    case False
    with h p i m' show ?thesis by (simp add: holds_parts_def add.assoc)
  qed
qed

interpretation payload: sequential_store t_base t_pos t_cap "receiving_from t0 m0" holds_parts t_put
  for t0 m0
proof (unfold_locales, goal_cases)
  case (1 s)
  then show ?case by (auto simp: receiving_from_def receiving_def t_pos_def t_cap_def)
next
  case (2 s d)
  then show ?case by (rule t_put_Some) simp
next
  case (3 s d s')
  from t_put_Some [OF 3(1,2)] obtain m' cur where
    p: "t_put s d = Some ((fst s)\<lparr>received := received (fst s) + of_nat (length d), scatter_cursor := cur\<rparr>, m')"
    and q: "stored (snd s) m' (t_parts (fst s)) (t_pos s) d"
      "receiving ((fst s)\<lparr>received := received (fst s) + of_nat (length d), scatter_cursor := cur\<rparr>)"
      "unat (received (fst s) + of_nat (length d)) = t_pos s + length d" by blast
  have "m' a = m0 a" if "\<forall>p \<in> set (t_parts t0). a \<notin> part_region p" for a
    using stored_frame [OF q(1)] 3(1) that by (simp add: receiving_from_def)
  with 3(1,3) p q(2,3) show ?case
    by (auto simp: receiving_from_def t_base_def t_pos_def t_cap_def)
next
  case (4 s d s' obj)
  from t_put_Some [OF 4(1,2)] obtain m' cur where
    p: "t_put s d = Some ((fst s)\<lparr>received := received (fst s) + of_nat (length d), scatter_cursor := cur\<rparr>, m')"
    and q: "stored (snd s) m' (t_parts (fst s)) (t_pos s) d"
      "unat (received (fst s) + of_nat (length d)) = t_pos s + length d" by blast
  have s': "s' = ((fst s)\<lparr>received := received (fst s) + of_nat (length d), scatter_cursor := cur\<rparr>, m')"
    using 4(3) p by simp
  show ?case
    unfolding s'
    by (rule stored_holds [where t = "fst s" and m = "snd s" and d = d])
      (use 4 q in \<open>simp_all add: t_pos_def t_base_def\<close>)
qed

lemma receiving_response [simp]: "receiving (t\<lparr>t_response := r\<rparr>) = receiving t"
  by (simp add: receiving_def wf_transfer_def cursor_ok_def)

lemma receiving_from_response [simp]:
  "receiving_from t0 m0 (t\<lparr>t_response := r\<rparr>, m) = receiving_from t0 m0 (t, m)"
  by (simp add: receiving_from_def)

lemma holds_parts_response [simp]: "holds_parts obj (t\<lparr>t_response := r\<rparr>, m) = holds_parts obj (t, m)"
  by (simp add: holds_parts_def)

abbreviation body_aligned :: "transfer \<Rightarrow> memory \<Rightarrow> (nat \<Rightarrow> byte) \<Rightarrow> nat \<Rightarrow> nat \<times> transfer \<times> memory \<Rightarrow> bool" where
  "body_aligned t0 m0 \<equiv> sequential_store.aligned t_base t_pos t_cap (receiving_from t0 m0) holds_parts"

lemma aligned_response [simp]:
  "body_aligned t0 m0 obj c (sk, t\<lparr>t_response := r\<rparr>, m) = body_aligned t0 m0 obj c (sk, t, m)"
  by (simp add: payload.aligned_def t_base_def t_pos_def t_cap_def)

section \<open>One chunk\<close>

definition skip_left :: "wire \<Rightarrow> nat" where
  "skip_left w = unat (skip (t_response (w_transfer w)))"

abbreviation wire_aligned :: "transfer \<Rightarrow> memory \<Rightarrow> (nat \<Rightarrow> byte) \<Rightarrow> nat \<Rightarrow> wire \<Rightarrow> bool" where
  "wire_aligned t0 m0 obj c w \<equiv> body_aligned t0 m0 obj c (skip_left w, w_transfer w, w_memory w)"

text \<open>Every byte the transfer wants has arrived.\<close>

definition complete :: "wire \<Rightarrow> bool" where
  "complete w \<longleftrightarrow> received (w_transfer w) = t_length (w_transfer w) \<and> skip_left w = 0"

lemma complete_aligned: "complete w \<Longrightarrow> wire_aligned t0 m0 obj c w \<Longrightarrow> wire_aligned t0 m0 obj c' w"
  by (simp add: complete_def payload.aligned_def t_pos_def t_cap_def)

text \<open>\<open>progressed w w'\<close>: only the receiving state of the transfer moved on.\<close>

definition progressed :: "wire \<Rightarrow> wire \<Rightarrow> bool" where
  "progressed w w' \<longleftrightarrow> (\<exists>rc cur sk st. w_transfer w' = (w_transfer w)\<lparr>received := rc, scatter_cursor := cur,
     t_response := (t_response (w_transfer w))\<lparr>skip := sk, satisfied := st\<rparr>\<rparr>)"

lemma progressed_trans: "progressed a b \<Longrightarrow> progressed b c \<Longrightarrow> progressed a c"
  unfolding progressed_def by fastforce

lemma progressed_fields:
  assumes "progressed w w'"
  shows "resumed (w_transfer w') = resumed (w_transfer w)"
    "t_length (w_transfer w') = t_length (w_transfer w)"
    "t_offset (w_transfer w') = t_offset (w_transfer w)"
    "http_status (t_response (w_transfer w')) = http_status (t_response (w_transfer w))"
    "checked_status (t_response (w_transfer w')) = checked_status (t_response (w_transfer w))"
  using assms by (auto simp: progressed_def)

lemma store_at_most:
  assumes al: "body_aligned t0 m0 obj c (sk, t, m)" and sl: "slice_at obj c d"
    and tk: "tk = min (unat (t_length t - received t)) (length (drop sk d))"
  shows "\<exists>rc cur m'. (if 0 < tk then store_payload t m (take tk (drop sk d)) else Some (t, m)) =
      Some (t\<lparr>received := rc, scatter_cursor := cur\<rparr>, m') \<and>
    body_aligned t0 m0 obj (c + length d) (sk - min sk (length d), t\<lparr>received := rc, scatter_cursor := cur\<rparr>, m')"
proof -
  have rf: "receiving_from t0 m0 (t, m)" using al by (simp add: payload.aligned_def)
  then have le: "unat (received t) \<le> unat (t_length t)" by (auto simp: receiving_from_def receiving_def)
  have tk': "tk = min (t_cap (t, m) - t_pos (t, m)) (length (drop sk d))"
    using le by (simp add: tk t_cap_def t_pos_def unat_u64_sub)
  obtain s' where f: "feed t_pos t_cap t_put (sk, t, m) d = Some (sk - min sk (length d), s')"
    and al': "body_aligned t0 m0 obj (c + length d) (sk - min sk (length d), s')"
    using payload.feed_aligned [OF al sl] by blast
  have put: "(if 0 < tk then t_put (t, m) (take tk (drop sk d)) else Some (t, m)) = Some s'"
    using f unfolding feed_def Let_def fst_conv snd_conv tk' [symmetric] by auto
  show ?thesis
  proof (cases "0 < tk")
    case False
    then have "s' = (t\<lparr>received := received t, scatter_cursor := scatter_cursor t\<rparr>, m)" using put by simp
    with al' False show ?thesis by (intro exI [of _ "received t"] exI [of _ "scatter_cursor t"] exI [of _ m]) simp
  next
    case True
    have "t_pos (t, m) + length (take tk (drop sk d)) \<le> t_cap (t, m)"
      using le by (simp add: tk' t_cap_def t_pos_def)
    from t_put_Some [OF rf this] put True obtain m' cur rc where
      "s' = (t\<lparr>received := rc, scatter_cursor := cur\<rparr>, m')" by (metis fst_conv option.inject)
    with al' put True show ?thesis by (auto simp: t_put_def)
  qed
qed

lemma consume_payload_aligned:
  assumes al: "wire_aligned t0 m0 obj c w" and sl: "slice_at obj c d"
  shows "\<exists>n w'. consume_payload w d = Some (n, w') \<and>
    (n = length d \<or> n = 0 \<and> complete w') \<and> wire_aligned t0 m0 obj (c + length d) w' \<and> progressed w w' \<and>
    (satisfied (t_response (w_transfer w')) \<longrightarrow> satisfied (t_response (w_transfer w)) \<or> complete w')"
proof -
  let ?t = "w_transfer w" and ?m = "w_memory w" and ?sk = "skip_left w"
  define drp where "drp = min ?sk (length d)"
  define nsk where "nsk = skip (t_response ?t) - of_nat drp"
  define t1 where "t1 = ?t\<lparr>t_response := (t_response ?t)\<lparr>skip := nsk\<rparr>\<rparr>"
  define tk where "tk = min (unat (t_length t1 - received t1)) (length (drop ?sk d))"
  have "unat (of_nat drp :: u64) = drp"
    using unat_u64_less [of "skip (t_response ?t)"] by (intro unat_of_nat_u64) (simp add: drp_def skip_left_def)
  then have nsk: "unat nsk = ?sk - drp"
    by (simp add: nsk_def skip_left_def drp_def unat_u64_sub)
  have rest: "drop drp d = drop ?sk d" by (cases "?sk \<le> length d") (auto simp: drp_def)
  have al1: "body_aligned t0 m0 obj c (?sk, t1, ?m)" using al by (simp add: t1_def)
  from store_at_most [OF al1 sl tk_def] obtain rc cur m' where
    st: "(if 0 < tk then store_payload t1 ?m (take tk (drop ?sk d)) else Some (t1, ?m)) =
      Some (t1\<lparr>received := rc, scatter_cursor := cur\<rparr>, m')"
    and al2: "body_aligned t0 m0 obj (c + length d) (?sk - drp, t1\<lparr>received := rc, scatter_cursor := cur\<rparr>, m')"
    unfolding drp_def [symmetric] by blast
  let ?t2 = "t1\<lparr>received := rc, scatter_cursor := cur\<rparr>"
  have "?t2 = (?t\<lparr>received := rc, scatter_cursor := cur\<rparr>)\<lparr>t_response := (t_response ?t)\<lparr>skip := nsk\<rparr>\<rparr>"
    by (simp add: t1_def)
  with al2 have al3: "body_aligned t0 m0 obj (c + length d) (?sk - drp, ?t\<lparr>received := rc, scatter_cursor := cur\<rparr>, m')"
    by simp
  have c: "consume_payload w d =
      (if drop ?sk d = [] then Some (length d, w\<lparr>w_transfer := t1\<rparr>)
       else case (if 0 < tk then store_payload t1 ?m (take tk (drop ?sk d)) else Some (t1, ?m)) of
         None \<Rightarrow> None
       | Some (t', m) \<Rightarrow>
           (if received t' = t_length t'
            then (let t'' = map_response (\<lambda>r. r\<lparr>satisfied := True\<rparr>) t'
                  in Some (if kDrainLimit < unat (excess_after t'' (tk = length (drop ?sk d))) then 0 else length d,
                           w\<lparr>w_transfer := t'', w_memory := m\<rparr>))
            else Some (length d, w\<lparr>w_transfer := t', w_memory := m\<rparr>)))"
    by (simp only: consume_payload_def Let_def drp_def [symmetric] skip_left_def [symmetric] rest
        nsk_def [symmetric] t1_def [symmetric] tk_def [symmetric])
  have pr1: "progressed w (w\<lparr>w_transfer := t1\<lparr>received := x, scatter_cursor := y\<rparr>, w_memory := z\<rparr>)" for x y z
    unfolding progressed_def t1_def
    by (intro exI [of _ x] exI [of _ y] exI [of _ nsk] exI [of _ "satisfied (t_response ?t)"]) simp
  have pr2: "progressed w (w\<lparr>w_transfer := map_response (\<lambda>r. r\<lparr>satisfied := True\<rparr>)
      (t1\<lparr>received := x, scatter_cursor := y\<rparr>), w_memory := z\<rparr>)" for x y z
    unfolding progressed_def t1_def
    by (intro exI [of _ x] exI [of _ y] exI [of _ nsk] exI [of _ True]) simp
  consider (none) "drop ?sk d = []" | (full) "drop ?sk d \<noteq> []" "rc = t_length t1"
    | (part) "drop ?sk d \<noteq> []" "rc \<noteq> t_length t1" by blast
  then show ?thesis
  proof cases
    case none
    then have "tk = 0" by (simp add: tk_def)
    then have "?t2 = t1" "m' = ?m" using st by simp_all
    with al2 nsk none c pr1 [where x = "received t1" and y = "scatter_cursor t1" and z = ?m] show ?thesis
      by (auto simp: skip_left_def t1_def)
  next
    case full
    then have "?sk - drp = 0" by (auto simp: drp_def)
    with full show ?thesis
      using al3 nsk c st pr2 [where x = rc and y = cur and z = m']
      by (auto simp: Let_def skip_left_def t1_def complete_def)
  next
    case part
    then show ?thesis
      using al2 nsk c st pr1 [where x = rc and y = cur and z = m'] by (auto simp: skip_left_def t1_def)
  qed
qed

section \<open>The whole body\<close>

text \<open>
  libcurl hands the body over in chunks and stops when the callback does not take a whole chunk.
\<close>

fun receive_all :: "curl_info \<Rightarrow> byte list list \<Rightarrow> wire \<Rightarrow> wire option" where
  "receive_all info [] w = Some w"
| "receive_all info (d # ds) w =
     (case receive_chunk info d w of
        None \<Rightarrow> None
      | Some (n, w') \<Rightarrow> (if n = length d then receive_all info ds w' else Some w'))"

definition started_ok :: "wire \<Rightarrow> bool" where
  "started_ok w \<longleftrightarrow> checked_status (t_response (w_transfer w)) \<and> ok_status (http_status (t_response (w_transfer w))) \<and>
     (satisfied (t_response (w_transfer w)) \<longrightarrow> complete w)"

lemma count_received_simps [simp]:
  "w_transfer (count_received n w) = w_transfer w" "w_memory (count_received n w) = w_memory w"
  "skip_left (count_received n w) = skip_left w" "complete (count_received n w) = complete w"
  "progressed (count_received n w) w' = progressed w w'" "progressed w' (count_received n w) = progressed w' w"
  by (simp_all add: count_received_def skip_left_def complete_def progressed_def)

lemma progressed_refl [simp]: "progressed w w"
  unfolding progressed_def
  by (intro exI [of _ "received (w_transfer w)"] exI [of _ "scatter_cursor (w_transfer w)"]
      exI [of _ "skip (t_response (w_transfer w))"] exI [of _ "satisfied (t_response (w_transfer w))"]) simp

lemma receive_chunk_started:
  assumes "started_ok w" "\<not> satisfied (t_response (w_transfer w))"
  shows "receive_chunk info d w = consume_payload (count_received (length d) w) d"
  using assms by (auto simp: receive_chunk_def started_ok_def ok_status_def Let_def)

lemma receive_chunk_aligned:
  assumes ok: "started_ok w" and al: "wire_aligned t0 m0 obj c w" and sl: "slice_at obj c d"
  shows "\<exists>n w'. receive_chunk info d w = Some (n, w') \<and> (n = length d \<or> n = 0 \<and> complete w') \<and>
    wire_aligned t0 m0 obj (c + length d) w' \<and> progressed w w' \<and> started_ok w'"
proof (cases "satisfied (t_response (w_transfer w))")
  case True
  then have c: "complete w" using ok by (simp add: started_ok_def)
  have "receive_chunk info d w = Some (length d, count_received (length d) w)"
    using True by (simp add: receive_chunk_def Let_def)
  with complete_aligned [OF c al] ok show ?thesis by (auto simp: started_ok_def)
next
  case False
  let ?w = "count_received (length d) w"
  obtain n w' where w': "consume_payload ?w d = Some (n, w')" "n = length d \<or> n = 0 \<and> complete w'"
    "wire_aligned t0 m0 obj (c + length d) w'" "progressed ?w w'"
    "satisfied (t_response (w_transfer w')) \<longrightarrow> satisfied (t_response (w_transfer ?w)) \<or> complete w'"
    using consume_payload_aligned [of t0 m0 obj c ?w d] al sl by auto
  have "started_ok w'"
    using ok w'(5) False progressed_fields [OF w'(4)] by (simp add: started_ok_def)
  with w' show ?thesis
    unfolding receive_chunk_started [OF ok False] by auto
qed

lemma receive_all_aligned:
  assumes "started_ok w" "wire_aligned t0 m0 obj c w" "slice_at obj c (concat ds)"
  shows "\<exists>w' c'. receive_all info ds w = Some w' \<and> wire_aligned t0 m0 obj c' w' \<and> progressed w w' \<and>
    started_ok w' \<and> (c' = c + length (concat ds) \<or> complete w')"
  using assms
proof (induction ds arbitrary: w c)
  case Nil
  then show ?case by auto
next
  case (Cons d ds)
  have sl: "slice_at obj c d" "slice_at obj (c + length d) (concat ds)"
    using Cons.prems(3) by (simp_all add: slice_at_append)
  obtain n w1 where w1: "receive_chunk info d w = Some (n, w1)" "n = length d \<or> n = 0 \<and> complete w1"
    "wire_aligned t0 m0 obj (c + length d) w1" "progressed w w1" "started_ok w1"
    using receive_chunk_aligned [OF Cons.prems(1,2) sl(1)] by blast
  show ?case
  proof (cases "n = length d")
    case True
    from Cons.IH [OF w1(5,3) sl(2)] obtain w' c' where "receive_all info ds w1 = Some w'"
      "wire_aligned t0 m0 obj c' w'" "progressed w1 w'" "started_ok w'"
      "c' = c + length d + length (concat ds) \<or> complete w'" by blast
    with True w1(1,4) show ?thesis by (auto intro: progressed_trans simp: add.assoc)
  next
    case False
    with w1 show ?thesis by auto
  qed
qed

section \<open>The start of a body\<close>

text \<open>The state of a transfer when the headers of its response are in and no body byte is.\<close>

definition body_start :: "transfer \<Rightarrow> bool" where
  "body_start t \<longleftrightarrow> receiving t \<and> received t = resumed t \<and> scatter_cursor t = 0 \<and>
     \<not> satisfied (t_response t) \<and> \<not> checked_status (t_response t) \<and> skip (t_response t) = 0"

text \<open>The position in the object of the first body byte: where the Content-Range starts, or the start
  of the whole object.\<close>

definition body_origin :: "curl_info \<Rightarrow> transfer \<Rightarrow> nat" where
  "body_origin info t =
     (if info_response_code info = 206 then unat (content_range_start (t_response t)) else 0)"

definition accepts_body :: "curl_info \<Rightarrow> transfer \<Rightarrow> bool" where
  "accepts_body info t \<longleftrightarrow> \<not> transformed (encoding (t_response t)) \<and> \<not> contradicts_pin t \<and>
     (info_response_code info = 206 \<longrightarrow> valid_content_range t) \<and>
     (info_response_code info = 200 \<longrightarrow> t_offset t \<le> t_fallback_limit t)"

lemma contradicts_pin_response:
  "response_etag r = response_etag (t_response t) \<Longrightarrow> contradicts_pin (t\<lparr>t_response := r\<rparr>) = contradicts_pin t"
  by (simp add: contradicts_pin_def version_pin_def)

lemma valid_content_range_status [simp]:
  "valid_content_range (t\<lparr>t_response := r\<lparr>checked_status := a, http_status := b\<rparr>\<rparr>) =
   valid_content_range (t\<lparr>t_response := r\<rparr>)"
  by (simp add: valid_content_range_def)

lemma start_transfer_body_go:
  assumes "info_response_code info = 200 \<or> info_response_code info = 206"
  shows "fst (start_transfer_body info t) = accepts_body info t"
  using assms
  by (auto simp: start_transfer_body_def accepts_body_def ok_status_def Let_def contradicts_pin_response not_less
      split: if_splits)

definition restarted :: "transfer \<Rightarrow> transfer \<Rightarrow> bool" where
  "restarted t t' \<longleftrightarrow> (\<exists>r. t' = t\<lparr>t_response := r\<rparr> \<or> t' = t\<lparr>resumed := 0, received := 0, t_response := r\<rparr>)"

lemma restarted_simps [simp]:
  "restarted t (t\<lparr>t_response := r\<rparr>)" "restarted t (t\<lparr>resumed := 0, received := 0, t_response := r\<rparr>)"
  by (auto simp: restarted_def)

lemma start_transfer_body_shape: "restarted t (snd (start_transfer_body info t))"
  unfolding start_transfer_body_def Let_def by simp

lemma body_start_zero:
  assumes "body_start t"
  shows "receiving (t\<lparr>resumed := 0, received := 0\<rparr>)" "holds_parts obj (t\<lparr>resumed := 0, received := 0\<rparr>, m)"
  using assms by (auto simp: body_start_def receiving_def wf_transfer_def cursor_ok_def holds_parts_def)

lemma start_refused:
  assumes "body_start t" "holds_parts obj (t, m)" "snd (start_transfer_body info t) = t1"
  shows "holds_parts obj (t1, m) \<and> receiving_from t m (t1, m)"
proof -
  have r: "receiving_from t m (t, m)" "receiving_from t m (t\<lparr>resumed := 0, received := 0\<rparr>, m)"
    using assms(1) body_start_zero(1) [OF assms(1)] by (simp_all add: receiving_from_def body_start_def)
  from start_transfer_body_shape [of t info] obtain rs where
    "t1 = t\<lparr>t_response := rs\<rparr> \<or> t1 = t\<lparr>resumed := 0, received := 0\<rparr>\<lparr>t_response := rs\<rparr>"
    unfolding assms(3) restarted_def by blast
  with r assms(2) body_start_zero(2) [OF assms(1)] show ?thesis
    by (metis holds_parts_response receiving_from_response)
qed

lemma start_206:
  assumes b: "body_start t" and h: "holds_parts obj (t, m)" and i: "info_response_code info = 206"
    and a: "accepts_body info t" and st: "snd (start_transfer_body info t) = t1"
  shows "started_ok \<lparr>w_transfer = t1, w_memory = m, w_received_bytes = n\<rparr> \<and>
    wire_aligned t m obj (unat (content_range_start (t_response t))) \<lparr>w_transfer = t1, w_memory = m, w_received_bytes = n\<rparr>"
proof -
  have "valid_content_range t" using a i by (simp add: accepts_body_def)
  then have start: "content_range_start (t_response t) = t_offset t + resumed t"
    by (auto simp: valid_content_range_def Let_def split: if_splits)
  have t1: "t1 = t\<lparr>t_response := (t_response t)\<lparr>checked_status := True, http_status := 206,
      skip := 0, body_length := info_content_length info, consume := t_length t - resumed t\<rparr>\<rparr>"
    unfolding st [symmetric]
    using i a b by (simp add: start_transfer_body_def accepts_body_def body_start_def ok_status_def Let_def
        contradicts_pin_response)
  have rc: "receiving t" "received t = resumed t" using b by (auto simp: body_start_def)
  then have le: "unat (t_offset t) + unat (t_length t) \<le> 2 ^ 64" "unat (received t) \<le> unat (t_length t)"
    by (auto simp: receiving_def wf_transfer_def)
  have at: "unat (received t) = unat (t_length t) \<or>
      unat (content_range_start (t_response t)) = unat (t_offset t) + unat (received t)"
    using le rc(2) unat_u64_add [of "t_offset t" "received t"] by (fastforce simp: start)
  have "body_aligned t m obj (unat (content_range_start (t_response t))) (0, t, m)"
    using h rc at by (auto simp: payload.aligned_def receiving_from_def t_base_def t_pos_def t_cap_def)
  with t1 b show ?thesis
    by (auto simp: started_ok_def skip_left_def ok_status_def body_start_def)
qed

lemma start_200:
  assumes b: "body_start t" and i: "info_response_code info = 200"
    and a: "accepts_body info t" and st: "snd (start_transfer_body info t) = t1"
  shows "started_ok \<lparr>w_transfer = t1, w_memory = m, w_received_bytes = n\<rparr> \<and>
    wire_aligned t m obj 0 \<lparr>w_transfer = t1, w_memory = m, w_received_bytes = n\<rparr>"
proof -
  let ?z = "t\<lparr>resumed := 0, received := 0\<rparr>"
  have t1: "t1 = ?z\<lparr>t_response := (t_response t)\<lparr>checked_status := True, http_status := 200,
      skip := t_offset t, body_length := info_content_length info,
      consume := (if u64_max - t_length t < t_offset t then u64_max else t_offset t + t_length t)\<rparr>\<rparr>"
  proof -
    have f: "\<not> t_fallback_limit t < t_offset t" "\<not> transformed (encoding (t_response t))" "\<not> contradicts_pin t"
      using a i by (simp_all add: accepts_body_def not_less)
    have g: "received t = resumed t" "skip (t_response t) = 0" using b by (simp_all add: body_start_def)
    have p: "contradicts_pin (t\<lparr>t_response := (t_response t)\<lparr>checked_status := True, http_status := 200\<rparr>\<rparr>) = contradicts_pin t"
      by (rule contradicts_pin_response) simp
    show ?thesis
    proof (cases "resumed t = 0")
      case True
      then have "t = ?z" using g by simp
      with True show ?thesis
        unfolding st [symmetric] start_transfer_body_def Let_def i
        using f g p by (cases "t_offset t = 0") (simp_all add: ok_status_def word_neq_0_conv [symmetric])
    next
      case False
      then show ?thesis
        unfolding st [symmetric] start_transfer_body_def Let_def i
        using f g p by (cases "t_offset t = 0") (simp_all add: ok_status_def word_neq_0_conv [symmetric])
    qed
  qed
  have "body_aligned t m obj 0 (unat (t_offset t), ?z, m)"
    using body_start_zero [OF b]
    by (auto simp: payload.aligned_def receiving_from_def t_base_def t_pos_def t_cap_def)
  with t1 b show ?thesis
    by (auto simp: started_ok_def skip_left_def ok_status_def body_start_def)
qed

lemma start_body_aligned:
  assumes "body_start t" "holds_parts obj (t, m)"
    "info_response_code info = 200 \<or> info_response_code info = 206" "accepts_body info t"
    "snd (start_transfer_body info t) = t1"
  shows "started_ok \<lparr>w_transfer = t1, w_memory = m, w_received_bytes = n\<rparr> \<and>
    wire_aligned t m obj (body_origin info t) \<lparr>w_transfer = t1, w_memory = m, w_received_bytes = n\<rparr>"
  using assms start_206 [of t obj m info t1 n] start_200 [of t info t1 m n obj]
  by (auto simp: body_origin_def)

text \<open>The first chunk runs the checks, then is a chunk like any other.\<close>

lemma receive_first:
  assumes "body_start t" "info_response_code info = 200 \<or> info_response_code info = 206"
  shows "receive_all info (d # ds) \<lparr>w_transfer = t, w_memory = m, w_received_bytes = n\<rparr> =
    (if accepts_body info t
     then receive_all info (d # ds)
            \<lparr>w_transfer = snd (start_transfer_body info t), w_memory = m, w_received_bytes = n\<rparr>
     else if d = [] then receive_all info ds
            \<lparr>w_transfer = snd (start_transfer_body info t), w_memory = m, w_received_bytes = n\<rparr>
     else Some \<lparr>w_transfer = snd (start_transfer_body info t), w_memory = m, w_received_bytes = n\<rparr>)"
proof -
  obtain go t1 where st: "start_transfer_body info t = (go, t1)" by (cases "start_transfer_body info t")
  then have go: "go = accepts_body info t" using start_transfer_body_go [OF assms(2), of t] by simp
  have fresh: "\<not> satisfied (t_response t)" "\<not> checked_status (t_response t)"
    using assms(1) by (simp_all add: body_start_def)
  have "checked_status (t_response t1)" "\<not> satisfied (t_response t1)" if "accepts_body info t"
    using st fresh unfolding start_transfer_body_def Let_def by (auto split: if_splits)
  then show ?thesis
    using st go fresh by (auto simp: receive_chunk_def Let_def)
qed

lemma receive_accepted:
  assumes "body_start t" "info_response_code info = 200 \<or> info_response_code info = 206"
    "accepts_body info t" "ds \<noteq> []"
  shows "receive_all info ds \<lparr>w_transfer = t, w_memory = m, w_received_bytes = n\<rparr> =
    receive_all info ds \<lparr>w_transfer = snd (start_transfer_body info t), w_memory = m, w_received_bytes = n\<rparr>"
proof -
  obtain d ds' where ds: "ds = d # ds'" using assms(4) by (cases ds) auto
  show ?thesis unfolding ds by (simp only: receive_first [OF assms(1,2)] assms(3) if_True)
qed

lemma wire_aligned_holds:
  assumes "wire_aligned t m obj c w"
  shows "holds_parts obj (w_transfer w, w_memory w) \<and> receiving_from t m (w_transfer w, w_memory w)"
  using assms by (simp add: payload.aligned_def)

section \<open>Properties\<close>

text \<open>
  A concrete transfer for the witnesses: two parts of two bytes each, with a gap of one byte, at
  offset 10 of an object whose byte \<open>i\<close> is the character \<open>i\<close>.
\<close>

definition sample_bytes :: "nat \<Rightarrow> byte" where
  "sample_bytes i = char_of i"

definition sample_part :: "u64 \<Rightarrow> addr \<Rightarrow> part" where
  "sample_part off a = \<lparr>relative_offset = off, part_length = 2, part_buffer = Some a, part_tag = 0, part_owned = None\<rparr>"

definition sample_transfer :: transfer where
  "sample_transfer = new_transfer\<lparr>t_offset := 10, t_length := 5, t_parts := [sample_part 0 100, sample_part 3 200],
     scattered := True, t_response := fresh_response\<lparr>content_range_seen := True, content_range_valid := True,
       content_range_matches := True, content_range_start := 10, content_range_end := 14\<rparr>\<rparr>"

definition sample_info :: "int \<Rightarrow> curl_info" where
  "sample_info code = \<lparr>info_response_code = code, info_content_length = 5\<rparr>"

lemmas sample_transfer_defs = sample_transfer_def sample_part_def sample_info_def sample_bytes_def new_transfer_def
  fresh_response_def no_encoding_def

lemma sample_body_start: "body_start sample_transfer"
  by (simp add: body_start_def receiving_def wf_transfer_def disjoint_parts_def part_region_def cursor_ok_def
      is_scattered_def sample_transfer_defs)

lemma sample_holds: "holds_parts obj (sample_transfer, m)"
  by (simp add: holds_parts_def sample_transfer_defs)

lemma sample_slice:
  "slice_at sample_bytes (body_origin (sample_info 206) sample_transfer)
     (concat [map sample_bytes [10, 11], map sample_bytes [12, 13, 14]])"
  by (simp add: slice_at_list body_origin_def sample_transfer_def sample_info_def)

text \<open>
  C3. Whatever way a 200 or 206 body is cut into chunks, the callbacks never write through a null
  pointer, never write outside the parts' buffers, and every byte of a part up to what was received
  is the object's byte at that position, for ranges resumed after an interruption and for servers
  that ignore the Range as well.
\<close>

theorem body_delivers_object:
  assumes "body_start t" "holds_parts obj (t, m)"
    "info_response_code info = 200 \<or> info_response_code info = 206"
    "slice_at obj (body_origin info t) (concat ds)" "\<forall>d \<in> set ds. d \<noteq> []"
  shows "\<exists>w. receive_all info ds \<lparr>w_transfer = t, w_memory = m, w_received_bytes = n\<rparr> = Some w \<and>
    t_parts (w_transfer w) = t_parts t \<and> t_offset (w_transfer w) = t_offset t \<and>
    received (w_transfer w) \<le> t_length (w_transfer w) \<and>
    (\<forall>p \<in> set (t_parts t). \<forall>i < unat (part_length p).
       unat (relative_offset p) + i < unat (received (w_transfer w)) \<longrightarrow>
       w_memory w (the (part_buffer p) + i) = obj (unat (t_offset t) + unat (relative_offset p) + i)) \<and>
    (\<forall>a. (\<forall>p \<in> set (t_parts t). a \<notin> part_region p) \<longrightarrow> w_memory w a = m a)"
proof -
  let ?w = "\<lparr>w_transfer = snd (start_transfer_body info t), w_memory = m, w_received_bytes = n\<rparr>"
  have "\<exists>w. receive_all info ds \<lparr>w_transfer = t, w_memory = m, w_received_bytes = n\<rparr> = Some w \<and>
      holds_parts obj (w_transfer w, w_memory w) \<and> receiving_from t m (w_transfer w, w_memory w)"
  proof (cases ds)
    case Nil
    then show ?thesis using assms(1,2) by (simp add: receiving_from_def body_start_def)
  next
    case (Cons d ds')
    show ?thesis
    proof (cases "accepts_body info t")
      case True
      note st = start_body_aligned [OF assms(1-3) True refl, of n]
      from receive_all_aligned [OF conjunct1 [OF st] conjunct2 [OF st] assms(4), of info]
      obtain w' c' where "receive_all info ds ?w = Some w'" "wire_aligned t m obj c' w'" by blast
      then show ?thesis
        using wire_aligned_holds receive_accepted [OF assms(1,3) True, of ds m n] Cons by (metis list.discI)
    next
      case False
      with assms(5) Cons show ?thesis
        using start_refused [OF assms(1,2) refl, of info] receive_first [OF assms(1,3), of d ds' m n] by simp
    qed
  qed
  then obtain w where w: "receive_all info ds \<lparr>w_transfer = t, w_memory = m, w_received_bytes = n\<rparr> = Some w"
    "holds_parts obj (w_transfer w, w_memory w)" "receiving_from t m (w_transfer w, w_memory w)" by blast
  then show ?thesis
    by (intro exI [of _ w]) (auto simp: receiving_from_def receiving_def holds_parts_def u64_le_iff)
qed

theorem body_delivers_object_witness:
  "\<exists>w. receive_all (sample_info 206) [map sample_bytes [10, 11], map sample_bytes [12, 13, 14]]
       \<lparr>w_transfer = sample_transfer, w_memory = (\<lambda>_. CHR ''-''), w_received_bytes = 0\<rparr> = Some w \<and>
     t_parts (w_transfer w) = [sample_part 0 100, sample_part 3 200] \<and> w_memory w 102 = CHR ''-''"
proof -
  have code: "info_response_code (sample_info 206) = 200 \<or> info_response_code (sample_info 206) = 206"
    by (simp add: sample_info_def)
  have parts: "t_parts sample_transfer = [sample_part 0 100, sample_part 3 200]" "\<forall>p \<in> set (t_parts sample_transfer). 102 \<notin> part_region p"
    by (simp_all add: sample_transfer_defs part_region_def)
  show ?thesis
    using body_delivers_object [OF sample_body_start sample_holds code sample_slice, of "\<lambda>_. CHR ''-''" 0] parts
    by auto
qed

text \<open>
  C4. A body that reaches the end of the range completes the transfer: when the checks of the first
  chunk pass, every byte the transfer wants is received.
\<close>

theorem body_completes:
  assumes "body_start t" "holds_parts obj (t, m)"
    "info_response_code info = 200 \<or> info_response_code info = 206" "accepts_body info t"
    "slice_at obj (body_origin info t) (concat ds)" "ds \<noteq> []"
    "unat (t_offset t) + unat (t_length t) \<le> body_origin info t + length (concat ds)"
  shows "\<exists>w. receive_all info ds \<lparr>w_transfer = t, w_memory = m, w_received_bytes = n\<rparr> = Some w \<and>
    received (w_transfer w) = t_length t"
proof -
  let ?w = "\<lparr>w_transfer = snd (start_transfer_body info t), w_memory = m, w_received_bytes = n\<rparr>"
  note st = start_body_aligned [OF assms(1-4) refl, of n]
  from receive_all_aligned [OF conjunct1 [OF st] conjunct2 [OF st] assms(5), of info]
  obtain w' c' where w': "receive_all info ds ?w = Some w'" "wire_aligned t m obj c' w'"
    "c' = body_origin info t + length (concat ds) \<or> complete w'" by blast
  have same: "t_offset (w_transfer w') = t_offset t" "t_length (w_transfer w') = t_length t"
    using wire_aligned_holds [OF w'(2)] by (auto simp: receiving_from_def)
  have "received (w_transfer w') = t_length (w_transfer w')"
  proof (cases "complete w'")
    case True
    then show ?thesis by (simp add: complete_def)
  next
    case False
    then have "t_base (w_transfer w', w_memory w') + t_cap (w_transfer w', w_memory w') \<le> c'"
      using assms(7) w'(3) same by (simp add: t_base_def t_cap_def)
    from payload.aligned_complete [OF w'(2) this] show ?thesis by (simp add: t_pos_def t_cap_def u64_eq_iff)
  qed
  with w'(1) same show ?thesis
    using receive_accepted [OF assms(1,3,4,6), of m n] by simp
qed

theorem body_completes_witness:
  "\<exists>w. receive_all (sample_info 206) [map sample_bytes [10, 11], map sample_bytes [12, 13, 14]]
       \<lparr>w_transfer = sample_transfer, w_memory = (\<lambda>_. CHR ''-''), w_received_bytes = 0\<rparr> = Some w \<and>
     received (w_transfer w) = 5"
proof -
  have code: "info_response_code (sample_info 206) = 200 \<or> info_response_code (sample_info 206) = 206"
    by (simp add: sample_info_def)
  have acc: "accepts_body (sample_info 206) sample_transfer"
    by (simp add: accepts_body_def valid_content_range_def contradicts_pin_def version_pin_def is_strong_etag_def
        transformed_def sample_transfer_defs)
  have reach: "unat (t_offset sample_transfer) + unat (t_length sample_transfer) \<le> body_origin (sample_info 206) sample_transfer +
      length (concat [map sample_bytes [10, 11], map sample_bytes [12, 13, 14]])"
    by (simp add: body_origin_def sample_transfer_defs)
  have "t_length sample_transfer = 5" by (simp add: sample_transfer_defs)
  with body_completes [OF sample_body_start sample_holds code acc sample_slice _ reach, of "\<lambda>_. CHR ''-''" 0]
  show ?thesis by simp
qed

text \<open>
  A success status other than 200 and 206 is not refused: the first bytes of a whole-object body
  sent with status 203 are stored as the bytes at the requested offset, and the transfer counts as
  succeeded.
\<close>

lemma unexpected_success_misplaces_body:
  "case receive_all (sample_info 203) [map sample_bytes [0, 1, 2, 3, 4]]
      \<lparr>w_transfer = sample_transfer, w_memory = (\<lambda>_. CHR ''-''), w_received_bytes = 0\<rparr> of
    Some w \<Rightarrow> succeeded (w_transfer w) CURLE_OK \<and> t_offset (w_transfer w) = 10 \<and>
      w_memory w 100 = sample_bytes 0 \<and> sample_bytes 0 \<noteq> sample_bytes 10
  | None \<Rightarrow> False"
  by code_simp

end
