(* ===== verification/Karu_Batch.thy ===== *)
theory Karu_Batch
  imports Karu_Types
begin

text \<open>
  The state a caller and the workers share for one batch, \<open>src/src/runtime/batch.cpp\<close>: the queue of
  completions, the counts of parts and transfers that are still out, the cancellation flag, the
  regions learnt from redirects and the statistics. Each operation runs under the batch's mutex, so
  it is one atomic function on \<open>batch_state\<close>. The locale \<open>completion_queue\<close> is the contract the
  caller relies on: first in, first out.
\<close>

section \<open>State\<close>

record batch_counters =
  bc_transfers :: u64
  bc_transfers_finished :: u64
  bc_requested_bytes :: u64
  bc_received_bytes :: u64
  bc_retries :: u64
  bc_throttled :: u64
  bc_new_connections :: u64
  bc_resumed :: u64
  bc_credential_refreshes :: u64

record batch_state =
  counters :: batch_counters
  ready :: "completion list"
  regions :: "string \<Rightarrow> string option"
  pending_parts :: nat
  live_transfers :: nat
  cancelled :: bool
  owner_process :: int

definition no_counters :: batch_counters where
  "no_counters = \<lparr>bc_transfers = 0, bc_transfers_finished = 0, bc_requested_bytes = 0, bc_received_bytes = 0,
     bc_retries = 0, bc_throttled = 0, bc_new_connections = 0, bc_resumed = 0, bc_credential_refreshes = 0\<rparr>"

definition new_batch :: "int \<Rightarrow> batch_state" where
  "new_batch pid = \<lparr>counters = no_counters, ready = [], regions = (\<lambda>_. None), pending_parts = 0,
     live_transfers = 0, cancelled = False, owner_process = pid\<rparr>"

section \<open>Operations\<close>

text \<open>What the waiter's predicate tests.\<close>

definition can_return :: "batch_state \<Rightarrow> bool" where
  "can_return b \<longleftrightarrow> ready b \<noteq> [] \<or> pending_parts b = 0 \<or> cancelled b"

text \<open>
  \<open>batch_next b timeout_ms\<close> on the state \<open>b\<close> the wait ends in. With a negative timeout the call keeps
  waiting while the predicate fails, which is \<^const>\<open>None\<close>; otherwise it then gives up.
\<close>

definition batch_next :: "batch_state \<Rightarrow> int \<Rightarrow> (karu_status \<times> completion option \<times> batch_state) option" where
  "batch_next b timeout_ms =
     (if \<not> can_return b then (if timeout_ms < 0 then None else Some (KARU_TIMEOUT, None, b))
      else case ready b of
             [] \<Rightarrow> Some (KARU_END, None, b)
           | c # cs \<Rightarrow> Some (KARU_OK, Some c, b\<lparr>ready := cs\<rparr>))"

definition push :: "batch_state \<Rightarrow> completion \<Rightarrow> batch_state" where
  "push b c = b\<lparr>ready := ready b @ [c],
     pending_parts := (if 0 < pending_parts b then pending_parts b - 1 else pending_parts b)\<rparr>"

definition transfer_finished :: "batch_state \<Rightarrow> batch_state" where
  "transfer_finished b =
     b\<lparr>live_transfers := (if 0 < live_transfers b then live_transfers b - 1 else live_transfers b)\<rparr>"

definition is_cancelled :: "batch_state \<Rightarrow> bool" where
  "is_cancelled b = cancelled b"

definition inherited :: "int \<Rightarrow> batch_state \<Rightarrow> bool" where
  "inherited pid b \<longleftrightarrow> owner_process b \<noteq> pid"

definition batch_region_hint :: "batch_state \<Rightarrow> string \<Rightarrow> string" where
  "batch_region_hint b resource = (case regions b resource of None \<Rightarrow> [] | Some r \<Rightarrow> r)"

definition remember_region :: "batch_state \<Rightarrow> string \<Rightarrow> string \<Rightarrow> batch_state" where
  "remember_region b resource region = b\<lparr>regions := (regions b)(resource \<mapsto> region)\<rparr>"

definition release_buffer :: "completion \<Rightarrow> addr option \<times> completion" where
  "release_buffer c = (if cp_owned c \<noteq> None then (cp_owned c, c\<lparr>cp_owned := None\<rparr>) else (cp_buffer c, c))"

section \<open>Facts shared by the engine\<close>

lemma push_simps [simp]:
  "ready (push b c) = ready b @ [c]" "pending_parts (push b c) = pending_parts b - 1"
  "live_transfers (push b c) = live_transfers b" "cancelled (push b c) = cancelled b"
  "regions (push b c) = regions b" "counters (push b c) = counters b"
  by (auto simp: push_def)

lemma transfer_finished_simps [simp]:
  "ready (transfer_finished b) = ready b" "pending_parts (transfer_finished b) = pending_parts b"
  "live_transfers (transfer_finished b) = live_transfers b - 1" "cancelled (transfer_finished b) = cancelled b"
  "regions (transfer_finished b) = regions b" "counters (transfer_finished b) = counters b"
  by (auto simp: transfer_finished_def)

lemma foldl_push_simps [simp]:
  "ready (foldl push b cs) = ready b @ cs" "pending_parts (foldl push b cs) = pending_parts b - length cs"
  "live_transfers (foldl push b cs) = live_transfers b" "cancelled (foldl push b cs) = cancelled b"
  "regions (foldl push b cs) = regions b" "counters (foldl push b cs) = counters b"
  by (induction cs arbitrary: b) auto

lemma region_hint_remembered [simp]:
  "batch_region_hint (remember_region b r x) r' = (if r' = r then x else batch_region_hint b r')"
  by (simp add: batch_region_hint_def remember_region_def)

section \<open>First in, first out\<close>

text \<open>A run of puts (\<open>Some c\<close>) and gets (\<open>None\<close>) on a queue: what was got, and the queue at the end.\<close>

fun run_queue :: "('q \<Rightarrow> 'c \<Rightarrow> 'q) \<Rightarrow> ('q \<Rightarrow> ('c \<times> 'q) option) \<Rightarrow> 'c option list \<Rightarrow> 'q \<Rightarrow> 'c list \<times> 'q" where
  "run_queue put get [] q = ([], q)"
| "run_queue put get (Some c # ops) q = run_queue put get ops (put q c)"
| "run_queue put get (None # ops) q =
     (case get q of
        None \<Rightarrow> run_queue put get ops q
      | Some (c, q') \<Rightarrow> (case run_queue put get ops q' of (got, q'') \<Rightarrow> (c # got, q'')))"

locale completion_queue =
  fixes put :: "'q \<Rightarrow> 'c \<Rightarrow> 'q" and get :: "'q \<Rightarrow> ('c \<times> 'q) option" and contents :: "'q \<Rightarrow> 'c list"
  assumes put_contents: "contents (put q c) = contents q @ [c]"
    and get_None: "get q = None \<longleftrightarrow> contents q = []"
    and get_Some: "get q = Some (c, q') \<Longrightarrow> contents q = c # contents q'"
begin

lemma run_fifo:
  "run_queue put get ops q = (got, q') \<Longrightarrow> got @ contents q' = contents q @ List.map_filter id ops"
proof (induction ops arbitrary: q got)
  case Nil
  then show ?case by (simp add: map_filter_simps)
next
  case (Cons x ops)
  show ?case
  proof (cases x)
    case (Some c)
    with Cons show ?thesis by (simp add: put_contents map_filter_simps)
  next
    case None
    show ?thesis
    proof (cases "get q")
      case N: None
      with Cons None show ?thesis by (simp add: map_filter_simps)
    next
      case (Some a)
      obtain c q1 where a: "a = (c, q1)" by (cases a)
      obtain g q2 where r: "run_queue put get ops q1 = (g, q2)" by (cases "run_queue put get ops q1")
      with Cons.prems None Some a have g: "got = c # g" "q' = q2" by simp_all
      show ?thesis
        using Cons.IH [OF r [folded g(2)]] None g get_Some [OF Some [unfolded a]] by (simp add: map_filter_simps)
    qed
  qed
qed

end

text \<open>A caller's get is a \<open>next\<close> that answered \<open>KARU_OK\<close>.\<close>

definition take_completion :: "batch_state \<Rightarrow> (completion \<times> batch_state) option" where
  "take_completion b =
     (case batch_next b 0 of Some (KARU_OK, Some c, b') \<Rightarrow> Some (c, b') | _ \<Rightarrow> None)"

lemma take_completion_eq:
  "take_completion b = (case ready b of [] \<Rightarrow> None | c # cs \<Rightarrow> Some (c, b\<lparr>ready := cs\<rparr>))"
  by (auto simp: take_completion_def batch_next_def can_return_def split: list.splits)

interpretation batch_queue: completion_queue push take_completion ready
  by unfold_locales (auto simp: take_completion_eq split: list.splits)

section \<open>Properties\<close>

text \<open>
  Completions reach the caller in the order the workers pushed them, none lost and none twice:
  for every interleaving of pushes and polls, what the caller took followed by what is still queued
  is what was queued before followed by what was pushed.
\<close>

theorem batch_fifo:
  "fst (run_queue push take_completion ops b) @ ready (snd (run_queue push take_completion ops b)) =
   ready b @ List.map_filter id ops"
  by (rule batch_queue.run_fifo) simp

text \<open>
  A waiting caller is told the truth: \<open>next\<close> returns a completion exactly when one is queued, ends
  exactly when none is queued and no part is out or the batch is cancelled, and otherwise waits or
  times out.
\<close>

theorem batch_next_exact:
  "batch_next b timeout_ms =
     (if ready b \<noteq> [] then Some (KARU_OK, Some (hd (ready b)), b\<lparr>ready := tl (ready b)\<rparr>)
      else if pending_parts b = 0 \<or> cancelled b then Some (KARU_END, None, b)
      else if timeout_ms < 0 then None else Some (KARU_TIMEOUT, None, b))"
  by (auto simp: batch_next_def can_return_def split: list.splits)

end
