(* ===== verification/Karu_Engine.thy ===== *)
theory Karu_Engine
  imports Karu_Delivery Karu_Batch
begin

text \<open>
  The operations of the engine on one transfer, \<open>src/src/runtime/engine.cpp\<close>: starting it, judging a
  finished libcurl message, reading a local file, and delivering the parts to the batch. The answers
  of the operating system, libcurl, the host resolver and the request builder are fields of an
  environment record. The queues that hold transfers between these operations are in the theory of
  the engine's steps.
\<close>

section \<open>Small helpers\<close>

definition cloud_backend :: "backend \<Rightarrow> bool" where
  "cloud_backend b \<longleftrightarrow> b = S3 \<or> b = Gcs \<or> b = Azure \<or> b = Source"

definition timeout_detail :: "transfer \<Rightarrow> string \<Rightarrow> string" where
  "timeout_detail t reason =
     redact_url (if request_url t = [] then canonical_uri (t_locator t) else request_url t) @ '': '' @ reason"

definition timeout_reason :: string where
  "timeout_reason = ''request timeout exceeded''"

definition visible_size :: "resolved \<Rightarrow> u64 \<Rightarrow> u64" where
  "visible_size r tot =
     (if window_length r \<noteq> TO_END then window_length r
      else if window_offset r < tot then tot - window_offset r else 0)"

definition at_most :: "nat \<Rightarrow> u64 \<Rightarrow> nat" where
  "at_most len limit = min len (unat limit)"

text \<open>The transfer slots of the I/O loops: the client-wide limit, split evenly.\<close>

definition size_t_of :: "int \<Rightarrow> nat" where
  "size_t_of n = unat (of_int n :: u64)"

definition loop_count :: "int \<Rightarrow> int \<Rightarrow> nat" where
  "loop_count conc threads =
     (let v = size_t_of threads; hi = min (size_t_of conc) 64
      in if v < 1 then 1 else if hi < v then hi else v)"

definition loop_limits :: "int \<Rightarrow> int \<Rightarrow> nat list" where
  "loop_limits conc threads =
     (let n = loop_count conc threads; c = size_t_of conc
      in map (\<lambda>i. c div n + (if i < c mod n then 1 else 0)) [0..<n])"

section \<open>Delivering a transfer\<close>

definition part_completion :: "transfer \<Rightarrow> karu_status \<Rightarrow> string \<Rightarrow> part \<Rightarrow> completion" where
  "part_completion t status detail p =
     (let c = \<lparr>cp_tag = part_tag p, cp_status = status, cp_got = 0, cp_buffer = part_buffer p,
               cp_owned = part_owned p, cp_detail = detail\<rparr>;
          part_end = relative_offset p + part_length p
      in if status \<noteq> KARU_OK then c
         else if received t < part_end
         then c\<lparr>cp_status := KARU_ERR_RANGE,
                cp_got := (if relative_offset p < received t then received t - relative_offset p else 0),
                cp_detail := shown_uri (t_locator t) @ '': object ended at byte '' @
                  u64_string (t_offset t + received t) @ '' while reading ['' @
                  u64_string (t_offset t + relative_offset p) @ '', +'' @ u64_string (part_length p) @ '')''\<rparr>
         else c\<lparr>cp_got := part_length p\<rparr>)"

text \<open>Coalesced local reads are copied from the scratch vector to the part's buffer.\<close>

definition copy_from_scratch :: "transfer \<Rightarrow> part \<Rightarrow> completion \<Rightarrow> memory \<Rightarrow> memory option" where
  "copy_from_scratch t p c m =
     (if 0 < cp_got c \<and> scratch t \<noteq> []
      then map_option (\<lambda>a. memcpy m a (take (unat (cp_got c)) (drop (unat (relative_offset p)) (scratch t)))) (part_buffer p)
      else Some m)"

fun deliver_parts :: "transfer \<Rightarrow> karu_status \<Rightarrow> string \<Rightarrow> part list \<Rightarrow> memory \<Rightarrow> batch_state \<Rightarrow>
    (memory \<times> batch_state) option" where
  "deliver_parts t status detail [] m b = Some (m, b)"
| "deliver_parts t status detail (p # ps) m b =
     (let c = part_completion t status detail p
      in case copy_from_scratch t p c m of
           None \<Rightarrow> None
         | Some m' \<Rightarrow> deliver_parts t status detail ps m' (push b c))"

definition deliver :: "transfer \<Rightarrow> karu_status \<Rightarrow> string \<Rightarrow> memory \<Rightarrow> batch_state \<Rightarrow> (memory \<times> batch_state) option" where
  "deliver t status detail m b = deliver_parts t status detail (t_parts t) m b"

definition add_counter :: "((u64 \<Rightarrow> u64) \<Rightarrow> batch_counters \<Rightarrow> batch_counters) \<Rightarrow> u64 \<Rightarrow> batch_state \<Rightarrow> batch_state" where
  "add_counter upd n b = b\<lparr>counters := upd (\<lambda>c. c + n) (counters b)\<rparr>"

definition finish_transfer :: "transfer \<Rightarrow> karu_status \<Rightarrow> string \<Rightarrow> memory \<Rightarrow> batch_state \<Rightarrow>
    (memory \<times> batch_state) option" where
  "finish_transfer t status detail m b =
     map_option (\<lambda>(m', b'). (m', transfer_finished b'))
       (deliver t status detail m (add_counter bc_transfers_finished_update 1 b))"

definition discard_transfer :: "batch_state \<Rightarrow> batch_state" where
  "discard_transfer b = transfer_finished b"

section \<open>Starting a transfer\<close>

datatype cpp_exception = Bad_Alloc | Std_Exception string | Unknown_Exception

text \<open>
  The answers \<open>start_transfer\<close> gets on its way: the clock before and after the request is built,
  the allocator, the request builder, the resolver and libcurl; \<open>se_throws\<close> is an exception that
  ends it early.
\<close>

record start_env =
  se_now :: int
  se_checked :: int
  se_later :: int
  se_resize :: "u64 \<Rightarrow> bool"
  se_prepare :: "resolved \<Rightarrow> u64 \<Rightarrow> u64 \<Rightarrow> string \<Rightarrow> string \<Rightarrow> request_error + prepared_request"
  se_materialize :: "resolved \<Rightarrow> provider_credentials option \<Rightarrow> u64 \<Rightarrow> u64 \<Rightarrow> string \<Rightarrow> string \<Rightarrow>
    request_error + prepared_request"
  se_entry :: "string \<Rightarrow> bool \<times> string"
  se_slist :: bool
  se_easy :: bool
  se_setopt :: "string option"
  se_add :: "string option"
  se_inserted :: bool
  se_throws :: "cpp_exception option"

datatype start_outcome = Finished transfer karu_status string | Waiting transfer | Active transfer

definition start_exception :: "cpp_exception \<Rightarrow> karu_status \<times> string" where
  "start_exception e =
     (case e of
        Bad_Alloc \<Rightarrow> (KARU_ERR_NOMEM, ''out of memory preparing request'')
      | Std_Exception what \<Rightarrow> (KARU_ERR_INVALID, ''could not prepare request: '' @ what)
      | Unknown_Exception \<Rightarrow> (KARU_ERR_INVALID, ''could not prepare request: unknown C++ exception''))"

text \<open>The first half: the deadline, the sink, the region and the request of an attempt.\<close>

definition prepare_transfer :: "start_env \<Rightarrow> client_options \<Rightarrow> batch_state \<Rightarrow> transfer \<Rightarrow>
    (transfer \<times> karu_status \<times> string) + transfer" where
  "prepare_transfer env opt b t0 =
     (let t1 = t0\<lparr>t_deadline := start (se_now env) (request_timeout_seconds opt) (t_deadline t0)\<rparr>
      in if expired (se_checked env) (t_deadline t1) then Inl (t1, KARU_TIMEOUT, timeout_detail t1 timeout_reason)
         else (let (sink_ok, t2) = ensure_sink (se_resize env) t1
               in if \<not> sink_ok
                  then Inl (t2, KARU_ERR_NOMEM, ''out of memory allocating a coalesced transfer buffer'')
                  else (let t3 = (if region_hint t2 = []
                                  then t2\<lparr>region_hint := batch_region_hint b (canonical_uri (t_locator t2))\<rparr> else t2);
                            cloudy = cloud_backend (res_backend (t_locator t3))
                        in if cloudy \<and> \<not> credentials_ready t3
                           then Inl (t3, KARU_ERR_INVALID, ''internal error: cloud request has no resolved credentials'')
                           else (let first = t_offset t3 + resumed t3;
                                     len = t_length t3 - resumed t3;
                                     answer = (if cloudy
                                       then se_materialize env (t_locator t3) (t_credentials t3) first len (region_hint t3) (version_pin t3)
                                       else se_prepare env (t_locator t3) first len (region_hint t3) (version_pin t3))
                                 in case answer of
                                      Inl e \<Rightarrow> Inl (t3, re_status e, re_message e)
                                    | Inr rq \<Rightarrow>
                                        (if expired (se_later env) (t_deadline t3)
                                         then Inl (t3, KARU_TIMEOUT, timeout_detail t3 timeout_reason)
                                         else Inr (t3\<lparr>request_url := pr_url rq, request_range := pr_range rq,
                                                request_headers := pr_headers rq, t_http := pr_http rq,
                                                region_hint := (if routing_region rq \<noteq> [] then routing_region rq
                                                                else region_hint t3)\<rparr>))))))"

text \<open>The second half: the host lookup, the handle and its configuration.\<close>

definition launch_transfer :: "start_env \<Rightarrow> client_options \<Rightarrow> transfer \<Rightarrow> start_outcome" where
  "launch_transfer env opt t =
     (let (waiting, res) = (if proxy (t_http t) = [] then se_entry env (request_url t) else (False, []))
      in if waiting then Waiting t
         else if res \<noteq> [] \<and> \<not> se_slist env then Finished t KARU_ERR_NOMEM ''out of memory preparing request''
         else if \<not> se_easy env then Finished t KARU_ERR_NOMEM ''curl_easy_init: out of memory''
         else (case configure opt t of
                 (Inl e, t1) \<Rightarrow> Finished t1 KARU_ERR_NETWORK (''could not configure HTTP request: '' @ e)
               | (Inr _, t1) \<Rightarrow>
                   (case se_setopt env of
                      Some e \<Rightarrow> Finished t1 KARU_ERR_NETWORK (''could not configure HTTP request: '' @ e)
                    | None \<Rightarrow>
                        (case se_add env of
                           Some e \<Rightarrow> Finished t1 KARU_ERR_NETWORK (''curl_multi_add_handle: '' @ e)
                         | None \<Rightarrow>
                             (if se_inserted env then Active t1
                              else Finished t1 KARU_ERR_INVALID ''internal error registering HTTP transfer'')))))"

definition start_transfer :: "start_env \<Rightarrow> client_options \<Rightarrow> batch_state \<Rightarrow> bool \<Rightarrow> transfer \<Rightarrow> start_outcome" where
  "start_transfer env opt b prepared t =
     (case se_throws env of
        Some e \<Rightarrow> (case start_exception e of (status, detail) \<Rightarrow> Finished t status detail)
      | None \<Rightarrow>
          (if prepared
           then (if expired (se_checked env) (t_deadline t)
                 then Finished t KARU_TIMEOUT (timeout_detail t timeout_reason)
                 else launch_transfer env opt t)
           else case prepare_transfer env opt b t of
                  Inl (t1, status, detail) \<Rightarrow> Finished t1 status detail
                | Inr t1 \<Rightarrow> launch_transfer env opt t1))"

section \<open>A finished message\<close>

record done_env =
  de_response_code :: int
  de_connects :: "int option"
  de_now :: int
  de_wait_now :: int
  de_due_now :: int
  de_jitter :: "int \<Rightarrow> int"
  de_strerror :: "curl_code \<Rightarrow> string"
  de_error_text :: string

text \<open>
  What becomes of the transfer: it is finished, goes to the front of the loop's pending queue, to the
  front of the credential queue (and its cached credentials are dropped), or waits until a time.
\<close>

datatype done_outcome =
    Done transfer karu_status string
  | Again_now transfer
  | Again_credentials transfer
  | Again_later int transfer

definition count_done :: "done_env \<Rightarrow> transfer \<Rightarrow> batch_state \<Rightarrow> batch_state" where
  "count_done env t b =
     (let b1 = (case de_connects env of
                  Some n \<Rightarrow> (if 0 < n then add_counter bc_new_connections_update (of_int n) b else b)
                | None \<Rightarrow> b)
      in if http_status (t_response t) = 429 \<or> http_status (t_response t) = 503
         then add_counter bc_throttled_update 1 b1 else b1)"

definition retry_transfer :: "done_env \<Rightarrow> transfer \<Rightarrow> batch_state \<Rightarrow> done_outcome \<times> batch_state" where
  "retry_transfer env t b =
     (let t1 = t\<lparr>attempt := attempt t + 1\<rparr>;
          t2 = plan_resume t1;
          b1 = add_counter bc_retries_update 1 b;
          b2 = (if resumed t1 < resumed t2 then add_counter bc_resumed_update 1 b1 else b1);
          delay = retry_delay (attempt t2) (retry_after (t_response t2)) (de_jitter env)
      in if \<not> can_wait_for (de_wait_now env) delay (t_deadline t2)
         then (Done t2 KARU_TIMEOUT (timeout_detail t2 ''request timeout leaves no time for another attempt''), b2)
         else (Again_later (de_due_now env + 1000000 * delay) t2, b2))"

text \<open>The ordinary retry budget.\<close>

definition retry_or_fail :: "done_env \<Rightarrow> client_options \<Rightarrow> curl_code \<Rightarrow> transfer \<Rightarrow> batch_state \<Rightarrow>
    done_outcome \<times> batch_state" where
  "retry_or_fail env opt code t0 b =
     (let t = (if unreachable code then t0\<lparr>unreachable_attempts := unreachable_attempts t0 + 1\<rparr> else t0)
      in if attempt t + 1 < max_attempts opt \<and> unreachable_attempts t < kUnreachableAttempts \<and> retryable t code
         then retry_transfer env t b
         else (let f = transfer_failure (de_strerror env) (de_error_text env) t code
               in (Done t (f_status f) (f_detail f), b)))"

text \<open>The restarts outside that budget: once in another region, once with fresh credentials.\<close>

definition restart_or_retry :: "done_env \<Rightarrow> client_options \<Rightarrow> curl_code \<Rightarrow> transfer \<Rightarrow> batch_state \<Rightarrow>
    done_outcome \<times> batch_state" where
  "restart_or_retry env opt code t b =
     (let region = response_region (t_response t)
      in if \<not> region_retried t \<and> region \<noteq> [] \<and> region \<noteq> region_hint t \<and> res_backend (t_locator t) = S3
         then (Again_now (t\<lparr>region_hint := region, region_retried := True\<rparr>),
               remember_region b (canonical_uri (t_locator t)) region)
         else if \<not> credentials_retried t \<and> transfer_credentials_expired t
         then (Again_credentials (t\<lparr>credentials_retried := True, t_credentials := None, credentials_ready := False\<rparr>),
               add_counter bc_credential_refreshes_update 1 b)
         else retry_or_fail env opt code t b)"

definition learn_region :: "transfer \<Rightarrow> transfer" where
  "learn_region t =
     (if response_region (t_response t) = [] \<and> res_backend (t_locator t) = S3
      then map_response (\<lambda>r. r\<lparr>response_region := s3_region (error_body r)\<rparr>) t else t)"

definition handle_done :: "done_env \<Rightarrow> client_options \<Rightarrow> curl_code \<Rightarrow> transfer \<Rightarrow> batch_state \<Rightarrow>
    done_outcome \<times> batch_state" where
  "handle_done env opt code t0 b0 =
     (let t = (if http_status (t_response t0) = 0
               then map_response (\<lambda>r. r\<lparr>http_status := de_response_code env\<rparr>) t0 else t0);
          b = count_done env t b0
      in if succeeded t code then (Done t KARU_OK [], b)
         else if expired (de_now env) (t_deadline t) then (Done t KARU_TIMEOUT (timeout_detail t timeout_reason), b)
         else restart_or_retry env opt code (learn_region t) b)"

section \<open>Credentials\<close>

text \<open>One round of \<open>credential_loop\<close>: finished, discarded, or handed to the HTTP queue.\<close>

datatype credential_outcome = Cred_Finished transfer karu_status string | Cred_Discarded | Cred_Ready transfer

record credential_env =
  ce_cancelled_before :: bool
  ce_now :: int
  ce_resolve :: "resolved \<Rightarrow> cpp_exception + (request_error + provider_credentials option)"
  ce_cancelled_after :: bool
  ce_later :: int

definition credential_exception :: "cpp_exception \<Rightarrow> karu_status \<times> string" where
  "credential_exception e =
     (case e of
        Bad_Alloc \<Rightarrow> (KARU_ERR_NOMEM, ''out of memory resolving credentials'')
      | Std_Exception what \<Rightarrow> (KARU_ERR_CREDENTIALS, ''could not resolve credentials: '' @ what)
      | Unknown_Exception \<Rightarrow> (KARU_ERR_CREDENTIALS, ''could not resolve credentials: unknown C++ exception''))"

definition credential_round :: "credential_env \<Rightarrow> client_options \<Rightarrow> transfer \<Rightarrow> credential_outcome" where
  "credential_round env opt t0 =
     (if ce_cancelled_before env then Cred_Discarded
      else (let t = t0\<lparr>t_deadline := start (ce_now env) (request_timeout_seconds opt) (t_deadline t0)\<rparr>
            in case ce_resolve env (t_locator t) of
                 Inl e \<Rightarrow> (case credential_exception e of (status, detail) \<Rightarrow> Cred_Finished t status detail)
               | Inr (Inl e) \<Rightarrow> Cred_Finished t (re_status e) (re_message e)
               | Inr (Inr creds) \<Rightarrow>
                   (if ce_cancelled_after env then Cred_Discarded
                    else if expired (ce_later env) (t_deadline t)
                    then Cred_Finished t KARU_TIMEOUT (timeout_detail t timeout_reason)
                    else Cred_Ready (t\<lparr>t_credentials := creds, credentials_ready := True\<rparr>))))"

section \<open>The slots of the loops\<close>

lemma size_t_of_id [simp]: "0 \<le> n \<Longrightarrow> n < 2 ^ 64 \<Longrightarrow> size_t_of n = nat n"
  using unat_of_nat_u64 [of "nat n"] by (simp add: size_t_of_def nat_less_iff)

lemma loop_count_bounds:
  "1 \<le> size_t_of conc \<Longrightarrow> 1 \<le> loop_count conc threads \<and> loop_count conc threads \<le> 64 \<and>
     loop_count conc threads \<le> size_t_of conc"
  by (auto simp: loop_count_def Let_def)

lemma sum_even_split: "sum_list (map (\<lambda>i. q + (if i < r then 1 else 0)) [0..<n]) = n * q + min r (n :: nat)"
  by (induction n) (auto simp: min_def)

lemma sum_loop_limits:
  assumes "1 \<le> conc" "conc < 2 ^ 64"
  shows "sum_list (loop_limits conc threads) = nat conc"
proof -
  let ?n = "loop_count conc threads" and ?c = "nat conc"
  have c: "size_t_of conc = ?c" using assms by simp
  have "1 \<le> ?n" using loop_count_bounds [of conc threads] c assms by auto
  then have "min (?c mod ?n) ?n = ?c mod ?n" by (simp add: min_def not_le less_imp_le)
  moreover have "sum_list (loop_limits conc threads) = ?n * (?c div ?n) + min (?c mod ?n) ?n"
    unfolding loop_limits_def Let_def c by (rule sum_even_split)
  ultimately show ?thesis by simp
qed

text \<open>
  The client-wide limit is split exactly: the slots of the loops add up to the configured
  concurrency, there are between one and 64 loops, every loop has at least one slot and no two loops
  differ by more than one slot.
\<close>

theorem loop_limits_split:
  assumes "1 \<le> conc" "conc < 2 ^ 64"
  shows "sum_list (loop_limits conc threads) = nat conc \<and>
    1 \<le> length (loop_limits conc threads) \<and> length (loop_limits conc threads) \<le> 64 \<and>
    (\<forall>a \<in> set (loop_limits conc threads). 1 \<le> a \<and> (\<forall>b \<in> set (loop_limits conc threads). a \<le> b + 1))"
proof -
  let ?n = "loop_count conc threads" and ?c = "nat conc"
  have c: "size_t_of conc = ?c" using assms by simp
  have n: "1 \<le> ?n" "?n \<le> 64" "?n \<le> ?c" using loop_count_bounds [of conc threads] c assms by auto
  have q: "1 \<le> ?c div ?n" using n by (simp add: div_greater_zero_iff Suc_le_eq)
  have "1 \<le> a \<and> a \<le> b + 1" if "a \<in> set (loop_limits conc threads)" "b \<in> set (loop_limits conc threads)" for a b
    using that q by (auto simp: loop_limits_def c Let_def split: if_splits)
  then show ?thesis using n sum_loop_limits [OF assms] by (auto simp: loop_limits_def Let_def)
qed

section \<open>What delivery publishes\<close>

lemma part_completion_simps [simp]:
  "cp_tag (part_completion t status detail p) = part_tag p"
  "cp_buffer (part_completion t status detail p) = part_buffer p"
  "cp_owned (part_completion t status detail p) = part_owned p"
  by (simp_all add: part_completion_def Let_def)

definition deliverable :: "transfer \<Rightarrow> bool" where
  "deliverable t \<longleftrightarrow> scratch t = [] \<or> (\<forall>p \<in> set (t_parts t). part_buffer p \<noteq> None)"

lemma deliver_parts_Some:
  "scratch t = [] \<or> (\<forall>p \<in> set ps. part_buffer p \<noteq> None) \<Longrightarrow>
     \<exists>m'. deliver_parts t status detail ps m b = Some (m', foldl push b (map (part_completion t status detail) ps))"
  by (induction ps arbitrary: m b) (auto simp: copy_from_scratch_def Let_def)

lemma deliver_parts_batch:
  "deliver_parts t status detail ps m b = Some (m', b') \<Longrightarrow>
     b' = foldl push b (map (part_completion t status detail) ps)"
  by (induction ps arbitrary: m b) (auto simp: Let_def split: option.splits)

lemma add_counter_simps [simp]:
  "ready (add_counter u n b) = ready b" "pending_parts (add_counter u n b) = pending_parts b"
  "live_transfers (add_counter u n b) = live_transfers b" "cancelled (add_counter u n b) = cancelled b"
  "regions (add_counter u n b) = regions b"
  by (simp_all add: add_counter_def)

lemma finish_transfer_total: "deliverable t \<Longrightarrow> \<exists>m' b'. finish_transfer t status detail m b = Some (m', b')"
  using deliver_parts_Some [of t "t_parts t" status detail m "add_counter bc_transfers_finished_update 1 b"]
  by (auto simp: deliverable_def finish_transfer_def deliver_def)

lemma finish_transfer_batch:
  assumes "finish_transfer t status detail m b = Some (m', b')"
  shows "ready b' = ready b @ map (part_completion t status detail) (t_parts t)"
    "pending_parts b' = pending_parts b - length (t_parts t)" "live_transfers b' = live_transfers b - 1"
    "cancelled b' = cancelled b"
  using assms deliver_parts_batch [of t status detail "t_parts t" m "add_counter bc_transfers_finished_update 1 b"]
  by (auto simp: finish_transfer_def deliver_def)

text \<open>How many bytes of a part have arrived.\<close>

definition arrived :: "transfer \<Rightarrow> part \<Rightarrow> nat" where
  "arrived t p = min (unat (part_length p)) (unat (received t) - unat (relative_offset p))"

lemma part_completion_arrived:
  assumes "unat (relative_offset p) + unat (part_length p) < 2 ^ 64"
  shows "unat (cp_got (part_completion t KARU_OK detail p)) = arrived t p"
    "cp_status (part_completion t KARU_OK detail p) =
       (if arrived t p = unat (part_length p) \<and> unat (relative_offset p) + unat (part_length p) \<le> unat (received t)
        then KARU_OK else KARU_ERR_RANGE)"
proof -
  have e: "unat (relative_offset p + part_length p) = unat (relative_offset p) + unat (part_length p)"
    using assms by (simp add: unat_u64_add)
  show "unat (cp_got (part_completion t KARU_OK detail p)) = arrived t p"
    by (auto simp: part_completion_def Let_def arrived_def u64_less_iff e unat_u64_sub min_def)
  show "cp_status (part_completion t KARU_OK detail p) =
       (if arrived t p = unat (part_length p) \<and> unat (relative_offset p) + unat (part_length p) \<le> unat (received t)
        then KARU_OK else KARU_ERR_RANGE)"
    by (auto simp: part_completion_def Let_def arrived_def u64_less_iff e min_def)
qed

end
