(* ===== verification/Karu_Restart.thy ===== *)
theory Karu_Restart
  imports Karu_Engine
begin

text \<open>
  What an operation of the engine leaves of a transfer alone, and why a transfer cannot be sent for
  ever: every restart, after a region redirect, an authentication failure or a transient error,
  spends a budget. The locale \<open>restart_budget\<close> states that argument for any operation that restarts;
  the engine's transfers are one instance, the synchronous probes another.
\<close>

section \<open>Frames\<close>

text \<open>What names the transfer: its batch, its parts and the range it reads.\<close>

definition fixed :: "transfer \<Rightarrow> nat \<times> part list \<times> resolved \<times> u64 \<times> u64 \<times> string \<times> bool" where
  "fixed t = (t_batch t, t_parts t, t_locator t, t_offset t, t_length t, t_if_match t, scattered t)"

text \<open>What restarts spend.\<close>

definition spent :: "transfer \<Rightarrow> int \<times> bool \<times> bool" where
  "spent t = (attempt t, region_retried t, credentials_retried t)"

lemma fixed_update [simp]:
  "fixed (t\<lparr>t_sink := a\<rparr>) = fixed t" "fixed (t\<lparr>scratch := b\<rparr>) = fixed t" "fixed (t\<lparr>scatter_cursor := c\<rparr>) = fixed t"
  "fixed (t\<lparr>request_url := d\<rparr>) = fixed t" "fixed (t\<lparr>request_range := d\<rparr>) = fixed t"
  "fixed (t\<lparr>request_headers := e\<rparr>) = fixed t" "fixed (t\<lparr>t_http := f\<rparr>) = fixed t"
  "fixed (t\<lparr>region_hint := d\<rparr>) = fixed t" "fixed (t\<lparr>t_credentials := g\<rparr>) = fixed t"
  "fixed (t\<lparr>credentials_ready := h\<rparr>) = fixed t" "fixed (t\<lparr>resumed := i\<rparr>) = fixed t"
  "fixed (t\<lparr>resume_etag := d\<rparr>) = fixed t" "fixed (t\<lparr>received := i\<rparr>) = fixed t"
  "fixed (t\<lparr>t_response := j\<rparr>) = fixed t" "fixed (t\<lparr>t_fallback_limit := i\<rparr>) = fixed t"
  "fixed (t\<lparr>region_retried := h\<rparr>) = fixed t" "fixed (t\<lparr>credentials_retried := h\<rparr>) = fixed t"
  "fixed (t\<lparr>attempt := k\<rparr>) = fixed t" "fixed (t\<lparr>unreachable_attempts := k\<rparr>) = fixed t"
  "fixed (t\<lparr>t_deadline := l\<rparr>) = fixed t"
  by (simp_all add: fixed_def)

lemma spent_update [simp]:
  "spent (t\<lparr>t_sink := a\<rparr>) = spent t" "spent (t\<lparr>scratch := b\<rparr>) = spent t" "spent (t\<lparr>scatter_cursor := c\<rparr>) = spent t"
  "spent (t\<lparr>request_url := d\<rparr>) = spent t" "spent (t\<lparr>request_range := d\<rparr>) = spent t"
  "spent (t\<lparr>request_headers := e\<rparr>) = spent t" "spent (t\<lparr>t_http := f\<rparr>) = spent t"
  "spent (t\<lparr>region_hint := d\<rparr>) = spent t" "spent (t\<lparr>t_credentials := g\<rparr>) = spent t"
  "spent (t\<lparr>credentials_ready := h\<rparr>) = spent t" "spent (t\<lparr>resumed := i\<rparr>) = spent t"
  "spent (t\<lparr>resume_etag := d\<rparr>) = spent t" "spent (t\<lparr>received := i\<rparr>) = spent t"
  "spent (t\<lparr>t_response := j\<rparr>) = spent t" "spent (t\<lparr>t_fallback_limit := i\<rparr>) = spent t"
  "spent (t\<lparr>unreachable_attempts := k\<rparr>) = spent t" "spent (t\<lparr>t_deadline := l\<rparr>) = spent t"
  by (simp_all add: spent_def)

lemma fixed_simps:
  "fixed t' = fixed t \<Longrightarrow> t_batch t' = t_batch t \<and> t_parts t' = t_parts t \<and> t_locator t' = t_locator t \<and>
     t_offset t' = t_offset t \<and> t_length t' = t_length t \<and> scattered t' = scattered t"
  by (simp add: fixed_def)

definition framed :: "transfer \<Rightarrow> transfer \<Rightarrow> bool" where
  "framed t t' \<longleftrightarrow> fixed t' = fixed t \<and> spent t' = spent t"

lemma framed_refl [simp]: "framed t t" by (simp add: framed_def)

lemma framed_trans: "framed a b \<Longrightarrow> framed b c \<Longrightarrow> framed a c" by (simp add: framed_def)

lemma ensure_sink_framed: "ensure_sink rs t = (ok, t') \<Longrightarrow> framed t t'"
  by (auto simp: ensure_sink_def framed_def split: if_splits)

lemma store_payload_framed: "store_payload t m d = Some (t', m') \<Longrightarrow> framed t t'"
  by (auto simp: store_payload_def framed_def Let_def split: if_splits sink.splits option.splits)

lemma consume_payload_framed: "consume_payload w d = Some (n, w') \<Longrightarrow> framed (w_transfer w) (w_transfer w')"
proof -
  have r: "framed t (t'\<lparr>t_response := x\<rparr>) = framed t t'" "framed (t\<lparr>t_response := x\<rparr>) t' = framed t t'" for t t' x
    by (simp_all add: framed_def)
  assume "consume_payload w d = Some (n, w')"
  then show ?thesis
    by (auto simp: consume_payload_def Let_def r dest!: store_payload_framed split: if_splits option.splits)
qed

lemma start_transfer_body_framed: "start_transfer_body info t = (ok, t') \<Longrightarrow> framed t t'"
  by (auto simp: start_transfer_body_def framed_def Let_def split: if_splits)

lemma count_received_transfer [simp]: "w_transfer (count_received n w) = w_transfer w"
  by (simp add: count_received_def)

lemma receive_chunk_framed:
  assumes "receive_chunk info d w = Some (n, w')"
  shows "framed (w_transfer w) (w_transfer w')"
proof (cases "satisfied (t_response (w_transfer w))")
  case True
  with assms show ?thesis by (auto simp: receive_chunk_def Let_def)
next
  case False
  obtain go t where g: "(if checked_status (t_response (w_transfer w)) then (True, w_transfer w)
      else start_transfer_body info (w_transfer w)) = (go, t)"
    by fastforce
  have t: "framed (w_transfer w) t" using g start_transfer_body_framed by (auto split: if_splits)
  show ?thesis
  proof (cases go)
    case go: False
    with assms False g t show ?thesis by (auto simp: receive_chunk_def Let_def)
  next
    case True
    define w2 where "w2 = (if ok_status (http_status (t_response t)) then count_received (length d) (w\<lparr>w_transfer := t\<rparr>)
      else w\<lparr>w_transfer := t\<rparr>)"
    have w2: "w_transfer w2 = t" by (simp add: w2_def)
    have eq: "Some (n, w') =
        (if 300 \<le> http_status (t_response t) \<and> http_status (t_response t) < 400 \<and> follow_redirects (t_http t)
         then Some (length d, w2)
         else if 300 \<le> http_status (t_response t)
         then (let r = t_response t; r1 = r\<lparr>error_body := capture_error_body (error_body r) d\<rparr>
               in if kDrainLimit - min kDrainLimit (unat (error_body_received r)) < length d
                  then Some (0, w2\<lparr>w_transfer := t\<lparr>t_response := r1\<rparr>\<rparr>)
                  else Some (length d, w2\<lparr>w_transfer := t\<lparr>t_response :=
                         r1\<lparr>error_body_received := error_body_received r + of_nat (length d)\<rparr>\<rparr>\<rparr>))
         else consume_payload w2 d)"
      using assms unfolding receive_chunk_def Let_def g w2_def by (simp only: False True if_False not_True_eq_False prod.case)
    consider "w_transfer w' = t" | r where "w_transfer w' = t\<lparr>t_response := r\<rparr>"
      | "consume_payload w2 d = Some (n, w')"
    proof (cases "300 \<le> http_status (t_response t)")
      case low: False
      then have "Some (n, w') = consume_payload w2 d" using eq by (simp only: low if_False simp_thms)
      then show ?thesis using that(3) by simp
    next
      case high: True
      show ?thesis
      proof (cases "http_status (t_response t) < 400 \<and> follow_redirects (t_http t)")
        case True
        then have "Some (n, w') = Some (length d, w2)" using eq by (simp only: high True if_True simp_thms)
        then show ?thesis using that(1) w2 by simp
      next
        case False
        from eq have "\<exists>r v. Some (n, w') = Some (v, w2\<lparr>w_transfer := t\<lparr>t_response := r\<rparr>\<rparr>)"
          unfolding Let_def using False high by (simp only: high False if_True if_False simp_thms split: if_splits) blast+
        then show ?thesis using that(2) by auto
      qed
    qed
    then show ?thesis
    proof cases
      case 1
      with t show ?thesis by simp
    next
      case 2
      with t show ?thesis by (simp add: framed_def)
    next
      case 3
      from consume_payload_framed [OF this] w2 t show ?thesis by (auto intro: framed_trans)
    qed
  qed
qed

lemma receive_header_framed: "receive_header env line t = (n, t') \<Longrightarrow> framed t t'"
  by (auto simp: receive_header_def reset_response_def framed_def Let_def split: if_splits prod.splits)

lemma configure_framed: "configure opt t = (r, t') \<Longrightarrow> framed t t'"
  by (auto simp: configure_def reset_response_def framed_def Let_def split: if_splits)

lemma prepare_transfer_framed:
  "prepare_transfer env opt b t = Inr t' \<Longrightarrow> framed t t'"
  "prepare_transfer env opt b t = Inl (t', status, detail) \<Longrightarrow> framed t t'"
  by (auto simp: prepare_transfer_def Let_def framed_def split: if_splits prod.splits sum.splits
      dest!: ensure_sink_framed)

lemma launch_transfer_framed:
  "launch_transfer env opt t = Finished t' status detail \<Longrightarrow> framed t t'"
  "launch_transfer env opt t = Waiting t' \<Longrightarrow> framed t t'"
  "launch_transfer env opt t = Active t' \<Longrightarrow> framed t t'"
  by (auto simp: launch_transfer_def Let_def split: if_splits prod.splits sum.splits option.splits
      dest!: configure_framed)

definition outcome_transfer :: "start_outcome \<Rightarrow> transfer" where
  "outcome_transfer o' = (case o' of Finished t _ _ \<Rightarrow> t | Waiting t \<Rightarrow> t | Active t \<Rightarrow> t)"

lemma start_transfer_framed: "framed t (outcome_transfer (start_transfer env opt b prepared t))"
proof -
  have l: "framed t (outcome_transfer (launch_transfer env opt t))" for t
    by (cases "launch_transfer env opt t") (auto simp: outcome_transfer_def dest: launch_transfer_framed)
  show ?thesis
    by (auto simp: start_transfer_def outcome_transfer_def [of "Finished _ _ _"] l
        split: option.splits prod.splits sum.splits dest!: prepare_transfer_framed
        intro: framed_trans [OF _ l])
qed

lemma credential_round_framed: "credential_round env opt t = Cred_Ready t' \<Longrightarrow> framed t t'"
  "credential_round env opt t = Cred_Finished t' status detail \<Longrightarrow> framed t t'"
  by (auto simp: credential_round_def framed_def Let_def split: if_splits sum.splits prod.splits)

lemma plan_resume_framed: "framed t (plan_resume t)"
  by (auto simp: plan_resume_def framed_def Let_def)

lemma retry_transfer_again:
  assumes "retry_transfer env t b = (Again_later due t', b')"
  shows "fixed t' = fixed t" "spent t' = (attempt t + 1, region_retried t, credentials_retried t)"
    "due = de_due_now env + 1000000 * retry_delay (attempt t') (retry_after (t_response t')) (de_jitter env)"
    "can_wait_for (de_wait_now env) (retry_delay (attempt t') (retry_after (t_response t')) (de_jitter env)) (t_deadline t')"
proof -
  have p: "t' = plan_resume (t\<lparr>attempt := attempt t + 1\<rparr>)"
    using assms by (auto simp: retry_transfer_def Let_def split: if_splits)
  then show "fixed t' = fixed t" "spent t' = (attempt t + 1, region_retried t, credentials_retried t)"
    using plan_resume_framed [of "t\<lparr>attempt := attempt t + 1\<rparr>"] by (auto simp: framed_def spent_def)
  show "due = de_due_now env + 1000000 * retry_delay (attempt t') (retry_after (t_response t')) (de_jitter env)"
    "can_wait_for (de_wait_now env) (retry_delay (attempt t') (retry_after (t_response t')) (de_jitter env)) (t_deadline t')"
    using assms p by (auto simp: retry_transfer_def Let_def split: if_splits)
qed

section \<open>The restart budget\<close>

text \<open>
  \<open>quiet\<close> are the operations between two sends, \<open>restart\<close> those that send again; \<open>fuel\<close> is what a
  state may still spend.
\<close>

inductive restarted_times :: "('s \<Rightarrow> 's \<Rightarrow> bool) \<Rightarrow> ('s \<Rightarrow> 's \<Rightarrow> bool) \<Rightarrow> nat \<Rightarrow> 's \<Rightarrow> 's \<Rightarrow> bool"
  for quiet restart where
  none: "restarted_times quiet restart 0 s s"
| quiet: "restarted_times quiet restart n s s' \<Longrightarrow> quiet s' s'' \<Longrightarrow> restarted_times quiet restart n s s''"
| restart: "restarted_times quiet restart n s s' \<Longrightarrow> restart s' s'' \<Longrightarrow> restarted_times quiet restart (Suc n) s s''"

locale restart_budget =
  fixes quiet restart :: "'s \<Rightarrow> 's \<Rightarrow> bool" and fuel :: "'s \<Rightarrow> nat"
  assumes quiet_keeps: "quiet s s' \<Longrightarrow> fuel s' \<le> fuel s"
    and restart_spends: "restart s s' \<Longrightarrow> fuel s' < fuel s"
begin

lemma bounded: "restarted_times quiet restart n s s' \<Longrightarrow> n + fuel s' \<le> fuel s"
proof (induction rule: restarted_times.induct)
  case (none s)
  show ?case by simp
next
  case (quiet n s s' s'')
  from quiet_keeps [OF quiet.hyps(2)] quiet.IH show ?case by simp
next
  case (restart n s s' s'')
  from restart_spends [OF restart.hyps(2)] restart.IH show ?case by simp
qed

end

definition restart_fuel :: "client_options \<Rightarrow> transfer \<Rightarrow> nat" where
  "restart_fuel opt t = nat (max_attempts opt - 1 - attempt t) +
     (if region_retried t then 0 else 1) + (if credentials_retried t then 0 else 1)"

lemma framed_fuel: "framed t t' \<Longrightarrow> restart_fuel opt t' = restart_fuel opt t"
  by (simp add: framed_def spent_def restart_fuel_def)

text \<open>What the engine and libcurl's callbacks do to a transfer between two sends.\<close>

inductive transfer_quiet :: "client_options \<Rightarrow> transfer \<Rightarrow> transfer \<Rightarrow> bool" for opt where
  started: "transfer_quiet opt t (outcome_transfer (start_transfer env opt b prepared t))"
| header: "receive_header env line t = (n, t') \<Longrightarrow> transfer_quiet opt t t'"
| body: "receive_chunk info d \<lparr>w_transfer = t, w_memory = m, w_received_bytes = r\<rparr> = Some (n, w') \<Longrightarrow>
    transfer_quiet opt t (w_transfer w')"
| credentials: "credential_round env opt t = Cred_Ready t' \<Longrightarrow> transfer_quiet opt t t'"

inductive transfer_restart :: "client_options \<Rightarrow> transfer \<Rightarrow> transfer \<Rightarrow> bool" for opt where
  now: "handle_done env opt code t b = (Again_now t', b') \<Longrightarrow> transfer_restart opt t t'"
| relogin: "handle_done env opt code t b = (Again_credentials t', b') \<Longrightarrow> transfer_restart opt t t'"
| later: "handle_done env opt code t b = (Again_later due t', b') \<Longrightarrow> transfer_restart opt t t'"

lemma transfer_quiet_framed: "transfer_quiet opt t t' \<Longrightarrow> framed t t'"
  by (induction rule: transfer_quiet.induct)
    (auto dest: receive_header_framed receive_chunk_framed credential_round_framed simp: start_transfer_framed)

text \<open>What becomes of the transfer of a finished message, and what a restart spends.\<close>

definition spends :: "client_options \<Rightarrow> transfer \<Rightarrow> done_outcome \<Rightarrow> bool" where
  "spends opt t out \<longleftrightarrow>
     (case out of
        Done t' _ _ \<Rightarrow> fixed t' = fixed t
      | Again_now t' \<Rightarrow> fixed t' = fixed t \<and> \<not> region_retried t \<and> spent t' = (attempt t, True, credentials_retried t)
      | Again_credentials t' \<Rightarrow> fixed t' = fixed t \<and> \<not> credentials_retried t \<and> spent t' = (attempt t, region_retried t, True)
      | Again_later _ t' \<Rightarrow> fixed t' = fixed t \<and> attempt t + 1 < max_attempts opt \<and>
          spent t' = (attempt t + 1, region_retried t, credentials_retried t))"

lemma spends_framed: "framed t t' \<Longrightarrow> spends opt t' out \<Longrightarrow> spends opt t out"
  by (auto simp: spends_def framed_def spent_def split: done_outcome.splits)

lemma retry_transfer_spends:
  assumes "attempt t + 1 < max_attempts opt"
  shows "spends opt t (fst (retry_transfer env t b))"
proof (cases "retry_transfer env t b")
  case (Pair out b')
  have "fixed (plan_resume (t\<lparr>attempt := attempt t + 1\<rparr>)) = fixed t"
    using plan_resume_framed [of "t\<lparr>attempt := attempt t + 1\<rparr>"] by (simp add: framed_def)
  then have "(\<exists>t' d. out = Done t' KARU_TIMEOUT d \<and> fixed t' = fixed t) \<or> (\<exists>due t'. out = Again_later due t')"
    using Pair by (auto simp: retry_transfer_def Let_def split: if_splits)
  then show ?thesis using Pair assms by (auto simp: spends_def dest: retry_transfer_again(1,2))
qed

lemma retry_or_fail_spends: "spends opt t (fst (retry_or_fail env opt code t b))"
proof -
  let ?t = "if unreachable code then t\<lparr>unreachable_attempts := unreachable_attempts t + 1\<rparr> else t"
  have f: "framed t ?t" by (simp add: framed_def)
  show ?thesis
    unfolding retry_or_fail_def Let_def
    by (rule spends_framed [OF f]) (auto simp: spends_def [of _ _ "Done _ _ _"] intro: retry_transfer_spends)
qed

lemma restart_or_retry_spends: "spends opt t (fst (restart_or_retry env opt code t b))"
  unfolding restart_or_retry_def Let_def
  using retry_or_fail_spends by (auto simp: spends_def spent_def)

lemma learn_region_framed: "framed t (learn_region t)"
  by (simp add: learn_region_def framed_def)

lemma handle_done_spends: "spends opt t (fst (handle_done env opt code t b))"
proof -
  let ?t = "if http_status (t_response t) = 0 then map_response (\<lambda>r. r\<lparr>http_status := de_response_code env\<rparr>) t else t"
  have f: "framed t ?t" by (simp add: framed_def)
  have g: "spends opt x (fst (restart_or_retry env opt code (learn_region x) b'))" for x b'
    by (rule spends_framed [OF learn_region_framed restart_or_retry_spends])
  show ?thesis
    unfolding handle_done_def Let_def
    by (rule spends_framed [OF f]) (auto simp: spends_def [of _ _ "Done _ _ _"] g)
qed

lemma transfer_restart_spends: "transfer_restart opt t t' \<Longrightarrow> restart_fuel opt t' < restart_fuel opt t"
proof (induction rule: transfer_restart.induct)
  case (now env code t b t' b')
  from handle_done_spends [of opt t env code b] now show ?case by (auto simp: spends_def restart_fuel_def spent_def)
next
  case (relogin env code t b t' b')
  from handle_done_spends [of opt t env code b] relogin show ?case by (auto simp: spends_def restart_fuel_def spent_def)
next
  case (later env code t b due t' b')
  from handle_done_spends [of opt t env code b] later show ?case by (auto simp: spends_def restart_fuel_def spent_def)
qed

interpretation engine_budget: restart_budget "transfer_quiet opt" "transfer_restart opt" "restart_fuel opt"
  for opt
  by unfold_locales (auto simp: framed_fuel dest: transfer_quiet_framed transfer_restart_spends)

text \<open>
  C30. A transfer is not restarted for ever: whatever the servers answer and however long they take,
  a transfer that has not been tried yet is sent again at most \<open>max_attempts + 1\<close> times, once after a
  region redirect, once after an authentication failure and \<open>max_attempts - 1\<close> times after transient
  errors.
\<close>

theorem restarts_bounded:
  assumes "restarted_times (transfer_quiet opt) (transfer_restart opt) n t t'"
    and "attempt t = 0" and "1 \<le> max_attempts opt"
  shows "int n \<le> max_attempts opt + 1"
  using engine_budget.bounded [OF assms(1)] assms(2,3) by (auto simp: restart_fuel_def split: if_splits)

definition sample_redirected :: transfer where
  "sample_redirected = new_transfer\<lparr>t_locator := empty_resolved\<lparr>res_backend := S3\<rparr>,
     t_response := fresh_response\<lparr>http_status := 301, response_region := ''eu-west-1''\<rparr>\<rparr>"

definition sample_done :: done_env where
  "sample_done = \<lparr>de_response_code = 301, de_connects = None, de_now = 0, de_wait_now = 0, de_due_now = 0,
     de_jitter = id, de_strerror = (\<lambda>_. []), de_error_text = []\<rparr>"

lemma sample_redirect_restarts:
  "transfer_restart default_client_options sample_redirected
     (sample_redirected\<lparr>region_hint := ''eu-west-1'', region_retried := True\<rparr>)"
  by (rule transfer_restart.now [where env = sample_done and code = CURLE_OK and b = "new_batch 0"
        and b' = "remember_region (new_batch 0) [] ''eu-west-1''"])
    (simp add: handle_done_def restart_or_retry_def learn_region_def succeeded_def sample_redirected_def
      sample_done_def count_done_def new_transfer_def fresh_response_def empty_resolved_def
      default_http_request_options_def expired_def new_deadline_def Let_def)

theorem restarts_bounded_witness:
  "\<exists>t'. restarted_times (transfer_quiet default_client_options) (transfer_restart default_client_options) 1
     sample_redirected t' \<and> int 1 \<le> max_attempts default_client_options + 1"
proof -
  have r: "restarted_times (transfer_quiet default_client_options) (transfer_restart default_client_options) (Suc 0)
      sample_redirected (sample_redirected\<lparr>region_hint := ''eu-west-1'', region_retried := True\<rparr>)"
    by (rule restarted_times.restart) (rule restarted_times.none, rule sample_redirect_restarts)
  have "int (Suc 0) \<le> max_attempts default_client_options + 1"
    using restarts_bounded [OF r] by (simp add: sample_redirected_def new_transfer_def default_client_options_def)
  with r show ?thesis by auto
qed

end
