(* ===== verification/Karu_Local_File.thy ===== *)
theory Karu_Local_File
  imports Karu_Restart
begin

text \<open>
  Reading local files, \<open>Engine::file_loop\<close> in \<open>src/src/runtime/engine.cpp\<close>. The loop is a client of
  the store of \<open>Karu_Delivery\<close>: its sink, a caller's buffer or the scratch vector, takes the pieces
  that \<open>pread\<close> answers in order, and delivery copies the scratch vector to the parts.
\<close>

section \<open>Local files\<close>

text \<open>
  \<open>read_at k off len\<close> is what the \<open>k\<close>-th \<open>pread\<close> answers; it fills at most the span it was given.
  \<open>stop k\<close> is whether the batch is cancelled when the loop tests its condition for the \<open>k\<close>-th time.
\<close>

type_synonym file_reader = "nat \<Rightarrow> u64 \<Rightarrow> u64 \<Rightarrow> string + byte list"

definition read_span :: "file_reader \<Rightarrow> nat \<Rightarrow> u64 \<Rightarrow> u64 \<Rightarrow> string + byte list" where
  "read_span read_at k off len = map_sum id (take (unat len)) (read_at k off len)"

text \<open>Writing a piece where the sink pointer plus what was received points.\<close>

definition sink_write :: "transfer \<Rightarrow> memory \<Rightarrow> byte list \<Rightarrow> (transfer \<times> memory) option" where
  "sink_write t m data =
     (case t_sink t of
        Buffer_Sink (Some a) \<Rightarrow> Some (t, memcpy m (a + unat (received t)) data)
      | Scratch_Sink \<Rightarrow>
          Some (t\<lparr>scratch := take (unat (received t)) (scratch t) @ data @
                    drop (unat (received t) + length data) (scratch t)\<rparr>, m)
      | _ \<Rightarrow> None)"

lemma unat_received_step:
  assumes "received t < t_length t" "d \<noteq> []" "length d \<le> unat (t_length t - received t)"
  shows "unat (received t + of_nat (length d)) = unat (received t) + length d"
    "unat (received t) < unat (received t) + length d" "unat (received t) + length d \<le> unat (t_length t)"
proof -
  have lt: "unat (received t) < unat (t_length t)" using assms(1) by (simp add: u64_less_iff)
  then have le: "unat (received t) + length d \<le> unat (t_length t)"
    using assms(3) by (simp add: unat_u64_sub)
  have "unat (of_nat (length d) :: u64) = length d"
    using le unat_u64_less [of "t_length t"] by (intro unat_of_nat_u64) simp
  then show "unat (received t + of_nat (length d)) = unat (received t) + length d"
    using le unat_u64_less [of "t_length t"] by (simp add: unat_u64_add)
  show "unat (received t) < unat (received t) + length d" using assms(2) by simp
  show "unat (received t) + length d \<le> unat (t_length t)" by (rule le)
qed

lemma sink_write_fields:
  "sink_write t m d = Some (t', m') \<Longrightarrow> received t' = received t \<and> t_length t' = t_length t \<and>
     t_offset t' = t_offset t \<and> t_parts t' = t_parts t \<and> t_batch t' = t_batch t \<and> t_sink t' = t_sink t \<and>
     scattered t' = scattered t \<and> t_locator t' = t_locator t"
  by (auto simp: sink_write_def split: sink.splits option.splits)

function file_read_loop :: "file_reader \<Rightarrow> (nat \<Rightarrow> bool) \<Rightarrow> nat \<Rightarrow> transfer \<Rightarrow> memory \<Rightarrow>
    (string option \<times> transfer \<times> memory) option" where
  "file_read_loop read_at stop k t m =
     (if \<not> (received t < t_length t) \<or> stop k then Some (None, t, m)
      else case read_span read_at k (t_offset t + received t) (t_length t - received t) of
             Inl e \<Rightarrow> Some (Some e, t, m)
           | Inr d \<Rightarrow>
               (if d = [] then Some (None, t, m)
                else case sink_write t m d of
                       None \<Rightarrow> None
                     | Some (t', m') \<Rightarrow>
                         file_read_loop read_at stop (Suc k) (t'\<lparr>received := received t' + of_nat (length d)\<rparr>) m'))"
  by pat_completeness auto
termination
proof (relation "measure (\<lambda>(read_at, stop, k, t, m). unat (t_length t) - unat (received t))", goal_cases)
  case 1
  show ?case by simp
next
  case (2 read_at stop k t m d a t' m')
  have len: "length d \<le> unat (t_length t - received t)"
    using 2(2) by (cases "read_at k (t_offset t + received t) (t_length t - received t)") (auto simp: read_span_def)
  note f = sink_write_fields [of t m d t' m']
  have lt: "received t < t_length t" using 2(1) by simp
  note u = unat_received_step [OF lt 2(3) len]
  have "unat (t_length t) - (unat (received t) + length d) < unat (t_length t) - unat (received t)"
    using u(2,3) by linarith
  with u(1) 2(4,5) f show ?case by auto
qed

declare file_read_loop.simps [simp del]

datatype file_outcome = File_Finished transfer karu_status string memory | File_Discarded transfer memory

text \<open>
  One round of \<open>file_loop\<close> with a transfer taken from the queue: \<open>cancelled_at\<close> answers the
  cancellation tests before, during and after the read.
\<close>

record file_env =
  fe_cancelled_before :: bool
  fe_resize :: "u64 \<Rightarrow> bool"
  fe_open :: "string option"
  fe_read_at :: file_reader
  fe_cancelled :: "nat \<Rightarrow> bool"
  fe_cancelled_after :: bool

definition file_round :: "file_env \<Rightarrow> transfer \<Rightarrow> memory \<Rightarrow> batch_state \<Rightarrow>
    (file_outcome \<times> batch_state) option" where
  "file_round env t m b =
     (if fe_cancelled_before env then Some (File_Discarded t m, b)
      else (let (ok, t1) = ensure_sink (fe_resize env) t;
                path = res_target (t_locator t)
            in if \<not> ok then Some (File_Finished t1 KARU_ERR_NOMEM (path @ '': out of memory staging the read'') m, b)
               else case fe_open env of
                      Some e \<Rightarrow> Some (File_Finished t1 KARU_ERR_IO (path @ '': '' @ e) m, b)
                    | None \<Rightarrow>
                        (case file_read_loop (fe_read_at env) (fe_cancelled env) 0 t1 m of
                           None \<Rightarrow> None
                         | Some (failed, t2, m2) \<Rightarrow>
                             Some (if fe_cancelled_after env then File_Discarded t2 m2
                                   else (case failed of
                                           Some e \<Rightarrow> File_Finished t2 KARU_ERR_IO (path @ '': '' @ e) m2
                                         | None \<Rightarrow> File_Finished t2 KARU_OK [] m2),
                                   add_counter bc_received_bytes_update (received t2) b))))"


section \<open>The sink as a store\<close>

text \<open>Byte \<open>x\<close> of what the sink holds.\<close>

definition sink_byte :: "transfer \<times> memory \<Rightarrow> nat \<Rightarrow> byte" where
  "sink_byte s x =
     (case t_sink (fst s) of
        Buffer_Sink (Some a) \<Rightarrow> snd s (a + x)
      | Buffer_Sink None \<Rightarrow> CHR 0x00
      | Scratch_Sink \<Rightarrow> scratch (fst s) ! x
      | No_Sink \<Rightarrow> CHR 0x00)"

definition holds_sink :: "(nat \<Rightarrow> byte) \<Rightarrow> transfer \<times> memory \<Rightarrow> bool" where
  "holds_sink obj s \<longleftrightarrow> (\<forall>x < t_pos s. sink_byte s x = obj (t_base s + x))"

definition sink_set :: "transfer \<Rightarrow> bool" where
  "sink_set t \<longleftrightarrow>
     (if scattered t then t_sink t = Scratch_Sink \<and> length (scratch t) = unat (t_length t)
      else t_sink t = Buffer_Sink (part_buffer (hd (t_parts t))) \<and> scratch t = [])"

text \<open>The planned transfer \<open>t0\<close> with its sink set; memory differs from \<open>m0\<close> only in its buffers.\<close>

definition reading :: "transfer \<Rightarrow> memory \<Rightarrow> transfer \<times> memory \<Rightarrow> bool" where
  "reading t0 m0 s \<longleftrightarrow> fixed (fst s) = fixed t0 \<and> wf_transfer t0 \<and> disjoint_parts (t_parts t0) \<and>
     scattered t0 = is_scattered (t_parts t0) (t_length t0) \<and> sink_set (fst s) \<and> t_pos s \<le> t_cap s \<and>
     (\<forall>a. (\<forall>p \<in> set (t_parts t0). a \<notin> part_region p) \<longrightarrow> snd s a = m0 a)"

definition file_put :: "transfer \<times> memory \<Rightarrow> byte list \<Rightarrow> (transfer \<times> memory) option" where
  "file_put s d =
     map_option (\<lambda>(t, m). (t\<lparr>received := received t + of_nat (length d)\<rparr>, m)) (sink_write (fst s) (snd s) d)"

lemma reading_fields:
  assumes "reading t0 m0 s"
  shows "t_parts (fst s) = t_parts t0" "t_length (fst s) = t_length t0" "t_offset (fst s) = t_offset t0"
    "scattered (fst s) = scattered t0" "t_locator (fst s) = t_locator t0"
  using assms by (auto simp: reading_def fixed_def)

lemma unscattered_part:
  assumes "reading t0 m0 s" "\<not> scattered (fst s)"
  obtains p a where "t_parts t0 = [p]" "part_buffer p = Some a" "t_sink (fst s) = Buffer_Sink (Some a)"
    "relative_offset p = 0" "part_length p = t_length t0" "scratch (fst s) = []"
proof -
  note f = reading_fields [OF assms(1)]
  have w: "wf_transfer t0" "is_scattered (t_parts t0) (t_length t0) = False" "sink_set (fst s)"
    using assms f by (auto simp: reading_def)
  from w(2) obtain p where p: "t_parts t0 = [p]" "relative_offset p = 0" "part_length p = t_length t0"
    by (cases "t_parts t0") (auto simp: is_scattered_def)
  moreover from w(1) p obtain a where "part_buffer p = Some a" by (auto simp: wf_transfer_def)
  ultimately show ?thesis using that [of p a] w(3) assms(2) f by (auto simp: sink_set_def)
qed

lemma unat_pos_step:
  "t_pos s + length d \<le> t_cap s \<Longrightarrow> unat (received (fst s) + of_nat (length d)) = t_pos s + length d"
  using unat_u64_less [of "t_length (fst s)"]
  by (simp add: t_pos_def t_cap_def unat_u64_add unat_of_nat_u64)

lemma file_put_buffer:
  assumes "reading t0 m0 s" "t_pos s + length d \<le> t_cap s" "\<not> scattered (fst s)"
    and "t_sink (fst s) = Buffer_Sink (Some a)"
  shows "file_put s d = Some ((fst s)\<lparr>received := received (fst s) + of_nat (length d)\<rparr>,
    memcpy (snd s) (a + t_pos s) d)"
  using assms by (simp add: file_put_def sink_write_def t_pos_def)

lemma file_put_scratch:
  assumes "scattered (fst s)" "sink_set (fst s)"
  shows "file_put s d = Some ((fst s)\<lparr>scratch := take (t_pos s) (scratch (fst s)) @ d @ drop (t_pos s + length d) (scratch (fst s)),
    received := received (fst s) + of_nat (length d)\<rparr>, snd s)"
  using assms by (simp add: file_put_def sink_write_def sink_set_def t_pos_def)

lemma file_put_reading:
  assumes r: "reading t0 m0 s" and l: "t_pos s + length d \<le> t_cap s"
  shows "\<exists>s'. file_put s d = Some s' \<and> reading t0 m0 s' \<and> t_pos s' = t_pos s + length d \<and>
    (\<forall>x < t_cap s. sink_byte s' x = (if t_pos s \<le> x \<and> x < t_pos s + length d then d ! (x - t_pos s) else sink_byte s x))"
proof (cases "scattered (fst s)")
  case False
  obtain p a where p: "t_parts t0 = [p]" "part_buffer p = Some a" "t_sink (fst s) = Buffer_Sink (Some a)"
    "relative_offset p = 0" "part_length p = t_length t0" "scratch (fst s) = []"
    using unscattered_part [OF r False] .
  note put = file_put_buffer [OF r l False p(3)]
  have cap: "t_cap s = unat (t_length t0)" using reading_fields [OF r] by (simp add: t_cap_def)
  have frame: "memcpy (snd s) (a + t_pos s) d x = m0 x" if "\<forall>q \<in> set (t_parts t0). x \<notin> part_region q" for x
  proof -
    have "\<not> (a \<le> x \<and> x < a + unat (t_length t0))" using that p by (simp add: part_region_def)
    then have "memcpy (snd s) (a + t_pos s) d x = snd s x" using l cap by (intro memcpy_outside) auto
    with r that show ?thesis by (simp add: reading_def)
  qed
  have "reading t0 m0 ((fst s)\<lparr>received := received (fst s) + of_nat (length d)\<rparr>, memcpy (snd s) (a + t_pos s) d)"
    using r l frame unat_pos_step [OF l] by (simp add: reading_def sink_set_def t_pos_def t_cap_def)
  moreover have "sink_byte ((fst s)\<lparr>received := received (fst s) + of_nat (length d)\<rparr>, memcpy (snd s) (a + t_pos s) d) x =
      (if t_pos s \<le> x \<and> x < t_pos s + length d then d ! (x - t_pos s) else sink_byte s x)" for x
    using p(3) by (simp add: sink_byte_def memcpy_def)
  moreover have "t_pos ((fst s)\<lparr>received := received (fst s) + of_nat (length d)\<rparr>, memcpy (snd s) (a + t_pos s) d) =
      t_pos s + length d"
    using unat_pos_step [OF l] by (simp add: t_pos_def)
  ultimately show ?thesis using put by blast
next
  case True
  have ss: "sink_set (fst s)" using r by (simp add: reading_def)
  have len: "length (scratch (fst s)) = t_cap s" using ss True by (simp add: sink_set_def t_cap_def)
  let ?t = "(fst s)\<lparr>scratch := take (t_pos s) (scratch (fst s)) @ d @ drop (t_pos s + length d) (scratch (fst s)),
    received := received (fst s) + of_nat (length d)\<rparr>"
  have "reading t0 m0 (?t, snd s)"
    using r l len unat_pos_step [OF l] by (auto simp: reading_def sink_set_def t_pos_def t_cap_def)
  moreover have "sink_byte (?t, snd s) x =
      (if t_pos s \<le> x \<and> x < t_pos s + length d then d ! (x - t_pos s) else sink_byte s x)" if "x < t_cap s" for x
    using ss True len l that by (auto simp: sink_byte_def sink_set_def nth_append)
  moreover have "t_pos (?t, snd s) = t_pos s + length d" using unat_pos_step [OF l] by (simp add: t_pos_def)
  ultimately show ?thesis using file_put_scratch [OF True ss] by blast
qed

interpretation local_file: sequential_store t_base t_pos t_cap "reading t0 m0" holds_sink file_put
  for t0 m0
proof (unfold_locales, goal_cases)
  case (1 s)
  then show ?case by (simp add: reading_def)
next
  case (2 s d)
  then show ?case using file_put_reading [OF 2] by auto
next
  case (3 s d s')
  then show ?case
    using file_put_reading [OF 3(1,2)] reading_fields [OF 3(1)] reading_fields [of t0 m0 s']
    by (auto simp: t_base_def t_cap_def)
next
  case (4 s d s' obj)
  from file_put_reading [OF 4(1,2)] 4(3) have r: "reading t0 m0 s'" "t_pos s' = t_pos s + length d"
    "\<forall>x < t_cap s. sink_byte s' x = (if t_pos s \<le> x \<and> x < t_pos s + length d then d ! (x - t_pos s) else sink_byte s x)"
    by auto
  have b: "t_base s' = t_base s"
    using reading_fields [OF 4(1)] reading_fields [OF r(1)] by (simp add: t_base_def)
  have "d ! (x - t_pos s) = obj (t_base s + x)" if "t_pos s \<le> x" "x < t_pos s + length d" for x
  proof -
    have "x - t_pos s < length d" using that by arith
    with 4(5) have "d ! (x - t_pos s) = obj (t_base s + t_pos s + (x - t_pos s))" by (simp add: slice_at_def)
    with that show ?thesis by (simp add: add.assoc)
  qed
  with 4(2,4) r show ?case by (auto simp: holds_sink_def b)
qed

section \<open>The read loop\<close>

text \<open>
  What \<open>pread\<close> promises on a file of \<open>sz\<close> bytes that does not change: the bytes at the offset, as
  many as it likes but none only at or behind the end of the file.
\<close>

definition pread_of :: "nat \<Rightarrow> (nat \<Rightarrow> byte) \<Rightarrow> file_reader \<Rightarrow> bool" where
  "pread_of sz obj read_at \<longleftrightarrow>
     (\<forall>k off len d. read_at k off len = Inr d \<longrightarrow>
        slice_at obj (unat off) d \<and> (d = [] \<or> unat off + length d \<le> sz) \<and> (unat off < sz \<longrightarrow> d \<noteq> []))"

lemma read_span_pread:
  assumes "pread_of sz obj read_at" "read_span read_at k off len = Inr d" "0 < unat len"
  shows "slice_at obj (unat off) d" "d = [] \<or> unat off + length d \<le> sz" "unat off < sz \<Longrightarrow> d \<noteq> []"
    "length d \<le> unat len"
proof -
  from assms(2) obtain e where e: "read_at k off len = Inr e" "d = take (unat len) e"
    by (cases "read_at k off len") (auto simp: read_span_def)
  note c = assms(1) [unfolded pread_of_def, rule_format, OF e(1)]
  show "slice_at obj (unat off) d" using c e by (auto intro: slice_at_take)
  show "d = [] \<or> unat off + length d \<le> sz" using c e by auto
  show "unat off < sz \<Longrightarrow> d \<noteq> []" using c e assms(3) by auto
  show "length d \<le> unat len" using e by simp
qed

lemma file_read_loop_reads:
  assumes "pread_of sz obj read_at" "reading t0 m0 (t, m)" "holds_sink obj (t, m)"
    and "t_pos (t, m) = 0 \<or> t_base (t, m) + t_pos (t, m) \<le> sz"
  shows "\<exists>e t' m'. file_read_loop read_at stop k t m = Some (e, t', m') \<and> reading t0 m0 (t', m') \<and>
    holds_sink obj (t', m') \<and>
    (e = None \<and> (\<forall>j. \<not> stop j) \<longrightarrow> t_pos (t', m') = min (t_cap (t, m)) (sz - t_base (t, m)))"
  using assms
proof (induction read_at stop k t m rule: file_read_loop.induct)
  case (1 read_at stop k t m)
  let ?off = "t_offset t + received t" and ?len = "t_length t - received t"
  have le: "t_pos (t, m) \<le> t_cap (t, m)" using 1(3) by (simp add: reading_def)
  show ?case
  proof (cases "\<not> received t < t_length t \<or> stop k")
    case True
    then have "file_read_loop read_at stop k t m = Some (None, t, m)" by (simp add: file_read_loop.simps)
    moreover have "t_pos (t, m) = min (t_cap (t, m)) (sz - t_base (t, m))" if "\<forall>j. \<not> stop j"
      using True that le 1(5) by (auto simp: t_pos_def t_cap_def t_base_def u64_less_iff)
    ultimately show ?thesis using 1(3,4) by blast
  next
    case False
    then have lt: "t_pos (t, m) < t_cap (t, m)" by (simp add: u64_less_iff t_pos_def t_cap_def)
    have len: "unat ?len = t_cap (t, m) - t_pos (t, m)" using lt by (simp add: t_pos_def t_cap_def unat_u64_sub)
    have "t_base (t, m) + t_cap (t, m) \<le> 2 ^ 64"
      using 1(3) reading_fields [OF 1(3)] by (simp add: reading_def wf_transfer_def t_base_def t_cap_def)
    then have off: "unat ?off = t_base (t, m) + t_pos (t, m)"
      using lt by (simp add: t_base_def t_pos_def unat_u64_add)
    show ?thesis
    proof (cases "read_span read_at k ?off ?len")
      case (Inl e)
      with False have "file_read_loop read_at stop k t m = Some (Some e, t, m)" by (simp add: file_read_loop.simps)
      then show ?thesis using 1(3,4) by blast
    next
      case (Inr d)
      have "0 < unat ?len" using len lt by simp
      note rd = read_span_pread [OF 1(2) Inr this, unfolded off]
      show ?thesis
      proof (cases "d = []")
        case True
        with False Inr have "file_read_loop read_at stop k t m = Some (None, t, m)" by (simp add: file_read_loop.simps)
        moreover have "sz \<le> t_base (t, m) + t_pos (t, m)" using rd(3) True by (cases "t_base (t, m) + t_pos (t, m) < sz") auto
        then have "t_pos (t, m) = min (t_cap (t, m)) (sz - t_base (t, m))" using 1(5) lt by auto
        ultimately show ?thesis using 1(3,4) by blast
      next
        case d: False
        have fits: "t_pos (t, m) + length d \<le> t_cap (t, m)" using rd(4) len lt by simp
        obtain s' where p: "file_put (t, m) d = Some s'" using local_file.put_accepts [OF 1(3) fits] by blast
        then obtain t1 m1 where w: "sink_write t m d = Some (t1, m1)"
          "s' = (t1\<lparr>received := received t1 + of_nat (length d)\<rparr>, m1)"
          by (auto simp: file_put_def)
        note r = local_file.put_ready [OF 1(3) fits p]
        have h: "holds_sink obj s'" using local_file.put_holds [OF 1(3) fits p 1(4) rd(1)] .
        have "t_pos s' = 0 \<or> t_base s' + t_pos s' \<le> sz" using r rd(2) d by auto
        with 1(1) [OF False Inr d w(1) refl 1(2)] r h w(2) show ?thesis
          using False Inr d w(1) by (simp add: file_read_loop.simps)
      qed
    qed
  qed
qed

section \<open>Copying the scratch vector\<close>

lemma deliver_parts_memory:
  assumes "reachable_parts ps" "scratch t \<noteq> []" "unat (received t) \<le> length (scratch t)"
    and "deliver_parts t KARU_OK detail ps m b = Some (m', b')"
  shows "(\<forall>p \<in> set ps. \<forall>i < arrived t p. m' (the (part_buffer p) + i) = scratch t ! (unat (relative_offset p) + i)) \<and>
    (\<forall>a. (\<forall>p \<in> set ps. a \<notin> part_region p) \<longrightarrow> m' a = m a)"
  using assms(1,4)
proof (induction ps arbitrary: m b)
  case Nil
  then show ?case by simp
next
  case (Cons p ps)
  note rp = reachable_parts_Cons [OF Cons.prems(1)]
  obtain a where a: "part_buffer p = Some a" using rp by blast
  have bound: "unat (relative_offset p) + unat (part_length p) < 2 ^ 64" using Cons.prems(1) by (simp add: reachable_parts_def)
  have got: "unat (cp_got (part_completion t KARU_OK detail p)) = arrived t p"
    using part_completion_arrived(1) [OF bound] .
  define d where "d = take (arrived t p) (drop (unat (relative_offset p)) (scratch t))"
  have ld: "length d = arrived t p" using assms(3) by (auto simp: d_def arrived_def)
  have nd: "d ! i = scratch t ! (unat (relative_offset p) + i)" if "i < arrived t p" for i
  proof -
    have "unat (relative_offset p) \<le> length (scratch t)" using that assms(3) unfolding arrived_def by linarith
    then show ?thesis using that by (simp add: d_def)
  qed
  define m1 where "m1 = memcpy m a d"
  have copy: "copy_from_scratch t p (part_completion t KARU_OK detail p) m = Some m1"
  proof (cases "0 < cp_got (part_completion t KARU_OK detail p)")
    case True
    with assms(2) a got show ?thesis by (simp add: copy_from_scratch_def m1_def d_def)
  next
    case False
    then have "arrived t p = 0" using got by (simp add: u64_less_iff)
    with False show ?thesis by (auto simp: copy_from_scratch_def m1_def d_def memcpy_def fun_eq_iff)
  qed
  have rest: "deliver_parts t KARU_OK detail ps m1 (push b (part_completion t KARU_OK detail p)) = Some (m', b')"
    using Cons.prems(2) copy by (simp add: Let_def)
  note IH = Cons.IH [OF _ rest]
  have arr: "arrived t p \<le> unat (part_length p)" by (simp add: arrived_def)
  have "m' (a + i) = scratch t ! (unat (relative_offset p) + i)" if i: "i < arrived t p" for i
  proof -
    have "a + i \<in> part_region p" using i arr a by (simp add: part_region_def)
    then have "m' (a + i) = m1 (a + i)" using IH rp by blast
    also have "\<dots> = d ! i" using i ld by (simp add: m1_def memcpy_def)
    finally show ?thesis using nd i by simp
  qed
  moreover have "m' x = m x" if x: "\<forall>q \<in> set (p # ps). x \<notin> part_region q" for x
  proof -
    have "m1 x = m x" using x ld arr a by (auto simp: m1_def part_region_def intro!: memcpy_outside)
    then show ?thesis using IH rp x by simp
  qed
  ultimately show ?case using IH rp a by auto
qed

lemma deliver_parts_no_scratch:
  "scratch t = [] \<Longrightarrow> deliver_parts t status detail ps m b = Some (m', b') \<Longrightarrow> m' = m"
  by (induction ps arbitrary: b) (auto simp: copy_from_scratch_def Let_def)

section \<open>Reading a local file\<close>

text \<open>A local transfer as the planner makes it.\<close>

definition planned_local :: "transfer \<Rightarrow> bool" where
  "planned_local t \<longleftrightarrow> wf_transfer t \<and> disjoint_parts (t_parts t) \<and>
     scattered t = is_scattered (t_parts t) (t_length t) \<and> res_backend (t_locator t) = File \<and>
     t_sink t = No_Sink \<and> scratch t = [] \<and> received t = 0"

lemma planned_local_reads:
  assumes "planned_local t" "ensure_sink rs t = (True, t1)"
  shows "reading t m (t1, m)" "holds_sink obj (t1, m)" "t_pos (t1, m) = 0"
    "t_base (t1, m) = unat (t_offset t)" "t_cap (t1, m) = unat (t_length t)"
  using assms
  by (auto simp: planned_local_def ensure_sink_def reading_def sink_set_def holds_sink_def t_pos_def t_cap_def
      t_base_def split: if_splits)

lemma wf_transfer_nonempty: "wf_transfer t \<Longrightarrow> 0 < unat (t_length t)"
  by (auto simp: wf_transfer_def)

text \<open>What the sink holds reaches the parts.\<close>

lemma deliver_sink:
  assumes r: "reading t0 m0 (t, m)" and h: "holds_sink obj (t, m)"
    and f: "finish_transfer t KARU_OK detail m b = Some (m', b')"
  shows "(\<forall>p \<in> set (t_parts t0). \<forall>i < arrived t p.
      m' (the (part_buffer p) + i) = obj (unat (t_offset t0) + unat (relative_offset p) + i)) \<and>
    (\<forall>a. (\<forall>p \<in> set (t_parts t0). a \<notin> part_region p) \<longrightarrow> m' a = m0 a)"
proof -
  note rf = reading_fields [OF r, simplified]
  have wf: "wf_transfer t0" "disjoint_parts (t_parts t0)" using r by (simp_all add: reading_def)
  have rp: "reachable_parts (t_parts t0)"
    using wf unat_u64_less [of "t_length t0"] by (auto simp: wf_transfer_def reachable_parts_def intro: le_less_trans)
  obtain b1 where d: "deliver_parts t KARU_OK detail (t_parts t0) m (add_counter bc_transfers_finished_update 1 b) = Some (m', b1)"
    using f rf by (auto simp: finish_transfer_def deliver_def)
  have hs: "sink_byte (t, m) x = obj (unat (t_offset t0) + x)" if "x < unat (received t)" for x
    using h that rf by (simp add: holds_sink_def t_pos_def t_base_def)
  have frame: "\<forall>a. (\<forall>p \<in> set (t_parts t0). a \<notin> part_region p) \<longrightarrow> m a = m0 a" using r by (simp add: reading_def)
  show ?thesis
  proof (cases "scattered t")
    case True
    have sc: "t_sink t = Scratch_Sink" "length (scratch t) = unat (t_length t0)"
      using r True rf by (simp_all add: reading_def sink_set_def)
    have ne: "scratch t \<noteq> []" using sc wf_transfer_nonempty [OF wf(1)] by auto
    have le: "unat (received t) \<le> length (scratch t)" using r rf sc by (simp add: reading_def t_pos_def t_cap_def)
    note mem = deliver_parts_memory [OF rp ne le d]
    have "m' (the (part_buffer p) + i) = obj (unat (t_offset t0) + unat (relative_offset p) + i)"
      if "p \<in> set (t_parts t0)" "i < arrived t p" for p i
      using mem that hs [of "unat (relative_offset p) + i"] sc(1)
      by (simp add: arrived_def sink_byte_def less_diff_conv ac_simps)
    with mem frame show ?thesis by auto
  next
    case False
    obtain p a where p: "t_parts t0 = [p]" "part_buffer p = Some a" "t_sink t = Buffer_Sink (Some a)"
      "relative_offset p = 0" "part_length p = t_length t0" "scratch t = []"
      using unscattered_part [OF r] False by auto
    have "m' = m" using deliver_parts_no_scratch [OF p(6) d] .
    moreover have "m (a + i) = obj (unat (t_offset t0) + i)" if "i < arrived t p" for i
      using hs [of i] that p by (simp add: arrived_def sink_byte_def)
    ultimately show ?thesis using frame p by simp
  qed
qed

lemma file_round_finished:
  assumes "file_round env t m b = Some (File_Finished t' KARU_OK detail m', b')"
  obtains t1 where "ensure_sink (fe_resize env) t = (True, t1)" "\<not> fe_cancelled_after env"
    "file_read_loop (fe_read_at env) (fe_cancelled env) 0 t1 m = Some (None, t', m')"
    "b' = add_counter bc_received_bytes_update (received t') b"
proof -
  obtain ok t1 where e: "ensure_sink (fe_resize env) t = (ok, t1)" by fastforce
  show ?thesis
    using assms e that [of t1]
    by (auto simp: file_round_def Let_def split: if_splits option.splits prod.splits)
qed

text \<open>
  C31. Local reads are exact. When a worker finishes a planned transfer of an unchanged file without an
  error, publishing its completions succeeds and they are one per part, in order; each reports as many
  bytes as the file has in the part's range, \<open>KARU_OK\<close> exactly when that is all of them; the buffers
  hold the file's bytes, coalesced reads through the scratch vector included, and no other byte of
  memory has changed.
\<close>

theorem local_read_exact:
  assumes "planned_local t" and "pread_of sz obj (fe_read_at env)"
    and "\<forall>k. fe_cancelled env k \<longrightarrow> fe_cancelled_after env"
    and "file_round env t m b = Some (File_Finished t' KARU_OK detail m1, b1)"
  shows "\<exists>m2 b2. finish_transfer t' KARU_OK detail m1 b1 = Some (m2, b2) \<and>
    ready b2 = ready b @ map (part_completion t' KARU_OK detail) (t_parts t) \<and>
    (\<forall>p \<in> set (t_parts t).
       (let c = part_completion t' KARU_OK detail p;
            there = min (unat (part_length p)) (sz - (unat (t_offset t) + unat (relative_offset p)))
        in unat (cp_got c) = there \<and>
           cp_status c = (if there = unat (part_length p) then KARU_OK else KARU_ERR_RANGE) \<and>
           (\<forall>i < there. m2 (the (part_buffer p) + i) = obj (unat (t_offset t) + unat (relative_offset p) + i)))) \<and>
    (\<forall>a. (\<forall>p \<in> set (t_parts t). a \<notin> part_region p) \<longrightarrow> m2 a = m a)"
proof -
  obtain t1 where e: "ensure_sink (fe_resize env) t = (True, t1)" "\<not> fe_cancelled_after env"
    "file_read_loop (fe_read_at env) (fe_cancelled env) 0 t1 m = Some (None, t', m1)"
    "b1 = add_counter bc_received_bytes_update (received t') b"
    using file_round_finished [OF assms(4)] .
  note s = planned_local_reads [OF assms(1) e(1), where m = m]
  have go: "\<forall>k. \<not> fe_cancelled env k" using assms(3) e(2) by blast
  have r: "reading t m (t', m1)" "holds_sink obj (t', m1)"
    "unat (received t') = min (unat (t_length t)) (sz - unat (t_offset t))"
    using file_read_loop_reads [OF assms(2) s(1,2), of "fe_cancelled env" 0] s(3,4,5) e(3) go
    by (auto simp: t_pos_def)
  have pt: "t_parts t' = t_parts t" using reading_fields [OF r(1)] by simp
  have wf: "wf_transfer t" using assms(1) by (simp add: planned_local_def)
  have "deliverable t'" using wf pt by (simp add: deliverable_def wf_transfer_def)
  then obtain m2 b2 where f: "finish_transfer t' KARU_OK detail m1 b1 = Some (m2, b2)"
    using finish_transfer_total by blast
  have arr: "arrived t' p = min (unat (part_length p)) (sz - (unat (t_offset t) + unat (relative_offset p)))"
    if "p \<in> set (t_parts t)" for p
    using wf that r(3) by (auto simp: wf_transfer_def arrived_def)
  have bnd: "unat (relative_offset p) + unat (part_length p) < 2 ^ 64" "0 < unat (part_length p)" if "p \<in> set (t_parts t)" for p
    using wf that unat_u64_less [of "t_length t"] by (auto simp: wf_transfer_def intro: le_less_trans)
  have st: "cp_status (part_completion t' KARU_OK detail p) =
      (if arrived t' p = unat (part_length p) then KARU_OK else KARU_ERR_RANGE)" if "p \<in> set (t_parts t)" for p
    using part_completion_arrived(2) [OF bnd(1) [OF that], of t' detail] bnd(2) [OF that]
    by (auto simp: arrived_def)
  show ?thesis
    using f finish_transfer_batch(1) [OF f] e(4) pt deliver_sink [OF r(1,2) f] st arr
      part_completion_arrived(1) [OF bnd(1), of _ t' detail]
    by (intro exI [of _ m2] exI [of _ b2]) (simp add: Let_def)
qed

text \<open>Two overlapping parts of a file of seven bytes, the second of which runs over its end.\<close>

definition sample_local :: transfer where
  "sample_local = new_transfer\<lparr>t_locator := empty_resolved\<lparr>res_backend := File\<rparr>, t_offset := 2, t_length := 6,
     t_parts := [\<lparr>relative_offset = 0, part_length = 4, part_buffer = Some 100, part_tag = 7, part_owned = None\<rparr>,
                 \<lparr>relative_offset = 3, part_length = 3, part_buffer = Some 200, part_tag = 8, part_owned = None\<rparr>],
     scattered := True\<rparr>"

definition sample_pread :: file_reader where
  "sample_pread k off len =
     Inr (map (\<lambda>i. char_of (unat off + i)) [0..<min 2 (7 - unat off)])"

definition sample_file_env :: file_env where
  "sample_file_env = \<lparr>fe_cancelled_before = False, fe_resize = (\<lambda>_. True), fe_open = None, fe_read_at = sample_pread,
     fe_cancelled = (\<lambda>_. False), fe_cancelled_after = False\<rparr>"

lemma sample_pread_ok: "pread_of 7 char_of sample_pread"
  by (auto simp: pread_of_def sample_pread_def slice_at_def)

lemmas sample_local_defs = sample_local_def new_transfer_def empty_resolved_def

lemma sample_local_planned: "planned_local sample_local"
  by (simp add: planned_local_def wf_transfer_def disjoint_parts_def part_region_def is_scattered_def sample_local_defs)

lemma sample_local_round:
  "map_option (\<lambda>(o', b). case o' of File_Finished t s d m \<Rightarrow> Some (s, d, received t, t_parts t) | _ \<Rightarrow> None)
     (file_round sample_file_env sample_local (\<lambda>_. CHR 0x00) (new_batch 0)) =
   Some (Some (KARU_OK, [], 5, t_parts sample_local))"
  by code_simp

theorem local_read_exact_witness:
  "\<exists>t m1 b1 m2 b2. file_round sample_file_env sample_local (\<lambda>_. CHR 0x00) (new_batch 0) =
      Some (File_Finished t KARU_OK [] m1, b1) \<and> finish_transfer t KARU_OK [] m1 b1 = Some (m2, b2) \<and>
    map cp_tag (ready b2) = [7, 8] \<and> map cp_status (ready b2) = [KARU_OK, KARU_ERR_RANGE] \<and>
    map (unat \<circ> cp_got) (ready b2) = [4, 2] \<and> m2 103 = char_of (5 :: nat) \<and> m2 201 = char_of (6 :: nat)"
proof -
  obtain t m1 b1 where f: "file_round sample_file_env sample_local (\<lambda>_. CHR 0x00) (new_batch 0) =
      Some (File_Finished t KARU_OK [] m1, b1)"
  proof -
    obtain o' b1 where o': "file_round sample_file_env sample_local (\<lambda>_. CHR 0x00) (new_batch 0) = Some (o', b1)"
      using sample_local_round by fastforce
    with sample_local_round that show ?thesis by (cases o') auto
  qed
  have "\<forall>k. fe_cancelled sample_file_env k \<longrightarrow> fe_cancelled_after sample_file_env" by (simp add: sample_file_env_def)
  with local_read_exact [OF sample_local_planned _ _ f, of 7 char_of] sample_pread_ok
  obtain m2 b2 where r: "finish_transfer t KARU_OK [] m1 b1 = Some (m2, b2)"
    "ready b2 = ready (new_batch 0) @ map (part_completion t KARU_OK []) (t_parts sample_local)"
    "\<forall>p \<in> set (t_parts sample_local).
       (let c = part_completion t KARU_OK [] p;
            there = min (unat (part_length p)) (7 - (unat (t_offset sample_local) + unat (relative_offset p)))
        in unat (cp_got c) = there \<and>
           cp_status c = (if there = unat (part_length p) then KARU_OK else KARU_ERR_RANGE) \<and>
           (\<forall>i < there. m2 (the (part_buffer p) + i) = char_of (unat (t_offset sample_local) + unat (relative_offset p) + i)))"
    by (auto simp: sample_file_env_def)
  have "\<forall>i < 4. m2 (100 + i) = char_of (2 + i)" "\<forall>i < 2. m2 (200 + i) = char_of (5 + i)"
    using r(3) by (simp_all add: sample_local_defs Let_def)
  from this(1) [rule_format, of 3] this(2) [rule_format, of 1]
  have m: "m2 103 = char_of (5 :: nat)" "m2 201 = char_of (6 :: nat)" by simp_all
  show ?thesis using f r m by (auto simp: sample_local_defs Let_def new_batch_def)
qed

end
