(* ===== verification/Karu_Ledger.thy ===== *)
theory Karu_Ledger
  imports Karu_Prelude "HOL-Library.Multiset"
begin

text \<open>
  The abstract specification of the engine: a ledger of what every batch has submitted, what is still
  in flight, what is ready and what the caller has taken. It has no queues, no loops and no transfers;
  a transfer is only the batch it belongs to and the tags of the parts it has not delivered yet. Its tags become
  ready one by one; only when none is left, or the batch is dead and they are dropped, does the transfer leave
  the flight and stop counting as live. The locale \<open>refines\<close> carries
  invariants of an abstract machine to a detailed one, and is interpreted on the engine's steps in
  \<open>Karu_Steps\<close>.
\<close>

section \<open>Refinement of step relations\<close>

locale refines =
  fixes cinit :: "'c \<Rightarrow> bool" and cstep :: "'c \<Rightarrow> 'c \<Rightarrow> bool"
    and ainit :: "'a \<Rightarrow> bool" and astep :: "'a \<Rightarrow> 'a \<Rightarrow> bool"
    and abs :: "'c \<Rightarrow> 'a" and cinv :: "'c \<Rightarrow> bool" and ainv :: "'a \<Rightarrow> bool"
  assumes init_abs: "cinit c \<Longrightarrow> ainit (abs c)"
    and init_cinv: "cinit c \<Longrightarrow> cinv c"
    and init_ainv: "ainit a \<Longrightarrow> ainv a"
    and step_cinv: "cinv c \<Longrightarrow> cstep c c' \<Longrightarrow> cinv c'"
    and step_ainv: "ainv a \<Longrightarrow> astep a a' \<Longrightarrow> ainv a'"
    and simulates: "cinv c \<Longrightarrow> ainv (abs c) \<Longrightarrow> cstep c c' \<Longrightarrow> astep\<^sup>*\<^sup>* (abs c) (abs c')"
begin

lemma astep_rtranclp_ainv: "astep\<^sup>*\<^sup>* a a' \<Longrightarrow> ainv a \<Longrightarrow> ainv a'"
  by (induction rule: rtranclp_induct) (auto intro: step_ainv)

lemma csteps_invariant: "cstep\<^sup>*\<^sup>* c c' \<Longrightarrow> cinv c \<and> ainv (abs c) \<Longrightarrow> cinv c' \<and> ainv (abs c')"
  by (induction rule: rtranclp_induct) (auto intro: step_cinv astep_rtranclp_ainv dest: simulates)

lemma reachable_invariant: "cinit c \<Longrightarrow> cstep\<^sup>*\<^sup>* c c' \<Longrightarrow> cinv c' \<and> ainv (abs c')"
  using csteps_invariant init_abs init_cinv init_ainv by blast

lemma csteps_simulate: "cstep\<^sup>*\<^sup>* c c' \<Longrightarrow> cinv c \<Longrightarrow> ainv (abs c) \<Longrightarrow> astep\<^sup>*\<^sup>* (abs c) (abs c')"
proof (induction rule: rtranclp_induct)
  case base
  show ?case by simp
next
  case (step c' c'')
  then have "cinv c' \<and> ainv (abs c')" using csteps_invariant by blast
  then have "astep\<^sup>*\<^sup>* (abs c') (abs c'')" using simulates step.hyps(2) by blast
  with step show ?case by auto
qed

lemma reachable_simulated: "cinit c \<Longrightarrow> cstep\<^sup>*\<^sup>* c c' \<Longrightarrow> ainit (abs c) \<and> astep\<^sup>*\<^sup>* (abs c) (abs c')"
  using csteps_simulate init_abs init_cinv init_ainv by blast

end

section \<open>The ledger\<close>

record book =
  bk_submitted :: "tag list"
  bk_ready :: "tag list"
  bk_taken :: "tag list"
  bk_pending :: nat
  bk_live :: nat
  bk_cancelled :: bool

record ledger =
  lg_stop :: bool
  lg_flight :: "(nat \<times> tag list) multiset"
  lg_book :: "nat \<Rightarrow> book option"

definition flight_of :: "ledger \<Rightarrow> nat \<Rightarrow> tag list multiset" where
  "flight_of l i = image_mset snd (filter_mset (\<lambda>x. fst x = i) (lg_flight l))"

definition flight_tags :: "ledger \<Rightarrow> nat \<Rightarrow> tag multiset" where
  "flight_tags l i = \<Sum>\<^sub># (image_mset mset (flight_of l i))"

definition put_book :: "nat \<Rightarrow> book \<Rightarrow> ledger \<Rightarrow> ledger" where
  "put_book i k l = l\<lparr>lg_book := (lg_book l)(i \<mapsto> k)\<rparr>"

definition deliver_tag :: "nat \<Rightarrow> tag \<Rightarrow> tag list \<Rightarrow> book \<Rightarrow> ledger \<Rightarrow> ledger" where
  "deliver_tag i tag rest k l =
     put_book i (k\<lparr>bk_ready := bk_ready k @ [tag], bk_pending := bk_pending k - 1\<rparr>)
       (l\<lparr>lg_flight := add_mset (i, rest) (lg_flight l - {#(i, tag # rest)#})\<rparr>)"

definition settle :: "nat \<Rightarrow> book \<Rightarrow> ledger \<Rightarrow> ledger" where
  "settle i k l = put_book i (k\<lparr>bk_live := bk_live k - 1\<rparr>) (l\<lparr>lg_flight := lg_flight l - {#(i, [])#}\<rparr>)"

definition drop_tags :: "nat \<Rightarrow> tag list \<Rightarrow> ledger \<Rightarrow> ledger" where
  "drop_tags i tags l = l\<lparr>lg_flight := add_mset (i, []) (lg_flight l - {#(i, tags)#})\<rparr>"

inductive ledger_step :: "ledger \<Rightarrow> ledger \<Rightarrow> bool" where
  opened: "lg_book l i = None \<Longrightarrow>
    mset submitted = mset refused + \<Sum>\<^sub># (image_mset mset (mset entries)) \<Longrightarrow>
    ledger_step l (put_book i \<lparr>bk_submitted = submitted, bk_ready = refused, bk_taken = [],
        bk_pending = sum_list (map length entries), bk_live = length entries, bk_cancelled = False\<rparr>
      (l\<lparr>lg_flight := lg_flight l + image_mset (Pair i) (mset entries)\<rparr>))"
| delivered: "lg_book l i = Some k \<Longrightarrow> (i, tag # rest) \<in># lg_flight l \<Longrightarrow> ledger_step l (deliver_tag i tag rest k l)"
| settled: "lg_book l i = Some k \<Longrightarrow> (i, []) \<in># lg_flight l \<Longrightarrow> ledger_step l (settle i k l)"
| dropped: "lg_book l i = Some k \<Longrightarrow> (i, tags) \<in># lg_flight l \<Longrightarrow> bk_cancelled k \<or> lg_stop l \<Longrightarrow>
    ledger_step l (drop_tags i tags l)"
| taken: "lg_book l i = Some k \<Longrightarrow> bk_ready k = tag # rest \<Longrightarrow>
    ledger_step l (put_book i (k\<lparr>bk_ready := rest, bk_taken := bk_taken k @ [tag]\<rparr>) l)"
| cancelled: "lg_book l i = Some k \<Longrightarrow> ledger_step l (put_book i (k\<lparr>bk_cancelled := True\<rparr>) l)"
| stopped: "ledger_step l (l\<lparr>lg_stop := True\<rparr>)"

inductive_cases ledger_stepE: "ledger_step l l'"

definition empty_ledger :: "ledger \<Rightarrow> bool" where
  "empty_ledger l \<longleftrightarrow> lg_flight l = {#} \<and> lg_book l = (\<lambda>_. None)"

section \<open>What the ledger keeps\<close>

definition book_ok :: "bool \<Rightarrow> tag list multiset \<Rightarrow> book \<Rightarrow> bool" where
  "book_ok stop es k \<longleftrightarrow> bk_live k = size es \<and>
     sum_mset (image_mset length es) \<le> bk_pending k \<and>
     mset (bk_taken k) + mset (bk_ready k) + \<Sum>\<^sub># (image_mset mset es) \<subseteq># mset (bk_submitted k) \<and>
     (\<not> bk_cancelled k \<and> \<not> stop \<longrightarrow>
        bk_pending k = sum_mset (image_mset length es) \<and>
        mset (bk_submitted k) = mset (bk_taken k) + mset (bk_ready k) + \<Sum>\<^sub># (image_mset mset es))"

definition ledger_ok :: "ledger \<Rightarrow> bool" where
  "ledger_ok l \<longleftrightarrow> (\<forall>x \<in># lg_flight l. lg_book l (fst x) \<noteq> None) \<and>
     (\<forall>i k. lg_book l i = Some k \<longrightarrow> book_ok (lg_stop l) (flight_of l i) k)"

lemma flight_of_put [simp]: "flight_of (put_book i k l) j = flight_of l j"
  by (simp add: flight_of_def put_book_def)

lemma lg_book_put [simp]: "lg_book (put_book i k l) = (lg_book l)(i \<mapsto> k)"
  "lg_stop (put_book i k l) = lg_stop l" "lg_flight (put_book i k l) = lg_flight l"
  by (simp_all add: put_book_def)

lemma flight_of_remove:
  assumes "(i, tags) \<in># lg_flight l"
  shows "flight_of (l\<lparr>lg_flight := lg_flight l - {#(i, tags)#}\<rparr>) j =
    (if j = i then flight_of l j - {#tags#} else flight_of l j)" "tags \<in># flight_of l i"
proof -
  obtain f where f: "lg_flight l = add_mset (i, tags) f" using assms by (meson multi_member_split)
  show "flight_of (l\<lparr>lg_flight := lg_flight l - {#(i, tags)#}\<rparr>) j =
    (if j = i then flight_of l j - {#tags#} else flight_of l j)" "tags \<in># flight_of l i"
    by (auto simp: flight_of_def f)
qed

lemma flight_of_other: "\<forall>x \<in># lg_flight l. lg_book l (fst x) \<noteq> None \<Longrightarrow> lg_book l i = None \<Longrightarrow> flight_of l i = {#}"
  by (auto simp: flight_of_def intro!: filter_mset_False [THEN trans, rotated] filter_mset_cong)

lemma flight_of_replace:
  assumes "(i, tags) \<in># lg_flight l"
  shows "flight_of (l\<lparr>lg_flight := add_mset (i, rest) (lg_flight l - {#(i, tags)#})\<rparr>) j =
    (if j = i then add_mset rest (flight_of l j - {#tags#}) else flight_of l j)"
  using flight_of_remove(1) [OF assms, of j] by (auto simp: flight_of_def)

lemma flight_of_add:
  "flight_of (l\<lparr>lg_flight := lg_flight l + image_mset (Pair i) es\<rparr>) j =
     (if j = i then flight_of l j + es else flight_of l j)"
proof -
  have "filter_mset (\<lambda>x. fst x = j) (image_mset (Pair i) es) = (if j = i then image_mset (Pair i) es else {#})"
    by (induction es) auto
  then show ?thesis by (simp add: flight_of_def image_mset.compositionality comp_def)
qed

lemma ledger_ok_update:
  assumes ok: "ledger_ok l" and k: "lg_book l i \<noteq> None"
    and fl: "\<forall>x \<in># lg_flight l'. fst x = i \<or> x \<in># lg_flight l" "\<And>j. j \<noteq> i \<Longrightarrow> flight_of l' j = flight_of l j"
    and st: "lg_stop l' = lg_stop l" and bk: "lg_book l' = (lg_book l)(i \<mapsto> k')"
    and new: "book_ok (lg_stop l) (flight_of l' i) k'"
  shows "ledger_ok l'"
  using ok fl new unfolding ledger_ok_def st bk by (auto split: if_splits)

lemma book_okI: "ledger_ok l \<Longrightarrow> lg_book l i = Some k \<Longrightarrow> book_ok (lg_stop l) (flight_of l i) k"
  by (simp add: ledger_ok_def)

lemma deliver_tag_ok:
  assumes ok: "ledger_ok l" and b: "lg_book l i = Some k" "(i, tag # rest) \<in># lg_flight l"
  shows "ledger_ok (deliver_tag i tag rest k l)"
proof -
  from flight_of_remove(2) [OF b(2)] obtain es where es: "flight_of l i = add_mset (tag # rest) es" by (meson multi_member_split)
  have "book_ok (lg_stop l) (add_mset rest es) (k\<lparr>bk_ready := bk_ready k @ [tag], bk_pending := bk_pending k - 1\<rparr>)"
    using book_okI [OF ok b(1)] unfolding es book_ok_def by (auto simp: ac_simps)
  then show ?thesis
    by (intro ledger_ok_update [OF ok, where i = i])
      (auto simp: deliver_tag_def b(1) flight_of_replace [OF b(2)] es dest: in_diffD)
qed

lemma settle_ok:
  assumes ok: "ledger_ok l" and b: "lg_book l i = Some k" "(i, []) \<in># lg_flight l"
  shows "ledger_ok (settle i k l)"
proof -
  note r = flight_of_remove [OF b(2)]
  from r(2) obtain es where es: "flight_of l i = add_mset [] es" by (meson multi_member_split)
  have "book_ok (lg_stop l) es (k\<lparr>bk_live := bk_live k - 1\<rparr>)"
    using book_okI [OF ok b(1)] unfolding es book_ok_def by auto
  then show ?thesis
    by (intro ledger_ok_update [OF ok, where i = i]) (auto simp: settle_def b(1) r(1) es dest: in_diffD)
qed

lemma drop_tags_ok:
  assumes ok: "ledger_ok l" and b: "lg_book l i = Some k" "(i, tags) \<in># lg_flight l"
    and dead: "bk_cancelled k \<or> lg_stop l"
  shows "ledger_ok (drop_tags i tags l)"
proof -
  from flight_of_remove(2) [OF b(2)] obtain es where es: "flight_of l i = add_mset tags es" by (meson multi_member_split)
  have "book_ok (lg_stop l) (add_mset [] es) k"
    using book_okI [OF ok b(1)] dead unfolding es book_ok_def
    by (auto simp: ac_simps elim!: subset_mset.order_trans [rotated])
  moreover have "(lg_book l)(i \<mapsto> k) = lg_book l" using b(1) by auto
  ultimately show ?thesis
    by (intro ledger_ok_update [OF ok, where i = i and k' = k])
      (auto simp: drop_tags_def b(1) flight_of_replace [OF b(2)] es dest: in_diffD)
qed

lemma opened_ok:
  assumes ok: "ledger_ok l" and n: "lg_book l i = None"
    and s: "mset submitted = mset refused + \<Sum>\<^sub># (image_mset mset (mset entries))"
  shows "ledger_ok (put_book i \<lparr>bk_submitted = submitted, bk_ready = refused, bk_taken = [],
        bk_pending = sum_list (map length entries), bk_live = length entries, bk_cancelled = False\<rparr>
      (l\<lparr>lg_flight := lg_flight l + image_mset (Pair i) (mset entries)\<rparr>))"
proof -
  have e: "flight_of l i = {#}" using ok n by (auto simp: ledger_ok_def intro: flight_of_other)
  have "book_ok stop (mset entries) \<lparr>bk_submitted = submitted, bk_ready = refused, bk_taken = [],
        bk_pending = sum_list (map length entries), bk_live = length entries, bk_cancelled = False\<rparr>" for stop
    by (simp add: book_ok_def s sum_mset_sum_list [symmetric] del: sum_mset_sum_list)
  with ok n e show ?thesis
    by (auto simp: ledger_ok_def flight_of_add split: if_splits)
qed

lemma ledger_step_ok: "ledger_ok l \<Longrightarrow> ledger_step l l' \<Longrightarrow> ledger_ok l'"
proof (erule ledger_stepE, goal_cases)
  case (1 i submitted refused entries)
  then show ?case using opened_ok by simp
next
  case (2 i k tag rest)
  then show ?case using deliver_tag_ok by simp
next
  case (3 i k)
  then show ?case using settle_ok by simp
next
  case (4 i k tags)
  then show ?case using drop_tags_ok by simp
next
  case (5 i k tag rest)
  then have "book_ok (lg_stop l) (flight_of l i) k" by (simp add: ledger_ok_def)
  with 5 have "book_ok (lg_stop l) (flight_of l i) (k\<lparr>bk_ready := rest, bk_taken := bk_taken k @ [tag]\<rparr>)"
    by (simp add: book_ok_def)
  with 5 show ?case by (intro ledger_ok_update [OF 5(1), where i = i]) auto
next
  case (6 i k)
  then have "book_ok (lg_stop l) (flight_of l i) (k\<lparr>bk_cancelled := True\<rparr>)" by (simp add: ledger_ok_def book_ok_def)
  with 6 show ?case by (intro ledger_ok_update [OF 6(1), where i = i]) auto
next
  case 7
  then show ?case by (auto simp: ledger_ok_def book_ok_def flight_of_def)
qed

lemma empty_ledger_ok: "empty_ledger l \<Longrightarrow> ledger_ok l"
  by (simp add: empty_ledger_def ledger_ok_def)

text \<open>A batch without a live transfer has nothing in flight, and that stays so.\<close>

lemma no_live_no_flight:
  "ledger_ok l \<Longrightarrow> lg_book l i = Some k \<Longrightarrow> bk_live k = 0 \<longleftrightarrow> flight_of l i = {#}"
  by (auto simp: ledger_ok_def book_ok_def)

lemma ledger_step_no_flight:
  assumes "ledger_step l l'" "lg_book l i \<noteq> None" "flight_of l i = {#}"
  shows "lg_book l' i \<noteq> None \<and> flight_of l' i = {#}"
  using assms
proof (cases rule: ledger_step.cases)
  case (delivered j k tag rest)
  with assms flight_of_remove(2) [OF delivered(3)] show ?thesis
    by (auto simp: deliver_tag_def flight_of_replace [OF delivered(3)])
next
  case (settled j k)
  with assms show ?thesis by (auto simp: settle_def flight_of_remove [OF settled(3)])
next
  case (dropped j k tags)
  with assms flight_of_remove(2) [OF dropped(3)] show ?thesis
    by (auto simp: drop_tags_def flight_of_replace [OF dropped(3)])
qed (auto simp: flight_of_add simp: flight_of_def put_book_def)

lemma ledger_steps_no_flight:
  "ledger_step\<^sup>*\<^sup>* l l' \<Longrightarrow> lg_book l i \<noteq> None \<Longrightarrow> flight_of l i = {#} \<Longrightarrow> flight_of l' i = {#}"
proof -
  assume "ledger_step\<^sup>*\<^sup>* l l'" "lg_book l i \<noteq> None" "flight_of l i = {#}"
  then have "lg_book l' i \<noteq> None \<and> flight_of l' i = {#}"
    by (induction rule: rtranclp_induct) (auto dest: ledger_step_no_flight)
  then show ?thesis by simp
qed

end
