(* ===== verification/Karu_Steps.thy ===== *)
theory Karu_Steps
  imports Karu_Local_File Karu_Ledger
begin

text \<open>
  The engine as a state machine, \<open>src/src/runtime/engine.cpp\<close>: its queues, the transfers its workers
  hold, its I/O loops and its batches. An operation is one critical section, or what one thread does between two
  of them. Finishing a transfer is several: each completion takes the mutex of the batch on its own, and so
  does the report that the transfer is finished, which comes last; \<open>en_endings\<close> has the threads that are
  in between. \<open>engine_step\<close> interleaves the operations in every order. It has the schedules of the threads and more: a thread with
  an ending under way may also begin other work. Operations answer \<^const>\<open>None\<close> when they are not enabled, or when they would follow a null
  pointer. \<open>en_submitted\<close> and \<open>en_taken\<close> are histories the code does not keep: the tags a batch was
  submitted with and those its caller has received.
\<close>

section \<open>State\<close>

record io_loop =
  lp_limit :: nat
  lp_pending :: "transfer list"
  lp_active :: "transfer list"
  lp_retries :: "(int \<times> transfer) list"
  lp_resolving :: "transfer list"
  lp_waiting :: "transfer list"
  lp_cancellation_pending :: bool

text \<open>
  A thread inside \<open>finish_transfer\<close> or \<open>discard_transfer\<close>: its transfer, the parts it has still to deliver, and the
  status and detail it delivers them with.
\<close>

record ending =
  eg_transfer :: transfer
  eg_parts :: "part list"
  eg_status :: karu_status
  eg_detail :: string

record engine =
  en_options :: client_options
  en_stop :: bool
  en_loops :: "io_loop list"
  en_submitting :: "transfer list"
  en_files :: "transfer list"
  en_credentials :: "transfer list"
  en_http :: "transfer list"
  en_file_held :: "transfer list"
  en_credential_held :: "transfer list"
  en_endings :: "ending list"
  en_batches :: "nat \<Rightarrow> batch_state option"
  en_memory :: memory
  en_submitted :: "nat \<Rightarrow> tag list"
  en_taken :: "nat \<Rightarrow> tag list"

definition kFileWorkers :: nat where
  "kFileWorkers = 4"

definition kCredentialWorkers :: nat where
  "kCredentialWorkers = 4"

definition new_loop :: "nat \<Rightarrow> io_loop" where
  "new_loop n = \<lparr>lp_limit = n, lp_pending = [], lp_active = [], lp_retries = [], lp_resolving = [],
     lp_waiting = [], lp_cancellation_pending = False\<rparr>"

definition new_engine :: "client_options \<Rightarrow> memory \<Rightarrow> engine" where
  "new_engine opt m = \<lparr>en_options = opt, en_stop = False,
     en_loops = map new_loop (loop_limits (concurrency opt) (io_threads opt)),
     en_submitting = [], en_files = [], en_credentials = [], en_http = [], en_file_held = [],
     en_credential_held = [], en_endings = [], en_batches = (\<lambda>_. None), en_memory = m, en_submitted = (\<lambda>_. []),
     en_taken = (\<lambda>_. [])\<rparr>"

section \<open>Finishing and discarding\<close>

definition put_batch :: "nat \<Rightarrow> batch_state \<Rightarrow> engine \<Rightarrow> engine" where
  "put_batch i b e = e\<lparr>en_batches := (en_batches e)(i \<mapsto> b)\<rparr>"

definition finish_in :: "transfer \<Rightarrow> karu_status \<Rightarrow> string \<Rightarrow> engine \<Rightarrow> engine option" where
  "finish_in t status detail e =
     (case en_batches e (t_batch t) of
        None \<Rightarrow> None
      | Some b \<Rightarrow> Some (put_batch (t_batch t) (add_counter bc_transfers_finished_update 1 b)
          (e\<lparr>en_endings := en_endings e @ [\<lparr>eg_transfer = t, eg_parts = t_parts t, eg_status = status, eg_detail = detail\<rparr>]\<rparr>)))"

definition discard_in :: "transfer \<Rightarrow> engine \<Rightarrow> engine option" where
  "discard_in t e = map_option (\<lambda>b. e\<lparr>en_endings := en_endings e @
     [\<lparr>eg_transfer = t, eg_parts = [], eg_status = KARU_OK, eg_detail = []\<rparr>]\<rparr>) (en_batches e (t_batch t))"

fun finish_all :: "transfer list \<Rightarrow> karu_status \<Rightarrow> string \<Rightarrow> engine \<Rightarrow> engine option" where
  "finish_all [] status detail e = Some e"
| "finish_all (t # ts) status detail e = Option.bind (finish_in t status detail e) (finish_all ts status detail)"

fun discard_all :: "transfer list \<Rightarrow> engine \<Rightarrow> engine option" where
  "discard_all [] e = Some e"
| "discard_all (t # ts) e = Option.bind (discard_in t e) (discard_all ts)"

text \<open>
  An ending goes on by one critical section of its batch: it delivers its next part, or, when none is left, reports that
  the transfer is finished.
\<close>

definition deliver_next :: "nat \<Rightarrow> engine \<Rightarrow> engine option" where
  "deliver_next j e =
     (if length (en_endings e) \<le> j then None
      else (let g = en_endings e ! j; t = eg_transfer g
            in case (eg_parts g, en_batches e (t_batch t)) of
                 (p # ps, Some b) \<Rightarrow>
                   (let c = part_completion t (eg_status g) (eg_detail g) p
                    in map_option (\<lambda>m. put_batch (t_batch t) (push b c)
                         (e\<lparr>en_memory := m, en_endings := (en_endings e)[j := g\<lparr>eg_parts := ps\<rparr>]\<rparr>))
                       (copy_from_scratch t p c (en_memory e)))
               | _ \<Rightarrow> None))"

definition end_transfer :: "nat \<Rightarrow> engine \<Rightarrow> engine option" where
  "end_transfer j e =
     (if length (en_endings e) \<le> j then None
      else (let g = en_endings e ! j; i = t_batch (eg_transfer g)
            in case (eg_parts g, en_batches e i) of
                 ([], Some b) \<Rightarrow> Some (put_batch i (transfer_finished b) (e\<lparr>en_endings := take j (en_endings e) @ drop (Suc j) (en_endings e)\<rparr>))
               | _ \<Rightarrow> None))"

definition batch_cancelled :: "engine \<Rightarrow> transfer \<Rightarrow> bool" where
  "batch_cancelled e t = (case en_batches e (t_batch t) of None \<Rightarrow> False | Some b \<Rightarrow> is_cancelled b)"

section \<open>Submitting\<close>

definition count_requested :: "transfer list \<Rightarrow> u64" where
  "count_requested ts = sum_list (map part_length (concat (map t_parts ts)))"

definition open_batch :: "int \<Rightarrow> transfer_plan \<Rightarrow> batch_state" where
  "open_batch pid plan =
     (let ts = plan_transfers_of plan; b = new_batch pid
      in foldl push (add_counter bc_requested_bytes_update (count_requested ts)
           (add_counter bc_transfers_update (of_nat (length ts))
             (b\<lparr>pending_parts := sum_list (map (length \<circ> t_parts) ts) + length (plan_immediate plan),
                live_transfers := length ts\<rparr>))) (plan_immediate plan))"

definition submit_plan :: "malloc \<Rightarrow> int \<Rightarrow> nat \<Rightarrow> client_options \<Rightarrow> request list \<Rightarrow> engine \<Rightarrow>
    (karu_status \<times> engine) option" where
  "submit_plan malloc pid i opt requests e =
     (if en_batches e i \<noteq> None then None
      else if requests = [] then Some (KARU_OK, put_batch i (new_batch pid) e)
      else (let plan = plan_transfers malloc i opt requests
            in if plan_status plan \<noteq> KARU_OK then Some (plan_status plan, put_batch i (new_batch pid) e)
               else Some (KARU_OK, put_batch i (open_batch pid plan)
                      (e\<lparr>en_submitting := en_submitting e @ plan_transfers_of plan,
                         en_submitted := (en_submitted e)(i := map rq_tag requests)\<rparr>))))"

text \<open>The two critical sections of \<open>submit\<close> that hand the transfers of its batch over.\<close>

definition is_file :: "transfer \<Rightarrow> bool" where
  "is_file t \<longleftrightarrow> res_backend (t_locator t) = File"

definition is_cloud :: "transfer \<Rightarrow> bool" where
  "is_cloud t \<longleftrightarrow> cloud_backend (res_backend (t_locator t))"

definition submit_queue :: "nat \<Rightarrow> engine \<Rightarrow> engine" where
  "submit_queue i e =
     (let mine = (\<lambda>t. t_batch t = i)
      in e\<lparr>en_files := en_files e @ filter (\<lambda>t. mine t \<and> is_file t) (en_submitting e),
           en_credentials := en_credentials e @ filter (\<lambda>t. mine t \<and> \<not> is_file t \<and> is_cloud t) (en_submitting e),
           en_submitting := filter (\<lambda>t. \<not> (mine t \<and> (is_file t \<or> is_cloud t))) (en_submitting e)\<rparr>)"

definition submit_http :: "nat \<Rightarrow> engine \<Rightarrow> engine" where
  "submit_http i e =
     e\<lparr>en_http := en_http e @ filter (\<lambda>t. t_batch t = i) (en_submitting e),
       en_submitting := filter (\<lambda>t. t_batch t \<noteq> i) (en_submitting e)\<rparr>"

section \<open>File and credential workers\<close>

definition without :: "nat \<Rightarrow> 'a list \<Rightarrow> 'a list" where
  "without j xs = take j xs @ drop (Suc j) xs"

definition file_take :: "engine \<Rightarrow> engine option" where
  "file_take e =
     (case en_files e of
        [] \<Rightarrow> None
      | t # ts \<Rightarrow>
          (if length (en_file_held e) < kFileWorkers
           then Some (e\<lparr>en_files := ts, en_file_held := en_file_held e @ [t]\<rparr>) else None))"

text \<open>
  The flags a worker reads while it holds a transfer only rise, so what it has seen at the end is at
  most what the batch says then.
\<close>

definition sees :: "engine \<Rightarrow> transfer \<Rightarrow> bool \<Rightarrow> bool" where
  "sees e t flag \<longleftrightarrow> (flag \<longrightarrow> batch_cancelled e t)"

definition file_finish :: "nat \<Rightarrow> file_env \<Rightarrow> engine \<Rightarrow> engine option" where
  "file_finish j env e =
     (if length (en_file_held e) \<le> j then None
      else (let t = en_file_held e ! j; e1 = e\<lparr>en_file_held := without j (en_file_held e)\<rparr>
            in if \<not> sees e t (fe_cancelled_before env) \<or> \<not> sees e t (fe_cancelled_after env) then None
               else case en_batches e (t_batch t) of
                      None \<Rightarrow> None
                    | Some b \<Rightarrow>
                        (case file_round env t (en_memory e) b of
                           None \<Rightarrow> None
                         | Some (File_Finished t' status detail m, b') \<Rightarrow>
                             finish_in t' status detail (put_batch (t_batch t) b' (e1\<lparr>en_memory := m\<rparr>))
                         | Some (File_Discarded t' m, b') \<Rightarrow>
                             discard_in t' (put_batch (t_batch t) b' (e1\<lparr>en_memory := m\<rparr>)))))"

definition queue_http :: "transfer \<Rightarrow> engine \<Rightarrow> engine option" where
  "queue_http t e = (if en_stop e then discard_in t e else Some (e\<lparr>en_http := en_http e @ [t]\<rparr>))"

definition credential_take :: "engine \<Rightarrow> engine option" where
  "credential_take e =
     (case en_credentials e of
        [] \<Rightarrow> None
      | t # ts \<Rightarrow>
          (if \<not> en_stop e \<and> length (en_credential_held e) < kCredentialWorkers
           then Some (e\<lparr>en_credentials := ts, en_credential_held := en_credential_held e @ [t]\<rparr>) else None))"

definition credential_finish :: "nat \<Rightarrow> credential_env \<Rightarrow> engine \<Rightarrow> engine option" where
  "credential_finish j env e =
     (if length (en_credential_held e) \<le> j then None
      else (let t = en_credential_held e ! j; e1 = e\<lparr>en_credential_held := without j (en_credential_held e)\<rparr>
            in if \<not> sees e t (ce_cancelled_before env) \<or> \<not> sees e t (ce_cancelled_after env) then None
               else case credential_round env (en_options e) t of
                      Cred_Finished t' status detail \<Rightarrow> finish_in t' status detail e1
                    | Cred_Discarded \<Rightarrow> discard_in t e1
                    | Cred_Ready t' \<Rightarrow> queue_http t' e1))"

section \<open>The I/O loops\<close>

definition set_loop :: "nat \<Rightarrow> io_loop \<Rightarrow> engine \<Rightarrow> engine" where
  "set_loop i lp e = e\<lparr>en_loops := (en_loops e)[i := lp]\<rparr>"

definition with_loop :: "nat \<Rightarrow> (io_loop \<Rightarrow> engine \<Rightarrow> engine option) \<Rightarrow> engine \<Rightarrow> engine option" where
  "with_loop i f e = (if i < length (en_loops e) then f (en_loops e ! i) e else None)"

definition take_http :: "nat \<Rightarrow> engine \<Rightarrow> engine option" where
  "take_http i = with_loop i (\<lambda>lp e.
     let n = lp_limit lp - (length (lp_active lp) + length (lp_pending lp) + length (lp_resolving lp))
     in Some (set_loop i (lp\<lparr>lp_pending := lp_pending lp @ take n (en_http e)\<rparr>) (e\<lparr>en_http := drop n (en_http e)\<rparr>)))"

definition discard_cancelled_http :: "nat \<Rightarrow> engine \<Rightarrow> engine option" where
  "discard_cancelled_http i = with_loop i (\<lambda>lp e.
     let dead = batch_cancelled e; alive = (\<lambda>t. \<not> dead t)
     in if \<not> lp_cancellation_pending lp then None
        else discard_all (filter dead (lp_pending lp) @ filter dead (lp_resolving lp) @
               filter dead (map snd (lp_retries lp)) @ filter dead (lp_active lp))
               (set_loop i (lp\<lparr>lp_pending := filter alive (lp_pending lp), lp_resolving := filter alive (lp_resolving lp),
                  lp_retries := filter (alive \<circ> snd) (lp_retries lp), lp_active := filter alive (lp_active lp),
                  lp_cancellation_pending := False\<rparr>) e))"

definition retries_due :: "nat \<Rightarrow> int \<Rightarrow> engine \<Rightarrow> engine option" where
  "retries_due i now = with_loop i (\<lambda>lp e.
     Some (set_loop i (lp\<lparr>lp_pending := lp_pending lp @ map snd (filter (\<lambda>r. fst r \<le> now) (lp_retries lp)),
             lp_retries := filter (\<lambda>r. now < fst r) (lp_retries lp)\<rparr>) e))"

text \<open>Where \<open>start_transfer\<close> puts its transfer.\<close>

definition place :: "nat \<Rightarrow> io_loop \<Rightarrow> start_outcome \<Rightarrow> engine \<Rightarrow> engine option" where
  "place i lp out e =
     (case out of
        Finished t status detail \<Rightarrow> finish_in t status detail (set_loop i lp e)
      | Waiting t \<Rightarrow> Some (set_loop i (lp\<lparr>lp_resolving := lp_resolving lp @ [t]\<rparr>) e)
      | Active t \<Rightarrow> Some (set_loop i (lp\<lparr>lp_active := lp_active lp @ [t]\<rparr>) e))"

definition start_in :: "nat \<Rightarrow> io_loop \<Rightarrow> start_env \<Rightarrow> bool \<Rightarrow> transfer \<Rightarrow> engine \<Rightarrow> engine option" where
  "start_in i lp env prepared t e =
     (case en_batches e (t_batch t) of
        None \<Rightarrow> None
      | Some b \<Rightarrow>
          (if is_cancelled b then discard_in t (set_loop i lp e)
           else place i lp (start_transfer env (en_options e) b prepared t) e))"

definition swap_resolving :: "nat \<Rightarrow> engine \<Rightarrow> engine option" where
  "swap_resolving i = with_loop i (\<lambda>lp e.
     if lp_waiting lp = [] then Some (set_loop i (lp\<lparr>lp_waiting := lp_resolving lp, lp_resolving := []\<rparr>) e) else None)"

definition resume_waiting :: "nat \<Rightarrow> start_env \<Rightarrow> engine \<Rightarrow> engine option" where
  "resume_waiting i env = with_loop i (\<lambda>lp e.
     case lp_waiting lp of
       [] \<Rightarrow> None
     | t # ts \<Rightarrow> start_in i (lp\<lparr>lp_waiting := ts\<rparr>) env True t e)"

definition start_pending :: "nat \<Rightarrow> start_env \<Rightarrow> engine \<Rightarrow> engine option" where
  "start_pending i env = with_loop i (\<lambda>lp e.
     if lp_waiting lp = [] \<and> length (lp_active lp) + length (lp_resolving lp) < lp_limit lp
     then (case lp_pending lp of
             [] \<Rightarrow> None
           | t # ts \<Rightarrow> start_in i (lp\<lparr>lp_pending := ts\<rparr>) env False t e)
     else None)"

definition perform_failed :: "nat \<Rightarrow> string \<Rightarrow> engine \<Rightarrow> engine option" where
  "perform_failed i strerror = with_loop i (\<lambda>lp e.
     finish_all (lp_active lp) KARU_ERR_NETWORK (''curl_multi_perform: '' @ strerror)
       (set_loop i (lp\<lparr>lp_active := []\<rparr>) e))"

text \<open>libcurl calls the callbacks of an active transfer.\<close>

definition loop_header :: "nat \<Rightarrow> nat \<Rightarrow> header_env \<Rightarrow> byte list \<Rightarrow> u64 \<Rightarrow> u64 \<Rightarrow> engine \<Rightarrow> engine option" where
  "loop_header i j env data sz cnt = with_loop i (\<lambda>lp e.
     if j < length (lp_active lp)
     then Some (set_loop i (lp\<lparr>lp_active := (lp_active lp)[j := snd (header_callback env data sz cnt (lp_active lp ! j))]\<rparr>) e)
     else None)"

definition loop_body :: "nat \<Rightarrow> nat \<Rightarrow> curl_info \<Rightarrow> byte list \<Rightarrow> u64 \<Rightarrow> u64 \<Rightarrow> engine \<Rightarrow> engine option" where
  "loop_body i j info data sz cnt = with_loop i (\<lambda>lp e.
     if length (lp_active lp) \<le> j then None
     else (let t = lp_active lp ! j
           in case en_batches e (t_batch t) of
                None \<Rightarrow> None
              | Some b \<Rightarrow>
                  (case write_callback info data sz cnt \<lparr>w_transfer = t, w_memory = en_memory e,
                          w_received_bytes = bc_received_bytes (counters b)\<rparr> of
                     None \<Rightarrow> None
                   | Some (n, w) \<Rightarrow>
                       Some (put_batch (t_batch t) (b\<lparr>counters := (counters b)\<lparr>bc_received_bytes := w_received_bytes w\<rparr>\<rparr>)
                         (set_loop i (lp\<lparr>lp_active := (lp_active lp)[j := w_transfer w]\<rparr>)
                           (e\<lparr>en_memory := w_memory w\<rparr>))))))"

definition loop_message :: "nat \<Rightarrow> nat \<Rightarrow> done_env \<Rightarrow> curl_code \<Rightarrow> engine \<Rightarrow> engine option" where
  "loop_message i j env code = with_loop i (\<lambda>lp e.
     if length (lp_active lp) \<le> j then None
     else (let t = lp_active lp ! j; lp1 = lp\<lparr>lp_active := without j (lp_active lp)\<rparr>
           in case en_batches e (t_batch t) of
                None \<Rightarrow> None
              | Some b \<Rightarrow>
                  (case handle_done env (en_options e) code t b of
                     (out, b') \<Rightarrow>
                       (let e1 = put_batch (t_batch t) b' e
                        in case out of
                             Done t' status detail \<Rightarrow> finish_in t' status detail (set_loop i lp1 e1)
                           | Again_now t' \<Rightarrow> Some (set_loop i (lp1\<lparr>lp_pending := t' # lp_pending lp1\<rparr>) e1)
                           | Again_credentials t' \<Rightarrow>
                               Some (set_loop i lp1 (e1\<lparr>en_credentials := t' # en_credentials e1\<rparr>))
                           | Again_later due t' \<Rightarrow>
                               Some (set_loop i (lp1\<lparr>lp_retries := lp_retries lp1 @ [(due, t')]\<rparr>) e1)))))"

definition loop_shutdown :: "nat \<Rightarrow> engine \<Rightarrow> engine option" where
  "loop_shutdown i = with_loop i (\<lambda>lp e.
     if \<not> en_stop e \<or> lp_waiting lp \<noteq> [] then None
     else discard_all (lp_active lp @ lp_pending lp @ lp_resolving lp @ map snd (lp_retries lp))
            (set_loop i (lp\<lparr>lp_active := [], lp_pending := [], lp_resolving := [], lp_retries := []\<rparr>) e))"

section \<open>Cancelling, taking and stopping\<close>

definition mark_cancelled :: "nat \<Rightarrow> engine \<Rightarrow> engine option" where
  "mark_cancelled i e = map_option (\<lambda>b. put_batch i (b\<lparr>cancelled := True\<rparr>) e) (en_batches e i)"

definition cancel_queues :: "nat \<Rightarrow> engine \<Rightarrow> engine option" where
  "cancel_queues i e =
     (let mine = (\<lambda>t. t_batch t = i)
      in case en_batches e i of
           None \<Rightarrow> None
         | Some b \<Rightarrow>
             (if \<not> cancelled b then None
              else discard_all (filter mine (en_files e) @ filter mine (en_credentials e))
                (e\<lparr>en_files := filter (\<lambda>t. \<not> mine t) (en_files e),
                   en_credentials := filter (\<lambda>t. \<not> mine t) (en_credentials e)\<rparr>)))"

definition cancel_http :: "nat \<Rightarrow> engine \<Rightarrow> engine option" where
  "cancel_http i e =
     (case en_batches e i of
        None \<Rightarrow> None
      | Some b \<Rightarrow>
          (if \<not> cancelled b then None
           else discard_all (filter (\<lambda>t. t_batch t = i) (en_http e))
             (e\<lparr>en_http := filter (\<lambda>t. t_batch t \<noteq> i) (en_http e)\<rparr>)))"

definition cancel_loops :: "engine \<Rightarrow> engine" where
  "cancel_loops e = e\<lparr>en_loops := map (\<lambda>lp. lp\<lparr>lp_cancellation_pending := True\<rparr>) (en_loops e)\<rparr>"

text \<open>The condition \<open>cancel\<close> waits for before it returns to the caller.\<close>

definition cancel_returns :: "nat \<Rightarrow> engine \<Rightarrow> bool" where
  "cancel_returns i e = (case en_batches e i of None \<Rightarrow> False | Some b \<Rightarrow> cancelled b \<and> live_transfers b = 0)"

definition next_in :: "nat \<Rightarrow> int \<Rightarrow> engine \<Rightarrow> (karu_status \<times> engine) option" where
  "next_in i timeout_ms e =
     (case en_batches e i of
        None \<Rightarrow> None
      | Some b \<Rightarrow>
          (case batch_next b timeout_ms of
             None \<Rightarrow> None
           | Some (status, got, b') \<Rightarrow>
               Some (status, put_batch i b' (case got of
                       None \<Rightarrow> e
                     | Some c \<Rightarrow> e\<lparr>en_taken := (en_taken e)(i := en_taken e i @ [cp_tag c])\<rparr>))))"

definition stop_engine :: "engine \<Rightarrow> engine" where
  "stop_engine e = e\<lparr>en_stop := True\<rparr>"

definition destroy_queues :: "engine \<Rightarrow> engine option" where
  "destroy_queues e =
     (if \<not> en_stop e then None
      else discard_all (en_http e @ en_files e @ en_credentials e)
             (e\<lparr>en_http := [], en_files := [], en_credentials := []\<rparr>))"

section \<open>The step relation\<close>

inductive engine_step :: "engine \<Rightarrow> engine \<Rightarrow> bool" where
  s_submit: "usable_options opt \<Longrightarrow> \<forall>r \<in> set requests. rq_length r \<noteq> 0 \<Longrightarrow>
    submit_plan malloc pid i opt requests e = Some (status, e') \<Longrightarrow> engine_step e e'"
| s_queue: "engine_step e (submit_queue i e)"
| s_http: "engine_step e (submit_http i e)"
| s_file_take: "file_take e = Some e' \<Longrightarrow> engine_step e e'"
| s_file_finish: "file_finish j fenv e = Some e' \<Longrightarrow> engine_step e e'"
| s_credential_take: "credential_take e = Some e' \<Longrightarrow> engine_step e e'"
| s_credential_finish: "credential_finish j cenv e = Some e' \<Longrightarrow> engine_step e e'"
| s_take_http: "take_http i e = Some e' \<Longrightarrow> engine_step e e'"
| s_discard: "discard_cancelled_http i e = Some e' \<Longrightarrow> engine_step e e'"
| s_retries: "retries_due i now e = Some e' \<Longrightarrow> engine_step e e'"
| s_swap: "swap_resolving i e = Some e' \<Longrightarrow> engine_step e e'"
| s_resume: "resume_waiting i senv e = Some e' \<Longrightarrow> engine_step e e'"
| s_start: "start_pending i senv e = Some e' \<Longrightarrow> engine_step e e'"
| s_failed: "perform_failed i msg e = Some e' \<Longrightarrow> engine_step e e'"
| s_header: "loop_header i j henv data sz cnt e = Some e' \<Longrightarrow> engine_step e e'"
| s_body: "loop_body i j info data sz cnt e = Some e' \<Longrightarrow> engine_step e e'"
| s_message: "loop_message i j denv code e = Some e' \<Longrightarrow> engine_step e e'"
| s_shutdown: "loop_shutdown i e = Some e' \<Longrightarrow> engine_step e e'"
| s_mark: "mark_cancelled i e = Some e' \<Longrightarrow> engine_step e e'"
| s_cancel_queues: "cancel_queues i e = Some e' \<Longrightarrow> engine_step e e'"
| s_cancel_http: "cancel_http i e = Some e' \<Longrightarrow> engine_step e e'"
| s_cancel_loops: "engine_step e (cancel_loops e)"
| s_next: "next_in i timeout_ms e = Some (status, e') \<Longrightarrow> engine_step e e'"
| s_stop: "engine_step e (stop_engine e)"
| s_destroy: "destroy_queues e = Some e' \<Longrightarrow> engine_step e e'"
| s_deliver: "deliver_next j e = Some e' \<Longrightarrow> engine_step e e'"
| s_end: "end_transfer j e = Some e' \<Longrightarrow> engine_step e e'"

section \<open>The engine as a ledger\<close>

definition entry :: "transfer \<Rightarrow> nat \<times> tag list" where
  "entry t = (t_batch t, map part_tag (t_parts t))"

lemma fixed_entry: "fixed t' = fixed t \<Longrightarrow> entry t' = entry t"
  by (simp add: fixed_def entry_def)

definition loop_transfers :: "io_loop \<Rightarrow> transfer list" where
  "loop_transfers lp = lp_pending lp @ lp_active lp @ map snd (lp_retries lp) @ lp_resolving lp @ lp_waiting lp"

definition ending_rest :: "ending \<Rightarrow> transfer" where
  "ending_rest g = (eg_transfer g)\<lparr>t_parts := eg_parts g\<rparr>"

definition in_flight :: "engine \<Rightarrow> transfer list" where
  "in_flight e = en_submitting e @ en_files e @ en_credentials e @ en_http e @ en_file_held e @
     en_credential_held e @ concat (map loop_transfers (en_loops e)) @ map ending_rest (en_endings e)"

definition entries :: "transfer list \<Rightarrow> (nat \<times> tag list) multiset" where
  "entries ts = mset (map entry ts)"

lemma entries_simps [simp]:
  "entries [] = {#}" "entries (t # ts) = add_mset (entry t) (entries ts)" "entries (xs @ ys) = entries xs + entries ys"
  by (simp_all add: entries_def)

definition book_of :: "tag list \<Rightarrow> tag list \<Rightarrow> batch_state \<Rightarrow> book" where
  "book_of submitted taken b = \<lparr>bk_submitted = submitted, bk_ready = map cp_tag (ready b), bk_taken = taken,
     bk_pending = pending_parts b, bk_live = live_transfers b, bk_cancelled = cancelled b\<rparr>"

definition abs_engine :: "engine \<Rightarrow> ledger" where
  "abs_engine e = \<lparr>lg_stop = en_stop e, lg_flight = entries (in_flight e),
     lg_book = (\<lambda>i. map_option (book_of (en_submitted e i) (en_taken e i)) (en_batches e i))\<rparr>"

text \<open>Two engines with the same flight, books and stop flag have the same ledger.\<close>

definition same_book :: "batch_state \<Rightarrow> batch_state \<Rightarrow> bool" where
  "same_book b b' \<longleftrightarrow> ready b' = ready b \<and> pending_parts b' = pending_parts b \<and>
     live_transfers b' = live_transfers b \<and> cancelled b' = cancelled b"

lemma same_book_of: "same_book b b' \<Longrightarrow> book_of s t b' = book_of s t b"
  by (simp add: same_book_def book_of_def)

lemma same_book_simps [simp]: "same_book b b" "same_book b (add_counter u n b)" "same_book b (b\<lparr>counters := c\<rparr>)"
  "same_book b (remember_region b r x)"
  by (simp_all add: same_book_def remember_region_def)

lemma same_book_trans: "same_book a b \<Longrightarrow> same_book b c \<Longrightarrow> same_book a c"
  by (simp add: same_book_def)

text \<open>The lists and flags that \<open>finish_in\<close> and \<open>discard_in\<close> leave alone.\<close>

definition same_queues :: "engine \<Rightarrow> engine \<Rightarrow> bool" where
  "same_queues e e' \<longleftrightarrow> en_stop e' = en_stop e \<and> en_loops e' = en_loops e \<and>
     en_file_held e' = en_file_held e \<and> en_credential_held e' = en_credential_held e \<and>
     en_options e' = en_options e \<and> en_submitted e' = en_submitted e \<and> en_taken e' = en_taken e"

lemma same_queues_refl [simp]: "same_queues e e"
  by (simp add: same_queues_def)

lemma same_queues_trans: "same_queues a b \<Longrightarrow> same_queues b c \<Longrightarrow> same_queues a c"
  by (simp add: same_queues_def)

lemma same_queues_put [simp]: "same_queues e (put_batch i b e)" "same_queues e (e\<lparr>en_memory := m\<rparr>)"
  "same_queues e (put_batch i b (e\<lparr>en_memory := m\<rparr>))"
  by (simp_all add: same_queues_def put_batch_def)

lemma en_batches_put [simp]: "en_batches (put_batch i b e) = (en_batches e)(i \<mapsto> b)"
  by (simp add: put_batch_def)

lemma finish_in_Some:
  assumes "finish_in t status detail e = Some e'"
  obtains b where "en_batches e (t_batch t) = Some b"
    "e' = put_batch (t_batch t) (add_counter bc_transfers_finished_update 1 b) (e\<lparr>en_endings := en_endings e @
      [\<lparr>eg_transfer = t, eg_parts = t_parts t, eg_status = status, eg_detail = detail\<rparr>]\<rparr>)"
  using assms unfolding finish_in_def by (auto split: option.splits)

lemma discard_in_Some:
  assumes "discard_in t e = Some e'"
  obtains b where "en_batches e (t_batch t) = Some b"
    "e' = e\<lparr>en_endings := en_endings e @ [\<lparr>eg_transfer = t, eg_parts = [], eg_status = KARU_OK, eg_detail = []\<rparr>]\<rparr>"
  using assms unfolding discard_in_def by auto

lemma finish_in_queues: "finish_in t status detail e = Some e' \<Longrightarrow> same_queues e e'"
  by (erule finish_in_Some) (simp add: same_queues_def put_batch_def)

lemma discard_in_queues: "discard_in t e = Some e' \<Longrightarrow> same_queues e e'"
  by (erule discard_in_Some) (simp add: same_queues_def)

lemma finish_all_queues: "finish_all ts status detail e = Some e' \<Longrightarrow> same_queues e e'"
  by (induction ts arbitrary: e) (auto simp: bind_eq_Some_conv dest: finish_in_queues intro: same_queues_trans)

lemma discard_all_queues: "discard_all ts e = Some e' \<Longrightarrow> same_queues e e'"
  by (induction ts arbitrary: e) (auto simp: bind_eq_Some_conv dest: discard_in_queues intro: same_queues_trans)

text \<open>
  An operation removes transfers from the lists first and then finishes or discards them: \<open>outside e ts l\<close>
  is the ledger \<open>l\<close> in which the transfers \<open>ts\<close> are still in flight.
\<close>

definition outside :: "engine \<Rightarrow> transfer list \<Rightarrow> ledger" where
  "outside e ts = (abs_engine e)\<lparr>lg_flight := entries (in_flight e) + entries ts\<rparr>"

lemma outside_Nil [simp]: "outside e [] = abs_engine e"
  by (simp add: outside_def abs_engine_def)

lemma lg_book_abs: "lg_book (abs_engine e) i = map_option (book_of (en_submitted e i) (en_taken e i)) (en_batches e i)"
  by (simp add: abs_engine_def)

lemma outside_cong:
  assumes "entries (in_flight e) + entries ts = entries (in_flight e') + entries ts'"
    "en_stop e' = en_stop e" "en_submitted e' = en_submitted e" "en_taken e' = en_taken e"
    "\<And>i. map_option (book_of (en_submitted e i) (en_taken e i)) (en_batches e' i) =
       map_option (book_of (en_submitted e i) (en_taken e i)) (en_batches e i)"
  shows "outside e ts = outside e' ts'"
  using assms by (simp add: outside_def abs_engine_def fun_eq_iff)

lemma discard_in_drops:
  assumes "discard_in t e = Some e'" and "en_stop e \<or> batch_cancelled e t"
  shows "ledger_step (outside e (t # ts)) (outside e' ts)"
proof -
  obtain b where f: "en_batches e (t_batch t) = Some b"
    "e' = e\<lparr>en_endings := en_endings e @ [\<lparr>eg_transfer = t, eg_parts = [], eg_status = KARU_OK, eg_detail = []\<rparr>]\<rparr>"
    using discard_in_Some [OF assms(1)] .
  let ?i = "t_batch t" and ?tags = "map part_tag (t_parts t)"
  have "outside e' ts = drop_tags ?i ?tags (outside e (t # ts))"
    by (simp add: f(2) outside_def drop_tags_def abs_engine_def in_flight_def entry_def ending_rest_def)
  moreover have "ledger_step (outside e (t # ts)) (drop_tags ?i ?tags (outside e (t # ts)))"
    using f(1) assms(2)
    by (intro ledger_step.dropped) (auto simp: outside_def abs_engine_def entry_def book_of_def batch_cancelled_def is_cancelled_def)
  ultimately show ?thesis by simp
qed

lemma batch_cancelled_kept:
  "discard_in t e = Some e' \<Longrightarrow> batch_cancelled e' u = batch_cancelled e u"
  by (erule discard_in_Some) (auto simp: batch_cancelled_def is_cancelled_def)

lemma discard_all_drops:
  "discard_all ts e = Some e' \<Longrightarrow> en_stop e \<or> (\<forall>t \<in> set ts. batch_cancelled e t) \<Longrightarrow>
     ledger_step\<^sup>*\<^sup>* (outside e (ts @ us)) (outside e' us)"
proof (induction ts arbitrary: e)
  case Nil
  then show ?case by simp
next
  case (Cons t ts)
  from Cons.prems(1) obtain e1 where e1: "discard_in t e = Some e1" "discard_all ts e1 = Some e'"
    by (auto simp: bind_eq_Some_conv)
  have "en_stop e1 = en_stop e" using discard_in_queues [OF e1(1)] by (simp add: same_queues_def)
  with Cons.prems(2) have "ledger_step\<^sup>*\<^sup>* (outside e1 (ts @ us)) (outside e' us)"
    by (intro Cons.IH [OF e1(2)]) (auto simp: batch_cancelled_kept [OF e1(1)])
  moreover have "ledger_step (outside e (t # ts @ us)) (outside e1 (ts @ us))"
    using Cons.prems(2) by (intro discard_in_drops [OF e1(1)]) auto
  ultimately show ?case by simp
qed

section \<open>What an operation does to the flight\<close>

definition key :: "transfer \<Rightarrow> nat \<times> part list" where
  "key t = (t_batch t, t_parts t)"

definition keys :: "transfer list \<Rightarrow> (nat \<times> part list) multiset" where
  "keys ts = mset (map key ts)"

lemma keys_simps [simp]:
  "keys [] = {#}" "keys (t # ts) = add_mset (key t) (keys ts)" "keys (xs @ ys) = keys xs + keys ys"
  "keys (rev xs) = keys xs"
  by (simp_all add: keys_def)

lemma keys_filter: "keys (filter P xs) + keys (filter (\<lambda>x. \<not> P x) xs) = keys xs"
  by (induction xs) auto

lemma keys_take_drop: "keys (take n xs) + keys (drop n xs) = keys xs"
  by (metis append_take_drop_id keys_simps(3))

lemma keys_without: "j < length xs \<Longrightarrow> add_mset (key (xs ! j)) (keys (without j xs)) = keys xs"
proof -
  assume "j < length xs"
  then have "keys xs = keys (take j xs @ xs ! j # drop (Suc j) xs)" by (simp add: id_take_nth_drop [symmetric])
  then show ?thesis by (simp add: without_def)
qed

lemma keys_update: "j < length xs \<Longrightarrow> key x = key (xs ! j) \<Longrightarrow> keys (xs[j := x]) = keys xs"
  by (metis keys_def length_map list_update_id map_update nth_map)

lemma keys_entries: "entries ts = image_mset (\<lambda>(i, ps). (i, map part_tag ps)) (keys ts)"
  by (induction ts) (simp_all add: entry_def key_def)

lemma fixed_key: "fixed t' = fixed t \<Longrightarrow> key t' = key t"
  by (simp add: fixed_def key_def)

lemma framed_key: "framed t t' \<Longrightarrow> key t' = key t"
  by (rule fixed_key) (simp add: framed_def)

definition books_same :: "engine \<Rightarrow> engine \<Rightarrow> bool" where
  "books_same e e' \<longleftrightarrow> en_stop e' = en_stop e \<and> en_submitted e' = en_submitted e \<and> en_taken e' = en_taken e \<and>
     (\<forall>i. rel_option same_book (en_batches e i) (en_batches e' i))"

text \<open>\<open>hands e e' ts\<close>: the operation took the transfers \<open>ts\<close> out of the lists and kept every book.\<close>

definition hands :: "engine \<Rightarrow> engine \<Rightarrow> transfer list \<Rightarrow> bool" where
  "hands e e' ts \<longleftrightarrow> books_same e e' \<and> keys (in_flight e) = keys (in_flight e') + keys ts"

lemma rel_option_book: "rel_option same_book x y \<Longrightarrow> map_option (book_of s t) y = map_option (book_of s t) x"
  by (cases x; cases y) (auto simp: same_book_of)

lemma hands_outside: "hands e e' ts \<Longrightarrow> outside e' ts = abs_engine e"
  by (auto simp: hands_def books_same_def outside_def abs_engine_def keys_entries rel_option_book fun_eq_iff)

lemma outside_keys: "keys ts' = keys ts \<Longrightarrow> outside e ts' = outside e ts"
  by (simp add: outside_def keys_entries)

subsection \<open>Taking transfers out of the lists\<close>

lemma books_same_refl [simp]: "books_same e e"
  by (simp add: books_same_def option.rel_refl)

lemma books_same_trans: "books_same a b \<Longrightarrow> books_same b c \<Longrightarrow> books_same a c"
proof -
  assume ab: "books_same a b" and bc: "books_same b c"
  have "rel_option same_book x z" if "rel_option same_book x y" "rel_option same_book y z" for x y z
    using that by (cases x; cases y; cases z) (auto intro: same_book_trans)
  moreover have "rel_option same_book (en_batches a i) (en_batches b i)" "rel_option same_book (en_batches b i) (en_batches c i)" for i
    using ab bc by (simp_all add: books_same_def)
  ultimately have "rel_option same_book (en_batches a i) (en_batches c i)" for i by blast
  with ab bc show ?thesis by (simp add: books_same_def)
qed

lemma books_same_lists [simp]:
  "books_same e (e\<lparr>en_submitting := a\<rparr>)" "books_same e (e\<lparr>en_files := a\<rparr>)" "books_same e (e\<lparr>en_credentials := a\<rparr>)"
  "books_same e (e\<lparr>en_http := a\<rparr>)" "books_same e (e\<lparr>en_file_held := a\<rparr>)" "books_same e (e\<lparr>en_credential_held := a\<rparr>)"
  "books_same e (set_loop i lp e)" "books_same e (e\<lparr>en_loops := ls\<rparr>)" "books_same e (e\<lparr>en_memory := m\<rparr>)"
  by (simp_all add: books_same_def option.rel_refl set_loop_def)

lemma books_same_put: "en_batches e i = Some b \<Longrightarrow> same_book b b' \<Longrightarrow> books_same e (put_batch i b' e)"
  by (simp add: books_same_def put_batch_def option.rel_refl)

lemma hands_trans: "hands a b xs \<Longrightarrow> hands b c ys \<Longrightarrow> hands a c (xs @ ys)"
  by (auto simp: hands_def intro: books_same_trans)

lemma hands_refl [simp]: "hands e e []"
  by (simp add: hands_def)

lemma hands_keys: "hands e e' ts \<Longrightarrow> keys ts' = keys ts \<Longrightarrow> hands e e' ts'"
  by (simp add: hands_def)

text \<open>Transfers an operation hands out and finishes are in flight again: their endings have all their parts.\<close>

lemma finish_in_hands:
  assumes "hands e e1 (t # ts)" "key t' = key t" "finish_in t' status detail e1 = Some e'"
  shows "hands e e' ts"
proof -
  obtain b where f: "en_batches e1 (t_batch t') = Some b"
    "e' = put_batch (t_batch t') (add_counter bc_transfers_finished_update 1 b) (e1\<lparr>en_endings := en_endings e1 @
      [\<lparr>eg_transfer = t', eg_parts = t_parts t', eg_status = status, eg_detail = detail\<rparr>]\<rparr>)"
    using finish_in_Some [OF assms(3)] .
  have "books_same e1 e'" using f by (simp add: books_same_def put_batch_def option.rel_refl)
  then have "books_same e e'" using assms(1) books_same_trans by (auto simp: hands_def)
  moreover have "key (ending_rest \<lparr>eg_transfer = t', eg_parts = t_parts t', eg_status = status, eg_detail = detail\<rparr>) = key t"
    using assms(2) by (simp add: ending_rest_def key_def)
  then have "keys (in_flight e') = add_mset (key t) (keys (in_flight e1))"
    by (simp add: f(2) in_flight_def put_batch_def)
  ultimately show ?thesis using assms(1) by (simp add: hands_def)
qed

lemma finish_all_hands: "finish_all ts status detail e1 = Some e' \<Longrightarrow> hands e e1 (ts @ us) \<Longrightarrow> hands e e' us"
proof (induction ts arbitrary: e1)
  case (Cons t ts)
  then obtain e2 where e2: "finish_in t status detail e1 = Some e2" "finish_all ts status detail e2 = Some e'"
    by (auto simp: bind_eq_Some_conv)
  have "hands e e2 (ts @ us)" using Cons.prems(2) by (intro finish_in_hands [OF _ refl e2(1)]) simp
  with Cons.IH [OF e2(2)] show ?case .
qed simp

inductive effect :: "engine \<Rightarrow> engine \<Rightarrow> bool" where
  moved: "hands e e' [] \<Longrightarrow> effect e e'"
| discarded: "hands e e1 ts \<Longrightarrow> en_stop e1 \<or> (\<forall>t \<in> set ts. batch_cancelled e1 t) \<Longrightarrow>
    discard_all ts e1 = Some e' \<Longrightarrow> effect e e'"

lemma effect_simulated: "effect e e' \<Longrightarrow> ledger_step\<^sup>*\<^sup>* (abs_engine e) (abs_engine e')"
proof (induction rule: effect.induct)
  case (moved e e')
  from hands_outside [OF this] show ?case by simp
next
  case (discarded e e1 ts e')
  from hands_outside [OF discarded(1)] discard_all_drops [OF discarded(3,2), of "[]"] show ?case by simp
qed

text \<open>No operation but a submission brings parts into the flight.\<close>

definition flight_parts :: "engine \<Rightarrow> part set" where
  "flight_parts e = (\<Union>k \<in> set_mset (keys (in_flight e)). set (snd k))"

lemma discard_all_parts: "discard_all ts e = Some e' \<Longrightarrow> flight_parts e' = flight_parts e"
proof (induction ts arbitrary: e)
  case (Cons t ts)
  then obtain e1 where e1: "discard_in t e = Some e1" "discard_all ts e1 = Some e'" by (auto simp: bind_eq_Some_conv)
  have "flight_parts e1 = flight_parts e"
    by (rule discard_in_Some [OF e1(1)]) (simp add: flight_parts_def in_flight_def key_def ending_rest_def)
  with Cons.IH [OF e1(2)] show ?case by simp
qed simp

lemma effect_parts: "effect e e' \<Longrightarrow> flight_parts e' \<subseteq> flight_parts e"
  by (induction rule: effect.induct) (auto simp: hands_def flight_parts_def dest!: discard_all_parts [unfolded flight_parts_def])

lemma finished1: "hands e e1 [t] \<Longrightarrow> key t' = key t \<Longrightarrow> finish_in t' status detail e1 = Some e' \<Longrightarrow> effect e e'"
  by (rule effect.moved) (rule finish_in_hands)

lemma finished_all: "hands e e1 ts \<Longrightarrow> finish_all ts status detail e1 = Some e' \<Longrightarrow> effect e e'"
  by (rule effect.moved) (auto intro: finish_all_hands [where us = "[]"])

lemma discarded1:
  "hands e e1 [t] \<Longrightarrow> key t' = key t \<Longrightarrow> en_stop e1 \<or> batch_cancelled e1 t \<Longrightarrow> discard_in t' e1 = Some e' \<Longrightarrow> effect e e'"
  by (rule effect.discarded [where ts = "[t']"]) (auto simp: hands_def bind_eq_Some_conv batch_cancelled_def key_def)

lemma hands_put: "en_batches e i = Some b \<Longrightarrow> same_book b b' \<Longrightarrow> hands e (put_batch i b' e) []"
  by (simp add: hands_def books_same_put) (simp add: in_flight_def put_batch_def)

lemma hands_memory: "hands e (e\<lparr>en_memory := m\<rparr>) []"
  by (simp add: hands_def in_flight_def)

lemma in_flight_set_loop:
  assumes "i < length (en_loops e)"
  shows "keys (in_flight (set_loop i lp e)) + keys (loop_transfers (en_loops e ! i)) =
    keys (in_flight e) + keys (loop_transfers lp)"
proof -
  have c: "keys (concat (map loop_transfers (xs[i := lp]))) + keys (loop_transfers (xs ! i)) =
      keys (concat (map loop_transfers xs)) + keys (loop_transfers lp)" if "i < length xs" for xs
  proof -
    have "keys (concat (map loop_transfers xs)) = keys (concat (map loop_transfers (take i xs @ xs ! i # drop (Suc i) xs)))"
      using that by (simp add: id_take_nth_drop [symmetric])
    then show ?thesis using that by (simp add: upd_conv_take_nth_drop)
  qed
  show ?thesis using c [OF assms] by (simp add: in_flight_def set_loop_def)
qed

lemma hands_set_loop:
  assumes "i < length (en_loops e)"
    and "keys (loop_transfers (en_loops e ! i)) = keys (loop_transfers lp) + keys ts"
  shows "hands e (set_loop i lp e) ts"
  using in_flight_set_loop [OF assms(1), of lp] assms(2) by (simp add: hands_def ac_simps)

lemma hands_gain:
  assumes "hands e e1 ts" "i < length (en_loops e1)"
    and "keys (loop_transfers lp) = keys (loop_transfers (en_loops e1 ! i)) + keys ts"
  shows "hands e (set_loop i lp e1) []"
  using in_flight_set_loop [OF assms(2), of lp] assms(1,3) books_same_trans [of e e1]
  by (auto simp: hands_def ac_simps)

section \<open>Endings are ledger steps\<close>

lemma deliver_next_Some:
  assumes "deliver_next j e = Some e'"
  obtains p ps b m where "j < length (en_endings e)" "eg_parts (en_endings e ! j) = p # ps"
    "en_batches e (t_batch (eg_transfer (en_endings e ! j))) = Some b"
    "e' = put_batch (t_batch (eg_transfer (en_endings e ! j)))
      (push b (part_completion (eg_transfer (en_endings e ! j)) (eg_status (en_endings e ! j)) (eg_detail (en_endings e ! j)) p))
      (e\<lparr>en_memory := m, en_endings := (en_endings e)[j := (en_endings e ! j)\<lparr>eg_parts := ps\<rparr>]\<rparr>)"
  using assms by (auto simp: deliver_next_def Let_def split: if_splits list.splits option.splits)

lemma end_transfer_Some:
  assumes "end_transfer j e = Some e'"
  obtains b where "j < length (en_endings e)" "eg_parts (en_endings e ! j) = []"
    "en_batches e (t_batch (eg_transfer (en_endings e ! j))) = Some b"
    "e' = put_batch (t_batch (eg_transfer (en_endings e ! j))) (transfer_finished b) (e\<lparr>en_endings := without j (en_endings e)\<rparr>)"
  using assms by (auto simp: end_transfer_def without_def Let_def split: if_splits list.splits option.splits)

lemma entries_endings:
  assumes "j < length gs"
  shows "entries (map ending_rest (gs[j := g])) =
      add_mset (entry (ending_rest g)) (entries (map ending_rest gs) - {#entry (ending_rest (gs ! j))#})"
    "entries (map ending_rest (without j gs)) = entries (map ending_rest gs) - {#entry (ending_rest (gs ! j))#}"
    "entry (ending_rest (gs ! j)) \<in># entries (map ending_rest gs)"
proof -
  show "entries (map ending_rest (gs[j := g])) =
      add_mset (entry (ending_rest g)) (entries (map ending_rest gs) - {#entry (ending_rest (gs ! j))#})"
    using assms by (simp add: entries_def map_update mset_update del: mset_map)
  have "gs = take j gs @ gs ! j # drop (Suc j) gs" using assms by (rule id_take_nth_drop)
  then have "entries (map ending_rest gs) = entries (map ending_rest (take j gs @ gs ! j # drop (Suc j) gs))" by simp
  then show "entries (map ending_rest (without j gs)) = entries (map ending_rest gs) - {#entry (ending_rest (gs ! j))#}"
    by (simp add: without_def)
  show "entry (ending_rest (gs ! j)) \<in># entries (map ending_rest gs)" using assms by (simp add: entries_def)
qed

lemma deliver_simulated: "deliver_next j e = Some e' \<Longrightarrow> ledger_step (abs_engine e) (abs_engine e')"
proof (erule deliver_next_Some)
  fix p ps b m
  let ?g = "en_endings e ! j" and ?i = "t_batch (eg_transfer (en_endings e ! j))"
  assume j: "j < length (en_endings e)" and p: "eg_parts ?g = p # ps" and b: "en_batches e ?i = Some b"
    and e': "e' = put_batch ?i (push b (part_completion (eg_transfer ?g) (eg_status ?g) (eg_detail ?g) p))
      (e\<lparr>en_memory := m, en_endings := (en_endings e)[j := ?g\<lparr>eg_parts := ps\<rparr>]\<rparr>)"
  let ?k = "book_of (en_submitted e ?i) (en_taken e ?i) b" and ?rest = "map part_tag ps"
  have en: "entry (ending_rest ?g) = (?i, part_tag p # ?rest)" "entry (ending_rest (?g\<lparr>eg_parts := ps\<rparr>)) = (?i, ?rest)"
    by (simp_all add: entry_def ending_rest_def p)
  note m = entries_endings [OF j, unfolded en]
  have "abs_engine e' = deliver_tag ?i (part_tag p) ?rest ?k (abs_engine e)"
    using b m by (auto simp: e' abs_engine_def deliver_tag_def put_book_def put_batch_def in_flight_def book_of_def en fun_eq_iff)
  moreover have "ledger_step (abs_engine e) (deliver_tag ?i (part_tag p) ?rest ?k (abs_engine e))"
    using b m(3) by (intro ledger_step.delivered) (auto simp: abs_engine_def in_flight_def)
  ultimately show ?thesis by simp
qed

lemma end_simulated: "end_transfer j e = Some e' \<Longrightarrow> ledger_step (abs_engine e) (abs_engine e')"
proof (erule end_transfer_Some)
  fix b
  let ?g = "en_endings e ! j" and ?i = "t_batch (eg_transfer (en_endings e ! j))"
  assume j: "j < length (en_endings e)" and p: "eg_parts ?g = []" and b: "en_batches e ?i = Some b"
    and e': "e' = put_batch ?i (transfer_finished b) (e\<lparr>en_endings := without j (en_endings e)\<rparr>)"
  let ?k = "book_of (en_submitted e ?i) (en_taken e ?i) b"
  have en: "entry (ending_rest ?g) = (?i, [])" by (simp add: entry_def ending_rest_def p)
  note m = entries_endings(2,3) [OF j, unfolded en]
  have "abs_engine e' = settle ?i ?k (abs_engine e)"
    using b m by (auto simp: e' abs_engine_def settle_def put_book_def put_batch_def in_flight_def book_of_def fun_eq_iff)
  moreover have "ledger_step (abs_engine e) (settle ?i ?k (abs_engine e))"
    using b m(2) by (intro ledger_step.settled) (auto simp: abs_engine_def in_flight_def)
  ultimately show ?thesis by simp
qed

lemma flight_parts_alt: "flight_parts e = (\<Union>t \<in> set (in_flight e). set (t_parts t))"
  by (simp add: flight_parts_def keys_def key_def)

lemma ending_parts:
  "deliver_next j e = Some e' \<Longrightarrow> flight_parts e' \<subseteq> flight_parts e" "end_transfer j e = Some e' \<Longrightarrow> flight_parts e' \<subseteq> flight_parts e"
proof -
  show "flight_parts e' \<subseteq> flight_parts e" if "deliver_next j e = Some e'"
  proof (rule deliver_next_Some [OF that])
    fix p ps b m
    let ?g = "en_endings e ! j" and ?i = "t_batch (eg_transfer (en_endings e ! j))"
    assume j: "j < length (en_endings e)" and p: "eg_parts ?g = p # ps"
      and e': "e' = put_batch ?i (push b (part_completion (eg_transfer ?g) (eg_status ?g) (eg_detail ?g) p))
        (e\<lparr>en_memory := m, en_endings := (en_endings e)[j := ?g\<lparr>eg_parts := ps\<rparr>]\<rparr>)"
    have "\<exists>g \<in> set (en_endings e). x \<in> set (t_parts (ending_rest g))"
      if "g' \<in> set ((en_endings e)[j := ?g\<lparr>eg_parts := ps\<rparr>])" "x \<in> set (t_parts (ending_rest g'))" for g' x
    proof (cases "g' = ?g\<lparr>eg_parts := ps\<rparr>")
      case True
      then have "x \<in> set (t_parts (ending_rest ?g))" using that(2) p by (simp add: ending_rest_def)
      then show ?thesis using nth_mem [OF j] by blast
    next
      case False
      then show ?thesis using that set_update_subset_insert [of "en_endings e" j "?g\<lparr>eg_parts := ps\<rparr>"] by blast
    qed
    then show ?thesis by (fastforce simp: e' flight_parts_alt in_flight_def put_batch_def)
  qed
  show "flight_parts e' \<subseteq> flight_parts e" if "end_transfer j e = Some e'"
    by (rule end_transfer_Some [OF that])
      (auto simp: flight_parts_alt in_flight_def put_batch_def without_def dest: in_set_takeD in_set_dropD)
qed

text \<open>
  The steps of an ending make up \<open>finish_transfer\<close>: taken one after the other they deliver all parts and then finish
  the transfer.
\<close>

lemma ending_runs:
  assumes "j < length (en_endings e)" "en_endings e ! j = g" "en_batches e (t_batch (eg_transfer g)) = Some b"
    and "deliver_parts (eg_transfer g) (eg_status g) (eg_detail g) (eg_parts g) (en_memory e) b = Some (m', b')"
  shows "engine_step\<^sup>*\<^sup>* e (put_batch (t_batch (eg_transfer g)) (transfer_finished b')
    (e\<lparr>en_memory := m', en_endings := without j (en_endings e)\<rparr>))"
  using assms
proof (induction "eg_parts g" arbitrary: e g b)
  case Nil
  have eq: "e\<lparr>en_memory := m', en_endings := x\<rparr> = e\<lparr>en_endings := x\<rparr>" for x using Nil by (cases e) simp
  have "end_transfer j e = Some (put_batch (t_batch (eg_transfer g)) (transfer_finished b')
      (e\<lparr>en_memory := m', en_endings := without j (en_endings e)\<rparr>))"
    unfolding eq using Nil by (simp add: end_transfer_def without_def)
  then show ?case by (blast intro: engine_step.s_end)
next
  case (Cons p ps)
  let ?t = "eg_transfer g" and ?g = "g\<lparr>eg_parts := ps\<rparr>"
  let ?c = "part_completion ?t (eg_status g) (eg_detail g) p"
  obtain m1 where m1: "copy_from_scratch ?t p ?c (en_memory e) = Some m1"
    and rest: "deliver_parts ?t (eg_status g) (eg_detail g) ps m1 (push b ?c) = Some (m', b')"
    using Cons.prems(4) Cons.hyps(2) [symmetric] by (auto simp: Let_def split: option.splits)
  let ?e = "put_batch (t_batch ?t) (push b ?c) (e\<lparr>en_memory := m1, en_endings := (en_endings e)[j := ?g]\<rparr>)"
  have "deliver_next j e = Some ?e"
    using Cons.prems(1-3) m1 Cons.hyps(2) [symmetric] by (simp add: deliver_next_def Let_def)
  then have "engine_step e ?e" by (rule engine_step.s_deliver)
  moreover have "engine_step\<^sup>*\<^sup>* ?e (put_batch (t_batch (eg_transfer ?g)) (transfer_finished b')
      (?e\<lparr>en_memory := m', en_endings := without j (en_endings ?e)\<rparr>))"
    using Cons.prems(1) rest by (intro Cons.hyps(1)) (simp_all add: put_batch_def)
  moreover have "put_batch (t_batch (eg_transfer ?g)) (transfer_finished b') (?e\<lparr>en_memory := m', en_endings := without j (en_endings ?e)\<rparr>) =
      put_batch (t_batch ?t) (transfer_finished b') (e\<lparr>en_memory := m', en_endings := without j (en_endings e)\<rparr>)"
    by (simp add: put_batch_def without_def)
  ultimately show ?case by simp
qed

lemma finish_in_runs:
  assumes "en_batches e (t_batch t) = Some b" "finish_transfer t status detail (en_memory e) b = Some (m', b')"
    "finish_in t status detail e = Some e1"
  shows "engine_step\<^sup>*\<^sup>* e1 (put_batch (t_batch t) b' (e\<lparr>en_memory := m'\<rparr>))"
proof -
  let ?g = "\<lparr>eg_transfer = t, eg_parts = t_parts t, eg_status = status, eg_detail = detail\<rparr>"
  let ?b = "add_counter bc_transfers_finished_update 1 b"
  have e1: "e1 = put_batch (t_batch t) ?b (e\<lparr>en_endings := en_endings e @ [?g]\<rparr>)"
    using assms(1,3) by (simp add: finish_in_def)
  obtain b1 where d: "deliver_parts t status detail (t_parts t) (en_memory e) ?b = Some (m', b1)" "b' = transfer_finished b1"
    using assms(2) by (auto simp: finish_transfer_def deliver_def)
  have "engine_step\<^sup>*\<^sup>* e1 (put_batch (t_batch (eg_transfer ?g)) (transfer_finished b1)
      (e1\<lparr>en_memory := m', en_endings := without (length (en_endings e)) (en_endings e1)\<rparr>))"
    using d(1) by (intro ending_runs) (simp_all add: e1 put_batch_def)
  moreover have "put_batch (t_batch (eg_transfer ?g)) (transfer_finished b1)
      (e1\<lparr>en_memory := m', en_endings := without (length (en_endings e)) (en_endings e1)\<rparr>) =
      put_batch (t_batch t) b' (e\<lparr>en_memory := m'\<rparr>)"
    by (simp add: e1 d(2) put_batch_def without_def)
  ultimately show ?thesis by simp
qed

end
