(* ===== verification/Karu_Refinement.thy ===== *)
theory Karu_Refinement
  imports Karu_Steps
begin

text \<open>
  The engine implements the ledger: every operation moves transfers between lists, finishes them or
  discards them, and the first of these is invisible in the ledger. The invariants of the engine's own
  state, the slots of the loops and the buffers of the parts, are kept beside it. The properties at
  the end are those of the ledger, read back on the engine.
\<close>

section \<open>Frames of the operations\<close>

lemma hands_cancelled: "hands e e1 ts \<Longrightarrow> batch_cancelled e1 t = batch_cancelled e t"
proof -
  assume "hands e e1 ts"
  then have "rel_option same_book (en_batches e (t_batch t)) (en_batches e1 (t_batch t))"
    by (simp add: hands_def books_same_def)
  then show ?thesis
    by (cases "en_batches e (t_batch t)"; cases "en_batches e1 (t_batch t)")
      (auto simp: batch_cancelled_def is_cancelled_def same_book_def)
qed

lemma hands_stop: "hands e e1 ts \<Longrightarrow> en_stop e1 = en_stop e"
  by (simp add: hands_def books_same_def)

lemma sink_write_fixed: "sink_write t m d = Some (t', m') \<Longrightarrow> fixed t' = fixed t"
  by (auto simp: sink_write_def split: sink.splits option.splits)

lemma file_read_loop_fixed: "file_read_loop read_at stop k t m = Some (e, t', m') \<Longrightarrow> fixed t' = fixed t"
proof (induction read_at stop k t m rule: file_read_loop.induct)
  case (1 read_at stop k t m)
  show ?case
  proof (cases "\<not> received t < t_length t \<or> stop k")
    case True
    with 1(2) show ?thesis by (simp add: file_read_loop.simps)
  next
    case False
    show ?thesis
    proof (cases "read_span read_at k (t_offset t + received t) (t_length t - received t)")
      case (Inl e)
      with 1(2) False show ?thesis by (simp add: file_read_loop.simps)
    next
      case (Inr d)
      show ?thesis
      proof (cases "d = [] \<or> sink_write t m d = None")
        case True
        with 1(2) False Inr show ?thesis by (auto simp: file_read_loop.simps split: if_splits)
      next
        case d: False
        then obtain t1 m1 where w: "sink_write t m d = Some (t1, m1)" by auto
        with 1(2) False Inr d have
          "file_read_loop read_at stop (Suc k) (t1\<lparr>received := received t1 + of_nat (length d)\<rparr>) m1 = Some (e, t', m')"
          by (simp add: file_read_loop.simps [of read_at stop k])
        with 1(1) [OF False Inr _ w refl] d sink_write_fixed [OF w] show ?thesis by simp
      qed
    qed
  qed
qed

lemma file_round_fixed:
  assumes "file_round env t m b = Some (out, b')"
  shows "same_book b b'" "out = File_Finished t' status detail m' \<Longrightarrow> key t' = key t"
    "out = File_Discarded t' m' \<Longrightarrow> key t' = key t \<and> (fe_cancelled_before env \<or> fe_cancelled_after env)"
proof -
  obtain ok t1 where e: "ensure_sink (fe_resize env) t = (ok, t1)" by fastforce
  have k: "key t1 = key t" using ensure_sink_framed [OF e] by (rule framed_key)
  have l: "key t2 = key t" if "file_read_loop ra st n t1 m = Some (x, t2, m2)" for ra st n x t2 m2
    using file_read_loop_fixed [OF that] k fixed_key by metis
  show "same_book b b'"
    using assms e by (auto simp: file_round_def Let_def split: if_splits option.splits prod.splits)
  show "out = File_Finished t' status detail m' \<Longrightarrow> key t' = key t"
    using assms e k l by (auto simp: file_round_def Let_def split: if_splits option.splits prod.splits)
  show "out = File_Discarded t' m' \<Longrightarrow> key t' = key t \<and> (fe_cancelled_before env \<or> fe_cancelled_after env)"
    using assms e k l by (auto simp: file_round_def Let_def split: if_splits option.splits prod.splits)
qed

lemma count_done_book: "same_book b (count_done env t b)"
  by (simp add: count_done_def Let_def same_book_def split: option.splits)

lemma retry_transfer_book: "same_book b (snd (retry_transfer env t b))"
  by (simp add: retry_transfer_def Let_def same_book_def)

lemma restart_or_retry_book: "same_book b (snd (restart_or_retry env opt code t b))"
  by (auto simp: restart_or_retry_def retry_or_fail_def Let_def retry_transfer_book)

lemma handle_done_book: "same_book b (snd (handle_done env opt code t b))"
  by (auto simp: handle_done_def Let_def intro: count_done_book same_book_trans [OF count_done_book restart_or_retry_book])

lemma handle_done_key:
  assumes "handle_done env opt code t b = (out, b')"
  shows "same_book b b'"
    "out = Done t' status detail \<Longrightarrow> key t' = key t" "out = Again_now t' \<Longrightarrow> key t' = key t"
    "out = Again_credentials t' \<Longrightarrow> key t' = key t" "out = Again_later due t' \<Longrightarrow> key t' = key t"
  using handle_done_book [of b env opt code t] handle_done_spends [of opt t env code b] assms fixed_key [of t' t]
  by (auto simp: spends_def)

lemma header_callback_key: "key (snd (header_callback env data sz cnt t)) = key t"
proof (cases "callback_size sz cnt")
  case (Some n)
  obtain a t' where h: "receive_header env (take (unat n) data) t = (a, t')" by fastforce
  from framed_key [OF receive_header_framed [OF h]] h Some show ?thesis by (simp add: header_callback_def)
qed (simp add: header_callback_def)

lemma write_callback_key: "write_callback info data sz cnt w = Some (n, w') \<Longrightarrow> key (w_transfer w') = key (w_transfer w)"
  by (auto simp: write_callback_def split: option.splits dest!: receive_chunk_framed framed_key)

lemma start_transfer_key: "key (outcome_transfer (start_transfer env opt b prepared t)) = key t"
  by (rule framed_key [OF start_transfer_framed])

section \<open>Every operation is a ledger step\<close>

lemma with_loop_Some: "with_loop i f e = Some e' \<longleftrightarrow> i < length (en_loops e) \<and> f (en_loops e ! i) e = Some e'"
  by (simp add: with_loop_def)

lemma map_snd_filter: "map snd (filter (P \<circ> snd) xs) = filter P (map snd xs)"
  by (simp add: filter_map comp_def)

lemma queue_effect: "effect e (submit_queue i e)"
proof -
  let ?mine = "\<lambda>t. t_batch t = i"
  have "keys xs = keys (filter (\<lambda>t. \<not> (?mine t \<and> (is_file t \<or> is_cloud t))) xs) +
      (keys (filter (\<lambda>t. ?mine t \<and> is_file t) xs) + keys (filter (\<lambda>t. ?mine t \<and> \<not> is_file t \<and> is_cloud t) xs))" for xs
    by (induction xs) auto
  from this [of "en_submitting e"] show ?thesis
    by (intro effect.moved) (simp add: hands_def books_same_def submit_queue_def in_flight_def option.rel_refl Let_def)
qed

lemma http_effect: "effect e (submit_http i e)"
proof -
  have "keys (filter (\<lambda>t. t_batch t = i) xs) + keys (filter (\<lambda>t. t_batch t \<noteq> i) xs) = keys xs" for xs
    by (rule keys_filter)
  from this [of "en_submitting e"] show ?thesis
    by (intro effect.moved) (simp add: hands_def books_same_def submit_http_def in_flight_def option.rel_refl ac_simps)
qed

lemma file_take_effect: "file_take e = Some e' \<Longrightarrow> effect e e'"
  by (rule effect.moved) (auto simp: file_take_def hands_def books_same_def in_flight_def option.rel_refl split: list.splits if_splits)

lemma credential_take_effect: "credential_take e = Some e' \<Longrightarrow> effect e e'"
  by (rule effect.moved) (auto simp: credential_take_def hands_def books_same_def in_flight_def option.rel_refl split: list.splits if_splits)

lemma file_finish_effect:
  assumes "file_finish j env e = Some e'"
  shows "effect e e'"
proof -
  let ?t = "en_file_held e ! j" and ?e1 = "e\<lparr>en_file_held := without j (en_file_held e)\<rparr>"
  have j: "j < length (en_file_held e)" using assms by (auto simp: file_finish_def split: if_splits)
  have h0: "hands e ?e1 [?t]" using keys_without [OF j] by (simp add: hands_def in_flight_def)
  from assms j obtain b out b' where r: "en_batches e (t_batch ?t) = Some b"
    "file_round env ?t (en_memory e) b = Some (out, b')" and sees: "sees e ?t (fe_cancelled_before env)"
    "sees e ?t (fe_cancelled_after env)"
    by (auto simp: file_finish_def Let_def split: if_splits option.splits)
  have h: "hands e (put_batch (t_batch ?t) b' (?e1\<lparr>en_memory := m\<rparr>)) [?t]" for m
  proof -
    have "hands (?e1\<lparr>en_memory := m\<rparr>) (put_batch (t_batch ?t) b' (?e1\<lparr>en_memory := m\<rparr>)) []"
      using r(1) file_round_fixed(1) [OF r(2)] by (intro hands_put [where b = b]) auto
    from hands_trans [OF h0 hands_trans [OF hands_memory this]] show ?thesis by simp
  qed
  show ?thesis
  proof (cases out)
    case (File_Finished t' status detail m)
    with assms j r sees have "finish_in t' status detail (put_batch (t_batch ?t) b' (?e1\<lparr>en_memory := m\<rparr>)) = Some e'"
      by (simp add: file_finish_def Let_def)
    with h [of m] file_round_fixed(2) [OF r(2) File_Finished] show ?thesis by (rule finished1)
  next
    case (File_Discarded t' m)
    with assms j r sees have d: "discard_in t' (put_batch (t_batch ?t) b' (?e1\<lparr>en_memory := m\<rparr>)) = Some e'"
      by (simp add: file_finish_def Let_def)
    note k = file_round_fixed(3) [OF r(2) File_Discarded]
    then have "batch_cancelled e ?t" using sees by (auto simp: sees_def)
    then show ?thesis using discarded1 [OF h [of m] _ _ d] k hands_cancelled [OF h [of m], of ?t] by auto
  qed
qed

lemma queue_http_effect:
  assumes "hands e e1 [t]" "key t' = key t" "queue_http t' e1 = Some e'"
  shows "effect e e'"
proof (cases "en_stop e1")
  case True
  with assms show ?thesis by (intro discarded1 [OF assms(1,2)]) (auto simp: queue_http_def)
next
  case False
  with assms(3) have e': "e' = e1\<lparr>en_http := en_http e1 @ [t']\<rparr>" by (simp add: queue_http_def)
  have "books_same e e'" using assms(1) books_same_trans [of e e1 e'] e' by (simp add: hands_def)
  with assms(1,2) have "hands e e' []" by (simp add: hands_def e' in_flight_def)
  then show ?thesis by (rule effect.moved)
qed

lemma credential_finish_effect:
  assumes "credential_finish j env e = Some e'"
  shows "effect e e'"
proof -
  let ?t = "en_credential_held e ! j" and ?e1 = "e\<lparr>en_credential_held := without j (en_credential_held e)\<rparr>"
  have j: "j < length (en_credential_held e)" using assms by (auto simp: credential_finish_def split: if_splits)
  have h: "hands e ?e1 [?t]" using keys_without [OF j] by (simp add: hands_def in_flight_def)
  have sees: "sees e ?t (ce_cancelled_before env)" "sees e ?t (ce_cancelled_after env)"
    using assms j by (auto simp: credential_finish_def Let_def split: if_splits)
  show ?thesis
  proof (cases "credential_round env (en_options e) ?t")
    case (Cred_Finished t' status detail)
    with assms j sees have "finish_in t' status detail ?e1 = Some e'" by (simp add: credential_finish_def Let_def)
    with h framed_key [OF credential_round_framed(2) [OF Cred_Finished]] show ?thesis by (rule finished1)
  next
    case Cred_Discarded
    with assms j sees have d: "discard_in ?t ?e1 = Some e'" by (simp add: credential_finish_def Let_def)
    have "ce_cancelled_before env \<or> ce_cancelled_after env"
      using Cred_Discarded by (auto simp: credential_round_def Let_def split: if_splits sum.splits prod.splits)
    then have "batch_cancelled ?e1 ?t" using sees hands_cancelled [OF h, of ?t] by (auto simp: sees_def)
    then show ?thesis using discarded1 [OF h refl _ d] by simp
  next
    case (Cred_Ready t')
    with assms j sees have "queue_http t' ?e1 = Some e'" by (simp add: credential_finish_def Let_def)
    with h framed_key [OF credential_round_framed(1) [OF Cred_Ready]] show ?thesis by (rule queue_http_effect)
  qed
qed

subsection \<open>The loops\<close>

lemma take_http_effect:
  assumes "take_http i e = Some e'"
  shows "effect e e'"
proof -
  let ?lp = "en_loops e ! i"
  obtain n where i: "i < length (en_loops e)"
    and e': "e' = set_loop i (?lp\<lparr>lp_pending := lp_pending ?lp @ take n (en_http e)\<rparr>) (e\<lparr>en_http := drop n (en_http e)\<rparr>)"
    using assms by (auto simp: take_http_def with_loop_Some Let_def)
  have "hands e (e\<lparr>en_http := drop n (en_http e)\<rparr>) (take n (en_http e))"
    using keys_take_drop [of n "en_http e"] by (simp add: hands_def in_flight_def ac_simps)
  from hands_gain [OF this] i have "hands e e' []" by (simp add: e' loop_transfers_def)
  then show ?thesis by (rule effect.moved)
qed

lemma discard_cancelled_effect:
  assumes "discard_cancelled_http i e = Some e'"
  shows "effect e e'"
proof -
  let ?lp = "en_loops e ! i" and ?dead = "batch_cancelled e"
  let ?alive = "\<lambda>t. \<not> ?dead t"
  let ?lp' = "?lp\<lparr>lp_pending := filter ?alive (lp_pending ?lp), lp_resolving := filter ?alive (lp_resolving ?lp),
    lp_retries := filter (?alive \<circ> snd) (lp_retries ?lp), lp_active := filter ?alive (lp_active ?lp),
    lp_cancellation_pending := False\<rparr>"
  let ?ts = "filter ?dead (lp_pending ?lp) @ filter ?dead (lp_resolving ?lp) @
    filter ?dead (map snd (lp_retries ?lp)) @ filter ?dead (lp_active ?lp)"
  have i: "i < length (en_loops e)" and d: "discard_all ?ts (set_loop i ?lp' e) = Some e'"
    using assms by (auto simp: discard_cancelled_http_def with_loop_Some Let_def split: if_splits)
  have split: "keys (filter ?dead xs) + keys (filter ?alive xs) = keys xs" for xs by (rule keys_filter)
  have "keys (loop_transfers ?lp) = keys (loop_transfers ?lp') + keys ?ts"
    using split [of "lp_pending ?lp"] split [of "lp_resolving ?lp"] split [of "map snd (lp_retries ?lp)"] split [of "lp_active ?lp"]
    by (simp add: loop_transfers_def map_snd_filter ac_simps)
  then have h: "hands e (set_loop i ?lp' e) ?ts" by (rule hands_set_loop [OF i])
  have "\<forall>t \<in> set ?ts. batch_cancelled (set_loop i ?lp' e) t" using hands_cancelled [OF h] by auto
  with h d show ?thesis by (intro effect.discarded [OF h]) auto
qed

lemma retries_due_effect:
  assumes "retries_due i now e = Some e'"
  shows "effect e e'"
proof -
  have "keys (map snd (filter (\<lambda>r. fst r \<le> now) xs)) + keys (map snd (filter (\<lambda>r. now < fst r) xs)) = keys (map snd xs)" for xs
    by (induction xs) auto
  then have "hands e e' []"
    using assms by (auto simp: retries_due_def with_loop_Some loop_transfers_def ac_simps intro!: hands_set_loop)
  then show ?thesis by (rule effect.moved)
qed

lemma swap_effect: "swap_resolving i e = Some e' \<Longrightarrow> effect e e'"
  by (rule effect.moved) (auto simp: swap_resolving_def with_loop_Some loop_transfers_def split: if_splits intro!: hands_set_loop)

lemma place_effect:
  assumes "i < length (en_loops e)" "keys (loop_transfers (en_loops e ! i)) = keys (loop_transfers lp) + keys [t]"
    and "place i lp out e = Some e'" "key (outcome_transfer out) = key t"
  shows "effect e e'"
proof (cases out)
  case (Finished t' status detail)
  with assms(3,4) show ?thesis
    by (intro finished1 [OF hands_set_loop [OF assms(1,2)]]) (auto simp: place_def outcome_transfer_def)
next
  case (Waiting t')
  with assms have "hands e e' []"
    by (auto simp: place_def outcome_transfer_def loop_transfers_def intro!: hands_set_loop)
  then show ?thesis by (rule effect.moved)
next
  case (Active t')
  with assms have "hands e e' []"
    by (auto simp: place_def outcome_transfer_def loop_transfers_def intro!: hands_set_loop)
  then show ?thesis by (rule effect.moved)
qed

lemma start_in_effect:
  assumes i: "i < length (en_loops e)" and k: "keys (loop_transfers (en_loops e ! i)) = keys (loop_transfers lp) + keys [t]"
    and s: "start_in i lp env prepared t e = Some e'"
  shows "effect e e'"
proof -
  obtain b where b: "en_batches e (t_batch t) = Some b" using s by (auto simp: start_in_def split: option.splits)
  show ?thesis
  proof (cases "is_cancelled b")
    case True
    have h: "hands e (set_loop i lp e) [t]" using hands_set_loop [OF i k] .
    have "batch_cancelled (set_loop i lp e) t" using True b hands_cancelled [OF h] by (simp add: batch_cancelled_def)
    moreover have "discard_in t (set_loop i lp e) = Some e'" using s b True by (simp add: start_in_def)
    ultimately show ?thesis using discarded1 [OF h refl] by blast
  next
    case False
    with s b have "place i lp (start_transfer env (en_options e) b prepared t) e = Some e'" by (simp add: start_in_def)
    from place_effect [OF i k this start_transfer_key] show ?thesis .
  qed
qed

lemma resume_effect: "resume_waiting i env e = Some e' \<Longrightarrow> effect e e'"
  by (auto simp: resume_waiting_def with_loop_Some loop_transfers_def split: list.splits intro!: start_in_effect)

lemma start_effect: "start_pending i env e = Some e' \<Longrightarrow> effect e e'"
  by (auto simp: start_pending_def with_loop_Some loop_transfers_def split: list.splits if_splits intro!: start_in_effect)

lemma failed_effect: "perform_failed i msg e = Some e' \<Longrightarrow> effect e e'"
  by (auto simp: perform_failed_def with_loop_Some loop_transfers_def intro!: finished_all hands_set_loop)

lemma header_effect: "loop_header i j env data sz cnt e = Some e' \<Longrightarrow> effect e e'"
  by (rule effect.moved)
    (auto simp: loop_header_def with_loop_Some loop_transfers_def header_callback_key keys_update split: if_splits
      intro!: hands_set_loop)

lemma body_effect:
  assumes "loop_body i j info data sz cnt e = Some e'"
  shows "effect e e'"
proof -
  let ?lp = "en_loops e ! i" and ?t = "lp_active (en_loops e ! i) ! j"
  obtain b n w where i: "i < length (en_loops e)" "j < length (lp_active ?lp)" and b: "en_batches e (t_batch ?t) = Some b"
    and w: "write_callback info data sz cnt \<lparr>w_transfer = ?t, w_memory = en_memory e,
          w_received_bytes = bc_received_bytes (counters b)\<rparr> = Some (n, w)"
    and e': "e' = put_batch (t_batch ?t) (b\<lparr>counters := (counters b)\<lparr>bc_received_bytes := w_received_bytes w\<rparr>\<rparr>)
          (set_loop i (?lp\<lparr>lp_active := (lp_active ?lp)[j := w_transfer w]\<rparr>) (e\<lparr>en_memory := w_memory w\<rparr>))"
    using assms by (auto simp: loop_body_def with_loop_Some Let_def split: if_splits option.splits)
  let ?lp' = "?lp\<lparr>lp_active := (lp_active ?lp)[j := w_transfer w]\<rparr>"
  have "key (w_transfer w) = key ?t" using write_callback_key [OF w] by simp
  then have "hands (e\<lparr>en_memory := w_memory w\<rparr>) (set_loop i ?lp' (e\<lparr>en_memory := w_memory w\<rparr>)) []"
    using i by (intro hands_set_loop) (auto simp: loop_transfers_def keys_update)
  from hands_trans [OF hands_memory this]
  have h: "hands e (set_loop i ?lp' (e\<lparr>en_memory := w_memory w\<rparr>)) []" by simp
  have "hands (set_loop i ?lp' (e\<lparr>en_memory := w_memory w\<rparr>)) e' []"
    unfolding e' using b by (intro hands_put [where b = b]) (auto simp: set_loop_def)
  from hands_trans [OF h this] show ?thesis by (intro effect.moved) simp
qed

lemma message_effect:
  assumes "loop_message i j env code e = Some e'"
  shows "effect e e'"
proof -
  let ?lp = "en_loops e ! i" and ?t = "lp_active (en_loops e ! i) ! j"
  let ?lp1 = "?lp\<lparr>lp_active := without j (lp_active ?lp)\<rparr>"
  obtain b out b' where i: "i < length (en_loops e)" "j < length (lp_active ?lp)" and b: "en_batches e (t_batch ?t) = Some b"
    and d: "handle_done env (en_options e) code ?t b = (out, b')"
    using assms by (auto simp: loop_message_def with_loop_Some Let_def split: if_splits option.splits prod.splits)
  let ?e1 = "put_batch (t_batch ?t) b' e"
  have h0: "hands e ?e1 []" using b handle_done_key(1) [OF d] by (rule hands_put)
  have i1: "i < length (en_loops ?e1)" "en_loops ?e1 ! i = ?lp" using i by (simp_all add: put_batch_def)
  have k1: "keys (loop_transfers ?lp) = keys (loop_transfers ?lp1) + keys [?t]"
    using keys_without [OF i(2)] by (simp add: loop_transfers_def)
  have h1: "hands e (set_loop i ?lp1 ?e1) [?t]"
    using hands_trans [OF h0 hands_set_loop [OF i1(1)]] k1 i1(2) by simp
  show ?thesis
  proof (cases out)
    case (Done t' status detail)
    with assms i b d have "finish_in t' status detail (set_loop i ?lp1 ?e1) = Some e'"
      by (simp add: loop_message_def with_loop_Some Let_def)
    with h1 handle_done_key(2) [OF d Done] show ?thesis by (rule finished1)
  next
    case (Again_now t')
    with assms i b d have e': "e' = set_loop i (?lp1\<lparr>lp_pending := t' # lp_pending ?lp1\<rparr>) ?e1"
      by (simp add: loop_message_def with_loop_Some Let_def)
    have "hands ?e1 e' []"
      unfolding e' using i1 k1 handle_done_key(3) [OF d Again_now] by (intro hands_set_loop) (auto simp: loop_transfers_def)
    from hands_trans [OF h0 this] show ?thesis by (intro effect.moved) simp
  next
    case (Again_credentials t')
    with assms i b d have e': "e' = set_loop i ?lp1 (?e1\<lparr>en_credentials := t' # en_credentials ?e1\<rparr>)"
      by (simp add: loop_message_def with_loop_Some Let_def)
    then have "e' = (set_loop i ?lp1 ?e1)\<lparr>en_credentials := t' # en_credentials ?e1\<rparr>" by (simp add: set_loop_def)
    moreover have "books_same e (set_loop i ?lp1 ?e1)" using h1 by (simp add: hands_def)
    ultimately have "hands e e' []"
      using h1 handle_done_key(4) [OF d Again_credentials] books_same_trans [of e "set_loop i ?lp1 ?e1"]
      by (auto simp: hands_def in_flight_def set_loop_def)
    then show ?thesis by (rule effect.moved)
  next
    case (Again_later due t')
    with assms i b d have e': "e' = set_loop i (?lp1\<lparr>lp_retries := lp_retries ?lp1 @ [(due, t')]\<rparr>) ?e1"
      by (simp add: loop_message_def with_loop_Some Let_def)
    have "hands ?e1 e' []"
      unfolding e' using i1 k1 handle_done_key(5) [OF d Again_later] by (intro hands_set_loop) (auto simp: loop_transfers_def)
    from hands_trans [OF h0 this] show ?thesis by (intro effect.moved) simp
  qed
qed

lemma shutdown_effect:
  assumes "loop_shutdown i e = Some e'"
  shows "effect e e'"
proof -
  let ?lp = "en_loops e ! i"
  let ?lp' = "?lp\<lparr>lp_active := [], lp_pending := [], lp_resolving := [], lp_retries := []\<rparr>"
  let ?ts = "lp_active ?lp @ lp_pending ?lp @ lp_resolving ?lp @ map snd (lp_retries ?lp)"
  have i: "i < length (en_loops e)" "en_stop e" "lp_waiting ?lp = []" and d: "discard_all ?ts (set_loop i ?lp' e) = Some e'"
    using assms by (auto simp: loop_shutdown_def with_loop_Some split: if_splits)
  have h: "hands e (set_loop i ?lp' e) ?ts" using i by (intro hands_set_loop) (auto simp: loop_transfers_def ac_simps)
  show ?thesis using i hands_stop [OF h] by (intro effect.discarded [OF h _ d]) simp
qed

subsection \<open>Cancelling and stopping\<close>

lemma cancel_queues_effect:
  assumes "cancel_queues i e = Some e'"
  shows "effect e e'"
proof -
  let ?mine = "\<lambda>t. t_batch t = i"
  let ?e1 = "e\<lparr>en_files := filter (\<lambda>t. \<not> ?mine t) (en_files e), en_credentials := filter (\<lambda>t. \<not> ?mine t) (en_credentials e)\<rparr>"
  let ?ts = "filter ?mine (en_files e) @ filter ?mine (en_credentials e)"
  obtain b where b: "en_batches e i = Some b" "cancelled b" and d: "discard_all ?ts ?e1 = Some e'"
    using assms by (auto simp: cancel_queues_def Let_def split: option.splits if_splits)
  have "keys (filter ?mine xs) + keys (filter (\<lambda>t. \<not> ?mine t) xs) = keys xs" for xs by (rule keys_filter)
  from this [of "en_files e"] this [of "en_credentials e"] have h: "hands e ?e1 ?ts"
    by (simp add: hands_def books_same_def in_flight_def option.rel_refl ac_simps)
  have "\<forall>t \<in> set ?ts. batch_cancelled ?e1 t" using b by (auto simp: batch_cancelled_def is_cancelled_def)
  with h d show ?thesis by (intro effect.discarded [OF h]) auto
qed

lemma cancel_http_effect:
  assumes "cancel_http i e = Some e'"
  shows "effect e e'"
proof -
  let ?e1 = "e\<lparr>en_http := filter (\<lambda>t. t_batch t \<noteq> i) (en_http e)\<rparr>" and ?ts = "filter (\<lambda>t. t_batch t = i) (en_http e)"
  obtain b where b: "en_batches e i = Some b" "cancelled b" and d: "discard_all ?ts ?e1 = Some e'"
    using assms by (auto simp: cancel_http_def split: option.splits if_splits)
  have "keys (filter (\<lambda>t. t_batch t = i) xs) + keys (filter (\<lambda>t. t_batch t \<noteq> i) xs) = keys xs" for xs by (rule keys_filter)
  from this [of "en_http e"] have h: "hands e ?e1 ?ts"
    by (simp add: hands_def books_same_def in_flight_def option.rel_refl ac_simps)
  have "\<forall>t \<in> set ?ts. batch_cancelled ?e1 t" using b by (auto simp: batch_cancelled_def is_cancelled_def)
  with h d show ?thesis by (intro effect.discarded [OF h]) auto
qed

lemma cancel_loops_effect: "effect e (cancel_loops e)"
proof -
  have "loop_transfers (lp\<lparr>lp_cancellation_pending := c\<rparr>) = loop_transfers lp" for lp c by (simp add: loop_transfers_def)
  then show ?thesis by (intro effect.moved) (simp add: hands_def cancel_loops_def in_flight_def comp_def)
qed

lemma destroy_effect:
  assumes "destroy_queues e = Some e'"
  shows "effect e e'"
proof -
  let ?e1 = "e\<lparr>en_http := [], en_files := [], en_credentials := []\<rparr>" and ?ts = "en_http e @ en_files e @ en_credentials e"
  have d: "en_stop e" "discard_all ?ts ?e1 = Some e'" using assms by (auto simp: destroy_queues_def split: if_splits)
  have h: "hands e ?e1 ?ts" by (simp add: hands_def books_same_def in_flight_def option.rel_refl ac_simps)
  show ?thesis using d(1) by (intro effect.discarded [OF h _ d(2)]) simp
qed

subsection \<open>Submitting, taking and marking\<close>

lemma open_batch_book:
  "ready (open_batch pid plan) = plan_immediate plan"
  "pending_parts (open_batch pid plan) = sum_list (map (length \<circ> t_parts) (plan_transfers_of plan))"
  "live_transfers (open_batch pid plan) = length (plan_transfers_of plan)" "\<not> cancelled (open_batch pid plan)"
  by (simp_all add: open_batch_def Let_def new_batch_def)

text \<open>The tags of a plan are those of the requests.\<close>

lemma plan_tags:
  fixes malloc :: malloc and i :: nat and opt :: client_options and rs :: "request list"
  defines "plan \<equiv> plan_transfers malloc i opt rs"
  assumes ok: "usable_options opt" "\<forall>r \<in> set rs. rq_length r \<noteq> 0" and st: "plan_status plan = KARU_OK"
  shows "mset (map rq_tag rs) = mset (map cp_tag (plan_immediate plan)) +
      \<Sum>\<^sub># (image_mset mset (mset (map (map part_tag \<circ> t_parts) (plan_transfers_of plan))))"
    "\<forall>t \<in> set (plan_transfers_of plan). t_batch t = i \<and> (\<forall>p \<in> set (t_parts t). part_buffer p \<noteq> None)"
proof -
  let ?valid = "stable_sort ordered_before (fst (screen_requests rs))" and ?ts = "plan_transfers_of plan"
  obtain gs where gs: "list_all2 (built opt i) gs ?ts" "concat gs = ?valid"
    using plan_transfers_groups [OF ok, where malloc = malloc and batch = i] st unfolding plan_def by blast
  have tag: "snd (snd (snd (request_what r))) = (rq_tag r, rq_buffer r)" "snd (snd (snd (part_what t p))) = (part_tag p, user_buffer p)" for r t p
    by (simp_all add: request_what_def part_what_def)
  have "map (fst \<circ> snd \<circ> snd \<circ> snd) (concat (map (\<lambda>t. map (part_what t) (t_parts t)) ?ts)) =
      map (fst \<circ> snd \<circ> snd \<circ> snd) (map (request_what \<circ> v_request) (concat gs))"
    using list_all2_what [OF gs(1)] by simp
  then have "concat (map (\<lambda>t. map part_tag (t_parts t)) ?ts) = map (rq_tag \<circ> v_request) ?valid"
    by (simp add: map_concat comp_def tag gs(2))
  then have "mset (concat (map (\<lambda>t. map part_tag (t_parts t)) ?ts)) = mset (map (rq_tag \<circ> v_request) ?valid)" by simp
  also have "\<dots> = mset (map rq_tag (map v_request (fst (screen_requests rs))))" by simp
  also have "map v_request (fst (screen_requests rs)) = filter accepted rs" using screen_requests_spec [OF ok(2)] by simp
  finally have t: "mset (concat (map (\<lambda>t. map part_tag (t_parts t)) ?ts)) = mset (map rq_tag (filter accepted rs))" .
  have im: "map cp_tag (plan_immediate plan) = map rq_tag (filter (\<lambda>r. \<not> accepted r) rs)"
    using screen_requests_spec [OF ok(2)] by (simp add: plan_def plan_transfers_def case_prod_beta)
  have sum: "mset (concat xs) = \<Sum>\<^sub># (image_mset mset (mset xs))" for xs :: "tag list list"
    by (induction xs) auto
  have "mset (map rq_tag rs) = mset (map rq_tag (filter (\<lambda>r. \<not> accepted r) rs)) + mset (map rq_tag (filter accepted rs))"
    by (induction rs) auto
  then show "mset (map rq_tag rs) = mset (map cp_tag (plan_immediate plan)) +
      \<Sum>\<^sub># (image_mset mset (mset (map (map part_tag \<circ> t_parts) ?ts)))"
    using t sum [of "map (\<lambda>t. map part_tag (t_parts t)) ?ts"] im by (simp add: comp_def)
  have "sorted_wrt (\<lambda>a b. order_key a \<le> order_key b) (concat gs)" unfolding gs(2) by (rule sorted_by_key)
  from built_groups_wf [OF gs(1) this]
  show "\<forall>t \<in> set ?ts. t_batch t = i \<and> (\<forall>p \<in> set (t_parts t). part_buffer p \<noteq> None)"
    by (simp add: wf_transfer_def)
qed

lemma book_of_new: "book_of s t (new_batch pid) = \<lparr>bk_submitted = s, bk_ready = [], bk_taken = t, bk_pending = 0,
    bk_live = 0, bk_cancelled = False\<rparr>"
  by (simp add: book_of_def new_batch_def)

text \<open>A batch that does not exist has no history.\<close>

definition fresh_history :: "engine \<Rightarrow> bool" where
  "fresh_history e \<longleftrightarrow> (\<forall>i. en_batches e i = None \<longrightarrow> en_submitted e i = [] \<and> en_taken e i = [])"

lemma submit_simulated:
  assumes "fresh_history e" "usable_options opt" "\<forall>r \<in> set rs. rq_length r \<noteq> 0"
    and s: "submit_plan malloc pid i opt rs e = Some (status, e')"
  shows "ledger_step (abs_engine e) (abs_engine e')"
proof -
  have n: "en_batches e i = None" using s by (auto simp: submit_plan_def split: if_splits)
  have hist: "en_submitted e i = []" "en_taken e i = []" using assms(1) n by (auto simp: fresh_history_def)
  let ?plan = "plan_transfers malloc i opt rs"
  show ?thesis
  proof (cases "rs = [] \<or> plan_status ?plan \<noteq> KARU_OK")
    case True
    then have e': "e' = put_batch i (new_batch pid) e" using s n by (auto simp: submit_plan_def Let_def split: if_splits)
    have "ledger_step (abs_engine e) (put_book i \<lparr>bk_submitted = [], bk_ready = [], bk_taken = [],
        bk_pending = sum_list (map length ([] :: tag list list)), bk_live = length ([] :: tag list list), bk_cancelled = False\<rparr>
        ((abs_engine e)\<lparr>lg_flight := lg_flight (abs_engine e) + image_mset (Pair i) (mset [])\<rparr>))"
      by (rule ledger_step.opened [where entries = "[]"]) (simp_all add: abs_engine_def n)
    moreover have "abs_engine e' = put_book i \<lparr>bk_submitted = [], bk_ready = [], bk_taken = [],
        bk_pending = sum_list (map length ([] :: tag list list)), bk_live = length ([] :: tag list list), bk_cancelled = False\<rparr>
        ((abs_engine e)\<lparr>lg_flight := lg_flight (abs_engine e) + image_mset (Pair i) (mset [])\<rparr>)"
      unfolding e' using hist
      by (auto simp: abs_engine_def put_book_def put_batch_def in_flight_def book_of_new fun_eq_iff)
    ultimately show ?thesis by simp
  next
    case False
    then have ok: "plan_status ?plan = KARU_OK" by simp
    note tags = plan_tags [OF assms(2,3) ok]
    let ?ts = "plan_transfers_of ?plan" and ?es = "map (map part_tag \<circ> t_parts) (plan_transfers_of ?plan)"
    have e': "e' = put_batch i (open_batch pid ?plan) (e\<lparr>en_submitting := en_submitting e @ ?ts,
        en_submitted := (en_submitted e)(i := map rq_tag rs)\<rparr>)"
      using s n False by (auto simp: submit_plan_def Let_def split: if_splits)
    let ?k = "\<lparr>bk_submitted = map rq_tag rs, bk_ready = map cp_tag (plan_immediate ?plan), bk_taken = [],
        bk_pending = sum_list (map length ?es), bk_live = length ?es, bk_cancelled = False\<rparr>"
    have "map entry ?ts = map (Pair i) ?es" using tags(2) by (simp add: entry_def comp_def)
    then have "entries ?ts = image_mset (Pair i) (mset ?es)" unfolding entries_def by (simp only: mset_map)
    then have "abs_engine e' = put_book i ?k ((abs_engine e)\<lparr>lg_flight := lg_flight (abs_engine e) + image_mset (Pair i) (mset ?es)\<rparr>)"
      unfolding e' using hist open_batch_book [of pid ?plan]
      by (auto simp: abs_engine_def put_book_def put_batch_def in_flight_def book_of_def fun_eq_iff comp_def)
    moreover have "ledger_step (abs_engine e) (put_book i ?k ((abs_engine e)\<lparr>lg_flight := lg_flight (abs_engine e) + image_mset (Pair i) (mset ?es)\<rparr>))"
      by (rule ledger_step.opened) (use n tags(1) in \<open>simp_all add: abs_engine_def\<close>)
    ultimately show ?thesis by simp
  qed
qed

lemma mark_simulated: "mark_cancelled i e = Some e' \<Longrightarrow> ledger_step (abs_engine e) (abs_engine e')"
proof -
  assume "mark_cancelled i e = Some e'"
  then obtain b where b: "en_batches e i = Some b" "e' = put_batch i (b\<lparr>cancelled := True\<rparr>) e"
    by (auto simp: mark_cancelled_def)
  let ?k = "book_of (en_submitted e i) (en_taken e i) b"
  have "abs_engine e' = put_book i (?k\<lparr>bk_cancelled := True\<rparr>) (abs_engine e)"
    using b by (auto simp: abs_engine_def put_book_def put_batch_def in_flight_def book_of_def fun_eq_iff)
  moreover have "ledger_step (abs_engine e) (put_book i (?k\<lparr>bk_cancelled := True\<rparr>) (abs_engine e))"
    by (rule ledger_step.cancelled) (simp add: abs_engine_def b)
  ultimately show ?thesis by simp
qed

lemma next_simulated:
  assumes "next_in i timeout e = Some (status, e')"
  shows "ledger_step\<^sup>*\<^sup>* (abs_engine e) (abs_engine e')"
proof -
  obtain b got b' where b: "en_batches e i = Some b" "batch_next b timeout = Some (status, got, b')"
    and e': "e' = put_batch i b' (case got of None \<Rightarrow> e | Some c \<Rightarrow> e\<lparr>en_taken := (en_taken e)(i := en_taken e i @ [cp_tag c])\<rparr>)"
    using assms by (auto simp: next_in_def split: option.splits)
  show ?thesis
  proof (cases got)
    case None
    with b(2) have "b' = b" by (auto simp: batch_next_def split: if_splits list.splits)
    with None b(1) e' have "abs_engine e' = abs_engine e"
      by (auto simp: abs_engine_def put_batch_def in_flight_def fun_eq_iff)
    then show ?thesis by simp
  next
    case (Some c)
    with b(2) obtain cs where r: "ready b = c # cs" "b' = b\<lparr>ready := cs\<rparr>"
      by (auto simp: batch_next_def split: if_splits list.splits)
    let ?k = "book_of (en_submitted e i) (en_taken e i) b"
    let ?l = "put_book i (?k\<lparr>bk_ready := map cp_tag cs, bk_taken := bk_taken ?k @ [cp_tag c]\<rparr>) (abs_engine e)"
    have "ledger_step (abs_engine e) ?l"
      by (rule ledger_step.taken) (simp_all add: abs_engine_def b book_of_def r)
    moreover have "abs_engine e' = ?l"
      using b r Some e' by (auto simp: abs_engine_def put_book_def put_batch_def in_flight_def book_of_def fun_eq_iff)
    ultimately show ?thesis by simp
  qed
qed

lemma stop_simulated: "ledger_step (abs_engine e) (abs_engine (stop_engine e))"
proof -
  have "abs_engine (stop_engine e) = (abs_engine e)\<lparr>lg_stop := True\<rparr>"
    by (simp add: abs_engine_def stop_engine_def in_flight_def)
  then show ?thesis using ledger_step.stopped by simp
qed

section \<open>The engine's own invariant\<close>

definition loop_ok :: "io_loop \<Rightarrow> bool" where
  "loop_ok lp \<longleftrightarrow> length (lp_active lp) + length (lp_resolving lp) + length (lp_waiting lp) \<le> lp_limit lp"

definition slots_ok :: "engine \<Rightarrow> bool" where
  "slots_ok e \<longleftrightarrow> map lp_limit (en_loops e) = loop_limits (concurrency (en_options e)) (io_threads (en_options e)) \<and>
     (\<forall>lp \<in> set (en_loops e). loop_ok lp) \<and>
     length (en_file_held e) \<le> kFileWorkers \<and> length (en_credential_held e) \<le> kCredentialWorkers"

definition buffers_ok :: "engine \<Rightarrow> bool" where
  "buffers_ok e \<longleftrightarrow> (\<forall>p \<in> flight_parts e. part_buffer p \<noteq> None)"

definition engine_ok :: "engine \<Rightarrow> bool" where
  "engine_ok e \<longleftrightarrow> fresh_history e \<and> slots_ok e \<and> buffers_ok e"

lemma slots_queues: "same_queues e e' \<Longrightarrow> slots_ok e \<Longrightarrow> slots_ok e'"
  by (simp add: same_queues_def slots_ok_def)

lemma slots_set_loop:
  assumes "slots_ok e" "i < length (en_loops e)" "loop_ok (en_loops e ! i) \<Longrightarrow> loop_ok lp" "lp_limit lp = lp_limit (en_loops e ! i)"
  shows "slots_ok (set_loop i lp e)"
proof -
  have "map lp_limit ((en_loops e)[i := lp]) = map lp_limit (en_loops e)"
    using assms(2,4) by (simp add: map_update) (metis length_map list_update_id nth_map)
  moreover have "loop_ok (en_loops e ! i)" using assms(1,2) by (simp add: slots_ok_def)
  ultimately show ?thesis
    using assms set_update_subset_insert [of "en_loops e" i lp] by (auto simp: slots_ok_def set_loop_def)
qed

lemma slots_lists:
  "slots_ok e \<Longrightarrow> slots_ok (e\<lparr>en_http := a\<rparr>)" "slots_ok e \<Longrightarrow> slots_ok (e\<lparr>en_files := a\<rparr>)"
  "slots_ok e \<Longrightarrow> slots_ok (e\<lparr>en_credentials := a\<rparr>)" "slots_ok e \<Longrightarrow> slots_ok (e\<lparr>en_submitting := a\<rparr>)"
  "slots_ok e \<Longrightarrow> slots_ok (e\<lparr>en_submitted := b\<rparr>)" "slots_ok e \<Longrightarrow> slots_ok (e\<lparr>en_taken := b\<rparr>)"
  "slots_ok e \<Longrightarrow> slots_ok (e\<lparr>en_memory := m\<rparr>)" "slots_ok e \<Longrightarrow> slots_ok (put_batch j x e)"
  "slots_ok e \<Longrightarrow> slots_ok (e\<lparr>en_stop := c\<rparr>)" "slots_ok e \<Longrightarrow> slots_ok (e\<lparr>en_batches := g\<rparr>)"
  "slots_ok e \<Longrightarrow> slots_ok (e\<lparr>en_endings := h\<rparr>)"
  by (simp_all add: slots_ok_def put_batch_def)

lemma slots_held:
  "slots_ok e \<Longrightarrow> j < length (en_file_held e) \<Longrightarrow> slots_ok (e\<lparr>en_file_held := without j (en_file_held e)\<rparr>)"
  "slots_ok e \<Longrightarrow> j < length (en_credential_held e) \<Longrightarrow> slots_ok (e\<lparr>en_credential_held := without j (en_credential_held e)\<rparr>)"
  by (auto simp: slots_ok_def without_def)

lemmas slots_intros = slots_set_loop slots_lists slots_held
lemmas slots_done = slots_queues [OF finish_in_queues] slots_queues [OF discard_in_queues]
  slots_queues [OF finish_all_queues] slots_queues [OF discard_all_queues]

lemma start_in_slots:
  assumes "slots_ok e" "i < length (en_loops e)" "lp_limit lp = lp_limit (en_loops e ! i)"
    and "length (lp_active lp) + length (lp_resolving lp) + length (lp_waiting lp) < lp_limit lp"
    and "start_in i lp env prepared t e = Some e'"
  shows "slots_ok e'"
proof -
  obtain b where b: "en_batches e (t_batch t) = Some b" using assms(5) by (auto simp: start_in_def split: option.splits)
  have l: "slots_ok (set_loop i lp e)" using assms by (intro slots_set_loop) (auto simp: loop_ok_def)
  show ?thesis
  proof (cases "is_cancelled b")
    case True
    with assms(5) b have "discard_in t (set_loop i lp e) = Some e'" by (simp add: start_in_def)
    from slots_done(2) [OF this l] show ?thesis .
  next
    case False
    then have p: "place i lp (start_transfer env (en_options e) b prepared t) e = Some e'" using assms(5) b by (simp add: start_in_def)
    show ?thesis
      using p assms(1-4) slots_done(1) [OF _ l]
      by (auto simp: place_def loop_ok_def split: start_outcome.splits intro!: slots_set_loop)
  qed
qed

lemma engine_step_slots: "engine_step e e' \<Longrightarrow> slots_ok e \<Longrightarrow> slots_ok e'"
proof (induction rule: engine_step.induct)
  case (s_submit opt requests malloc pid i e status e')
  then show ?case by (auto simp: submit_plan_def Let_def split: if_splits intro!: slots_intros)
next
  case (s_queue e i)
  then show ?case by (auto simp: submit_queue_def Let_def intro!: slots_intros)
next
  case (s_http e i)
  then show ?case by (auto simp: submit_http_def intro!: slots_intros)
next
  case (s_file_take e e')
  then show ?case by (auto simp: file_take_def slots_ok_def split: list.splits if_splits)
next
  case (s_file_finish j fenv e e')
  then show ?case
    by (auto simp: file_finish_def Let_def split: if_splits option.splits file_outcome.splits intro!: slots_intros
        elim!: slots_done)
next
  case (s_credential_take e e')
  then show ?case by (auto simp: credential_take_def slots_ok_def split: list.splits if_splits)
next
  case (s_credential_finish j cenv e e')
  then show ?case
    by (auto simp: credential_finish_def queue_http_def Let_def split: if_splits credential_outcome.splits intro!: slots_intros
        elim!: slots_done)
next
  case (s_take_http i e e')
  then show ?case by (auto simp: take_http_def with_loop_Some Let_def loop_ok_def intro!: slots_intros)
next
  case (s_discard i e e')
  have f: "length (filter P a) + length (filter P b) + c \<le> n" if "length a + length b + c \<le> n"
    for P :: "transfer \<Rightarrow> bool" and a b c n
    using length_filter_le [of P a] length_filter_le [of P b] that by linarith
  from s_discard show ?case
    by (auto simp: discard_cancelled_http_def with_loop_Some Let_def loop_ok_def split: if_splits
        elim!: slots_done intro!: slots_intros f)
next
  case (s_retries i now e e')
  then show ?case by (auto simp: retries_due_def with_loop_Some loop_ok_def intro!: slots_intros)
next
  case (s_swap i e e')
  then show ?case by (auto simp: swap_resolving_def with_loop_Some loop_ok_def split: if_splits intro!: slots_intros)
next
  case (s_resume i senv e e')
  then obtain t ts where w: "i < length (en_loops e)" "lp_waiting (en_loops e ! i) = t # ts"
    "start_in i ((en_loops e ! i)\<lparr>lp_waiting := ts\<rparr>) senv True t e = Some e'"
    by (auto simp: resume_waiting_def with_loop_Some split: list.splits)
  moreover have "loop_ok (en_loops e ! i)" using s_resume(2) w(1) by (simp add: slots_ok_def)
  ultimately show ?case using s_resume(2) by (intro start_in_slots [OF s_resume(2) w(1) _ _ w(3)]) (auto simp: loop_ok_def)
next
  case (s_start i senv e e')
  then show ?case
    by (auto simp: start_pending_def with_loop_Some split: list.splits if_splits elim!: start_in_slots [rotated -1])
next
  case (s_failed i msg e e')
  then show ?case by (auto simp: perform_failed_def with_loop_Some loop_ok_def elim!: slots_done intro!: slots_intros)
next
  case (s_header i j henv data sz cnt e e')
  then show ?case by (auto simp: loop_header_def with_loop_Some loop_ok_def split: if_splits intro!: slots_intros)
next
  case (s_body i j info data sz cnt e e')
  then show ?case
    by (auto simp: loop_body_def with_loop_Some loop_ok_def Let_def split: if_splits option.splits intro!: slots_intros)
next
  case (s_message i j denv code e e')
  then show ?case
    by (auto simp: loop_message_def with_loop_Some loop_ok_def Let_def without_def put_batch_def
        split: if_splits option.splits prod.splits done_outcome.splits elim!: slots_done intro!: slots_intros)
next
  case (s_shutdown i e e')
  then show ?case by (auto simp: loop_shutdown_def with_loop_Some loop_ok_def split: if_splits elim!: slots_done intro!: slots_intros)
next
  case (s_mark i e e')
  then show ?case by (auto simp: mark_cancelled_def intro!: slots_intros)
next
  case (s_cancel_queues i e e')
  then show ?case by (auto simp: cancel_queues_def Let_def split: option.splits if_splits elim!: slots_done intro!: slots_intros)
next
  case (s_cancel_http i e e')
  then show ?case by (auto simp: cancel_http_def split: option.splits if_splits elim!: slots_done intro!: slots_intros)
next
  case (s_cancel_loops e)
  then show ?case by (auto simp: cancel_loops_def slots_ok_def loop_ok_def comp_def)
next
  case (s_next i timeout_ms e status e')
  then show ?case by (auto simp: next_in_def split: option.splits intro!: slots_intros)
next
  case (s_stop e)
  then show ?case by (auto simp: stop_engine_def intro!: slots_intros)
next
  case (s_destroy e e')
  then show ?case by (auto simp: destroy_queues_def split: if_splits elim!: slots_done intro!: slots_intros)
next
  case (s_deliver j e e')
  then show ?case by (auto elim!: deliver_next_Some intro!: slots_intros)
next
  case (s_end j e e')
  then show ?case by (auto elim!: end_transfer_Some intro!: slots_intros)
qed

lemma effect_history:
  assumes "effect e e'"
  shows "\<forall>i. (en_batches e' i = None) = (en_batches e i = None)" "en_submitted e' = en_submitted e" "en_taken e' = en_taken e"
proof -
  have h: "(en_batches e1 i = None) = (en_batches e i = None)" if "hands e e1 ts" for e1 ts i
    using that unfolding hands_def books_same_def by (metis rel_option_None1 rel_option_None2)
  have d: "(en_batches e2 i = None) = (en_batches e1 i = None)" if "discard_all ts e1 = Some e2" for ts e1 e2 i
  proof (use that in \<open>induction ts arbitrary: e1\<close>)
    case (Cons t ts)
    then obtain y where y: "discard_in t e1 = Some y" "discard_all ts y = Some e2" by (auto simp: bind_eq_Some_conv)
    have "(en_batches y i = None) = (en_batches e1 i = None)" by (rule discard_in_Some [OF y(1)]) auto
    with Cons.IH [OF y(2)] show ?case by simp
  qed simp
  show "\<forall>i. (en_batches e' i = None) = (en_batches e i = None)"
    using assms h d by (induction rule: effect.induct) (simp, metis)
  show "en_submitted e' = en_submitted e" "en_taken e' = en_taken e"
    using assms
    by (induction rule: effect.induct)
      (auto simp: hands_def books_same_def same_queues_def dest!: discard_all_queues)
qed

lemma ending_history:
  assumes "deliver_next j e = Some e' \<or> end_transfer j e = Some e'"
  shows "\<forall>i. (en_batches e' i = None) = (en_batches e i = None)" "en_submitted e' = en_submitted e" "en_taken e' = en_taken e"
  using assms by (auto elim!: deliver_next_Some end_transfer_Some simp: put_batch_def split: if_splits)

text \<open>All steps but six only move or discard transfers.\<close>

lemma engine_step_cases:
  assumes "engine_step e e'"
  obtains (effect) "effect e e'"
    | (submit) opt rs malloc pid i status where "usable_options opt" "\<forall>r \<in> set rs. rq_length r \<noteq> 0"
        "submit_plan malloc pid i opt rs e = Some (status, e')"
    | (mark) i where "mark_cancelled i e = Some e'"
    | (got) i ms status where "next_in i ms e = Some (status, e')"
    | (stop) "e' = stop_engine e"
    | (ending) j where "deliver_next j e = Some e' \<or> end_transfer j e = Some e'"
  using assms
proof (cases rule: engine_step.cases)
  case (s_submit opt requests malloc pid i status)
  then show ?thesis using submit by blast
next
  case (s_mark i)
  then show ?thesis using mark by blast
next
  case (s_next i ms status)
  then show ?thesis using got by blast
next
  case s_stop
  then show ?thesis using stop by blast
next
  case (s_deliver j)
  then show ?thesis using ending by blast
next
  case (s_end j)
  then show ?thesis using ending by blast
qed (rule effect, auto intro: queue_effect http_effect file_take_effect file_finish_effect credential_take_effect
    credential_finish_effect take_http_effect discard_cancelled_effect retries_due_effect swap_effect resume_effect
    start_effect failed_effect header_effect body_effect message_effect shutdown_effect cancel_queues_effect
    cancel_http_effect cancel_loops_effect destroy_effect)+

lemma engine_step_ok:
  assumes "engine_ok e" "engine_step e e'"
  shows "engine_ok e'"
proof -
  have s: "slots_ok e'" using assms engine_step_slots by (simp add: engine_ok_def)
  have inv: "fresh_history e" "buffers_ok e" using assms(1) by (simp_all add: engine_ok_def)
  have "fresh_history e' \<and> buffers_ok e'"
    using assms(2)
  proof (cases rule: engine_step_cases)
    case effect
    note h = effect_history [OF effect]
    have "fresh_history e'" using inv(1) h by (simp add: fresh_history_def)
    moreover have "buffers_ok e'" using inv(2) effect_parts [OF effect] unfolding buffers_ok_def by blast
    ultimately show ?thesis by simp
  next
    case (submit opt rs malloc pid i status)
    have n: "en_batches e i = None" using submit(3) by (auto simp: submit_plan_def split: if_splits)
    have "\<forall>t \<in> set (plan_transfers_of (plan_transfers malloc i opt rs)). \<forall>p \<in> set (t_parts t). part_buffer p \<noteq> None"
      if "plan_status (plan_transfers malloc i opt rs) = KARU_OK"
      using plan_tags(2) [OF submit(1,2) that] by auto
    moreover have "flight_parts e' \<subseteq> flight_parts e \<union> (if plan_status (plan_transfers malloc i opt rs) = KARU_OK
        then \<Union>t \<in> set (plan_transfers_of (plan_transfers malloc i opt rs)). set (t_parts t) else {})"
      using submit(3) by (auto simp: submit_plan_def Let_def flight_parts_alt put_batch_def in_flight_def split: if_splits)
    ultimately have "buffers_ok e'" using inv(2) unfolding buffers_ok_def by (fastforce split: if_splits)
    moreover have "fresh_history e'"
      using submit(3) inv(1) n by (auto simp: submit_plan_def Let_def fresh_history_def put_batch_def split: if_splits)
    ultimately show ?thesis by simp
  next
    case (mark i)
    have "flight_parts e' = flight_parts e" using mark by (auto simp: mark_cancelled_def flight_parts_def in_flight_def put_batch_def)
    moreover have "fresh_history e'" using mark inv(1) by (auto simp: mark_cancelled_def fresh_history_def put_batch_def split: if_splits)
    ultimately show ?thesis using inv(2) by (simp add: buffers_ok_def)
  next
    case (got i ms status)
    have "flight_parts e' = flight_parts e"
      using got by (auto simp: next_in_def flight_parts_def in_flight_def put_batch_def split: option.splits)
    moreover have "fresh_history e'"
      using got inv(1) by (auto simp: next_in_def fresh_history_def put_batch_def split: if_splits option.splits)
    ultimately show ?thesis using inv(2) by (simp add: buffers_ok_def)
  next
    case stop
    with inv show ?thesis by (simp add: stop_engine_def fresh_history_def buffers_ok_def flight_parts_alt in_flight_def)
  next
    case (ending j)
    have "flight_parts e' \<subseteq> flight_parts e" using ending ending_parts by blast
    then show ?thesis using inv ending_history [OF ending] by (auto simp: fresh_history_def buffers_ok_def)
  qed
  with s show ?thesis by (simp add: engine_ok_def)
qed

lemma engine_step_simulated:
  assumes "engine_ok e" "engine_step e e'"
  shows "ledger_step\<^sup>*\<^sup>* (abs_engine e) (abs_engine e')"
  using assms(2)
proof (cases rule: engine_step_cases)
  case effect
  then show ?thesis by (rule effect_simulated)
next
  case (submit opt rs malloc pid i status)
  then show ?thesis using submit_simulated assms(1) by (auto simp: engine_ok_def)
next
  case (mark i)
  then show ?thesis using mark_simulated by blast
next
  case (got i ms status)
  then show ?thesis by (rule next_simulated)
next
  case stop
  then show ?thesis using stop_simulated by auto
next
  case (ending j)
  then show ?thesis using deliver_simulated end_simulated by blast
qed

definition engine_init :: "engine \<Rightarrow> bool" where
  "engine_init e \<longleftrightarrow> (\<exists>opt m. e = new_engine opt m)"

lemma in_flight_new: "in_flight (new_engine opt m) = []"
proof -
  have "loop_transfers (new_loop n) = []" for n by (simp add: loop_transfers_def new_loop_def)
  then show ?thesis by (simp add: in_flight_def new_engine_def)
qed

lemma engine_init_ok: "engine_init e \<Longrightarrow> engine_ok e"
  using in_flight_new
  by (auto simp: engine_init_def engine_ok_def fresh_history_def slots_ok_def buffers_ok_def flight_parts_alt loop_ok_def)
    (auto simp: new_engine_def new_loop_def comp_def)

lemma engine_init_abs: "engine_init e \<Longrightarrow> empty_ledger (abs_engine e)"
  by (auto simp: engine_init_def empty_ledger_def abs_engine_def in_flight_new) (simp add: new_engine_def)

interpretation engine_ledger: refines engine_init engine_step empty_ledger ledger_step abs_engine engine_ok ledger_ok
  by unfold_locales
    (auto simp: engine_init_abs engine_init_ok empty_ledger_ok intro: engine_step_ok ledger_step_ok engine_step_simulated)

section \<open>Properties of every schedule\<close>

lemma reachable_ok:
  assumes "engine_step\<^sup>*\<^sup>* (new_engine opt m) e"
  shows "engine_ok e" "ledger_ok (abs_engine e)"
  using engine_ledger.reachable_invariant [OF _ assms] by (auto simp: engine_init_def)

lemma reachable_book:
  assumes "engine_step\<^sup>*\<^sup>* (new_engine opt m) e" "en_batches e i = Some b"
  shows "book_ok (en_stop e) (flight_of (abs_engine e) i) (book_of (en_submitted e i) (en_taken e i) b)"
proof -
  have "lg_book (abs_engine e) i = Some (book_of (en_submitted e i) (en_taken e i) b)"
    using assms(2) by (simp add: lg_book_abs)
  with reachable_ok(2) [OF assms(1)] show ?thesis unfolding ledger_ok_def by (auto simp: abs_engine_def)
qed

lemma flight_of_abs: "flight_of (abs_engine e) i = {#} \<longleftrightarrow> (\<forall>t \<in> set (in_flight e). t_batch t \<noteq> i)"
  by (auto simp: flight_of_def abs_engine_def entries_def entry_def filter_mset_eq_mempty_iff)

lemma sum_length_zero: "sum_mset (image_mset length es) = 0 \<Longrightarrow> \<Sum>\<^sub># (image_mset mset es) = {#}"
  by (induction es) auto

text \<open>An ending is never stuck: its batch exists and none of its parts has a null buffer.\<close>

lemma endings_go_on:
  assumes r: "engine_step\<^sup>*\<^sup>* (new_engine opt m) e" and j: "j < length (en_endings e)"
  shows "\<exists>e'. deliver_next j e = Some e' \<or> end_transfer j e = Some e'"
proof -
  let ?g = "en_endings e ! j" and ?i = "t_batch (eg_transfer (en_endings e ! j))"
  have g: "ending_rest ?g \<in> set (in_flight e)" using j by (auto simp: in_flight_def)
  then have "entry (ending_rest ?g) \<in># lg_flight (abs_engine e)" by (simp add: abs_engine_def entries_def)
  then have "lg_book (abs_engine e) ?i \<noteq> None"
    using reachable_ok(2) [OF r] by (auto simp: ledger_ok_def entry_def ending_rest_def)
  then obtain b where b: "en_batches e ?i = Some b" by (auto simp: lg_book_abs)
  show ?thesis
  proof (cases "eg_parts ?g")
    case Nil
    with b j have "\<exists>e'. end_transfer j e = Some e'" by (simp add: end_transfer_def Let_def)
    then show ?thesis by blast
  next
    case (Cons p ps)
    then have "p \<in> flight_parts e" using g by (force simp: flight_parts_alt ending_rest_def)
    then have "part_buffer p \<noteq> None" using reachable_ok(1) [OF r] by (auto simp: engine_ok_def buffers_ok_def)
    then have "\<exists>m'. copy_from_scratch (eg_transfer ?g) p (part_completion (eg_transfer ?g) (eg_status ?g) (eg_detail ?g) p) (en_memory e) = Some m'"
      by (auto simp: copy_from_scratch_def split: if_splits)
    with b j Cons have "\<exists>e'. deliver_next j e = Some e'" by (simp add: deliver_next_def Let_def)
    then show ?thesis by blast
  qed
qed

text \<open>A run of the engine over two requests of a local file.\<close>

definition sample_requests :: "request list" where
  "sample_requests = [\<lparr>rq_locator = empty_resolved\<lparr>res_backend := File\<rparr>, rq_offset = 4, rq_length = 2, rq_buffer = Some 200,
       rq_tag = 8, rq_if_match = []\<rparr>,
     \<lparr>rq_locator = empty_resolved\<lparr>res_backend := File\<rparr>, rq_offset = 1, rq_length = 3, rq_buffer = Some 100,
       rq_tag = 7, rq_if_match = []\<rparr>]"

definition sample_t :: transfer where
  "sample_t = new_transfer\<lparr>t_batch := 3, t_locator := empty_resolved\<lparr>res_backend := File\<rparr>, t_offset := 1, t_length := 5,
     t_parts := [\<lparr>relative_offset = 0, part_length = 3, part_buffer = Some 100, part_tag = 7, part_owned = None\<rparr>,
                 \<lparr>relative_offset = 3, part_length = 2, part_buffer = Some 200, part_tag = 8, part_owned = None\<rparr>],
     scattered := True\<rparr>"

definition sample_planned :: transfer_plan where
  "sample_planned = \<lparr>plan_status = KARU_OK, plan_immediate = [], plan_transfers_of = [sample_t]\<rparr>"

definition sample_e0 :: engine where
  "sample_e0 = new_engine default_client_options (\<lambda>_. CHR 0x00)"

definition sample_e1 :: engine where
  "sample_e1 = put_batch 3 (open_batch 1 sample_planned) (sample_e0\<lparr>en_submitting := [sample_t], en_submitted := (\<lambda>_. [])(3 := [8, 7])\<rparr>)"

definition sample_e2 :: engine where
  "sample_e2 = sample_e1\<lparr>en_submitting := [], en_file_held := [sample_t]\<rparr>"

definition sample_e3 :: engine where
  "sample_e3 =
     (case file_round sample_file_env sample_t (\<lambda>_. CHR 0x00) (open_batch 1 sample_planned) of
        Some (File_Finished t status detail m, b) \<Rightarrow>
          (case finish_transfer t status detail m b of
             Some (m', b') \<Rightarrow> put_batch 3 b' ((put_batch 3 b (sample_e2\<lparr>en_file_held := [], en_memory := m\<rparr>))\<lparr>en_memory := m'\<rparr>)
           | None \<Rightarrow> sample_e2)
      | _ \<Rightarrow> sample_e2)"

definition sample_e4 :: engine where
  "sample_e4 = snd (the (next_in 3 0 sample_e3))"

definition sample_e5 :: engine where
  "sample_e5 = snd (the (next_in 3 0 sample_e4))"

text \<open>Another run, in which the batch is cancelled while its transfer is queued.\<close>

definition sample_marked :: engine where
  "sample_marked = the (mark_cancelled 3 (submit_queue 3 sample_e1))"

definition sample_dropped :: engine where
  "sample_dropped = the (cancel_queues 3 sample_marked)"

definition sample_left :: engine where
  "sample_left = the (end_transfer 0 sample_dropped)"

lemma sample_planned_is: "plan_transfers sample_malloc 3 default_client_options sample_requests = sample_planned"
  by code_simp

lemma sample_e1_step: "engine_step sample_e0 sample_e1"
proof -
  have "submit_plan sample_malloc 1 3 default_client_options sample_requests sample_e0 = Some (KARU_OK, sample_e1)"
    unfolding submit_plan_def sample_planned_is
    by (simp add: sample_e1_def sample_e0_def new_engine_def sample_planned_def Let_def) (simp add: sample_requests_def)
  moreover have "usable_options default_client_options" "\<forall>r \<in> set sample_requests. rq_length r \<noteq> 0" by code_simp+
  ultimately show ?thesis using engine_step.s_submit by blast
qed

lemma sample_e2_step: "engine_step (submit_queue 3 sample_e1) sample_e2"
proof -
  have t: "t_batch sample_t = 3" "is_file sample_t" by (simp_all add: sample_t_def is_file_def)
  have q: "submit_queue 3 sample_e1 = sample_e1\<lparr>en_submitting := [], en_files := [sample_t]\<rparr>"
    by (simp add: submit_queue_def sample_e1_def sample_e0_def new_engine_def put_batch_def Let_def t)
  have "file_take (submit_queue 3 sample_e1) = Some sample_e2"
    unfolding q by (simp add: file_take_def kFileWorkers_def sample_e2_def sample_e1_def sample_e0_def new_engine_def put_batch_def)
  then show ?thesis by (rule engine_step.s_file_take)
qed

lemma sample_round:
  obtains t m b' where "file_round sample_file_env sample_t (\<lambda>_. CHR 0x00) b = Some (File_Finished t KARU_OK [] m, b')"
    "key t = key sample_t" "same_book b b'"
proof -
  have "map_option (\<lambda>(o', b). case o' of File_Finished t s d m \<Rightarrow> Some (s, d) | _ \<Rightarrow> None)
      (file_round sample_file_env sample_t (\<lambda>_. CHR 0x00) b) = Some (Some (KARU_OK, []))"
    by code_simp
  then obtain o' b' where r: "file_round sample_file_env sample_t (\<lambda>_. CHR 0x00) b = Some (o', b')"
    "(case o' of File_Finished t s d m \<Rightarrow> Some (s, d) | _ \<Rightarrow> None) = Some (KARU_OK, [])" by auto
  then obtain t m where o': "o' = File_Finished t KARU_OK [] m" by (cases o') auto
  show ?thesis using that [of t m b'] r(1) o' file_round_fixed(1) [OF r(1)] file_round_fixed(2) [OF r(1) o'] by simp
qed

lemma sample_e3_is:
  obtains b where "engine_step\<^sup>*\<^sup>* sample_e2 sample_e3" "en_batches sample_e3 3 = Some b"
    "map cp_tag (ready b) = [7, 8]" "\<not> cancelled b" "pending_parts b = 0" "live_transfers b = 0"
    "en_taken sample_e3 3 = []" "en_submitted sample_e3 3 = [8, 7]" "en_stop sample_e3 = False"
    "concurrency (en_options sample_e3) = 64"
proof -
  let ?b = "open_batch 1 sample_planned"
  let ?m = "\<lambda>_ :: addr. CHR 0x00"
  obtain t m b' where r: "file_round sample_file_env sample_t ?m ?b = Some (File_Finished t KARU_OK [] m, b')"
    "key t = key sample_t" "same_book ?b b'" using sample_round .
  have t: "t_batch t = 3" "t_parts t = t_parts sample_t" using r(2) by (simp_all add: key_def sample_t_def)
  have e2: "en_file_held sample_e2 = [sample_t]" "en_batches sample_e2 3 = Some ?b" "en_memory sample_e2 = ?m"
    "en_taken sample_e2 3 = []" "en_submitted sample_e2 3 = [8, 7]" "en_stop sample_e2 = False" "t_batch sample_t = 3"
    "concurrency (en_options sample_e2) = 64"
    by (simp_all add: sample_e2_def sample_e1_def sample_e0_def new_engine_def put_batch_def sample_t_def default_client_options_def)
  let ?e = "put_batch 3 b' (sample_e2\<lparr>en_file_held := [], en_memory := m\<rparr>)"
  have "deliverable t" using t by (simp add: deliverable_def sample_t_def)
  then obtain m2 b2 where f: "finish_transfer t KARU_OK [] m b' = Some (m2, b2)" using finish_transfer_total by blast
  have "sees sample_e2 sample_t (fe_cancelled_before sample_file_env)" "sees sample_e2 sample_t (fe_cancelled_after sample_file_env)"
    by (simp_all add: sees_def sample_file_env_def)
  then have ff: "file_finish 0 sample_file_env sample_e2 = finish_in t KARU_OK [] ?e"
    using e2 r(1) by (simp add: file_finish_def without_def)
  obtain e1 where e1: "finish_in t KARU_OK [] ?e = Some e1" using t by (simp add: finish_in_def)
  have e3: "sample_e3 = put_batch 3 b2 (?e\<lparr>en_memory := m2\<rparr>)" using r(1) f by (simp add: sample_e3_def)
  have "engine_step\<^sup>*\<^sup>* e1 sample_e3"
    using finish_in_runs [OF _ _ e1, of b' m2 b2] t f by (simp add: e3) (simp add: put_batch_def)
  moreover have "engine_step sample_e2 e1" using engine_step.s_file_finish ff e1 by simp
  ultimately have "engine_step\<^sup>*\<^sup>* sample_e2 sample_e3" by simp
  moreover note fb = finish_transfer_batch [OF f]
  have "map cp_tag (ready b2) = [7, 8]" "\<not> cancelled b2" "pending_parts b2 = 0" "live_transfers b2 = 0"
    using fb r(3) t open_batch_book [of 1 sample_planned]
    by (simp_all add: same_book_def sample_planned_def sample_t_def comp_def)
  ultimately show ?thesis using that [of b2] e2 by (simp add: e3 put_batch_def)
qed

lemma sample_e3_steps: "engine_step\<^sup>*\<^sup>* sample_e2 sample_e3"
  by (rule sample_e3_is)

lemma sample_e5_values:
  obtains b c d where "en_batches sample_e3 3 = Some b" "ready b = [c, d]" "cp_tag c = 7" "cp_tag d = 8" "\<not> cancelled b"
    "pending_parts b = 0" "live_transfers b = 0"
    "next_in 3 0 sample_e3 = Some (KARU_OK, sample_e4)" "next_in 3 0 sample_e4 = Some (KARU_OK, sample_e5)"
    "en_batches sample_e5 3 = Some (b\<lparr>ready := []\<rparr>)" "en_taken sample_e5 3 = [7, 8]"
    "en_submitted sample_e5 3 = [8, 7]" "en_stop sample_e5 = False" "concurrency (en_options sample_e5) = 64"
proof -
  obtain b c d where b: "en_batches sample_e3 3 = Some b" "ready b = [c, d]" "cp_tag c = 7" "cp_tag d = 8" "\<not> cancelled b"
    "pending_parts b = 0" "live_transfers b = 0"
    by (rule sample_e3_is) (auto simp: map_eq_Cons_conv)
  have e3: "en_taken sample_e3 3 = []" "en_submitted sample_e3 3 = [8, 7]" "en_stop sample_e3 = False"
    "concurrency (en_options sample_e3) = 64"
    by (rule sample_e3_is, simp)+
  have n1: "next_in 3 0 sample_e3 = Some (KARU_OK, put_batch 3 (b\<lparr>ready := [d]\<rparr>)
      (sample_e3\<lparr>en_taken := (en_taken sample_e3)(3 := [7])\<rparr>))"
    using b e3(1) by (simp add: next_in_def batch_next_def can_return_def)
  then have e4: "sample_e4 = put_batch 3 (b\<lparr>ready := [d]\<rparr>) (sample_e3\<lparr>en_taken := (en_taken sample_e3)(3 := [7])\<rparr>)"
    by (simp add: sample_e4_def)
  have n2: "next_in 3 0 sample_e4 = Some (KARU_OK, put_batch 3 (b\<lparr>ready := []\<rparr>)
      (sample_e4\<lparr>en_taken := (en_taken sample_e3)(3 := [7, 8])\<rparr>))"
    unfolding e4 using b by (simp add: next_in_def batch_next_def can_return_def put_batch_def)
  then have e5: "sample_e5 = put_batch 3 (b\<lparr>ready := []\<rparr>) (sample_e4\<lparr>en_taken := (en_taken sample_e3)(3 := [7, 8])\<rparr>)"
    by (simp add: sample_e5_def)
  show ?thesis
  proof (rule that [OF b])
    show "next_in 3 0 sample_e3 = Some (KARU_OK, sample_e4)" using n1 e4 by simp
    show "next_in 3 0 sample_e4 = Some (KARU_OK, sample_e5)" using n2 e5 by simp
    show "en_batches sample_e5 3 = Some (b\<lparr>ready := []\<rparr>)" "en_taken sample_e5 3 = [7, 8]"
      "en_submitted sample_e5 3 = [8, 7]" "en_stop sample_e5 = False" "concurrency (en_options sample_e5) = 64"
      using e3(2-4) by (simp_all add: e5 e4 put_batch_def)
  qed
qed

lemma sample_e4_step: "engine_step sample_e3 sample_e4"
  by (rule sample_e5_values) (rule engine_step.s_next)

lemma sample_e5_step: "engine_step sample_e4 sample_e5"
  by (rule sample_e5_values) (rule engine_step.s_next)

lemma sample_runs: "engine_step\<^sup>*\<^sup>* (new_engine default_client_options (\<lambda>_. CHR 0x00)) sample_e5"
proof -
  have "engine_step\<^sup>*\<^sup>* sample_e0 sample_e2"
    using sample_e1_step engine_step.s_queue [of sample_e1 3] sample_e2_step by auto
  moreover have "engine_step\<^sup>*\<^sup>* sample_e3 sample_e5" using sample_e4_step sample_e5_step by auto
  ultimately show ?thesis using sample_e3_steps unfolding sample_e0_def by (meson rtranclp_trans)
qed

lemma sample_cancelled:
  "mark_cancelled 3 (submit_queue 3 sample_e1) = Some sample_marked" "cancel_queues 3 sample_marked = Some sample_dropped"
  "end_transfer 0 sample_dropped = Some sample_left" "en_files sample_marked = [sample_t]"
  "cancel_returns 3 sample_left" "\<not> cancel_returns 3 sample_dropped"
proof -
  let ?b = "(open_batch 1 sample_planned)\<lparr>cancelled := True\<rparr>"
  let ?g = "\<lparr>eg_transfer = sample_t, eg_parts = [], eg_status = KARU_OK, eg_detail = []\<rparr>"
  have t: "t_batch sample_t = 3" "is_file sample_t" by (simp_all add: sample_t_def is_file_def)
  have l: "live_transfers (open_batch 1 sample_planned) = 1" by (simp add: open_batch_book sample_planned_def)
  have q: "submit_queue 3 sample_e1 = sample_e1\<lparr>en_submitting := [], en_files := [sample_t]\<rparr>"
    by (simp add: submit_queue_def sample_e1_def sample_e0_def new_engine_def put_batch_def Let_def t)
  have e1: "en_batches sample_e1 3 = Some (open_batch 1 sample_planned)" "en_credentials sample_e1 = []" "en_endings sample_e1 = []"
    by (simp_all add: sample_e1_def sample_e0_def new_engine_def put_batch_def)
  show m: "mark_cancelled 3 (submit_queue 3 sample_e1) = Some sample_marked" by (simp add: sample_marked_def mark_cancelled_def q e1)
  then have em: "sample_marked = put_batch 3 ?b (sample_e1\<lparr>en_submitting := [], en_files := [sample_t]\<rparr>)"
    by (simp add: mark_cancelled_def q e1)
  show d: "cancel_queues 3 sample_marked = Some sample_dropped"
    by (simp add: sample_dropped_def cancel_queues_def em t e1 put_batch_def discard_in_def)
  then have ed: "sample_dropped = sample_marked\<lparr>en_files := [], en_credentials := [], en_endings := [?g]\<rparr>"
    by (simp add: cancel_queues_def em t e1 put_batch_def discard_in_def)
  show f: "end_transfer 0 sample_dropped = Some sample_left"
    by (simp add: sample_left_def end_transfer_def ed em t put_batch_def)
  have el: "en_batches sample_left 3 = Some (transfer_finished ?b)"
    by (simp add: sample_left_def end_transfer_def ed em t put_batch_def)
  show "en_files sample_marked = [sample_t]" by (simp add: em put_batch_def)
  show "cancel_returns 3 sample_left" "\<not> cancel_returns 3 sample_dropped"
    using l el by (simp_all add: ed em put_batch_def cancel_returns_def)
qed

lemma sample_left_runs: "engine_step\<^sup>*\<^sup>* (new_engine default_client_options (\<lambda>_. CHR 0x00)) sample_left"
proof -
  have "engine_step\<^sup>*\<^sup>* sample_e0 (submit_queue 3 sample_e1)" using sample_e1_step engine_step.s_queue [of sample_e1 3] by auto
  moreover have "engine_step (submit_queue 3 sample_e1) sample_marked" "engine_step sample_marked sample_dropped" "engine_step sample_dropped sample_left"
    using sample_cancelled(1-3) by (blast intro: engine_step.intros)+
  ultimately show ?thesis unfolding sample_e0_def by (meson rtranclp.rtrancl_into_rtrancl)
qed

text \<open>
  C26. The engine implements the ledger: whatever way the critical sections of its threads interleave, those between the completions of one
  transfer and before the report that it is finished included, an engine that starts empty reaches only states whose
  ledger the ledger machine reaches from the empty ledger, by opening batches, delivering tags one by one,
  settling what has none left, dropping those of dead batches, handing completions to the caller, cancelling
  and stopping.
\<close>

theorem engine_refines_ledger:
  assumes "engine_step\<^sup>*\<^sup>* (new_engine opt m) e"
  shows "empty_ledger (abs_engine (new_engine opt m)) \<and>
    ledger_step\<^sup>*\<^sup>* (abs_engine (new_engine opt m)) (abs_engine e)"
  using engine_ledger.reachable_simulated [OF _ assms] by (auto simp: engine_init_def)

theorem engine_refines_ledger_witness:
  "ledger_step\<^sup>*\<^sup>* (abs_engine (new_engine default_client_options (\<lambda>_. CHR 0x00))) (abs_engine sample_e5) \<and>
   map_option bk_taken (lg_book (abs_engine sample_e5) 3) = Some [7, 8]"
proof -
  have "map_option bk_taken (lg_book (abs_engine sample_e5) 3) = Some [7, 8]"
    by (rule sample_e5_values) (simp add: lg_book_abs book_of_def)
  with engine_refines_ledger [OF sample_runs] show ?thesis by simp
qed

text \<open>
  C27. Every request is answered exactly once. In any state the engine reaches, the completions a caller
  has received and those that wait for it are, as a multiset of tags, among the requests of the batch:
  none is invented and none is answered twice. When the batch is neither cancelled nor stopped and the
  caller is told that the batch has ended, they are all of them.
\<close>

theorem every_request_completes_once:
  assumes "engine_step\<^sup>*\<^sup>* (new_engine opt m) e" and "en_batches e i = Some b"
  shows "mset (en_taken e i) + mset (map cp_tag (ready b)) \<subseteq># mset (en_submitted e i) \<and>
    (\<not> cancelled b \<and> \<not> en_stop e \<and> (\<exists>ms b'. batch_next b ms = Some (KARU_END, None, b')) \<longrightarrow>
       mset (en_taken e i) = mset (en_submitted e i))"
proof -
  note k = reachable_book [OF assms, unfolded book_ok_def]
  have sub: "mset (en_taken e i) + mset (map cp_tag (ready b)) \<subseteq># mset (en_submitted e i)"
    using k by (auto simp: book_of_def intro: subset_mset.order_trans [rotated] mset_subset_eq_add_left)
  moreover have "mset (en_taken e i) = mset (en_submitted e i)"
    if "\<not> cancelled b" "\<not> en_stop e" "batch_next b ms = Some (KARU_END, None, b')" for ms b'
  proof -
    have "ready b = []" "pending_parts b = 0"
      using that(1,3) by (auto simp: batch_next_def can_return_def split: if_splits list.splits)
    then show ?thesis using k that(1,2) sum_length_zero by (auto simp: book_of_def)
  qed
  ultimately show ?thesis by blast
qed

theorem every_request_completes_once_witness:
  "\<exists>b b'. en_batches sample_e5 3 = Some b \<and> batch_next b 0 = Some (KARU_END, None, b') \<and>
     mset (en_taken sample_e5 3) = mset (en_submitted sample_e5 3) \<and> en_submitted sample_e5 3 = [8, 7]"
proof -
  obtain b where b: "en_batches sample_e5 3 = Some b" "ready b = []" "pending_parts b = 0" "\<not> cancelled b"
    "en_stop sample_e5 = False" "en_submitted sample_e5 3 = [8, 7]"
    by (rule sample_e5_values) simp
  have "batch_next b 0 = Some (KARU_END, None, b)" using b by (simp add: batch_next_def can_return_def)
  with every_request_completes_once [OF sample_runs b(1)] b show ?thesis by blast
qed

text \<open>
  C28. Cancelling is safe. Once the condition that \<open>cancel\<close> waits for holds, no queue, worker or loop has
  a transfer of the batch, also none that it is still finishing or discarding, and no later step brings one back: nothing
  touches the buffers of the batch any more and nothing pushes to it, so the caller may free them.
\<close>

theorem cancel_leaves_nothing:
  assumes "engine_step\<^sup>*\<^sup>* (new_engine opt m) e" and "cancel_returns i e" and "engine_step\<^sup>*\<^sup>* e e'"
  shows "\<forall>t \<in> set (in_flight e'). t_batch t \<noteq> i"
proof -
  obtain b where b: "en_batches e i = Some b" "live_transfers b = 0"
    using assms(2) by (auto simp: cancel_returns_def split: option.splits)
  have none: "flight_of (abs_engine e) i = {#}"
    using reachable_book [OF assms(1) b(1)] b(2) by (simp add: book_ok_def book_of_def)
  have "ledger_step\<^sup>*\<^sup>* (abs_engine e) (abs_engine e')"
    using engine_ledger.csteps_simulate [OF assms(3)] reachable_ok [OF assms(1)] by blast
  from ledger_steps_no_flight [OF this _ none] b(1) have "flight_of (abs_engine e') i = {#}"
    by (simp add: lg_book_abs)
  then show ?thesis by (simp add: flight_of_abs)
qed

theorem cancel_leaves_nothing_witness:
  "en_files sample_marked = [sample_t] \<and> \<not> cancel_returns 3 sample_dropped \<and>
   cancel_returns 3 sample_left \<and> list_all (\<lambda>t. t_batch t \<noteq> 3) (in_flight sample_left)"
  using cancel_leaves_nothing [OF sample_left_runs sample_cancelled(5) rtranclp.rtrancl_refl] sample_cancelled(4-6)
  by (simp add: list_all_iff)

text \<open>
  C29. The client-wide limit holds: in any state the engine reaches, the transfers that are active or hold
  a slot while their host is looked up, over all loops, are at most the configured concurrency, and at most
  four workers each read files or resolve credentials.
\<close>

theorem concurrency_bounded:
  assumes "engine_step\<^sup>*\<^sup>* (new_engine opt m) e"
    and "1 \<le> concurrency (en_options e)" "concurrency (en_options e) < 2 ^ 64"
  shows "int (\<Sum>lp \<leftarrow> en_loops e. length (lp_active lp) + length (lp_resolving lp) + length (lp_waiting lp)) \<le>
      concurrency (en_options e) \<and>
    length (en_file_held e) \<le> 4 \<and> length (en_credential_held e) \<le> 4"
proof -
  have ok: "slots_ok e" using reachable_ok(1) [OF assms(1)] by (simp add: engine_ok_def)
  have "(\<Sum>lp \<leftarrow> en_loops e. length (lp_active lp) + length (lp_resolving lp) + length (lp_waiting lp)) \<le>
      (\<Sum>lp \<leftarrow> en_loops e. lp_limit lp)"
    using ok by (intro sum_list_mono) (auto simp: slots_ok_def loop_ok_def)
  also have "\<dots> = nat (concurrency (en_options e))"
    using ok sum_loop_limits [OF assms(2,3)] by (simp add: slots_ok_def)
  finally show ?thesis using ok assms(2) by (auto simp: slots_ok_def kFileWorkers_def kCredentialWorkers_def)
qed

theorem concurrency_bounded_witness:
  "int (\<Sum>lp \<leftarrow> en_loops sample_e5. length (lp_active lp) + length (lp_resolving lp) + length (lp_waiting lp)) \<le> 64"
proof -
  have "concurrency (en_options sample_e5) = 64" by (rule sample_e5_values)
  with concurrency_bounded [OF sample_runs] show ?thesis by simp
qed

end
