(* ===== verification/Karu_Probe.thy ===== *)
theory Karu_Probe
  imports Karu_Restart
begin

text \<open>
  The synchronous ranged probes, \<open>transport::get_range\<close> and \<open>object_info\<close> in
  \<open>src/src/runtime/transport.cpp\<close>: the state of one probe, the libcurl callbacks that fill it, and the
  loop over attempts. \<open>state.stats\<close> only ever receives bytes from the callbacks, so the probe carries
  that count itself; the destination span is an address and the length of the range.
\<close>

section \<open>The probe and its callbacks\<close>

record byte_range =
  br_first :: u64
  br_length :: u64
  br_suffix :: bool

record range_stats =
  rs_received_bytes :: u64
  rs_retries :: u64
  rs_throttled :: u64
  rs_new_connections :: u64
  rs_resumed :: u64
  rs_credential_refreshes :: u64

definition no_stats :: range_stats where
  "no_stats = \<lparr>rs_received_bytes = 0, rs_retries = 0, rs_throttled = 0, rs_new_connections = 0, rs_resumed = 0,
     rs_credential_refreshes = 0\<rparr>"

record range_reply =
  rr_total :: u64
  rr_first :: u64
  rr_got :: u64
  rr_etag :: string
  rr_suffix_ignored :: bool
  rr_stats :: range_stats

record probe_state =
  ps_range :: byte_range
  ps_destination :: addr
  ps_if_match :: string
  ps_fallback_limit :: u64
  ps_follow_redirects :: bool
  ps_same_origin_redirects_only :: bool
  ps_original_url :: string
  ps_received_bytes :: u64
  ps_http_status :: int
  ps_total :: u64
  ps_have_total :: bool
  ps_content_range_valid :: bool
  ps_content_range_answers :: bool
  ps_unsatisfied_content_range_valid :: bool
  ps_range_first :: u64
  ps_range_last :: u64
  ps_started :: bool
  ps_skip :: u64
  ps_wanted :: u64
  ps_stored :: u64
  ps_cut_short :: bool
  ps_body_exceeded_range :: bool
  ps_suffix_ignored :: bool
  ps_range_fallback_rejected :: bool
  ps_version_changed :: bool
  ps_redirect_blocked :: bool
  ps_retry_after :: int
  ps_response_region :: string
  ps_etag :: string
  ps_encoding :: encoding_headers
  ps_error_body :: string
  ps_error_body_received :: u64

definition new_probe :: "byte_range \<Rightarrow> addr \<Rightarrow> string \<Rightarrow> u64 \<Rightarrow> bool \<Rightarrow> bool \<Rightarrow> string \<Rightarrow> u64 \<Rightarrow> probe_state" where
  "new_probe rg dst if_match limit follow same_origin url received_bytes =
     \<lparr>ps_range = rg, ps_destination = dst, ps_if_match = if_match, ps_fallback_limit = limit,
      ps_follow_redirects = follow, ps_same_origin_redirects_only = same_origin, ps_original_url = url,
      ps_received_bytes = received_bytes, ps_http_status = 0, ps_total = 0, ps_have_total = False,
      ps_content_range_valid = False, ps_content_range_answers = False, ps_unsatisfied_content_range_valid = False,
      ps_range_first = 0, ps_range_last = 0, ps_started = False, ps_skip = 0, ps_wanted = 0, ps_stored = 0,
      ps_cut_short = False, ps_body_exceeded_range = False, ps_suffix_ignored = False,
      ps_range_fallback_rejected = False, ps_version_changed = False, ps_redirect_blocked = False,
      ps_retry_after = 0, ps_response_region = [], ps_etag = [], ps_encoding = no_encoding,
      ps_error_body = [], ps_error_body_received = 0\<rparr>"

definition reset_probe :: "probe_state \<Rightarrow> probe_state" where
  "reset_probe s =
     s\<lparr>ps_http_status := 0, ps_total := 0, ps_have_total := False, ps_content_range_valid := False,
       ps_content_range_answers := False, ps_unsatisfied_content_range_valid := False, ps_range_first := 0,
       ps_range_last := 0, ps_started := False, ps_skip := 0, ps_wanted := 0, ps_stored := 0, ps_cut_short := False,
       ps_body_exceeded_range := False, ps_suffix_ignored := False, ps_range_fallback_rejected := False,
       ps_version_changed := False, ps_redirect_blocked := False, ps_retry_after := 0, ps_response_region := [],
       ps_etag := [], ps_encoding := no_encoding, ps_error_body := [], ps_error_body_received := 0\<rparr>"

definition answers :: "byte_range \<Rightarrow> u64 \<Rightarrow> u64 \<Rightarrow> u64 \<Rightarrow> bool" where
  "answers rg first lst tot =
     (if br_suffix rg then lst + 1 = tot \<and> lst - first + 1 = min (br_length rg) tot
      else (let e = br_first rg + br_length rg - 1
            in first = br_first rg \<and> lst \<le> e \<and> (lst = e \<or> lst + 1 = tot)))"

definition start_body :: "curl_info \<Rightarrow> int \<Rightarrow> probe_state \<Rightarrow> bool \<times> probe_state" where
  "start_body info status s =
     (if transformed (ps_encoding s) then (False, s)
      else if is_strong_etag (ps_if_match s) \<and> ps_etag s \<noteq> [] \<and> ps_etag s \<noteq> ps_if_match s
      then (False, s\<lparr>ps_version_changed := True\<rparr>)
      else if status = 206
      then (if \<not> ps_content_range_answers s then (False, s)
            else (True, s\<lparr>ps_wanted := ps_range_last s - ps_range_first s + 1\<rparr>))
      else if status \<noteq> 200 then (False, s)
      else if \<not> ps_have_total s \<and> info_content_length info < 0 then (False, s)
      else (let s1 = (if ps_have_total s then s
                      else s\<lparr>ps_total := of_int (info_content_length info), ps_have_total := True\<rparr>);
                rg = ps_range s1
            in if br_suffix rg
               then (if br_length rg < ps_total s1 then (False, s1\<lparr>ps_suffix_ignored := True\<rparr>)
                     else (True, s1\<lparr>ps_range_first := 0, ps_wanted := ps_total s1\<rparr>))
               else if ps_fallback_limit s1 < br_first rg
               then (False, s1\<lparr>ps_range_fallback_rejected := True\<rparr>)
               else (True, s1\<lparr>ps_skip := br_first rg, ps_range_first := br_first rg,
                       ps_wanted := (if br_first rg < ps_total s1
                                     then min (br_length rg) (ps_total s1 - br_first rg) else 0)\<rparr>)))"

text \<open>Storing a piece of the body: the bytes to skip, then what still fits.\<close>

definition store_probe :: "int \<Rightarrow> byte list \<Rightarrow> probe_state \<times> memory \<Rightarrow> nat \<times> probe_state \<times> memory" where
  "store_probe status data sm =
     (let (s0, m) = sm;
          incoming = length data;
          drp = min (unat (ps_skip s0)) incoming;
          rest = drop drp data;
          s = s0\<lparr>ps_skip := ps_skip s0 - of_nat drp\<rparr>;
          room = ps_wanted s - ps_stored s
      in if status = 206 \<and> unat room < length rest then (0, s\<lparr>ps_body_exceeded_range := True\<rparr>, m)
         else (let tk = min (unat room) (length rest);
                   m1 = (if 0 < tk then memcpy m (ps_destination s + unat (ps_stored s)) (take tk rest) else m);
                   s1 = (if 0 < tk then s\<lparr>ps_stored := ps_stored s + of_nat tk\<rparr> else s)
               in if status = 200 \<and> ps_skip s1 = 0 \<and> ps_stored s1 = ps_wanted s1
                  then (0, s1\<lparr>ps_cut_short := True\<rparr>, m1)
                  else (incoming, s1, m1)))"

definition probe_body :: "curl_info \<Rightarrow> byte list \<Rightarrow> probe_state \<times> memory \<Rightarrow> nat \<times> probe_state \<times> memory" where
  "probe_body info data sm =
     (let (s, m) = sm;
          incoming = length data;
          status = info_response_code info
      in if 300 \<le> status \<and> status < 400 \<and> ps_follow_redirects s then (incoming, s, m)
         else if 300 \<le> status
         then (let s1 = s\<lparr>ps_error_body := capture_error_body (ps_error_body s) data\<rparr>
               in if kDrainLimit - min kDrainLimit (unat (ps_error_body_received s)) < incoming then (0, s1, m)
                  else (incoming, s1\<lparr>ps_error_body_received := ps_error_body_received s + of_nat incoming\<rparr>, m))
         else (let s1 = s\<lparr>ps_received_bytes := ps_received_bytes s + of_nat incoming\<rparr>
               in if ps_started s1 then store_probe status data (s1, m)
                  else (let (go, s2) = start_body info status (s1\<lparr>ps_started := True\<rparr>)
                        in if \<not> go then (0, s2\<lparr>ps_cut_short := True\<rparr>, m)
                           else store_probe status data (s2, m))))"

definition probe_body_callback :: "curl_info \<Rightarrow> byte list \<Rightarrow> u64 \<Rightarrow> u64 \<Rightarrow> probe_state \<times> memory \<Rightarrow>
    nat \<times> probe_state \<times> memory" where
  "probe_body_callback info data sz cnt sm =
     (case callback_size sz cnt of
        None \<Rightarrow> (0, sm)
      | Some n \<Rightarrow> probe_body info (take (unat n) data) sm)"

definition probe_content_range :: "string \<Rightarrow> probe_state \<Rightarrow> probe_state" where
  "probe_content_range value s =
     (let (ok, cr) = parse_content_range value
            \<lparr>cr_first = ps_range_first s, cr_last = ps_range_last s, cr_total = 0, cr_have_total = False\<rparr>;
          valid = (ok \<and> cr_have_total cr);
          s1 = s\<lparr>ps_range_first := cr_first cr, ps_range_last := cr_last cr, ps_content_range_valid := valid\<rparr>
      in if valid
         then s1\<lparr>ps_total := cr_total cr, ps_have_total := True,
                 ps_content_range_answers := answers (ps_range s1) (cr_first cr) (cr_last cr) (cr_total cr)\<rparr>
         else (let (unsatisfied, tot) = parse_unsatisfied_content_range value 0;
                   s2 = s1\<lparr>ps_unsatisfied_content_range_valid := unsatisfied\<rparr>
               in if unsatisfied then s2\<lparr>ps_total := tot, ps_have_total := True\<rparr> else s2))"

definition probe_header :: "header_env \<Rightarrow> string \<Rightarrow> probe_state \<Rightarrow> nat \<times> probe_state" where
  "probe_header env line s =
     (if prefix ''HTTP/'' line then (length line, (reset_probe s)\<lparr>ps_http_status := response_status line\<rparr>)
      else if header_name_is line ''location:'' \<and> 300 \<le> ps_http_status s \<and> ps_http_status s < 400 \<and>
              ps_follow_redirects s \<and> ps_same_origin_redirects_only s \<and>
              \<not> same_origin_redirect (he_urls env) (ps_original_url s) (header_value line ''location:'')
      then (0, s\<lparr>ps_redirect_blocked := True\<rparr>)
      else if header_name_is line ''content-range:''
      then (length line, probe_content_range (header_value line ''content-range:'') s)
      else if header_name_is line ''x-amz-bucket-region:''
      then (length line, s\<lparr>ps_response_region := header_value line ''x-amz-bucket-region:''\<rparr>)
      else if header_name_is line ''retry-after:''
      then (length line, s\<lparr>ps_retry_after :=
              retry_after_seconds (he_getdate env) (header_value line ''retry-after:'') (he_now env)\<rparr>)
      else if header_name_is line ''etag:''
      then (let v = header_value line ''etag:''
            in (length line, if length v \<le> 255 \<and> is_strong_etag v then s\<lparr>ps_etag := v\<rparr> else s))
      else (length line, s\<lparr>ps_encoding := record_encoding (ps_encoding s) line\<rparr>))"

definition probe_header_callback :: "header_env \<Rightarrow> byte list \<Rightarrow> u64 \<Rightarrow> u64 \<Rightarrow> probe_state \<Rightarrow> nat \<times> probe_state" where
  "probe_header_callback env data sz cnt s =
     (case callback_size sz cnt of
        None \<Rightarrow> (0, s)
      | Some n \<Rightarrow> probe_header env (take (unat n) data) s)"

section \<open>One attempt\<close>

text \<open>
  What libcurl does during \<open>curl_easy_perform\<close>: header lines and body pieces in the order they arrive.
  A callback that answers less than it was given ends the transfer with \<open>CURLE_WRITE_ERROR\<close>.
\<close>

datatype probe_event = Header_Line header_env string | Body_Piece curl_info "byte list"

fun perform :: "curl_code \<Rightarrow> probe_event list \<Rightarrow> probe_state \<times> memory \<Rightarrow> curl_code \<times> probe_state \<times> memory" where
  "perform code [] sm = (code, sm)"
| "perform code (Header_Line env line # es) sm =
     (case probe_header env line (fst sm) of
        (n, s) \<Rightarrow> (if n = length line then perform code es (s, snd sm) else (CURLE_WRITE_ERROR, s, snd sm)))"
| "perform code (Body_Piece info data # es) sm =
     (case probe_body info data sm of
        (n, s, m) \<Rightarrow> (if n = length data then perform code es (s, m) else (CURLE_WRITE_ERROR, s, m)))"

record attempt_env =
  ae_now_first :: int
  ae_prepare :: "string \<Rightarrow> request_error + prepared_request"
  ae_now_prepared :: int
  ae_setopt :: "string option"
  ae_events :: "probe_event list"
  ae_code :: curl_code
  ae_info :: curl_info
  ae_connects :: "int option"
  ae_error_text :: string
  ae_strerror :: "curl_code \<Rightarrow> string"
  ae_now_after :: int
  ae_wait_now :: int
  ae_jitter :: "int \<Rightarrow> int"

record probe_loop =
  pl_attempt :: int
  pl_region_hint :: string
  pl_region_retried :: bool
  pl_credentials_retried :: bool
  pl_unreachable_attempts :: int
  pl_stats :: range_stats
  pl_memory :: memory

definition timeout_failure :: "string \<Rightarrow> string \<Rightarrow> transport_failure" where
  "timeout_failure uri reason = \<lparr>f_status = KARU_TIMEOUT, f_detail = redact_url uri @ '': '' @ reason\<rparr>"

text \<open>What a response that was not restarted comes to: a reply, a failure, or neither of them yet.\<close>

definition judge_response :: "client_options \<Rightarrow> byte_range \<Rightarrow> prepared_request \<Rightarrow> curl_code \<Rightarrow> int \<Rightarrow> range_stats \<Rightarrow>
    probe_state \<Rightarrow> (transport_failure + range_reply) option" where
  "judge_response opt rg rq code status stats s =
     (let url = redact_url (pr_url rq);
          fail = (\<lambda>d. Some (Inl \<lparr>f_status = KARU_ERR_HTTP, f_detail = url @ d\<rparr>));
          reply = (\<lambda>first got ignored. Some (Inr \<lparr>rr_total = ps_total s, rr_first = first, rr_got = got,
                     rr_etag = ps_etag s, rr_suffix_ignored = ignored, rr_stats = stats\<rparr>));
          ok = (code = CURLE_OK);
          success = (200 \<le> status \<and> status < 300)
      in if ok \<and> status = 416 \<and> \<not> ps_unsatisfied_content_range_valid s
         then fail '': invalid Content-Range in HTTP 416''
         else if ok \<and> status = 416 \<and> (if br_suffix rg then ps_total s = 0 else ps_total s \<le> br_first rg)
         then reply (if br_suffix rg then 0 else br_first rg) 0 False
         else if ok \<and> status = 416 \<and> br_suffix rg then reply 0 0 True
         else if status = 206 \<and> ps_body_exceeded_range s
         then fail ('': response exceeded bytes '' @ u64_string (ps_range_first s) @ ''-'' @ u64_string (ps_range_last s))
         else if ok \<and> success \<and> transformed (ps_encoding s)
         then Some (Inl \<lparr>f_status = KARU_ERR_HTTP, f_detail = transformation_detail url (ps_encoding s)\<rparr>)
         else if ok \<and> ps_version_changed s
         then Some (Inl \<lparr>f_status = KARU_ERR_PRECONDITION, f_detail = url @ '': the server ignored If-Match and sent ETag '' @
                ps_etag s @ '', so the object no longer matches if_match''\<rparr>)
         else if ok \<and> status = 206
         then (if \<not> ps_content_range_answers s
               then fail (if ps_content_range_valid s
                          then '': Content-Range ['' @ u64_string (ps_range_first s) @ '', '' @ u64_string (ps_range_last s) @
                               ''] does not answer '' @ pr_range rq
                          else '': partial response has no valid object size'')
               else if ps_stored s \<noteq> ps_wanted s then fail '': response body does not match Content-Range''
               else reply (ps_range_first s) (ps_stored s) False)
         else if ok \<and> status = 200
         then (if ps_suffix_ignored s then reply 0 0 True
               else if ps_range_fallback_rejected s
               then fail ('': server ignored Range; refusing to discard '' @ u64_string (br_first rg) @
                      '' bytes (limit '' @ u64_string (range_fallback_limit opt) @ '')'')
               else if \<not> ps_have_total s then fail '': the server reported no size''
               else reply (ps_range_first s) (ps_stored s) False)
         else if ok \<and> success
         then fail ('': unexpected HTTP '' @ int_string status @ '' response to a range request'')
         else None)"

text \<open>The failure of an attempt that is not retried.\<close>

definition attempt_failure :: "attempt_env \<Rightarrow> prepared_request \<Rightarrow> curl_code \<Rightarrow> int \<Rightarrow> probe_state \<Rightarrow> transport_failure" where
  "attempt_failure env rq code status s =
     (let url = redact_url (pr_url rq); message = curl_message (ae_strerror env) (ae_error_text env) code
      in if code \<noteq> CURLE_OK \<and> 300 \<le> status \<and> status < 400 \<and> follow_redirects (pr_http rq)
         then \<lparr>f_status = KARU_ERR_NETWORK, f_detail = url @ '': '' @ message\<rparr>
         else if 300 \<le> status
         then (let body = summarize (ps_error_body s)
               in \<lparr>f_status = status_for_http status, f_detail = url @ '': HTTP '' @ int_string status @
                     (if body \<noteq> [] then '': '' @ body else [])\<rparr>)
         else \<lparr>f_status = KARU_ERR_NETWORK, f_detail = url @ '': '' @ message\<rparr>)"

text \<open>Sending the request: the response, the counters and the body that never reached the callback.\<close>

definition run_attempt :: "attempt_env \<Rightarrow> client_options \<Rightarrow> byte_range \<Rightarrow> addr \<Rightarrow> string \<Rightarrow> prepared_request \<Rightarrow>
    probe_loop \<Rightarrow> curl_code \<times> int \<times> probe_state \<times> probe_loop" where
  "run_attempt env opt rg dst if_match rq pl =
     (let s0 = new_probe rg dst if_match (range_fallback_limit opt) (follow_redirects (pr_http rq))
                 (same_origin_redirects_only (pr_http rq)) (pr_url rq) (rs_received_bytes (pl_stats pl));
          (code0, s1, m) = perform (ae_code env) (ae_events env) (s0, pl_memory pl);
          status = info_response_code (ae_info env);
          stats = (pl_stats pl)\<lparr>rs_received_bytes := ps_received_bytes s1,
            rs_new_connections := rs_new_connections (pl_stats pl) +
              (case ae_connects env of Some n \<Rightarrow> (if 0 < n then of_int n else 0) | None \<Rightarrow> 0),
            rs_throttled := rs_throttled (pl_stats pl) + (if status = 429 \<or> status = 503 then 1 else 0)\<rparr>;
          code = (if code0 = CURLE_WRITE_ERROR \<and> ps_cut_short s1 then CURLE_OK else code0);
          s2 = (if code = CURLE_OK \<and> 200 \<le> status \<and> status < 300 \<and> \<not> ps_started s1
                then snd (start_body (ae_info env) status (s1\<lparr>ps_started := True\<rparr>)) else s1)
      in (code, status, s2, pl\<lparr>pl_region_hint := routing_region rq, pl_stats := stats, pl_memory := m\<rparr>))"

text \<open>The ordinary retry budget of the loop.\<close>

definition retry_probe :: "attempt_env \<Rightarrow> client_options \<Rightarrow> prepared_request \<Rightarrow> request_deadline \<Rightarrow> curl_code \<Rightarrow> int \<Rightarrow>
    probe_state \<Rightarrow> probe_loop \<Rightarrow> (transport_failure + range_reply) + probe_loop" where
  "retry_probe env opt rq deadline code status s pl =
     (let attempt' = pl_attempt pl + 1;
          unreachable' = pl_unreachable_attempts pl + (if unreachable code then 1 else 0);
          request_timeout = (status = 400 \<and> contains_sub ''RequestTimeout'' (ps_error_body s))
      in if attempt' < max_attempts opt \<and> unreachable' < kUnreachableAttempts \<and>
            (transient code status \<or> request_timeout)
         then (if \<not> can_wait_for (ae_wait_now env) (retry_delay attempt' (ps_retry_after s) (ae_jitter env)) deadline
               then Inl (Inl (timeout_failure (pr_url rq) ''request timeout leaves no time for another attempt''))
               else Inr (pl\<lparr>pl_attempt := attempt', pl_unreachable_attempts := unreachable',
                      pl_stats := (pl_stats pl)\<lparr>rs_retries := rs_retries (pl_stats pl) + 1\<rparr>\<rparr>))
         else Inl (Inl (attempt_failure env rq code status s)))"

definition learn_probe_region :: "resolved \<Rightarrow> probe_state \<Rightarrow> probe_state" where
  "learn_probe_region loc s =
     (if ps_response_region s = [] \<and> res_backend loc = S3
      then s\<lparr>ps_response_region := s3_region (ps_error_body s)\<rparr> else s)"

text \<open>After the response: a restart, a result, or an ordinary retry.\<close>

definition after_attempt :: "attempt_env \<Rightarrow> client_options \<Rightarrow> resolved \<Rightarrow> byte_range \<Rightarrow> prepared_request \<Rightarrow> request_deadline \<Rightarrow>
    curl_code \<Rightarrow> int \<Rightarrow> probe_state \<Rightarrow> probe_loop \<Rightarrow> (transport_failure + range_reply) + probe_loop" where
  "after_attempt env opt loc rg rq deadline code status s0 pl =
     (let s = learn_probe_region loc s0
      in if ps_redirect_blocked s
         then Inl (Inl \<lparr>f_status = KARU_ERR_HTTP,
                f_detail = redact_url (pr_url rq) @ '': cross-origin redirect blocked because KARU_HTTP_HEADERS is set''\<rparr>)
         else if 300 \<le> status \<and> \<not> pl_region_retried pl \<and> ps_response_region s \<noteq> [] \<and>
                 ps_response_region s \<noteq> pl_region_hint pl \<and> res_backend loc = S3
         then Inr (pl\<lparr>pl_region_hint := ps_response_region s, pl_region_retried := True\<rparr>)
         else if \<not> pl_credentials_retried pl \<and> credentials_expired (res_backend loc) status (ps_error_body s)
         then Inr (pl\<lparr>pl_credentials_retried := True,
                pl_stats := (pl_stats pl)\<lparr>rs_credential_refreshes := rs_credential_refreshes (pl_stats pl) + 1\<rparr>\<rparr>)
         else case judge_response opt rg rq code status (pl_stats pl) s of
                Some result \<Rightarrow> Inl result
              | None \<Rightarrow>
                  (if expired (ae_now_after env) deadline
                   then Inl (Inl (timeout_failure (pr_url rq) timeout_reason))
                   else retry_probe env opt rq deadline code status s pl))"

text \<open>The body of the loop: a result, or the loop's variables for the next round.\<close>

definition probe_attempt :: "attempt_env \<Rightarrow> client_options \<Rightarrow> resolved \<Rightarrow> byte_range \<Rightarrow> addr \<Rightarrow> string \<Rightarrow> request_deadline \<Rightarrow>
    probe_loop \<Rightarrow> ((transport_failure + range_reply) \<times> memory) + probe_loop" where
  "probe_attempt env opt loc rg dst if_match deadline pl =
     (if expired (ae_now_first env) deadline
      then Inl (Inl (timeout_failure (canonical_uri loc) timeout_reason), pl_memory pl)
      else case ae_prepare env (pl_region_hint pl) of
             Inl e \<Rightarrow> Inl (Inl \<lparr>f_status = re_status e, f_detail = re_message e\<rparr>, pl_memory pl)
           | Inr rq \<Rightarrow>
               (if expired (ae_now_prepared env) deadline
                then Inl (Inl (timeout_failure (pr_url rq) timeout_reason), pl_memory pl)
                else case build_headers (pr_headers rq) (pr_range rq) of
                       Inl e \<Rightarrow> Inl (Inl \<lparr>f_status = KARU_ERR_NOMEM, f_detail = e\<rparr>, pl_memory pl)
                     | Inr _ \<Rightarrow>
                         (case ae_setopt env of
                            Some e \<Rightarrow> Inl (Inl \<lparr>f_status = KARU_ERR_NETWORK, f_detail = e\<rparr>, pl_memory pl)
                          | None \<Rightarrow>
                              (case run_attempt env opt rg dst if_match rq pl of
                                 (code, status, s, pl') \<Rightarrow>
                                   map_sum (\<lambda>r. (r, pl_memory pl')) id
                                     (after_attempt env opt loc rg rq deadline code status s pl')))))"

section \<open>The loop over attempts\<close>

definition probe_fuel :: "client_options \<Rightarrow> probe_loop \<Rightarrow> nat" where
  "probe_fuel opt pl = nat (max_attempts opt - pl_attempt pl) + (if pl_region_retried pl then 0 else 1) +
     (if pl_credentials_retried pl then 0 else 1)"

lemma run_attempt_loop:
  "run_attempt env opt rg dst im rq pl = (code, status, s, pl') \<Longrightarrow> probe_fuel opt pl' = probe_fuel opt pl"
  by (auto simp: run_attempt_def Let_def probe_fuel_def split: prod.splits)

lemma after_attempt_spends:
  assumes "after_attempt env opt loc rg rq dl code status s pl = Inr pl'" "pl_attempt pl < max_attempts opt"
  shows "probe_fuel opt pl' < probe_fuel opt pl"
proof -
  have r: "probe_fuel opt pl' < probe_fuel opt pl" if "retry_probe env opt rq dl code status x pl = Inr pl'" for x
    using that assms(2) unfolding retry_probe_def Let_def by (simp add: probe_fuel_def split: if_splits) auto
  show ?thesis
    using assms(1) r unfolding after_attempt_def Let_def
    by (simp only: split: if_splits option.splits) (auto simp: probe_fuel_def)
qed

lemma probe_attempt_spends:
  assumes "probe_attempt env opt loc rg dst im dl pl = Inr pl'" "pl_attempt pl < max_attempts opt"
  shows "probe_fuel opt pl' < probe_fuel opt pl"
proof -
  obtain rq where p: "ae_prepare env (pl_region_hint pl) = Inr rq"
    using assms(1) by (cases "ae_prepare env (pl_region_hint pl)") (auto simp: probe_attempt_def split: if_splits)
  obtain code status s pl1 where r: "run_attempt env opt rg dst im rq pl = (code, status, s, pl1)"
    by (cases "run_attempt env opt rg dst im rq pl") auto
  have a: "pl_attempt pl1 = pl_attempt pl" using r by (auto simp: run_attempt_def Let_def split: prod.splits)
  have "after_attempt env opt loc rg rq dl code status s pl1 = Inr pl'"
    using assms(1) p r by (auto simp: probe_attempt_def map_sum_def split: if_splits sum.splits option.splits)
  from after_attempt_spends [OF this] a assms(2) run_attempt_loop [OF r] show ?thesis by simp
qed

function get_range_loop :: "(nat \<Rightarrow> attempt_env) \<Rightarrow> nat \<Rightarrow> client_options \<Rightarrow> resolved \<Rightarrow> byte_range \<Rightarrow> addr \<Rightarrow> string \<Rightarrow>
    request_deadline \<Rightarrow> probe_loop \<Rightarrow> (transport_failure + range_reply) \<times> memory" where
  "get_range_loop envs k opt loc rg dst im dl pl =
     (if \<not> pl_attempt pl < max_attempts opt
      then (Inl \<lparr>f_status = KARU_ERR_NETWORK, f_detail = ''range request exhausted its retries''\<rparr>, pl_memory pl)
      else case probe_attempt (envs k) opt loc rg dst im dl pl of
             Inl result \<Rightarrow> result
           | Inr pl' \<Rightarrow> get_range_loop envs (Suc k) opt loc rg dst im dl pl')"
  by pat_completeness auto
termination
  by (relation "measure (\<lambda>(envs, k, opt, loc, rg, dst, im, dl, pl). probe_fuel opt pl)")
    (auto dest: probe_attempt_spends)

declare get_range_loop.simps [simp del]

record range_env =
  ge_setup :: "string option"
  ge_start :: int
  ge_attempts :: "nat \<Rightarrow> attempt_env"

definition new_probe_loop :: "memory \<Rightarrow> probe_loop" where
  "new_probe_loop m = \<lparr>pl_attempt = 0, pl_region_hint = [], pl_region_retried = False, pl_credentials_retried = False,
     pl_unreachable_attempts = 0, pl_stats = no_stats, pl_memory = m\<rparr>"

definition get_range :: "range_env \<Rightarrow> client_options \<Rightarrow> resolved \<Rightarrow> byte_range \<Rightarrow> addr \<Rightarrow> string \<Rightarrow> memory \<Rightarrow>
    (transport_failure + range_reply) \<times> memory" where
  "get_range env opt loc rg dst im m =
     (case ge_setup env of
        Some e \<Rightarrow> (Inl \<lparr>f_status = KARU_ERR_NETWORK, f_detail = e\<rparr>, m)
      | None \<Rightarrow> get_range_loop (ge_attempts env) 0 opt loc rg dst im
                  (start (ge_start env) (request_timeout_seconds opt) new_deadline) (new_probe_loop m))"

record object_reply =
  oi_size :: u64
  oi_etag :: string

text \<open>\<open>first\<close> is the address of the one-byte array on the stack.\<close>

definition probe_object_info :: "range_env \<Rightarrow> client_options \<Rightarrow> resolved \<Rightarrow> addr \<Rightarrow> memory \<Rightarrow>
    (transport_failure + object_reply) \<times> memory" where
  "probe_object_info env opt loc first m =
     (case get_range env opt loc \<lparr>br_first = 0, br_length = 1, br_suffix = False\<rparr> first [] m of
        (Inl e, m') \<Rightarrow> (Inl e, m')
      | (Inr r, m') \<Rightarrow> (Inr \<lparr>oi_size = rr_total r, oi_etag = rr_etag r\<rparr>, m'))"

text \<open>The rounds of the loop spend the same kind of budget as the engine's transfers.\<close>

definition probe_restart :: "client_options \<Rightarrow> resolved \<Rightarrow> byte_range \<Rightarrow> addr \<Rightarrow> string \<Rightarrow> request_deadline \<Rightarrow>
    probe_loop \<Rightarrow> probe_loop \<Rightarrow> bool" where
  "probe_restart opt loc rg dst im dl pl pl' \<longleftrightarrow>
     pl_attempt pl < max_attempts opt \<and> (\<exists>env. probe_attempt env opt loc rg dst im dl pl = Inr pl')"

interpretation probe_budget: restart_budget "(=)" "probe_restart opt loc rg dst im dl" "probe_fuel opt"
  for opt loc rg dst im dl
  by unfold_locales (auto simp: probe_restart_def dest: probe_attempt_spends)

lemma probe_rounds_bounded:
  "restarted_times (=) (probe_restart opt loc rg dst im dl) n (new_probe_loop m) pl \<Longrightarrow>
     n \<le> nat (max_attempts opt) + 2"
  using probe_budget.bounded [of opt loc rg dst im dl n "new_probe_loop m" pl]
  by (simp add: probe_fuel_def new_probe_loop_def)

section \<open>The destination as a store\<close>

definition p_base :: "probe_state \<times> memory \<Rightarrow> nat" where
  "p_base sm = unat (ps_range_first (fst sm))"

definition p_pos :: "probe_state \<times> memory \<Rightarrow> nat" where
  "p_pos sm = unat (ps_stored (fst sm))"

definition p_cap :: "probe_state \<times> memory \<Rightarrow> nat" where
  "p_cap sm = unat (ps_wanted (fst sm))"

definition p_put :: "probe_state \<times> memory \<Rightarrow> byte list \<Rightarrow> (probe_state \<times> memory) option" where
  "p_put sm d = Some ((fst sm)\<lparr>ps_stored := ps_stored (fst sm) + of_nat (length d)\<rparr>,
     memcpy (snd sm) (ps_destination (fst sm) + p_pos sm) d)"

definition holds_destination :: "(nat \<Rightarrow> byte) \<Rightarrow> probe_state \<times> memory \<Rightarrow> bool" where
  "holds_destination obj sm \<longleftrightarrow>
     (\<forall>x < p_pos sm. snd sm (ps_destination (fst sm) + x) = obj (p_base sm + x))"

text \<open>The span of the destination.\<close>

definition in_span :: "addr \<Rightarrow> byte_range \<Rightarrow> addr \<Rightarrow> bool" where
  "in_span dst rg a \<longleftrightarrow> dst \<le> a \<and> a < dst + unat (br_length rg)"

text \<open>The probe wants no more than the destination holds; memory differs from \<open>m0\<close> only there.\<close>

definition probing :: "addr \<Rightarrow> byte_range \<Rightarrow> memory \<Rightarrow> probe_state \<times> memory \<Rightarrow> bool" where
  "probing dst rg m0 sm \<longleftrightarrow> ps_destination (fst sm) = dst \<and> ps_range (fst sm) = rg \<and> p_pos sm \<le> p_cap sm \<and>
     p_cap sm \<le> unat (br_length rg) \<and> (\<forall>a. \<not> in_span dst rg a \<longrightarrow> snd sm a = m0 a)"

lemma p_pos_step:
  "p_pos sm + length d \<le> p_cap sm \<Longrightarrow> unat (ps_stored (fst sm) + of_nat (length d)) = p_pos sm + length d"
  using unat_u64_less [of "ps_wanted (fst sm)"]
  by (simp add: p_pos_def p_cap_def unat_u64_add unat_of_nat_u64)

interpretation probe_store: sequential_store p_base p_pos p_cap "probing dst rg m0" holds_destination p_put
  for dst rg m0
proof (unfold_locales, goal_cases)
  case (1 s)
  then show ?case by (simp add: probing_def)
next
  case (2 s d)
  then show ?case by (simp add: p_put_def)
next
  case (3 s d s')
  note step = p_pos_step [OF 3(2)]
  have out: "memcpy (snd s) (dst + p_pos s) d a = m0 a" if "\<not> in_span dst rg a" for a
  proof -
    have "memcpy (snd s) (dst + p_pos s) d a = snd s a"
      using 3(1,2) that by (intro memcpy_outside) (auto simp: probing_def in_span_def)
    with 3(1) that show ?thesis by (simp add: probing_def)
  qed
  have s': "s' = ((fst s)\<lparr>ps_stored := ps_stored (fst s) + of_nat (length d)\<rparr>, memcpy (snd s) (dst + p_pos s) d)"
    using 3(1,3) by (simp add: p_put_def probing_def)
  show ?case using 3(1,2) step out by (simp add: s' probing_def p_base_def p_cap_def p_pos_def)
next
  case (4 s d s' obj)
  note step = p_pos_step [OF 4(2)]
  have s': "s' = ((fst s)\<lparr>ps_stored := ps_stored (fst s) + of_nat (length d)\<rparr>, memcpy (snd s) (dst + p_pos s) d)"
    using 4(1,3) by (simp add: p_put_def probing_def)
  have dst: "ps_destination (fst s) = dst" using 4(1) by (simp add: probing_def)
  have "memcpy (snd s) (dst + p_pos s) d (dst + x) = obj (p_base s + x)" if "x < p_pos s + length d" for x
  proof (cases "x < p_pos s")
    case True
    then show ?thesis using 4(4) dst by (simp add: holds_destination_def memcpy_def)
  next
    case False
    with that have i: "x - p_pos s < length d" "p_pos s \<le> x" by auto
    with 4(5) have "d ! (x - p_pos s) = obj (p_base s + p_pos s + (x - p_pos s))" by (simp add: slice_at_def)
    with i that show ?thesis by (simp add: memcpy_def add.assoc)
  qed
  then show ?case using step dst by (simp add: s' holds_destination_def p_pos_def p_base_def)
qed

section \<open>A body that reaches the destination\<close>

lemma probe_flags [simp]:
  "probing dst rg m0 (s\<lparr>ps_skip := a\<rparr>, m) = probing dst rg m0 (s, m)"
  "probing dst rg m0 (s\<lparr>ps_cut_short := b\<rparr>, m) = probing dst rg m0 (s, m)"
  "probing dst rg m0 (s\<lparr>ps_body_exceeded_range := b\<rparr>, m) = probing dst rg m0 (s, m)"
  "probing dst rg m0 (s\<lparr>ps_received_bytes := a\<rparr>, m) = probing dst rg m0 (s, m)"
  "probing dst rg m0 (s\<lparr>ps_started := b\<rparr>, m) = probing dst rg m0 (s, m)"
  "holds_destination obj (s\<lparr>ps_skip := a\<rparr>, m) = holds_destination obj (s, m)"
  "holds_destination obj (s\<lparr>ps_cut_short := b\<rparr>, m) = holds_destination obj (s, m)"
  "holds_destination obj (s\<lparr>ps_body_exceeded_range := b\<rparr>, m) = holds_destination obj (s, m)"
  "holds_destination obj (s\<lparr>ps_received_bytes := a\<rparr>, m) = holds_destination obj (s, m)"
  "holds_destination obj (s\<lparr>ps_started := b\<rparr>, m) = holds_destination obj (s, m)"
  by (simp_all add: probing_def holds_destination_def p_pos_def p_cap_def p_base_def)

lemma probe_aligned_flags [simp]:
  "probe_store.aligned dst rg m0 obj c (sk, s\<lparr>ps_skip := a\<rparr>, m) = probe_store.aligned dst rg m0 obj c (sk, s, m)"
  "probe_store.aligned dst rg m0 obj c (sk, s\<lparr>ps_cut_short := b\<rparr>, m) = probe_store.aligned dst rg m0 obj c (sk, s, m)"
  "probe_store.aligned dst rg m0 obj c (sk, s\<lparr>ps_received_bytes := a\<rparr>, m) = probe_store.aligned dst rg m0 obj c (sk, s, m)"
  "probe_store.aligned dst rg m0 obj c (sk, s\<lparr>ps_started := b\<rparr>, m) = probe_store.aligned dst rg m0 obj c (sk, s, m)"
  by (simp_all add: probe_store.aligned_def p_base_def p_pos_def p_cap_def)

lemma store_probe_aligned:
  assumes al: "probe_store.aligned dst rg m0 obj c (unat (ps_skip s), s, m)" and sl: "slice_at obj c d"
    and st: "store_probe status d (s, m) = (n, s', m')"
  shows "probing dst rg m0 (s', m') \<and> holds_destination obj (s', m') \<and>
    (n = length d \<longrightarrow> probe_store.aligned dst rg m0 obj (c + length d) (unat (ps_skip s'), s', m')) \<and>
    ps_started s' = ps_started s"
proof -
  let ?drp = "min (unat (ps_skip s)) (length d)"
  define s0 where "s0 = s\<lparr>ps_skip := ps_skip s - of_nat ?drp\<rparr>"
  define tk where "tk = min (p_cap (s, m) - p_pos (s, m)) (length d - ?drp)"
  have rd: "probing dst rg m0 (s, m)" "holds_destination obj (s, m)" using al by (simp_all add: probe_store.aligned_def)
  have sk: "unat (ps_skip s0) = unat (ps_skip s) - ?drp"
    using unat_u64_less [of "ps_skip s"] by (simp add: s0_def unat_u64_sub unat_of_nat_u64)
  have room: "unat (ps_wanted s0 - ps_stored s0) = p_cap (s, m) - p_pos (s, m)"
    using rd(1) by (simp add: s0_def probing_def p_cap_def p_pos_def unat_u64_sub)
  have dropeq: "drop ?drp d = drop (unat (ps_skip s)) d" by (simp add: min_def)
  show ?thesis
  proof (cases "status = 206 \<and> p_cap (s, m) - p_pos (s, m) < length (drop ?drp d)")
    case True
    then have "n = 0" "s' = s0\<lparr>ps_body_exceeded_range := True\<rparr>" "m' = m"
      using st room by (simp_all add: store_probe_def Let_def s0_def)
    with rd True show ?thesis by (auto simp: s0_def)
  next
    case False
    define s1 where "s1 = (if 0 < tk then s0\<lparr>ps_stored := ps_stored s0 + of_nat tk\<rparr> else s0)"
    define m1 where "m1 = (if 0 < tk then memcpy m (ps_destination s0 + unat (ps_stored s0)) (take tk (drop ?drp d)) else m)"
    have "store_probe status d (s, m) = (if status = 206 \<and> p_cap (s, m) - p_pos (s, m) < length d - ?drp
        then (0, s0\<lparr>ps_body_exceeded_range := True\<rparr>, m)
        else if status = 200 \<and> ps_skip s1 = 0 \<and> ps_stored s1 = ps_wanted s1
        then (0, s1\<lparr>ps_cut_short := True\<rparr>, m1) else (length d, s1, m1))"
      unfolding store_probe_def Let_def prod.case s0_def [symmetric] room length_drop tk_def [symmetric]
        s1_def [symmetric] m1_def [symmetric] ..
    with False st have r: "(n, s', m') = (if status = 200 \<and> ps_skip s1 = 0 \<and> ps_stored s1 = ps_wanted s1
        then (0, s1\<lparr>ps_cut_short := True\<rparr>, m1) else (length d, s1, m1))"
      by (simp only: length_drop if_False)
    obtain f where f: "feed p_pos p_cap p_put (unat (ps_skip s), s0, m) d = Some (unat (ps_skip s) - ?drp, f)"
      "probe_store.aligned dst rg m0 obj (c + length d) (unat (ps_skip s) - ?drp, f)"
      using probe_store.feed_aligned [of dst rg m0 obj c "unat (ps_skip s)" "(s0, m)" d] al sl by (auto simp: s0_def)
    have "f = (s1, m1)"
      using f(1) by (simp add: feed_def Let_def s1_def m1_def tk_def p_put_def p_pos_def p_cap_def s0_def dropeq split: if_splits)
        (auto simp: min_def split: if_splits)
    moreover have "ps_skip s1 = ps_skip s0" by (simp add: s1_def)
    ultimately have al1: "probe_store.aligned dst rg m0 obj (c + length d) (unat (ps_skip s1), s1, m1)"
      using f(2) sk by simp
    then have "probing dst rg m0 (s1, m1)" "holds_destination obj (s1, m1)" by (simp_all add: probe_store.aligned_def)
    moreover have "ps_started s1 = ps_started s" by (simp add: s1_def s0_def)
    ultimately show ?thesis using r al1 by (auto split: if_splits)
  qed
qed

text \<open>The range asked for is not empty and does not wrap.\<close>

definition proper_range :: "byte_range \<Rightarrow> bool" where
  "proper_range rg \<longleftrightarrow> 0 < unat (br_length rg) \<and> (\<not> br_suffix rg \<longrightarrow> unat (br_first rg) + unat (br_length rg) \<le> 2 ^ 64)"

text \<open>The bounds the probe keeps are those of the Content-Range that was accepted.\<close>

definition consistent :: "probe_state \<Rightarrow> bool" where
  "consistent s \<longleftrightarrow> (ps_content_range_answers s \<longrightarrow> ps_range_first s \<le> ps_range_last s \<and>
     answers (ps_range s) (ps_range_first s) (ps_range_last s) (ps_total s))"

lemma probe_content_range_consistent:
  "\<not> ps_content_range_answers s \<Longrightarrow> consistent (probe_content_range v s)"
  by (auto simp: probe_content_range_def Let_def consistent_def split: prod.splits dest!: parse_content_range_ordered)

lemma answered_length:
  assumes "proper_range rg" "first \<le> lst" "answers rg first lst tot"
  shows "unat (lst - first + 1) \<le> unat (br_length rg)"
proof (cases "br_suffix rg")
  case True
  with assms(3) have "lst - first + 1 = min (br_length rg) tot" by (simp add: answers_def)
  then show ?thesis by (simp add: u64_le_iff [symmetric])
next
  case False
  let ?e = "br_first rg + br_length rg - 1"
  have a: "first = br_first rg" "lst \<le> ?e" using assms(3) False by (simp_all add: answers_def Let_def)
  have l: "0 < unat (br_length rg)" "unat (br_first rg) + unat (br_length rg) \<le> 2 ^ 64"
    using assms(1) False by (simp_all add: proper_range_def)
  have e: "?e = br_first rg + (br_length rg - 1)" by simp
  have m1: "unat (br_length rg - 1) = unat (br_length rg) - 1" using l(1) by (intro unat_u64_minus1) auto
  have "unat ?e = unat (br_first rg) + (unat (br_length rg) - 1)"
    unfolding e m1 [symmetric] using l m1 by (intro unat_u64_add) simp
  then have d: "unat (lst - first) \<le> unat (br_length rg) - 1" using a assms(2) by (simp add: unat_u64_sub u64_le_iff)
  then have "unat (lst - first + 1) = unat (lst - first) + 1"
    using l(1) unat_u64_less [of "br_length rg"] by (simp add: unat_u64_add)
  with d l(1) show ?thesis by simp
qed

definition body_from :: "int \<Rightarrow> probe_state \<Rightarrow> nat" where
  "body_from status s = (if status = 206 then unat (ps_range_first s) else 0)"

definition unstarted :: "addr \<Rightarrow> byte_range \<Rightarrow> probe_state \<Rightarrow> bool" where
  "unstarted dst rg s \<longleftrightarrow> ps_destination s = dst \<and> ps_range s = rg \<and> ps_stored s = 0 \<and> ps_skip s = 0 \<and> ps_wanted s = 0"

lemma probe_start_body_aligned:
  assumes p: "proper_range rg" "consistent s" "unstarted dst rg s" and st: "status = 200 \<or> status = 206"
    and go: "start_body info status s = (True, s')"
  shows "probe_store.aligned dst rg m obj (body_from status s) (unat (ps_skip s'), s', m) \<and> ps_started s' = ps_started s"
proof (cases "status = 206")
  case True
  then have s': "s' = s\<lparr>ps_wanted := ps_range_last s - ps_range_first s + 1\<rparr>" "ps_content_range_answers s"
    using go by (auto simp: start_body_def split: if_splits)
  have "unat (ps_range_last s - ps_range_first s + 1) \<le> unat (br_length rg)"
    using p s'(2) by (intro answered_length) (auto simp: consistent_def unstarted_def)
  with True p(3) show ?thesis
    by (simp add: s' probe_store.aligned_def probing_def holds_destination_def body_from_def unstarted_def p_pos_def p_cap_def p_base_def)
next
  case False
  with st have 200: "status = 200" by simp
  define s1 where "s1 = (if ps_have_total s then s else s\<lparr>ps_total := of_int (info_content_length info), ps_have_total := True\<rparr>)"
  have f: "ps_destination s1 = dst" "ps_range s1 = rg" "ps_stored s1 = 0" "ps_skip s1 = 0" "ps_wanted s1 = 0" "ps_started s1 = ps_started s"
    using p(3) by (auto simp: s1_def unstarted_def)
  have "(if br_suffix rg
         then (if br_length rg < ps_total s1 then (False, s1\<lparr>ps_suffix_ignored := True\<rparr>)
               else (True, s1\<lparr>ps_range_first := 0, ps_wanted := ps_total s1\<rparr>))
         else if ps_fallback_limit s1 < br_first rg
         then (False, s1\<lparr>ps_range_fallback_rejected := True\<rparr>)
         else (True, s1\<lparr>ps_skip := br_first rg, ps_range_first := br_first rg,
                 ps_wanted := (if br_first rg < ps_total s1
                               then min (br_length rg) (ps_total s1 - br_first rg) else 0)\<rparr>)) = (True, s')"
    using go 200 f(2) unfolding start_body_def Let_def s1_def [symmetric] by (simp split: if_splits)
  then show ?thesis
    using f 200
    by (auto simp: probe_store.aligned_def probing_def holds_destination_def body_from_def p_pos_def p_cap_def p_base_def
        u64_le_iff [symmetric] not_less split: if_splits)
qed

lemma start_body_refused:
  assumes "unstarted dst rg s" "start_body info status s = (False, s')"
  shows "unstarted dst rg s'"
  using assms by (auto simp: start_body_def unstarted_def Let_def split: if_splits)

lemma perform_started:
  assumes "info_response_code info = 200 \<or> info_response_code info = 206" "ps_started s"
    and "probe_store.aligned dst rg m0 obj c (unat (ps_skip s), s, m)" "slice_at obj c (concat ds)"
    and "perform code (map (Body_Piece info) ds) (s, m) = (code', s', m')"
  shows "probing dst rg m0 (s', m') \<and> holds_destination obj (s', m')"
  using assms(2-)
proof (induction ds arbitrary: s m c)
  case Nil
  then show ?case by (simp add: probe_store.aligned_def)
next
  case (Cons d ds)
  let ?s1 = "s\<lparr>ps_received_bytes := ps_received_bytes s + of_nat (length d)\<rparr>"
  obtain n s2 m2 where st: "store_probe (info_response_code info) d (?s1, m) = (n, s2, m2)" by (metis prod_cases3)
  have b: "probe_body info d (s, m) = (n, s2, m2)"
    using assms(1) Cons.prems(1) st by (auto simp: probe_body_def Let_def)
  have sl: "slice_at obj c d" "slice_at obj (c + length d) (concat ds)" using Cons.prems(3) by (simp_all add: slice_at_append)
  have al: "probe_store.aligned dst rg m0 obj c (unat (ps_skip ?s1), ?s1, m)" using Cons.prems(2) by simp
  note r = store_probe_aligned [OF al sl(1) st]
  show ?case
  proof (cases "n = length d")
    case True
    then have "perform code (map (Body_Piece info) ds) (s2, m2) = (code', s', m')" using Cons.prems(4) b by simp
    with Cons.IH [of s2 "c + length d" m2] r sl(2) True Cons.prems(1) show ?thesis by simp
  next
    case False
    then have "s' = s2" "m' = m2" using Cons.prems(4) b by simp_all
    with r show ?thesis by simp
  qed
qed

lemma unstarted_holds: "unstarted dst rg s \<Longrightarrow> probing dst rg m (s, m) \<and> holds_destination obj (s, m)"
  by (simp add: unstarted_def probing_def holds_destination_def p_pos_def p_cap_def)

lemma perform_body:
  assumes p: "proper_range rg" "consistent s" "unstarted dst rg s" "\<not> ps_started s"
    and st: "info_response_code info = 200 \<or> info_response_code info = 206"
    and sl: "slice_at obj (body_from (info_response_code info) s) (concat ds)"
    and r: "perform code (map (Body_Piece info) ds) (s, m) = (code', s', m')"
  shows "probing dst rg m (s', m') \<and> holds_destination obj (s', m')"
proof (cases ds)
  case Nil
  with r p(3) show ?thesis by (simp add: unstarted_holds)
next
  case (Cons d ds')
  let ?status = "info_response_code info"
  let ?s1 = "s\<lparr>ps_received_bytes := ps_received_bytes s + of_nat (length d), ps_started := True\<rparr>"
  have u: "unstarted dst rg ?s1" "consistent ?s1" "body_from ?status ?s1 = body_from ?status s"
    using p(2,3) by (simp_all add: unstarted_def consistent_def body_from_def)
  obtain go s2 where g: "start_body info ?status ?s1 = (go, s2)" by fastforce
  show ?thesis
  proof (cases go)
    case False
    then have b: "probe_body info d (s, m) = (0, s2\<lparr>ps_cut_short := True\<rparr>, m)"
      using st p(4) g by (auto simp: probe_body_def Let_def)
    have u2: "unstarted dst rg s2" "ps_started s2"
      using start_body_refused [OF u(1)] g False by (auto simp: start_body_def Let_def split: if_splits)
    note h = unstarted_holds [OF u2(1), of m obj]
    show ?thesis
    proof (cases "d = []")
      case False
      with b r Cons have "s' = s2\<lparr>ps_cut_short := True\<rparr>" "m' = m" by auto
      with h show ?thesis by simp
    next
      case True
      have al: "probe_store.aligned dst rg m obj c (unat (ps_skip (s2\<lparr>ps_cut_short := True\<rparr>)), s2\<lparr>ps_cut_short := True\<rparr>, m)" for c
        using h u2(1) by (simp add: probe_store.aligned_def unstarted_def p_pos_def p_cap_def)
      have pf: "perform code (map (Body_Piece info) ds') (s2\<lparr>ps_cut_short := True\<rparr>, m) = (code', s', m')"
        using b r True Cons by simp
      have sl': "slice_at obj (body_from ?status s) (concat ds')" using sl True Cons by simp
      show ?thesis using perform_started [OF st _ al sl' pf] u2(2) by simp
    qed
  next
    case True
    obtain n s3 m3 where sp: "store_probe ?status d (s2, m) = (n, s3, m3)" by (metis prod_cases3)
    then have b: "probe_body info d (s, m) = (n, s3, m3)" using st p(4) g True by (auto simp: probe_body_def Let_def)
    have al: "probe_store.aligned dst rg m obj (body_from ?status s) (unat (ps_skip s2), s2, m)" "ps_started s2"
      using probe_start_body_aligned [OF p(1) u(2,1) st, of info s2 m obj] g True u(3) by auto
    have sl': "slice_at obj (body_from ?status s) d" "slice_at obj (body_from ?status s + length d) (concat ds')"
      using sl Cons by (simp_all add: slice_at_append)
    note q = store_probe_aligned [OF al(1) sl'(1) sp]
    show ?thesis
    proof (cases "n = length d")
      case True
      then have "perform code (map (Body_Piece info) ds') (s3, m3) = (code', s', m')" using r b Cons by simp
      with perform_started [OF st _ _ sl'(2), of s3 dst rg m m3] q True al(2) show ?thesis by simp
    next
      case False
      then have "s' = s3" "m' = m3" using r b Cons by simp_all
      with q show ?thesis by simp
    qed
  qed
qed

text \<open>
  Everything libcurl may report before the response the caller wants: header lines, and the bodies of
  redirects and errors, of which no byte is stored.
\<close>

definition earlier_event :: "probe_event \<Rightarrow> bool" where
  "earlier_event ev = (case ev of Header_Line _ _ \<Rightarrow> True | Body_Piece info _ \<Rightarrow> 300 \<le> info_response_code info)"

definition header_lines :: "(header_env \<times> string) list \<Rightarrow> probe_event list" where
  "header_lines hs = map (\<lambda>(env, line). Header_Line env line) hs"

definition names_content_range :: "header_env \<times> string \<Rightarrow> bool" where
  "names_content_range h = header_name_is (snd h) ''content-range:''"

lemma header_lines_simps [simp]:
  "header_lines [] = []" "header_lines (h # hs) = Header_Line (fst h) (snd h) # header_lines hs"
  by (simp_all add: header_lines_def split_beta)

lemma new_probe_unstarted: "unstarted dst rg (new_probe rg dst if_match limit follow same_origin url bytes0)"
  by (simp add: unstarted_def new_probe_def)

lemma probe_content_range_keeps:
  "unstarted dst rg (probe_content_range v s) = unstarted dst rg s" "ps_started (probe_content_range v s) = ps_started s"
  by (simp_all add: probe_content_range_def Let_def unstarted_def split: prod.splits)

lemma probe_header_unstarted:
  assumes "unstarted dst rg s" "probe_header env line s = (n, s1)"
  shows "unstarted dst rg s1"
  using assms probe_content_range_keeps(1)
  by (fastforce simp: probe_header_def Let_def reset_probe_def unstarted_def split: if_splits)

lemma probe_header_status:
  assumes "unstarted dst rg s" "prefix ''HTTP/'' line" "probe_header env line s = (n, s1)"
  shows "unstarted dst rg s1" "consistent s1" "\<not> ps_started s1" "\<not> ps_content_range_answers s1"
  using assms by (auto simp: probe_header_def reset_probe_def unstarted_def consistent_def)

text \<open>Between two status lines only a Content-Range touches what was accepted.\<close>

lemma probe_header_consistent:
  assumes "\<not> prefix ''HTTP/'' line" "probe_header env line s = (n, s1)" "consistent s" "\<not> ps_started s"
    and "header_name_is line ''content-range:'' \<longrightarrow> \<not> ps_content_range_answers s"
  shows "consistent s1" "\<not> ps_started s1"
    "\<not> header_name_is line ''content-range:'' \<Longrightarrow> ps_content_range_answers s1 = ps_content_range_answers s"
  using assms probe_content_range_consistent [of s] probe_content_range_keeps(2) [of _ s]
  by (auto simp: probe_header_def Let_def consistent_def split: if_splits)

lemma probe_body_error:
  assumes "300 \<le> info_response_code info" "unstarted dst rg s" "probe_body info data (s, m) = (n, s1, m1)"
  shows "unstarted dst rg s1" "m1 = m"
  using assms by (auto simp: probe_body_def Let_def unstarted_def split: if_splits)

lemma perform_earlier:
  assumes "\<forall>ev \<in> set pre. earlier_event ev" "unstarted dst rg s"
  shows "\<exists>s1. unstarted dst rg s1 \<and>
    (perform code (pre @ es) (s, m) = perform code es (s1, m) \<or> perform code (pre @ es) (s, m) = (CURLE_WRITE_ERROR, s1, m))"
  using assms
proof (induction pre arbitrary: s)
  case Nil
  then show ?case by auto
next
  case (Cons ev pre)
  show ?case
  proof (cases ev)
    case (Header_Line env line)
    obtain n s2 where h: "probe_header env line s = (n, s2)" by fastforce
    have u: "unstarted dst rg s2" using Cons.prems(2) h by (rule probe_header_unstarted)
    then show ?thesis using Cons.IH [OF _ u] Cons.prems(1) h Header_Line by (cases "n = length line") auto
  next
    case (Body_Piece info data)
    obtain n s2 m2 where b: "probe_body info data (s, m) = (n, s2, m2)" by (metis prod_cases3)
    have e: "300 \<le> info_response_code info" using Cons.prems(1) Body_Piece by (simp add: earlier_event_def)
    note u = probe_body_error [OF e Cons.prems(2) b]
    then show ?thesis using Cons.IH [OF _ u(1)] Cons.prems(1) b Body_Piece by (cases "n = length data") auto
  qed
qed

lemma store_probe_first: "store_probe status d (s, m) = (n, s1, m1) \<Longrightarrow> ps_range_first s1 = ps_range_first s"
  by (auto simp: store_probe_def Let_def split: if_splits)

lemma probe_body_first:
  assumes "info_response_code info = 206" "probe_body info d (s, m) = (n, s1, m1)"
  shows "ps_range_first s1 = ps_range_first s"
  using assms by (auto simp: probe_body_def start_body_def Let_def dest!: store_probe_first split: if_splits prod.splits)

lemma perform_body_first:
  assumes "perform code (map (Body_Piece info) ds) (s, m) = (code', s', m')"
  shows "body_from (info_response_code info) s' = body_from (info_response_code info) s"
  using assms
proof (induction ds arbitrary: s m)
  case (Cons d ds)
  obtain n s1 m1 where b: "probe_body info d (s, m) = (n, s1, m1)" by (metis prod_cases3)
  have "body_from (info_response_code info) s1 = body_from (info_response_code info) s"
    using probe_body_first [OF _ b] by (simp add: body_from_def)
  with Cons b show ?case by (auto split: if_splits)
qed simp

lemma perform_headers:
  assumes p: "proper_range rg" and st: "info_response_code info = 200 \<or> info_response_code info = 206"
    and s: "unstarted dst rg s" "consistent s" "\<not> ps_started s"
    and hs: "\<forall>h \<in> set hs. \<not> prefix ''HTTP/'' (snd h)"
      "length (filter names_content_range hs) \<le> (if ps_content_range_answers s then 0 else 1)"
    and r: "perform code (header_lines hs @ map (Body_Piece info) ds) (s, m) = (code', s', m')"
    and sl: "slice_at obj (body_from (info_response_code info) s') (concat ds)"
  shows "probing dst rg m (s', m') \<and> holds_destination obj (s', m')"
  using s hs r
proof (induction hs arbitrary: s)
  case Nil
  then have r: "perform code (map (Body_Piece info) ds) (s, m) = (code', s', m')" by simp
  show ?case using perform_body [OF p Nil.prems(2,1,3) st _ r] sl perform_body_first [OF r] by simp
next
  case (Cons h hs)
  obtain n s1 where g: "probe_header (fst h) (snd h) s = (n, s1)" by fastforce
  have c: "header_name_is (snd h) ''content-range:'' \<longrightarrow> \<not> ps_content_range_answers s"
    using Cons.prems(5) by (auto simp: names_content_range_def split: if_splits)
  have nh: "\<not> prefix ''HTTP/'' (snd h)" using Cons.prems(4) by simp
  note u = probe_header_unstarted [OF Cons.prems(1) g] and k = probe_header_consistent [OF nh g Cons.prems(2,3) c]
  have nm: "names_content_range h = header_name_is (snd h) ''content-range:''" by (simp add: names_content_range_def)
  have l: "length (filter names_content_range hs) \<le> (if ps_content_range_answers s1 then 0 else 1)"
    using Cons.prems(5) k(3) c nm by (auto split: if_splits)
  show ?case
    using Cons.IH [OF u k(1,2) _ l] Cons.prems(4,6) g unstarted_holds [OF u, of m obj] by (auto split: if_splits)
qed

lemma perform_response:
  assumes p: "proper_range rg" and pre: "\<forall>ev \<in> set pre. earlier_event ev" and line: "prefix ''HTTP/'' line"
    and hs: "\<forall>h \<in> set hs. \<not> prefix ''HTTP/'' (snd h)" "length (filter names_content_range hs) \<le> 1"
    and st: "info_response_code info = 200 \<or> info_response_code info = 206" and u: "unstarted dst rg s"
    and r: "perform code (pre @ header_lines ((env, line) # hs) @ map (Body_Piece info) ds) (s, m) = (code', s', m')"
    and sl: "slice_at obj (body_from (info_response_code info) s') (concat ds)"
  shows "probing dst rg m (s', m') \<and> holds_destination obj (s', m')"
proof -
  let ?rest = "header_lines ((env, line) # hs) @ map (Body_Piece info) ds"
  obtain s1 where u1: "unstarted dst rg s1"
    and d: "perform code ?rest (s1, m) = (code', s', m') \<or> (s' = s1 \<and> m' = m)"
    using perform_earlier [OF pre u, of code ?rest m] r by auto
  obtain n s2 where g: "probe_header env line s1 = (n, s2)" by fastforce
  note k = probe_header_status [OF u1 line g]
  have "probing dst rg m (s', m') \<and> holds_destination obj (s', m')" if "perform code ?rest (s1, m) = (code', s', m')"
    using perform_headers [OF p st k(1-3) hs(1) _ _ sl] k(4) hs(2) that g unstarted_holds [OF k(1), of m obj]
    by (auto split: if_splits)
  with d unstarted_holds [OF u1, of m obj] show ?thesis by blast
qed

section \<open>Properties\<close>

definition sample_range :: "u64 \<Rightarrow> u64 \<Rightarrow> byte_range" where
  "sample_range first len = \<lparr>br_first = first, br_length = len, br_suffix = False\<rparr>"

definition sample_headers :: "string list \<Rightarrow> probe_event list" where
  "sample_headers ls = map (Header_Line \<lparr>he_urls = (\<lambda>_. None), he_getdate = (\<lambda>_. -1), he_now = 0\<rparr>) ls"

definition sample_probe :: "byte_range \<Rightarrow> probe_state" where
  "sample_probe rg = new_probe rg 100 [] 8388608 True False ''http://host/object'' 0"

text \<open>
  C32. A probe stores exactly the object's bytes. Whatever redirects and error responses came before, take a
  response with at most one Content-Range among its headers and with status 200 or 206, whose body is the
  object from its start (200) or from the first byte its Content-Range names (206). However that body is cut
  into pieces, and wherever a callback stops the transfer, the destination holds the object's bytes from
  \<open>range_first\<close> on, never more than the range asked for, and no byte outside the destination changes.
  With a second Content-Range in one response this fails: see \<open>second_content_range_overflows\<close>.
\<close>

theorem probe_stores_object:
  assumes "proper_range rg" "\<forall>ev \<in> set pre. earlier_event ev" "prefix ''HTTP/'' line"
    and "\<forall>h \<in> set hs. \<not> prefix ''HTTP/'' (snd h)" "length (filter names_content_range hs) \<le> 1"
    and "info_response_code info = 200 \<or> info_response_code info = 206"
    and "perform code (pre @ header_lines ((env, line) # hs) @ map (Body_Piece info) ds)
           (new_probe rg dst if_match limit follow same_origin url bytes0, m) = (code', s', m')"
    and "slice_at obj (body_from (info_response_code info) s') (concat ds)"
  shows "unat (ps_stored s') \<le> unat (br_length rg) \<and>
    (\<forall>x < unat (ps_stored s'). m' (dst + x) = obj (unat (ps_range_first s') + x)) \<and>
    (\<forall>a. \<not> (dst \<le> a \<and> a < dst + unat (br_length rg)) \<longrightarrow> m' a = m a)"
  using perform_response [OF assms(1-6) new_probe_unstarted assms(7,8)]
  by (auto simp: probing_def holds_destination_def in_span_def p_pos_def p_cap_def p_base_def)

definition sample_seven :: "nat \<Rightarrow> byte" where
  "sample_seven x = ''abcdefg'' ! x"

definition sample_env :: header_env where
  "sample_env = \<lparr>he_urls = (\<lambda>_. None), he_getdate = (\<lambda>_. -1), he_now = 0\<rparr>"

text \<open>A redirect with a Content-Range and a body of its own, then a 206 response in two pieces.\<close>

definition sample_redirected :: "probe_event list" where
  "sample_redirected = [Header_Line sample_env ''HTTP/1.1 302 Found'', Header_Line sample_env ''Content-Range: bytes 0-9/10'',
     Body_Piece (sample_info 302) ''moved'']"

theorem probe_stores_object_witness:
  "\<exists>s' m'. perform CURLE_OK (sample_redirected @
       header_lines [(sample_env, ''HTTP/1.1 206 Partial''), (sample_env, ''Content-Range: bytes 2-4/7'')] @
       map (Body_Piece (sample_info 206)) [''cd'', ''e'']) (sample_probe (sample_range 2 3), (\<lambda>_. CHR 0x00)) =
     (CURLE_OK, s', m') \<and> m' 100 = CHR ''c'' \<and> m' 102 = CHR ''e'' \<and> m' 103 = CHR 0x00"
proof -
  let ?run = "perform CURLE_OK (sample_redirected @
       header_lines [(sample_env, ''HTTP/1.1 206 Partial''), (sample_env, ''Content-Range: bytes 2-4/7'')] @
       map (Body_Piece (sample_info 206)) [''cd'', ''e'']) (sample_probe (sample_range 2 3), (\<lambda>_. CHR 0x00))"
  obtain c s' m' where r: "?run = (c, s', m')" by (metis prod_cases3)
  have "(case ?run of (c, s', m') \<Rightarrow> (c, ps_stored s', ps_range_first s')) = (CURLE_OK, 3, 2)" by code_simp
  with r have v: "c = CURLE_OK" "ps_stored s' = 3" "ps_range_first s' = 2" by auto
  have h: "proper_range (sample_range 2 3)" by (simp add: proper_range_def sample_range_def)
  have e: "\<forall>ev \<in> set sample_redirected. earlier_event ev" "prefix ''HTTP/'' ''HTTP/1.1 206 Partial''"
    "\<forall>h \<in> set [(sample_env, ''Content-Range: bytes 2-4/7'')]. \<not> prefix ''HTTP/'' (snd h)"
    "length (filter names_content_range [(sample_env, ''Content-Range: bytes 2-4/7'')]) \<le> 1"
    "info_response_code (sample_info 206) = 206"
    by (simp_all add: sample_redirected_def earlier_event_def sample_info_def)
  have b: "slice_at sample_seven (body_from (info_response_code (sample_info 206)) s') (concat [''cd'', ''e''])"
    using v(3) by (simp add: slice_at_def body_from_def sample_seven_def sample_info_def nth_Cons')
  note p = probe_stores_object [OF h e(1,2,3,4) disjI2 [OF e(5)] r [unfolded sample_probe_def] b]
  have "m' 100 = CHR ''c''" "m' 102 = CHR ''e''" using p [THEN conjunct2, THEN conjunct1, rule_format, of 0]
      p [THEN conjunct2, THEN conjunct1, rule_format, of 2] v by (simp_all add: sample_seven_def)
  moreover have "m' 103 = CHR 0x00"
    using p [THEN conjunct2, THEN conjunct2, rule_format, of 103] by (simp add: sample_range_def)
  ultimately show ?thesis using r v by blast
qed

text \<open>
  A second Content-Range defeats the bound. The acceptance of the first header stays set while a second,
  unacceptable one replaces the bounds, so a server that sends both makes the one-byte probe of
  \<open>object_info\<close> store ten bytes: nine of them behind its one-byte array.
\<close>

lemma second_content_range_overflows:
  "(case perform CURLE_OK
       (sample_headers [''HTTP/1.1 206 Partial'', ''Content-Range: bytes 0-0/10'', ''Content-Range: bytes 0-9/*''] @
        [Body_Piece (sample_info 206) ''abcdefghij''])
       (sample_probe (sample_range 0 1), (\<lambda>_. CHR 0x00)) of
     (code, s, m) \<Rightarrow> code = CURLE_OK \<and> ps_stored s = 10 \<and> m 101 = CHR ''b'' \<and> m 109 = CHR ''j'')"
  by code_simp

end
