(* ===== verification/Karu_Ends.thy ===== *)
theory Karu_Ends
  imports Karu_Probe Karu_Local_File
begin

text \<open>
  Sizes and the two ends of an object, \<open>Engine::size_of\<close>, \<open>object_info\<close> and \<open>read_ends\<close> with
  \<open>read_file\<close> and \<open>read_file_ends\<close> in \<open>src/src/runtime/engine.cpp\<close>. A span is an address and a length.
  \<open>get_range\<close> and \<open>object_info\<close> of the transport are arguments, the first one numbered by call, so that
  the head, which may run on another thread, and the tail are separate calls on the memory they find.
  The out-parameters are results; the text of \<open>set_error\<close> comes with the status.
\<close>

section \<open>Local files\<close>

definition short_read :: "resolved \<Rightarrow> u64 \<Rightarrow> u64 \<Rightarrow> u64 \<Rightarrow> karu_status \<times> string" where
  "short_read r first len got =
     (KARU_ERR_RANGE, shown_uri r @ '': object ended at byte '' @ u64_string (first + got) @ '' while reading ['' @
        u64_string first @ '', +'' @ u64_string len @ '')'')"

lemma read_span_length:
  assumes "read_span read_at k off len = Inr d"
  shows "length d \<le> unat len"
  using assms by (cases "read_at k off len") (auto simp: read_span_def)

lemma count_step:
  fixes cnt n :: u64
  assumes "cnt < n" "length d \<le> unat (n - cnt)"
  shows "unat (cnt + of_nat (length d)) = unat cnt + length d" "unat cnt + length d \<le> unat n"
proof -
  have "unat cnt < unat n" using assms(1) by (simp add: u64_less_iff)
  with assms(2) show le: "unat cnt + length d \<le> unat n" by (simp add: unat_u64_sub)
  have "unat (of_nat (length d) :: u64) = length d" using le unat_u64_less [of n] by (intro unat_of_nat_u64) simp
  with le show "unat (cnt + of_nat (length d)) = unat cnt + length d"
    using unat_u64_less [of n] by (simp add: unat_u64_add)
qed

function read_file_loop :: "file_reader \<Rightarrow> nat \<Rightarrow> resolved \<Rightarrow> u64 \<Rightarrow> addr \<Rightarrow> u64 \<Rightarrow> u64 \<Rightarrow> memory \<Rightarrow>
    (karu_status \<times> string) \<times> memory" where
  "read_file_loop read_at k r first dst n cnt m =
     (if \<not> cnt < n then ((KARU_OK, []), m)
      else case read_span read_at k (first + cnt) (n - cnt) of
             Inl e \<Rightarrow> ((KARU_ERR_IO, res_target r @ '': '' @ e), m)
           | Inr d \<Rightarrow>
               (if d = [] then (short_read r first n cnt, m)
                else read_file_loop read_at (Suc k) r first dst n (cnt + of_nat (length d)) (memcpy m (dst + unat cnt) d)))"
  by pat_completeness auto
termination
proof (relation "measure (\<lambda>(read_at, k, r, first, dst, n, cnt, m). unat n - unat cnt)", goal_cases)
  case 1
  show ?case by simp
next
  case (2 read_at k r first dst n cnt m d)
  have lt: "cnt < n" using 2(1) by simp
  note c = count_step [OF lt read_span_length [OF 2(2)]]
  have "0 < length d" using 2(3) by simp
  with c(2) have "unat n - (unat cnt + length d) < unat n - unat cnt" by linarith
  then show ?case by (simp add: c(1))
qed

declare read_file_loop.simps [simp del]

definition read_file :: "file_reader \<Rightarrow> resolved \<Rightarrow> u64 \<Rightarrow> addr \<Rightarrow> u64 \<Rightarrow> memory \<Rightarrow> (karu_status \<times> string) \<times> memory" where
  "read_file read_at r first dst n m = read_file_loop read_at 0 r first dst n 0 m"

text \<open>\<open>file_size\<close> and \<open>open\<close> answer an error or succeed; the two reads have a reader each.\<close>

record ends_env =
  ee_file_size :: "string + u64"
  ee_open :: "string option"
  ee_head :: file_reader
  ee_tail :: file_reader

definition read_file_ends :: "ends_env \<Rightarrow> resolved \<Rightarrow> addr \<times> nat \<Rightarrow> addr \<times> nat \<Rightarrow> memory \<Rightarrow>
    ((karu_status \<times> string) + u64) \<times> memory" where
  "read_file_ends env r head tail m =
     (case ee_file_size env of
        Inl e \<Rightarrow> (Inl (KARU_ERR_IO, res_target r @ '': '' @ e), m)
      | Inr tot \<Rightarrow>
          (case ee_open env of
             Some e \<Rightarrow> (Inl (KARU_ERR_IO, res_target r @ '': '' @ e), m)
           | None \<Rightarrow>
               (let visible = visible_size r tot;
                    tail_length = at_most (snd tail) visible;
                    (status1, m1) = read_file (ee_head env) r (window_offset r) (fst head) (of_nat (at_most (snd head) visible)) m
                in if fst status1 \<noteq> KARU_OK then (Inl status1, m1)
                   else (let (status2, m2) = read_file (ee_tail env) r (window_offset r + visible - of_nat tail_length)
                               (fst tail) (of_nat tail_length) m1
                         in if fst status2 \<noteq> KARU_OK then (Inl status2, m2) else (Inr visible, m2)))))"

section \<open>Sizes\<close>

definition engine_object_info :: "(string + u64) \<Rightarrow> (unit \<Rightarrow> bool) \<Rightarrow> (resolved \<Rightarrow> transport_failure + object_reply) \<Rightarrow> resolved \<Rightarrow>
    (karu_status \<times> string) + (u64 \<times> string)" where
  "engine_object_info file_size handle info r =
     (if res_backend r = File
      then (case file_size of
              Inl e \<Rightarrow> Inl (KARU_ERR_IO, res_target r @ '': '' @ e)
            | Inr tot \<Rightarrow> Inr (visible_size r tot, []))
      else if \<not> handle () then Inl (KARU_ERR_NOMEM, ''curl_easy_init: out of memory'')
      else (case info r of
              Inl e \<Rightarrow> Inl (f_status e, f_detail e)
            | Inr i \<Rightarrow> Inr (visible_size r (oi_size i), oi_etag i)))"

definition size_of :: "(resolved \<Rightarrow> (karu_status \<times> string) + (u64 \<times> string)) \<Rightarrow> resolved \<Rightarrow> (karu_status \<times> string) + u64" where
  "size_of object_info r =
     (if window_length r \<noteq> TO_END then Inr (window_length r) else map_sum id fst (object_info r))"

section \<open>The ends of a remote object\<close>

definition same_version :: "range_reply \<Rightarrow> range_reply \<Rightarrow> bool" where
  "same_version l r \<longleftrightarrow> rr_total l = rr_total r \<and> (rr_etag l = [] \<or> rr_etag r = [] \<or> rr_etag l = rr_etag r)"

definition add_range_stats :: "range_stats \<Rightarrow> range_stats \<Rightarrow> range_stats" where
  "add_range_stats d s =
     \<lparr>rs_received_bytes = rs_received_bytes d + rs_received_bytes s, rs_retries = rs_retries d + rs_retries s,
      rs_throttled = rs_throttled d + rs_throttled s, rs_new_connections = rs_new_connections d + rs_new_connections s,
      rs_resumed = rs_resumed d + rs_resumed s,
      rs_credential_refreshes = rs_credential_refreshes d + rs_credential_refreshes s\<rparr>"

definition empty_reply :: range_reply where
  "empty_reply = \<lparr>rr_total = 0, rr_first = 0, rr_got = 0, rr_etag = [], rr_suffix_ignored = False, rr_stats = no_stats\<rparr>"

type_synonym ranged_get = "nat \<Rightarrow> byte_range \<Rightarrow> addr \<Rightarrow> string \<Rightarrow> memory \<Rightarrow> (transport_failure + range_reply) \<times> memory"

text \<open>What is asked for: the part of the head, the range and the part of the tail; \<open>one\<close> is the one-byte array.\<close>

record ends_plan =
  ep_bounded :: bool
  ep_by_suffix :: bool
  ep_head :: "addr \<times> nat"
  ep_tail_range :: byte_range
  ep_tail :: "addr \<times> nat"

definition plan_ends :: "resolved \<Rightarrow> addr \<Rightarrow> addr \<times> nat \<Rightarrow> addr \<times> nat \<Rightarrow> ends_plan" where
  "plan_ends r one head tail =
     (let bounded = (window_length r \<noteq> TO_END);
          by_suffix = (\<not> bounded \<and> snd tail \<noteq> 0 \<and> res_backend r \<noteq> Azure);
          head0 = (if bounded then (fst head, at_most (snd head) (window_length r)) else head);
          head_part = (if \<not> bounded \<and> snd head = 0 \<and> \<not> by_suffix then (one, 1) else head0);
          len = at_most (snd tail) (window_length r)
      in if bounded \<and> snd head_part < unat (window_length r)
         then \<lparr>ep_bounded = bounded, ep_by_suffix = by_suffix, ep_head = head_part,
               ep_tail_range = \<lparr>br_first = window_offset r + window_length r - of_nat len, br_length = of_nat len, br_suffix = False\<rparr>,
               ep_tail = (fst tail, len)\<rparr>
         else \<lparr>ep_bounded = bounded, ep_by_suffix = by_suffix, ep_head = head_part,
               ep_tail_range = \<lparr>br_first = 0, br_length = of_nat (snd tail), br_suffix = True\<rparr>,
               ep_tail = (if by_suffix then tail else (0, 0))\<rparr>)"

definition changed_error :: "resolved \<Rightarrow> karu_status \<times> string" where
  "changed_error r = (KARU_ERR_PRECONDITION, shown_uri r @ '': the object changed between reading its head and its tail'')"

text \<open>Completing the tail once the size is known.\<close>

definition finish_ends :: "ranged_get \<Rightarrow> resolved \<Rightarrow> ends_plan \<Rightarrow> addr \<times> nat \<Rightarrow> addr \<times> nat \<Rightarrow> range_reply \<Rightarrow> range_reply \<Rightarrow> memory \<Rightarrow>
    ((karu_status \<times> string) + (u64 \<times> string)) \<times> memory" where
  "finish_ends get r ep head tail head_reply tail_reply m =
     (let head_sent = (snd (ep_head ep) \<noteq> 0);
          tail_sent = (snd (ep_tail ep) \<noteq> 0);
          known = (if head_sent then head_reply else tail_reply);
          visible = visible_size r (rr_total known);
          head_length = at_most (snd head) visible;
          tail_length = at_most (snd tail) visible;
          etag = (if rr_etag known = [] then rr_etag tail_reply else rr_etag known)
      in if tail_length = 0 then (Inr (visible, etag), m)
         else if tail_sent \<and> \<not> rr_suffix_ignored tail_reply
         then (Inr (visible, etag),
               if ep_by_suffix ep
               then memcpy m (fst tail) (map (\<lambda>i. m (fst tail + (unat (rr_got tail_reply) - tail_length) + i)) [0..<tail_length])
               else m)
         else if unat visible \<le> head_length
         then (Inr (visible, etag),
               memcpy m (fst tail) (map (\<lambda>i. m (fst head + (unat visible - tail_length) + i)) [0..<tail_length]))
         else (case get 2 \<lparr>br_first = window_offset r + visible - of_nat tail_length, br_length = of_nat tail_length, br_suffix = False\<rparr>
                      (fst tail) etag m of
                 (Inl e, m') \<Rightarrow> (Inl (f_status e, f_detail e), m')
               | (Inr reply, m') \<Rightarrow>
                   (if \<not> same_version reply known then (Inl (changed_error r), m')
                    else (Inr (visible, if etag = [] then rr_etag reply else etag), m'))))"

definition read_ends :: "ranged_get \<Rightarrow> (resolved \<Rightarrow> (karu_status \<times> string) + (u64 \<times> string)) \<Rightarrow> ends_env \<Rightarrow> resolved \<Rightarrow> addr \<Rightarrow>
    addr \<times> nat \<Rightarrow> addr \<times> nat \<Rightarrow> range_stats \<Rightarrow> memory \<Rightarrow>
    ((karu_status \<times> string) + (u64 \<times> string)) \<times> range_stats \<times> memory" where
  "read_ends get info env r one head tail stats m =
     (if res_backend r = File
      then (case read_file_ends env r head tail m of
              (Inl e, m') \<Rightarrow> (Inl e, stats, m')
            | (Inr visible, m') \<Rightarrow>
                (Inr (visible, []),
                 stats\<lparr>rs_received_bytes := rs_received_bytes stats + of_nat (at_most (snd head) visible + at_most (snd tail) visible)\<rparr>, m'))
      else if snd head = 0 \<and> snd tail = 0 then (info r, stats, m)
      else (let ep = plan_ends r one head tail;
                (hd_reply, m1) = (if snd (ep_head ep) \<noteq> 0
                   then get 0 \<lparr>br_first = window_offset r, br_length = of_nat (snd (ep_head ep)), br_suffix = False\<rparr> (fst (ep_head ep)) [] m
                   else (Inr empty_reply, m));
                (tl_reply, m2) = (if snd (ep_tail ep) \<noteq> 0 then get 1 (ep_tail_range ep) (fst (ep_tail ep)) [] m1
                   else (Inr empty_reply, m1))
            in case (hd_reply, tl_reply) of
                 (Inl e, _) \<Rightarrow> (Inl (f_status e, f_detail e), stats, m2)
               | (Inr _, Inl e) \<Rightarrow> (Inl (f_status e, f_detail e), stats, m2)
               | (Inr h, Inr t) \<Rightarrow>
                   (let stats' = add_range_stats (add_range_stats stats (rr_stats h)) (rr_stats t)
                    in if snd (ep_head ep) \<noteq> 0 \<and> snd (ep_tail ep) \<noteq> 0 \<and> \<not> same_version h t
                       then (Inl (changed_error r), stats', m2)
                       else if ep_bounded ep \<and> unat (rr_got h) \<noteq> snd (ep_head ep)
                       then (Inl (short_read r (window_offset r) (of_nat (snd (ep_head ep))) (rr_got h)), stats', m2)
                       else if ep_bounded ep \<and> unat (rr_got t) \<noteq> snd (ep_tail ep)
                       then (Inl (short_read r (br_first (ep_tail_range ep)) (of_nat (snd (ep_tail ep))) (rr_got t)), stats', m2)
                       else (case finish_ends get r ep head tail h t m2 of (res, m3) \<Rightarrow> (res, stats', m3)))))"

section \<open>Reading the ends of a local file\<close>

definition never_fails :: "file_reader \<Rightarrow> bool" where
  "never_fails read_at \<longleftrightarrow> (\<forall>k off len. \<exists>d. read_at k off len = Inr d)"

lemma read_span_total: "never_fails read_at \<Longrightarrow> \<exists>d. read_span read_at k off len = Inr d"
  by (metis never_fails_def map_sum.simps(2) read_span_def)

lemma read_file_loop_exact:
  assumes "pread_of sz obj read_at" "never_fails read_at" "unat first + unat n \<le> sz" "sz \<le> 2 ^ 64" "cnt \<le> n"
    and "\<forall>x < unat cnt. m (dst + x) = obj (unat first + x)"
  shows "\<exists>m'. read_file_loop read_at k r first dst n cnt m = ((KARU_OK, []), m') \<and>
    (\<forall>x < unat n. m' (dst + x) = obj (unat first + x)) \<and>
    (\<forall>a. \<not> (dst \<le> a \<and> a < dst + unat n) \<longrightarrow> m' a = m a)"
  using assms
proof (induction read_at k r first dst n cnt m rule: read_file_loop.induct)
  case (1 read_at k r first dst n cnt m)
  show ?case
  proof (cases "cnt < n")
    case False
    with 1(6) have "cnt = n" by simp
    with 1(7) show ?thesis by (simp add: read_file_loop.simps)
  next
    case True
    then have lt: "unat cnt < unat n" by (simp add: u64_less_iff)
    have off: "unat (first + cnt) = unat first + unat cnt" using lt 1(4,5) by (intro unat_u64_add) simp
    obtain d where d: "read_span read_at k (first + cnt) (n - cnt) = Inr d" using read_span_total [OF 1(3)] by blast
    have "0 < unat (n - cnt)" using lt by (simp add: unat_u64_sub)
    note rd = read_span_pread [OF 1(2) d this, unfolded off]
    have ne: "d \<noteq> []" using rd(3) lt 1(4) by simp
    note c = count_step [OF True rd(4)]
    let ?m1 = "memcpy m (dst + unat cnt) d"
    have "cnt + of_nat (length d) \<le> n" using c by (simp add: u64_le_iff)
    moreover have "?m1 (dst + x) = obj (unat first + x)" if "x < unat (cnt + of_nat (length d))" for x
    proof (cases "x < unat cnt")
      case True
      then show ?thesis using 1(7) by (simp add: memcpy_def)
    next
      case False
      with that c(1) have "x - unat cnt < length d" "unat cnt \<le> x" by auto
      with rd(1) that c(1) show ?thesis by (simp add: memcpy_def slice_at_def)
    qed
    ultimately obtain m' where r: "read_file_loop read_at (Suc k) r first dst n (cnt + of_nat (length d)) ?m1 = ((KARU_OK, []), m')"
      "\<forall>x < unat n. m' (dst + x) = obj (unat first + x)" "\<forall>a. \<not> (dst \<le> a \<and> a < dst + unat n) \<longrightarrow> m' a = ?m1 a"
      using 1(1) [OF _ d ne 1(2-5)] True by blast
    have "?m1 a = m a" if "\<not> (dst \<le> a \<and> a < dst + unat n)" for a
      using that c(2) by (intro memcpy_outside) auto
    with r True d ne show ?thesis by (simp add: read_file_loop.simps [of read_at k])
  qed
qed

lemma read_file_exact:
  assumes "pread_of sz obj read_at" "never_fails read_at" "n = 0 \<or> unat first + unat n \<le> sz" "sz \<le> 2 ^ 64"
  obtains m' where "read_file read_at r first dst n m = ((KARU_OK, []), m')"
    "\<forall>x < unat n. m' (dst + x) = obj (unat first + x)" "\<forall>a. \<not> (dst \<le> a \<and> a < dst + unat n) \<longrightarrow> m' a = m a"
proof (cases "n = 0")
  case True
  then show ?thesis using that [of m] by (simp add: read_file_def read_file_loop.simps)
next
  case False
  with assms read_file_loop_exact [OF assms(1,2), of first n 0 m dst 0 r] that show ?thesis by (auto simp: read_file_def)
qed

lemma at_most_le: "at_most n v \<le> n" "at_most n v \<le> unat v" "unat (of_nat (at_most n v) :: u64) = at_most n v"
  using unat_u64_less [of v] by (auto simp: at_most_def intro: unat_of_nat_u64)

text \<open>
  Both ends of a local file are exact. For an unchanged file that contains the window, \<open>read_file_ends\<close>
  succeeds and reports the visible size; the head buffer holds the first and the tail buffer the last visible
  bytes, all of them when the object is shorter than the buffers, and no byte outside the two buffers changes.
\<close>

theorem read_file_ends_exact:
  fixes r :: resolved and tot :: u64 and hn tn :: nat
  defines "visible \<equiv> visible_size r tot"
  assumes "ee_file_size env = Inr tot" "ee_open env = None"
    and "pread_of (unat tot) obj (ee_head env)" "never_fails (ee_head env)"
    and "pread_of (unat tot) obj (ee_tail env)" "never_fails (ee_tail env)"
    and "visible = 0 \<or> unat (window_offset r) + unat visible \<le> unat tot"
    and "ha + hn \<le> ta \<or> ta + tn \<le> ha"
  shows "\<exists>m'. read_file_ends env r (ha, hn) (ta, tn) m = (Inr visible, m') \<and>
    (\<forall>x < min hn (unat visible). m' (ha + x) = obj (unat (window_offset r) + x)) \<and>
    (\<forall>x < min tn (unat visible). m' (ta + x) = obj (unat (window_offset r) + unat visible - min tn (unat visible) + x)) \<and>
    (\<forall>a. \<not> (ha \<le> a \<and> a < ha + hn) \<and> \<not> (ta \<le> a \<and> a < ta + tn) \<longrightarrow> m' a = m a)"
proof -
  let ?hl = "at_most hn visible" and ?tl = "at_most tn visible"
  have sz: "unat tot \<le> 2 ^ 64" using unat_u64_less [of tot] by simp
  have h0: "(of_nat ?hl :: u64) = 0 \<or> unat (window_offset r) + unat (of_nat ?hl :: u64) \<le> unat tot"
    using assms(8) at_most_le [of hn visible] by auto
  obtain m1 where h: "read_file (ee_head env) r (window_offset r) ha (of_nat ?hl) m = ((KARU_OK, []), m1)"
    "\<forall>x < ?hl. m1 (ha + x) = obj (unat (window_offset r) + x)" "\<forall>a. \<not> (ha \<le> a \<and> a < ha + ?hl) \<longrightarrow> m1 a = m a"
    using read_file_exact [OF assms(4,5) h0 sz, of r ha m] at_most_le(3) by (metis (no_types))
  let ?first = "window_offset r + visible - of_nat ?tl"
  have f: "unat ?first = unat (window_offset r) + unat visible - ?tl" if "visible \<noteq> 0"
  proof -
    have "unat (window_offset r + visible) = unat (window_offset r) + unat visible"
      using that assms(8) unat_u64_less [of tot] by (intro unat_u64_add) auto
    then show ?thesis using at_most_le [of tn visible] by (subst unat_u64_sub) auto
  qed
  have t0: "(of_nat ?tl :: u64) = 0 \<or> unat ?first + unat (of_nat ?tl :: u64) \<le> unat tot"
    using assms(8) f at_most_le [of tn visible] by (cases "visible = 0") (auto simp: at_most_def)
  obtain m2 where t: "read_file (ee_tail env) r ?first ta (of_nat ?tl) m1 = ((KARU_OK, []), m2)"
    "\<forall>x < ?tl. m2 (ta + x) = obj (unat ?first + x)" "\<forall>a. \<not> (ta \<le> a \<and> a < ta + ?tl) \<longrightarrow> m2 a = m1 a"
    using read_file_exact [OF assms(6,7) t0 sz, of r ta m1] at_most_le(3) by (metis (no_types))
  have e: "read_file_ends env r (ha, hn) (ta, tn) m = (Inr visible, m2)"
    using assms(2,3) h(1) t(1) by (simp add: read_file_ends_def visible_def [symmetric])
  have "m2 (ha + x) = m1 (ha + x)" if "x < ?hl" for x
    using t(3) [rule_format, of "ha + x"] assms(9) that at_most_le(1) [of hn visible] at_most_le(1) [of tn visible] by linarith
  moreover have "m2 (ta + x) = obj (unat (window_offset r) + unat visible - ?tl + x)" if "x < ?tl" for x
    using that t(2) f by (cases "visible = 0") (auto simp: at_most_def)
  moreover have "m2 a = m a" if "\<not> (ha \<le> a \<and> a < ha + hn)" "\<not> (ta \<le> a \<and> a < ta + tn)" for a
    using that h(3) t(3) at_most_le(1) [of hn visible] at_most_le(1) [of tn visible] by (metis add_le_mono1 add.commute le_less_trans less_le_trans nat_add_left_cancel_less nat_less_le)
  ultimately show ?thesis using e h(2) unfolding at_most_def by (intro exI [of _ m2]) auto
qed

end
