(* ===== verification/Karu_Api.thy ===== *)
theory Karu_Api
  imports Karu_Refinement Karu_Ends Karu_Config
begin

text \<open>
  The public C interface, \<open>src/src/karu.cpp\<close>, with the error text of a thread (\<open>src/src/error.cpp\<close>) and the
  client that owns an engine (\<open>src/src/client.hpp\<close>). Pointers of callers are options, \<^const>\<open>None\<close> for null;
  an output pointer is a truth value, whether it is not null, and what is stored through it is a result.
  The versioned structures carry their \<open>struct_size\<close>, with the offsets of a 64-bit target. An exception
  that a \<open>try\<close> block catches is an argument, and it comes before the block has changed anything.
  A client holds its engine; the process that made the engine is a history the code does not keep.
\<close>

section \<open>Error text\<close>

definition MESSAGE_MAX :: nat where
  "MESSAGE_MAX = 512"

definition no_message :: "byte list" where
  "no_message = replicate MESSAGE_MAX (CHR 0x00)"

definition set_error :: "string \<Rightarrow> byte list \<Rightarrow> byte list" where
  "set_error message err =
     (let n = min (length message) (MESSAGE_MAX - 1) in (take n message @ drop n err)[n := CHR 0x00])"

definition clear_error :: "byte list \<Rightarrow> byte list" where
  "clear_error err = err[0 := CHR 0x00]"

text \<open>The C string that a character array holds.\<close>

definition c_string :: "byte list \<Rightarrow> string" where
  "c_string b = takeWhile (\<lambda>c. c \<noteq> CHR 0x00) b"

definition last_error :: "byte list \<Rightarrow> string" where
  "last_error err = c_string err"

definition exception_status :: "string \<Rightarrow> cpp_exception \<Rightarrow> byte list \<Rightarrow> karu_status \<times> byte list" where
  "exception_status call ex err =
     (case ex of
        Bad_Alloc \<Rightarrow> (KARU_ERR_NOMEM, set_error (call @ '': out of memory'') err)
      | Std_Exception what \<Rightarrow> (KARU_ERR_INVALID, set_error (call @ '': '' @ what) err)
      | Unknown_Exception \<Rightarrow> (KARU_ERR_INVALID, set_error (call @ '': unknown C++ exception'') err))"

definition invalid_call :: "string \<Rightarrow> byte list \<Rightarrow> 'a \<Rightarrow> karu_status \<times> byte list \<times> 'a" where
  "invalid_call message err a = (KARU_ERR_INVALID, set_error message err, a)"

definition thrown :: "string \<Rightarrow> cpp_exception \<Rightarrow> byte list \<Rightarrow> 'a \<Rightarrow> karu_status \<times> byte list \<times> 'a" where
  "thrown call ex err a = (case exception_status call ex err of (status, err') \<Rightarrow> (status, err', a))"

lemma length_error [simp]:
  "length err = MESSAGE_MAX \<Longrightarrow> length (set_error m err) = MESSAGE_MAX"
  "length (clear_error err) = length err"
  by (simp_all add: set_error_def clear_error_def Let_def MESSAGE_MAX_def)

lemma takeWhile_nul_update:
  assumes "n < length xs"
  shows "takeWhile (\<lambda>c. c \<noteq> CHR 0x00) (xs[n := CHR 0x00]) = takeWhile (\<lambda>c. c \<noteq> CHR 0x00) (take n xs)"
proof -
  have "xs[n := CHR 0x00] = take n xs @ CHR 0x00 # drop (Suc n) xs" using assms by (rule upd_conv_take_nth_drop)
  then show ?thesis by (simp add: takeWhile_tail)
qed

lemma takeWhile_whole: "x \<notin> set xs \<Longrightarrow> takeWhile (\<lambda>c. c \<noteq> x) xs = xs"
  by (auto simp: takeWhile_eq_all_conv)

lemma last_error_set [simp]:
  assumes "length err = MESSAGE_MAX" "CHR 0x00 \<notin> set m"
  shows "last_error (set_error m err) = take (MESSAGE_MAX - 1) m"
proof -
  let ?n = "min (length m) (MESSAGE_MAX - 1)"
  have t: "take ?n (take ?n m @ drop ?n err) = take (MESSAGE_MAX - 1) m" by (simp add: min_def)
  have "?n < length (take ?n m @ drop ?n err)" using assms(1) by (simp add: MESSAGE_MAX_def)
  moreover have "CHR 0x00 \<notin> set (take (MESSAGE_MAX - 1) m)" using assms(2) in_set_takeD by fast
  ultimately show ?thesis
    by (simp only: last_error_def c_string_def set_error_def Let_def takeWhile_nul_update t takeWhile_whole not_False_eq_True)
qed

lemma last_error_clear [simp]: "err \<noteq> [] \<Longrightarrow> last_error (clear_error err) = []"
  by (cases err) (simp_all add: last_error_def c_string_def clear_error_def)

section \<open>Configurations\<close>

definition karu_config_create :: "(string \<rightharpoonup> string) \<Rightarrow> (string \<Rightarrow> bool) \<Rightarrow> bool \<Rightarrow> cpp_exception option \<Rightarrow> byte list \<Rightarrow>
    karu_status \<times> byte list \<times> config_builder option" where
  "karu_config_create env regular out throws err0 =
     (let err = clear_error err0
      in if \<not> out then invalid_call ''karu_config_create: null output'' err None
         else case throws of
                Some ex \<Rightarrow> thrown ''karu_config_create'' ex err None
              | None \<Rightarrow> (KARU_OK, err, Some (new_builder env regular True)))"

definition karu_config_create_empty :: "bool \<Rightarrow> cpp_exception option \<Rightarrow> byte list \<Rightarrow>
    karu_status \<times> byte list \<times> config_builder option" where
  "karu_config_create_empty out throws err0 =
     (let err = clear_error err0
      in if \<not> out then invalid_call ''karu_config_create_empty: null output'' err None
         else case throws of
                Some ex \<Rightarrow> thrown ''karu_config_create_empty'' ex err None
              | None \<Rightarrow> (KARU_OK, err, Some (new_builder Map.empty (\<lambda>_. False) False)))"

text \<open>What the three setters share: an error of the builder is \<open>KARU_ERR_CONFIG\<close>.\<close>

definition builder_call :: "string \<Rightarrow> cpp_exception option \<Rightarrow> string + config_builder \<Rightarrow> config_builder \<Rightarrow> byte list \<Rightarrow>
    karu_status \<times> byte list \<times> config_builder option" where
  "builder_call call throws result b err =
     (case throws of
        Some ex \<Rightarrow> thrown call ex err (Some b)
      | None \<Rightarrow> (case result of
                  Inl message \<Rightarrow> (KARU_ERR_CONFIG, set_error message err, Some b)
                | Inr b' \<Rightarrow> (KARU_OK, err, Some b')))"

definition karu_config_set_option :: "config_builder option \<Rightarrow> string option \<Rightarrow> string option \<Rightarrow> cpp_exception option \<Rightarrow> byte list \<Rightarrow>
    karu_status \<times> byte list \<times> config_builder option" where
  "karu_config_set_option config name v throws err0 =
     (let err = clear_error err0
      in case (config, name) of
           (Some b, Some n) \<Rightarrow> builder_call ''karu_config_set_option'' throws (builder_set n v b) b err
         | _ \<Rightarrow> invalid_call ''karu_config_set_option: null argument'' err config)"

definition karu_config_set_path_option :: "config_builder option \<Rightarrow> string option \<Rightarrow> string option \<Rightarrow> string option \<Rightarrow>
    cpp_exception option \<Rightarrow> byte list \<Rightarrow> karu_status \<times> byte list \<times> config_builder option" where
  "karu_config_set_path_option config p name v throws err0 =
     (let err = clear_error err0
      in case (config, p, name) of
           (Some b, Some q, Some n) \<Rightarrow> builder_call ''karu_config_set_path_option'' throws (builder_set_path q n v b) b err
         | _ \<Rightarrow> invalid_call ''karu_config_set_path_option: null argument'' err config)"

definition karu_config_set_credentials_provider :: "config_builder option \<Rightarrow> int \<Rightarrow> addr option \<Rightarrow> addr option \<Rightarrow> addr option \<Rightarrow>
    cpp_exception option \<Rightarrow> byte list \<Rightarrow> karu_status \<times> byte list \<times> config_builder option" where
  "karu_config_set_credentials_provider config kind provider user_data release throws err0 =
     (let err = clear_error err0
      in case config of
           None \<Rightarrow> invalid_call ''karu_config_set_credentials_provider: null config'' err None
         | Some b \<Rightarrow> builder_call ''karu_config_set_credentials_provider'' throws
                      (builder_set_provider kind provider user_data release b) b err)"

section \<open>Clients\<close>

record client =
  cl_config :: config_snapshot
  cl_engine :: "engine option"
  cl_owner_pid :: int
  cl_engine_process :: int

definition new_client :: "config_snapshot \<Rightarrow> client" where
  "new_client s = \<lparr>cl_config = s, cl_engine = None, cl_owner_pid = 0, cl_engine_process = 0\<rparr>"

definition karu_client_create :: "string \<Rightarrow> config_builder option \<Rightarrow> bool \<Rightarrow> cpp_exception option \<Rightarrow> byte list \<Rightarrow>
    karu_status \<times> byte list \<times> client option" where
  "karu_client_create version_string config out throws err0 =
     (let err = clear_error err0
      in case config of
           None \<Rightarrow> invalid_call ''karu_client_create: null argument'' err None
         | Some b \<Rightarrow>
             (if \<not> out then invalid_call ''karu_client_create: null argument'' err None
              else case throws of
                     Some ex \<Rightarrow> thrown ''karu_client_create'' ex err None
                   | None \<Rightarrow> (case freeze version_string b of
                               Inl message \<Rightarrow> (KARU_ERR_CONFIG, set_error message err, None)
                             | Inr s \<Rightarrow> (KARU_OK, err, Some (new_client s)))))"

text \<open>\<open>process\<close> is the calling process and \<open>m\<close> its memory.\<close>

definition abandon_inherited :: "int \<Rightarrow> client \<Rightarrow> client" where
  "abandon_inherited process cl =
     (if cl_owner_pid cl \<noteq> 0 \<and> cl_owner_pid cl \<noteq> process then cl\<lparr>cl_engine := None, cl_owner_pid := 0\<rparr> else cl)"

definition acquire_engine :: "int \<Rightarrow> memory \<Rightarrow> client \<Rightarrow> engine \<times> client" where
  "acquire_engine process m cl0 =
     (let cl = abandon_inherited process cl0
      in case cl_engine cl of
           Some e \<Rightarrow> (e, cl)
         | None \<Rightarrow> (let e = new_engine (cs_client (cl_config cl)) m
                   in (e, cl\<lparr>cl_engine := Some e, cl_owner_pid := process, cl_engine_process := process\<rparr>)))"

definition karu_client_concurrency :: "client option \<Rightarrow> int" where
  "karu_client_concurrency cl = (case cl of None \<Rightarrow> 0 | Some c \<Rightarrow> concurrency (cs_client (cl_config c)))"

definition karu_client_coalesce_gap :: "client option \<Rightarrow> u64" where
  "karu_client_coalesce_gap cl = (case cl of None \<Rightarrow> 0 | Some c \<Rightarrow> coalesce_gap (cs_client (cl_config c)))"

definition karu_client_max_attempts :: "client option \<Rightarrow> int" where
  "karu_client_max_attempts cl = (case cl of None \<Rightarrow> 0 | Some c \<Rightarrow> max_attempts (cs_client (cl_config c)))"

section \<open>Locators\<close>

definition karu_resolve :: "string option \<Rightarrow> bool \<Rightarrow> cpp_exception option \<Rightarrow> byte list \<Rightarrow> karu_status \<times> byte list \<times> resolved option" where
  "karu_resolve uri out throws err0 =
     (let err = clear_error err0
      in case uri of
           None \<Rightarrow> invalid_call ''karu_resolve: null argument'' err None
         | Some u \<Rightarrow>
             (if \<not> out then invalid_call ''karu_resolve: null argument'' err None
              else case throws of
                     Some ex \<Rightarrow> thrown ''karu_resolve'' ex err None
                   | None \<Rightarrow> (case resolve u of
                               Inl e \<Rightarrow> (if err_code e = Unsupported then KARU_ERR_UNSUPPORTED else KARU_ERR_URI,
                                        set_error (err_message e) err, None)
                             | Inr r \<Rightarrow> (KARU_OK, err, Some r))))"

definition karu_locator_uri :: "resolved option \<Rightarrow> string" where
  "karu_locator_uri l = (case l of None \<Rightarrow> [] | Some r \<Rightarrow> canonical_uri r)"

definition karu_locator_is_remote :: "resolved option \<Rightarrow> bool" where
  "karu_locator_is_remote l = (case l of None \<Rightarrow> False | Some r \<Rightarrow> res_backend r \<noteq> File)"

definition karu_locator_window_offset :: "resolved option \<Rightarrow> u64" where
  "karu_locator_window_offset l = (case l of None \<Rightarrow> 0 | Some r \<Rightarrow> window_offset r)"

definition karu_locator_window_length :: "resolved option \<Rightarrow> u64" where
  "karu_locator_window_length l = (case l of None \<Rightarrow> 0 | Some r \<Rightarrow> window_length r)"

section \<open>Sizes and ends\<close>

text \<open>Whether a structure of \<open>struct_size\<close> bytes has the field of \<open>sz\<close> bytes at \<open>offset\<close>.\<close>

definition available :: "nat \<Rightarrow> nat \<Rightarrow> nat \<Rightarrow> bool" where
  "available struct_size offset sz \<longleftrightarrow> offset + sz \<le> struct_size"

record object_info =
  io_struct_size :: nat
  io_size :: u64
  io_etag :: "byte list"

definition ETAG_SIZE :: nat where
  "ETAG_SIZE = 256"

text \<open>The entity tag and its terminator, or nothing, at the start of an array.\<close>

definition store_etag :: "string \<Rightarrow> byte list \<Rightarrow> byte list" where
  "store_etag etag dest =
     (let fits = (length etag < ETAG_SIZE);
          copied = (if fits then etag @ drop (length etag) dest else dest)
      in copied[(if fits then length etag else 0) := CHR 0x00])"

definition store_object_info :: "u64 \<Rightarrow> string \<Rightarrow> object_info \<Rightarrow> object_info" where
  "store_object_info sz etag out =
     (let out1 = out\<lparr>io_size := sz\<rparr>
      in if available (io_struct_size out) 16 ETAG_SIZE then out1\<lparr>io_etag := store_etag etag (io_etag out)\<rparr> else out1)"

text \<open>
  A call that acquires the engine of the client \<open>c\<close> and uses it; on failure the engine has set the error text.
  \<open>process\<close> is the calling process and its memory.
\<close>

definition engine_call :: "int \<times> memory \<Rightarrow> string \<Rightarrow> cpp_exception option \<Rightarrow> client \<Rightarrow> (karu_status \<times> string) + 'a \<Rightarrow> ('a \<Rightarrow> 'b) \<Rightarrow> 'b \<Rightarrow> byte list \<Rightarrow>
    karu_status \<times> byte list \<times> 'b \<times> client option" where
  "engine_call process call throws c result store out err =
     (case throws of
        Some ex \<Rightarrow> thrown call ex err (out, Some c)
      | None \<Rightarrow>
          (let c' = Some (snd (acquire_engine (fst process) (snd process) c))
           in case result of
                Inl (status, message) \<Rightarrow> (status, set_error message err, out, c')
              | Inr a \<Rightarrow> (KARU_OK, err, store a, c')))"

definition karu_client_size :: "int \<times> memory \<Rightarrow> (resolved \<Rightarrow> (karu_status \<times> string) + u64) \<Rightarrow> client option \<Rightarrow> resolved option \<Rightarrow> u64 option \<Rightarrow>
    cpp_exception option \<Rightarrow> byte list \<Rightarrow> karu_status \<times> byte list \<times> u64 option \<times> client option" where
  "karu_client_size process sz cl locator out throws err0 =
     (let err = clear_error err0
      in case (cl, locator, out) of
           (Some c, Some r, Some v) \<Rightarrow> engine_call process ''karu_client_size'' throws c (sz r) Some out err
         | _ \<Rightarrow> invalid_call ''karu_client_size: null argument'' err (out, cl))"

definition karu_client_stat :: "int \<times> memory \<Rightarrow> (resolved \<Rightarrow> (karu_status \<times> string) + (u64 \<times> string)) \<Rightarrow> client option \<Rightarrow> resolved option \<Rightarrow>
    object_info option \<Rightarrow> cpp_exception option \<Rightarrow> byte list \<Rightarrow> karu_status \<times> byte list \<times> object_info option \<times> client option" where
  "karu_client_stat process info cl locator out throws err0 =
     (let err = clear_error err0
      in case (cl, locator, out) of
           (Some c, Some r, Some old) \<Rightarrow>
             (if \<not> available (io_struct_size old) 8 8
              then invalid_call ''karu_client_stat: struct_size is too small'' err (out, cl)
              else engine_call process ''karu_client_stat'' throws c (info r)
                     (\<lambda>(sz, etag). Some (store_object_info sz etag old)) out err)
         | _ \<Rightarrow> invalid_call ''karu_client_stat: null argument'' err (out, cl))"

text \<open>A buffer is an address, or null, and a length; \<open>read\<close> is \<open>Engine::read_ends\<close> on the spans.\<close>

definition karu_client_read_ends :: "int \<times> memory \<Rightarrow> (resolved \<Rightarrow> addr \<times> nat \<Rightarrow> addr \<times> nat \<Rightarrow> (karu_status \<times> string) + (u64 \<times> string)) \<Rightarrow>
    client option \<Rightarrow> resolved option \<Rightarrow> addr option \<Rightarrow> u64 \<Rightarrow> addr option \<Rightarrow> u64 \<Rightarrow> object_info option \<Rightarrow> cpp_exception option \<Rightarrow> byte list \<Rightarrow>
    karu_status \<times> byte list \<times> object_info option \<times> client option" where
  "karu_client_read_ends process read cl locator head head_length tail tail_length out throws err0 =
     (let err = clear_error err0;
          span = (\<lambda>b n. (case b of None \<Rightarrow> 0 | Some a \<Rightarrow> a, unat (n :: u64)))
      in case (cl, locator, out) of
           (Some c, Some r, Some old) \<Rightarrow>
             (if (head = None \<and> 0 < head_length) \<or> (tail = None \<and> 0 < tail_length)
              then invalid_call ''karu_client_read_ends: null argument'' err (out, cl)
              else if \<not> available (io_struct_size old) 8 8
              then invalid_call ''karu_client_read_ends: struct_size is too small'' err (out, cl)
              else if head_length = TO_END \<or> tail_length = TO_END
              then invalid_call ''karu_client_read_ends: lengths must be finite'' err (out, cl)
              else engine_call process ''karu_client_read_ends'' throws c (read r (span head head_length) (span tail tail_length))
                     (\<lambda>(sz, etag). Some (store_object_info sz etag old)) out err)
         | _ \<Rightarrow> invalid_call ''karu_client_read_ends: null argument'' err (out, cl))"

lemma c_string_store_etag:
  assumes "length dest = ETAG_SIZE" "CHR 0x00 \<notin> set etag"
  shows "c_string (store_etag etag dest) = (if length etag < ETAG_SIZE then etag else [])"
proof (cases "length etag < ETAG_SIZE")
  case True
  then have "length etag < length (etag @ drop (length etag) dest)" using assms(1) by simp
  then show ?thesis using True assms(2)
    by (simp add: c_string_def store_etag_def takeWhile_nul_update takeWhile_whole del: length_append)
next
  case False
  have "0 < length dest" using assms(1) by (simp add: ETAG_SIZE_def)
  then have "takeWhile (\<lambda>c. c \<noteq> CHR 0x00) (dest[0 := CHR 0x00]) = []" by (simp only: takeWhile_nul_update) simp
  then show ?thesis using False by (simp add: c_string_def store_etag_def)
qed

section \<open>Submitting\<close>

record c_request =
  cr_locator :: "resolved option"
  cr_offset :: u64
  cr_length :: u64
  cr_buffer :: "addr option"
  cr_tag :: tag
  cr_if_match :: "string option"

definition request_error_text :: "string \<Rightarrow> nat \<Rightarrow> string \<Rightarrow> string" where
  "request_error_text call index what = call @ '': request '' @ to_string index @ what"

text \<open>\<open>convert_requests\<close> from the request with number \<open>index\<close> on.\<close>

fun convert_requests :: "string \<Rightarrow> nat \<Rightarrow> c_request list \<Rightarrow> request list \<Rightarrow> byte list \<Rightarrow> request list \<times> byte list" where
  "convert_requests call index [] converted err = (converted, err)"
| "convert_requests call index (r # rs) converted err =
     (case cr_locator r of
        None \<Rightarrow> ([], set_error (request_error_text call index '' has no locator'') err)
      | Some l \<Rightarrow>
          if cr_length r = 0 then ([], set_error (request_error_text call index '' is empty'') err)
          else if cr_length r = TO_END then ([], set_error (request_error_text call index '' does not have a finite length'') err)
          else if (case cr_if_match r of None \<Rightarrow> False | Some e \<Rightarrow> find_first_of [CHR 0x0D, CHR 0x0A] e \<noteq> None)
          then ([], set_error (request_error_text call index '' has an invalid ETag'') err)
          else convert_requests call (Suc index) rs
                 (converted @ [\<lparr>rq_locator = l, rq_offset = cr_offset r, rq_length = cr_length r, rq_buffer = cr_buffer r,
                    rq_tag = cr_tag r, rq_if_match = (case cr_if_match r of None \<Rightarrow> [] | Some e \<Rightarrow> e)\<rparr>]) err)"

record submit_overrides =
  so_struct_size :: nat
  so_coalesce_gap :: u64
  so_coalesce_limit :: u64
  so_coalesce_parts :: u64
  so_coalesce_amplification :: u64

definition KARU_INHERIT :: u64 where
  "KARU_INHERIT = u64_max"

text \<open>The value of an optional field at \<open>offset\<close>, unless the caller keeps the client's.\<close>

definition override :: "nat \<Rightarrow> nat \<Rightarrow> u64 \<Rightarrow> u64 option" where
  "override struct_size offset v = (if available struct_size offset 8 \<and> v \<noteq> KARU_INHERIT then Some v else None)"

definition submit_options :: "client_options \<Rightarrow> submit_overrides option \<Rightarrow> string \<Rightarrow> byte list \<Rightarrow> client_options option \<times> byte list" where
  "submit_options defaults overrides call err =
     (case overrides of
        None \<Rightarrow> (Some defaults, err)
      | Some ov \<Rightarrow>
          if \<not> available (so_struct_size ov) 8 8 then (None, set_error (call @ '': submit options structure is too small'') err)
          else (let opt1 = (if so_coalesce_gap ov = KARU_INHERIT then defaults else defaults\<lparr>coalesce_gap := so_coalesce_gap ov\<rparr>);
                    limit = override (so_struct_size ov) 16 (so_coalesce_limit ov);
                    parts = override (so_struct_size ov) 24 (so_coalesce_parts ov);
                    amplification = override (so_struct_size ov) 32 (so_coalesce_amplification ov);
                    opt2 = (case limit of None \<Rightarrow> opt1 | Some v \<Rightarrow> opt1\<lparr>coalesce_limit := v\<rparr>);
                    opt3 = (case parts of None \<Rightarrow> opt2 | Some v \<Rightarrow> opt2\<lparr>coalesce_parts := v\<rparr>)
                in if limit = Some 0 then (None, set_error (call @ '': coalesce_limit must be at least 1'') err)
                   else if parts = Some 0 then (None, set_error (call @ '': coalesce_parts is outside the supported range'') err)
                   else if amplification = Some 0 then (None, set_error (call @ '': coalesce_amplification must be at least 1'') err)
                   else (Some (case amplification of None \<Rightarrow> opt3 | Some v \<Rightarrow> opt3\<lparr>coalesce_amplification := v\<rparr>), err)))"

text \<open>
  \<open>Engine::submit\<close>: the plan and the two critical sections that hand its transfers over. \<open>i\<close> is the address
  of the new batch; the answer is \<^const>\<open>None\<close> when it is in use.
\<close>

definition engine_submit :: "malloc \<Rightarrow> int \<Rightarrow> nat \<Rightarrow> client_options \<Rightarrow> request list \<Rightarrow> engine \<Rightarrow> (karu_status \<times> engine) option" where
  "engine_submit malloc pid i opt requests e =
     map_option (\<lambda>(status, e'). (status, if status = KARU_OK then submit_http i (submit_queue i e') else e'))
       (submit_plan malloc pid i opt requests e)"

record submit_env =
  sv_malloc :: malloc
  sv_pid :: int
  sv_memory :: memory
  sv_batch :: nat

definition client_submit :: "submit_env \<Rightarrow> client option \<Rightarrow> c_request list option \<Rightarrow> nat \<Rightarrow> submit_overrides option \<Rightarrow> bool \<Rightarrow> string \<Rightarrow>
    byte list \<Rightarrow> (karu_status \<times> byte list \<times> nat option \<times> client option) option" where
  "client_submit env cl requests cnt overrides out call err =
     (let refused = (\<lambda>err'. Some (KARU_ERR_INVALID, err', None, cl))
      in case cl of
           None \<Rightarrow> refused (set_error (call @ '': null argument'') err)
         | Some c \<Rightarrow>
             if \<not> out \<or> (0 < cnt \<and> requests = None) then refused (set_error (call @ '': null argument'') err)
             else (let (converted, err1) = convert_requests call 0 (case requests of None \<Rightarrow> [] | Some rs \<Rightarrow> take cnt rs) [] err
                   in if length converted \<noteq> cnt then refused err1
                      else case submit_options (cs_client (cl_config c)) overrides call err1 of
                             (None, err2) \<Rightarrow> refused err2
                           | (Some opt, err2) \<Rightarrow>
                               (let (e, c') = acquire_engine (sv_pid env) (sv_memory env) c
                                in map_option (\<lambda>(status, e'). (status, err2, if status = KARU_OK then Some (sv_batch env) else None,
                                       Some (c'\<lparr>cl_engine := Some e'\<rparr>)))
                                     (engine_submit (sv_malloc env) (sv_pid env) (sv_batch env) opt converted e))))"

definition karu_client_submit_with :: "submit_env \<Rightarrow> client option \<Rightarrow> c_request list option \<Rightarrow> nat \<Rightarrow> submit_overrides option \<Rightarrow> bool \<Rightarrow>
    cpp_exception option \<Rightarrow> byte list \<Rightarrow> (karu_status \<times> byte list \<times> nat option \<times> client option) option" where
  "karu_client_submit_with env cl requests cnt overrides out throws err0 =
     (let err = clear_error err0
      in case throws of
           Some ex \<Rightarrow> Some (thrown ''karu_client_submit_with'' ex err (None, cl))
         | None \<Rightarrow> client_submit env cl requests cnt overrides out ''karu_client_submit_with'' err)"

definition karu_client_submit :: "submit_env \<Rightarrow> client option \<Rightarrow> c_request list option \<Rightarrow> nat \<Rightarrow> bool \<Rightarrow>
    cpp_exception option \<Rightarrow> byte list \<Rightarrow> (karu_status \<times> byte list \<times> nat option \<times> client option) option" where
  "karu_client_submit env cl requests cnt out throws err0 =
     (let err = clear_error err0
      in case throws of
           Some ex \<Rightarrow> Some (thrown ''karu_client_submit'' ex err (None, cl))
         | None \<Rightarrow> client_submit env cl requests cnt None out ''karu_client_submit'' err)"

section \<open>Batches\<close>

record done_record =
  dn_tag :: tag
  dn_status :: karu_status
  dn_got :: u64
  dn_buffer :: "addr option"

text \<open>The answer is \<^const>\<open>None\<close> while the call waits.\<close>

definition karu_batch_next :: "int \<Rightarrow> batch_state option \<Rightarrow> bool \<Rightarrow> int \<Rightarrow> byte list \<Rightarrow>
    (karu_status \<times> byte list \<times> done_record option \<times> batch_state option) option" where
  "karu_batch_next pid batch out timeout_ms err0 =
     (let err = clear_error err0
      in case batch of
           None \<Rightarrow> Some (invalid_call ''karu_batch_next: null argument'' err (None, batch))
         | Some b \<Rightarrow>
             if \<not> out then Some (invalid_call ''karu_batch_next: null argument'' err (None, batch))
             else if inherited pid b
             then Some (invalid_call ''karu_batch_next: the batch was submitted by another process; batches do not cross fork()'' err
                    (None, batch))
             else map_option (\<lambda>(status, completion, b').
                 case completion of
                   None \<Rightarrow> (status, err, None, Some b')
                 | Some c \<Rightarrow>
                     (status, if cp_status c \<noteq> KARU_OK \<and> cp_detail c \<noteq> [] then set_error (cp_detail c) err else err,
                      Some \<lparr>dn_tag = cp_tag c, dn_status = cp_status c, dn_got = cp_got c, dn_buffer = fst (release_buffer c)\<rparr>, Some b'))
               (batch_next b timeout_ms))"

record batch_stats =
  bs_struct_size :: nat
  bs_counters :: batch_counters

text \<open>A field of the structure, kept when the structure does not reach it.\<close>

definition copy_counter :: "nat \<Rightarrow> nat \<Rightarrow> u64 \<Rightarrow> u64 \<Rightarrow> u64" where
  "copy_counter struct_size offset field counter = (if available struct_size offset 8 then counter else field)"

definition copy_counters :: "nat \<Rightarrow> batch_counters \<Rightarrow> batch_counters \<Rightarrow> batch_counters" where
  "copy_counters n from old =
     \<lparr>bc_transfers = copy_counter n 8 (bc_transfers old) (bc_transfers from),
      bc_transfers_finished = copy_counter n 16 (bc_transfers_finished old) (bc_transfers_finished from),
      bc_requested_bytes = copy_counter n 24 (bc_requested_bytes old) (bc_requested_bytes from),
      bc_received_bytes = copy_counter n 32 (bc_received_bytes old) (bc_received_bytes from),
      bc_retries = copy_counter n 40 (bc_retries old) (bc_retries from),
      bc_throttled = copy_counter n 48 (bc_throttled old) (bc_throttled from),
      bc_new_connections = copy_counter n 56 (bc_new_connections old) (bc_new_connections from),
      bc_resumed = copy_counter n 64 (bc_resumed old) (bc_resumed from),
      bc_credential_refreshes = copy_counter n 72 (bc_credential_refreshes old) (bc_credential_refreshes from)\<rparr>"

definition karu_batch_get_stats :: "int \<Rightarrow> batch_state option \<Rightarrow> batch_stats option \<Rightarrow> byte list \<Rightarrow> karu_status \<times> byte list \<times> batch_stats option" where
  "karu_batch_get_stats pid batch out err0 =
     (let err = clear_error err0
      in case (batch, out) of
           (Some b, Some st) \<Rightarrow>
             if inherited pid b
             then invalid_call ''karu_batch_get_stats: the batch was submitted by another process; batches do not cross fork()'' err out
             else if \<not> available (bs_struct_size st) 8 8
             then invalid_call ''karu_batch_get_stats: struct_size is too small'' err out
             else (KARU_OK, err, Some (st\<lparr>bs_counters := copy_counters (bs_struct_size st) (counters b) (bs_counters st)\<rparr>))
         | _ \<Rightarrow> invalid_call ''karu_batch_get_stats: null argument'' err out)"

text \<open>
  \<open>Engine::cancel\<close> up to its wait, of the batch at address \<open>i\<close>, and the call of it by \<open>karu_batch_free\<close>,
  which leaves a batch of another process alone.
\<close>

definition engine_cancel :: "nat \<Rightarrow> engine \<Rightarrow> engine option" where
  "engine_cancel i e =
     (case en_batches e i of
        None \<Rightarrow> None
      | Some b \<Rightarrow>
          if live_transfers b = 0 then mark_cancelled i e
          else Option.bind (mark_cancelled i e) (\<lambda>e1. Option.bind (cancel_queues i e1) (\<lambda>e2.
                 map_option cancel_loops (cancel_http i e2))))"

definition karu_batch_free :: "int \<Rightarrow> nat option \<Rightarrow> engine \<Rightarrow> engine option" where
  "karu_batch_free pid batch e =
     (case batch of
        None \<Rightarrow> Some e
      | Some i \<Rightarrow>
          (case en_batches e i of
             None \<Rightarrow> None
           | Some b \<Rightarrow> if inherited pid b then Some e else engine_cancel i e))"

section \<open>Blocking reads\<close>

fun missing_buffer :: "nat \<Rightarrow> c_request list \<Rightarrow> nat option" where
  "missing_buffer index [] = None"
| "missing_buffer index (r # rs) = (if cr_buffer r = None then Some index else missing_buffer (Suc index) rs)"

text \<open>
  The loop of \<open>client_fetch\<close> on the replies of \<open>next\<close>, with the first failure and its detail so far;
  \<^const>\<open>None\<close> when the replies end while it waits for another one.
\<close>

fun fetch_loop :: "(karu_status \<times> completion option) list \<Rightarrow> karu_status \<times> string \<Rightarrow> (karu_status \<times> string) option" where
  "fetch_loop [] failure = None"
| "fetch_loop ((step, got) # replies) failure =
     (if step = KARU_END then Some failure
      else if step \<noteq> KARU_OK then Some (step, snd failure)
      else fetch_loop replies
             (case got of
                None \<Rightarrow> failure
              | Some c \<Rightarrow> if fst failure = KARU_OK \<and> cp_status c \<noteq> KARU_OK then (cp_status c, cp_detail c) else failure))"

definition client_fetch :: "submit_env \<Rightarrow> (karu_status \<times> completion option) list \<Rightarrow> client option \<Rightarrow> c_request list option \<Rightarrow> nat \<Rightarrow>
    submit_overrides option \<Rightarrow> string \<Rightarrow> byte list \<Rightarrow> (karu_status \<times> byte list) option" where
  "client_fetch env replies cl requests cnt overrides call err =
     (if cl = None \<or> (0 < cnt \<and> requests = None) then Some (KARU_ERR_INVALID, set_error (call @ '': null argument'') err)
      else case missing_buffer 0 (case requests of None \<Rightarrow> [] | Some rs \<Rightarrow> take cnt rs) of
             Some index \<Rightarrow> Some (KARU_ERR_INVALID, set_error (request_error_text call index '' has no destination buffer'') err)
           | None \<Rightarrow>
               Option.bind (client_submit env cl requests cnt overrides True call err) (\<lambda>(status, err1, batch, cl').
                 if status \<noteq> KARU_OK then Some (status, err1)
                 else map_option (\<lambda>(failure, detail). (failure, if detail = [] then err1 else set_error detail err1))
                        (fetch_loop replies (KARU_OK, []))))"

definition karu_client_fetch_with :: "submit_env \<Rightarrow> (karu_status \<times> completion option) list \<Rightarrow> client option \<Rightarrow> c_request list option \<Rightarrow> nat \<Rightarrow>
    submit_overrides option \<Rightarrow> cpp_exception option \<Rightarrow> byte list \<Rightarrow> (karu_status \<times> byte list) option" where
  "karu_client_fetch_with env replies cl requests cnt overrides throws err0 =
     (let err = clear_error err0
      in case throws of
           Some ex \<Rightarrow> Some (exception_status ''karu_client_fetch_with'' ex err)
         | None \<Rightarrow> client_fetch env replies cl requests cnt overrides ''karu_client_fetch_with'' err)"

definition karu_client_fetch :: "submit_env \<Rightarrow> (karu_status \<times> completion option) list \<Rightarrow> client option \<Rightarrow> c_request list option \<Rightarrow> nat \<Rightarrow>
    cpp_exception option \<Rightarrow> byte list \<Rightarrow> (karu_status \<times> byte list) option" where
  "karu_client_fetch env replies cl requests cnt throws err0 =
     (let err = clear_error err0
      in case throws of
           Some ex \<Rightarrow> Some (exception_status ''karu_client_fetch'' ex err)
         | None \<Rightarrow> client_fetch env replies cl requests cnt None ''karu_client_fetch'' err)"

section \<open>What reaches the engine\<close>

definition request_of :: "c_request \<Rightarrow> request" where
  "request_of r = \<lparr>rq_locator = the (cr_locator r), rq_offset = cr_offset r, rq_length = cr_length r, rq_buffer = cr_buffer r,
     rq_tag = cr_tag r, rq_if_match = (case cr_if_match r of None \<Rightarrow> [] | Some e \<Rightarrow> e)\<rparr>"

definition well_formed :: "c_request \<Rightarrow> bool" where
  "well_formed r \<longleftrightarrow> cr_locator r \<noteq> None \<and> cr_length r \<noteq> 0 \<and> cr_length r \<noteq> TO_END \<and>
     (\<forall>e. cr_if_match r = Some e \<longrightarrow> CHR 0x0D \<notin> set e \<and> CHR 0x0A \<notin> set e)"

lemma convert_requests_spec:
  assumes "convert_requests call index rs converted err = (out, err')"
  shows "(out = converted @ map request_of rs \<and> err' = err \<and> (\<forall>r \<in> set rs. well_formed r)) \<or>
    (out = [] \<and> (\<exists>r \<in> set rs. \<not> well_formed r))"
  using assms
proof (induction rs arbitrary: index converted)
  case (Cons r rs)
  have etag: "(find_first_of [CHR 0x0D, CHR 0x0A] e = None) = (CHR 0x0D \<notin> set e \<and> CHR 0x0A \<notin> set e)" for e
    by (auto simp: find_first_of_def find_if_None)
  show ?case
  proof (cases "well_formed r")
    case True
    then obtain l where l: "cr_locator r = Some l" by (auto simp: well_formed_def)
    have "\<not> (case cr_if_match r of None \<Rightarrow> False | Some e \<Rightarrow> find_first_of [CHR 0x0D, CHR 0x0A] e \<noteq> None)"
      using True by (auto simp: well_formed_def etag split: option.splits)
    with Cons.prems l True have "convert_requests call (Suc index) rs (converted @ [request_of r]) err = (out, err')"
      by (simp add: well_formed_def request_of_def)
    from Cons.IH [OF this] True show ?thesis by auto
  next
    case False
    then have "out = []"
      using Cons.prems by (auto simp: well_formed_def etag split: option.splits if_splits)
    with False show ?thesis by auto
  qed
qed simp

lemma submit_options_usable:
  assumes "submit_options defaults overrides call err = (Some opt, err')" "usable_options defaults"
  shows "usable_options opt"
  using assms
  by (auto simp: submit_options_def Let_def usable_options_def override_def split: option.splits if_splits)

lemma client_ok_usable: "client_ok c \<Longrightarrow> usable_options c"
  by (auto simp: client_ok_def usable_options_def)

lemma engine_submit_steps:
  assumes "engine_submit malloc pid i opt rs e = Some (status, e')" "usable_options opt" "\<forall>r \<in> set rs. rq_length r \<noteq> 0"
  shows "engine_step\<^sup>*\<^sup>* e e'"
proof -
  obtain e1 where e1: "submit_plan malloc pid i opt rs e = Some (status, e1)"
    and e': "e' = (if status = KARU_OK then submit_http i (submit_queue i e1) else e1)"
    using assms(1) by (auto simp: engine_submit_def)
  have "engine_step e e1" by (rule s_submit [OF assms(2,3) e1])
  moreover have "engine_step\<^sup>*\<^sup>* e1 (submit_http i (submit_queue i e1))"
    by (meson s_queue s_http converse_rtranclp_into_rtranclp r_into_rtranclp)
  ultimately show ?thesis unfolding e' by (auto intro: converse_rtranclp_into_rtranclp)
qed

section \<open>The life of a client\<close>

text \<open>The engine whose destructor runs when a process destroys a client: none in a forked child.\<close>

definition karu_client_free :: "int \<Rightarrow> client \<Rightarrow> engine option" where
  "karu_client_free process cl =
     (if cl_owner_pid cl \<noteq> 0 \<and> cl_owner_pid cl \<noteq> process then None else cl_engine cl)"

text \<open>
  \<open>client_life ps p cl\<close>: the process \<open>p\<close>, whose ancestors are \<open>ps\<close>, has the client \<open>cl\<close> in its memory. Calls come in
  any order; the threads of an engine run in the process that owns it; a fork copies the memory into a
  process with a new number. Numbers of ancestors that have ended are taken not to be used again, which
  \<open>client.hpp\<close>, comparing numbers only, relies on.
\<close>

inductive client_life :: "int list \<Rightarrow> int \<Rightarrow> client \<Rightarrow> bool" where
  created: "freeze version_string b = Inr s \<Longrightarrow> 0 < p \<Longrightarrow> client_life [] p (new_client s)"
| submitted: "client_life ps p cl \<Longrightarrow> sv_pid env = p \<Longrightarrow>
    client_submit env (Some cl) requests cnt overrides out call err = Some (status, err', batch, Some cl') \<Longrightarrow> client_life ps p cl'"
| used: "client_life ps p cl \<Longrightarrow> client_life ps p (snd (acquire_engine p m cl))"
| worked: "client_life ps p cl \<Longrightarrow> cl_engine cl = Some e \<Longrightarrow> cl_owner_pid cl = p \<Longrightarrow> engine_step e e' \<Longrightarrow>
    client_life ps p (cl\<lparr>cl_engine := Some e'\<rparr>)"
| forked: "client_life ps p cl \<Longrightarrow> q \<notin> set (p # ps) \<Longrightarrow> 0 < q \<Longrightarrow> client_life (p # ps) q cl"

definition made_by :: "client \<Rightarrow> engine \<Rightarrow> bool" where
  "made_by cl e \<longleftrightarrow> (\<exists>m. engine_step\<^sup>*\<^sup>* (new_engine (cs_client (cl_config cl)) m) e)"

definition client_inv :: "int list \<Rightarrow> int \<Rightarrow> client \<Rightarrow> bool" where
  "client_inv ps p cl \<longleftrightarrow> client_ok (cs_client (cl_config cl)) \<and> 0 < p \<and>
     (cl_owner_pid cl = 0 \<longleftrightarrow> cl_engine cl = None) \<and>
     (\<forall>e. cl_engine cl = Some e \<longrightarrow> cl_engine_process cl = cl_owner_pid cl \<and> cl_owner_pid cl \<in> set (p # ps) \<and> made_by cl e)"

lemma acquire_engine_spec:
  assumes "client_inv ps p cl" "acquire_engine p m cl = (e, cl')"
  shows "cl_config cl' = cl_config cl" "cl_engine cl' = Some e" "cl_owner_pid cl' = p" "cl_engine_process cl' = p" "made_by cl e"
    "client_inv ps p cl'"
proof -
  let ?c = "abandon_inherited p cl"
  have "cl_engine cl = None \<Longrightarrow> ?c = cl" using assms(1) by (simp add: abandon_inherited_def client_inv_def)
  moreover have "cl_owner_pid cl \<noteq> 0" if "cl_engine cl \<noteq> None" using that assms(1) by (simp add: client_inv_def)
  ultimately have c: "(cl_engine ?c = None) \<or> (cl_owner_pid cl = p \<and> ?c = cl \<and> cl_engine cl \<noteq> None)" "cl_config ?c = cl_config cl"
    by (auto simp: abandon_inherited_def)
  have new: "made_by cl (new_engine (cs_client (cl_config cl)) m)" by (auto simp: made_by_def)
  have "cl_config cl' = cl_config cl \<and> cl_engine cl' = Some e \<and> cl_owner_pid cl' = p \<and> cl_engine_process cl' = p \<and> made_by cl e"
    using c(1)
  proof
    assume "cl_engine ?c = None"
    with assms(2) c(2) new show ?thesis by (auto simp: acquire_engine_def Let_def)
  next
    assume o: "cl_owner_pid cl = p \<and> ?c = cl \<and> cl_engine cl \<noteq> None"
    then obtain e0 where e0: "cl_engine cl = Some e0" by blast
    with o assms show ?thesis by (auto simp: acquire_engine_def Let_def client_inv_def)
  qed
  then show all: "cl_config cl' = cl_config cl" "cl_engine cl' = Some e" "cl_owner_pid cl' = p" "cl_engine_process cl' = p" "made_by cl e"
    by simp_all
  show "client_inv ps p cl'" using assms(1) all by (auto simp: client_inv_def made_by_def)
qed

text \<open>What a successful conversion hands to the engine.\<close>

lemma client_submit_Some:
  assumes "client_submit env (Some c) requests cnt overrides out call err = Some (status, err', batch, cl')"
  obtains (refused) "status = KARU_ERR_INVALID" "batch = None" "cl' = Some c"
    | (planned) rs opt e c1 e' where "requests = Some rs \<or> cnt = 0 \<and> rs = []" "\<forall>r \<in> set (take cnt rs). well_formed r" "cnt \<le> length rs"
        "submit_options (cs_client (cl_config c)) overrides call err = (Some opt, err')"
        "acquire_engine (sv_pid env) (sv_memory env) c = (e, c1)"
        "engine_submit (sv_malloc env) (sv_pid env) (sv_batch env) opt (map request_of (take cnt rs)) e = Some (status, e')"
        "batch = (if status = KARU_OK then Some (sv_batch env) else None)" "cl' = Some (c1\<lparr>cl_engine := Some e'\<rparr>)"
proof -
  define rs where "rs = (case requests of None \<Rightarrow> [] | Some rs \<Rightarrow> rs)"
  have t: "(case requests of None \<Rightarrow> [] | Some rs \<Rightarrow> take cnt rs) = take cnt rs" by (simp add: rs_def split: option.splits)
  obtain conv err1 where conv: "convert_requests call 0 (take cnt rs) [] err = (conv, err1)" by fastforce
  obtain e c1 where acq: "acquire_engine (sv_pid env) (sv_memory env) c = (e, c1)" by fastforce
  obtain o2 err2 where opt: "submit_options (cs_client (cl_config c)) overrides call err1 = (o2, err2)" by fastforce
  show ?thesis
  proof (cases "\<not> out \<or> (0 < cnt \<and> requests = None) \<or> length conv \<noteq> cnt \<or> o2 = None")
    case True
    with assms show ?thesis unfolding client_submit_def Let_def option.case t conv prod.case opt
      by (intro refused) (auto split: if_splits option.splits)
  next
    case False
    then obtain o3 where o3: "o2 = Some o3" by blast
    have ok: "conv = map request_of (take cnt rs) \<and> err1 = err \<and> (\<forall>r \<in> set (take cnt rs). well_formed r)"
      using convert_requests_spec [OF conv] False by auto
    have n: "cnt \<le> length rs" using ok False by auto
    have "requests = Some rs \<or> cnt = 0 \<and> rs = []" using False by (auto simp: rs_def split: option.splits)
    moreover obtain e' where "engine_submit (sv_malloc env) (sv_pid env) (sv_batch env) o3 (map request_of (take cnt rs)) e = Some (status, e')"
      "err' = err2" "batch = (if status = KARU_OK then Some (sv_batch env) else None)" "cl' = Some (c1\<lparr>cl_engine := Some e'\<rparr>)"
      using assms False ok unfolding client_submit_def Let_def option.case t conv prod.case opt o3 acq by auto
    ultimately show ?thesis using ok n opt acq by (intro planned [of rs o3 e c1 e']) (auto simp: o3)
  qed
qed

lemma well_formed_length: "\<forall>r \<in> set rs. well_formed r \<Longrightarrow> \<forall>r \<in> set (map request_of rs). rq_length r \<noteq> 0"
  by (auto simp: well_formed_def request_of_def)

lemma client_submit_inv:
  assumes "client_inv ps p cl" "sv_pid env = p"
    "client_submit env (Some cl) requests cnt overrides out call err = Some (status, err', batch, Some cl')"
  shows "client_inv ps p cl'"
  using assms(3)
proof (cases rule: client_submit_Some)
  case refused
  with assms(1) show ?thesis by simp
next
  case (planned rs opt e c1 e')
  note a = acquire_engine_spec [OF assms(1) planned(5) [unfolded assms(2)]]
  have "usable_options (cs_client (cl_config cl))" using assms(1) client_ok_usable by (simp add: client_inv_def)
  then have "engine_step\<^sup>*\<^sup>* e e'"
    using submit_options_usable [OF planned(4)] well_formed_length [OF planned(2)] by (intro engine_submit_steps [OF planned(6)])
  with a(5) have "made_by cl e'" unfolding made_by_def by (meson rtranclp_trans)
  with planned(8) a show ?thesis by (auto simp: client_inv_def made_by_def)
qed

lemma client_life_inv: "client_life ps p cl \<Longrightarrow> client_inv ps p cl"
proof (induction rule: client_life.induct)
  case (created version_string b s p)
  have "client_ok (cs_client s)"
    using created(1) unfolding freeze_def Let_def and_then_Inr by (auto intro: parse_client_options_ok)
  with created(2) show ?case by (simp add: client_inv_def new_client_def)
next
  case (submitted ps p cl env requests cnt overrides out call err status err' batch cl')
  then show ?case using client_submit_inv by blast
next
  case (used ps p cl m)
  obtain e cl' where "acquire_engine p m cl = (e, cl')" by fastforce
  with acquire_engine_spec(6) [OF used(2) this] show ?case by simp
next
  case (worked ps p cl e e')
  then show ?case by (auto simp: client_inv_def made_by_def intro: rtranclp.rtrancl_into_rtrancl)
next
  case (forked ps p cl q)
  then show ?case by (auto simp: client_inv_def)
qed

text \<open>
  C15. An engine is never used outside the process that made it. Whatever calls, steps of the engine and forks
  went before, \<open>acquire_engine\<close> gives the calling process an engine of its own, configured within bounds and
  in a state reachable from a new one, and freeing the client destroys no engine of another process.
\<close>

theorem clients_never_cross_fork:
  assumes "client_life ps p cl" "acquire_engine p m cl = (e, cl')"
  shows "cl_engine_process cl' = p \<and> cl_engine cl' = Some e \<and>
    (\<exists>m0. engine_step\<^sup>*\<^sup>* (new_engine (cs_client (cl_config cl)) m0) e) \<and> client_ok (cs_client (cl_config cl)) \<and>
    (karu_client_free p cl \<noteq> None \<longrightarrow> cl_engine_process cl = p)"
proof -
  note i = client_life_inv [OF assms(1)]
  note a = acquire_engine_spec [OF i assms(2)]
  have "cl_engine_process cl = p" if "karu_client_free p cl \<noteq> None"
    using that i by (auto simp: karu_client_free_def client_inv_def split: if_splits)
  with a i show ?thesis by (simp add: made_by_def client_inv_def)
qed

definition sample_client :: client where
  "sample_client = snd (acquire_engine 7 (\<lambda>_. CHR 0x00) (new_client (projr (freeze ''0.4.0'' empty_builder))))"

theorem clients_never_cross_fork_witness:
  "cl_engine_process (snd (acquire_engine 8 (\<lambda>_. CHR 0x00) sample_client)) = 8 \<and> cl_engine_process sample_client = 7 \<and>
   karu_client_free 8 sample_client = None"
proof -
  obtain s where s: "freeze ''0.4.0'' empty_builder = Inr s" using freeze_defaults by blast
  have "client_life [] 7 sample_client"
    unfolding sample_client_def s sum.sel by (intro client_life.used client_life.created [OF s]) simp
  then have l: "client_life [7] 8 sample_client" by (rule client_life.forked) simp_all
  have "cl_engine_process sample_client = 7" "cl_owner_pid sample_client = 7"
    by (simp_all add: sample_client_def acquire_engine_def abandon_inherited_def new_client_def Let_def)
  with clients_never_cross_fork [OF l, of "\<lambda>_. CHR 0x00"] show ?thesis
    by (metis karu_client_free_def prod.collapse zero_neq_numeral num.distinct(1,5) numeral_eq_iff)
qed

section \<open>Blocking reads on a running engine\<close>

text \<open>
  \<open>drains i e replies e'\<close>: a caller takes the completions of its batch \<open>i\<close> until \<open>next\<close> reports the end, while
  the engine runs. The batch is a local of \<open>client_fetch\<close>: nobody else takes from it or cancels it.
\<close>

inductive drains :: "nat \<Rightarrow> engine \<Rightarrow> (karu_status \<times> completion option) list \<Rightarrow> engine \<Rightarrow> bool" where
  others: "engine_step e e1 \<Longrightarrow> en_taken e1 i = en_taken e i \<Longrightarrow>
    map_option cancelled (en_batches e1 i) = map_option cancelled (en_batches e i) \<Longrightarrow> drains i e1 replies e' \<Longrightarrow> drains i e replies e'"
| took: "en_batches e i = Some b \<Longrightarrow> batch_next b (-1) = Some (KARU_OK, Some c, b') \<Longrightarrow> next_in i (-1) e = Some (KARU_OK, e1) \<Longrightarrow>
    drains i e1 replies e' \<Longrightarrow> drains i e ((KARU_OK, Some c) # replies) e'"
| ended: "en_batches e i = Some b \<Longrightarrow> batch_next b (-1) = Some (KARU_END, None, b) \<Longrightarrow> drains i e [(KARU_END, None)] e"

lemma engine_step_submitted:
  assumes "engine_step e e'" "en_batches e i \<noteq> None"
  shows "en_submitted e' i = en_submitted e i \<and> en_batches e' i \<noteq> None"
  using assms(1)
proof (cases rule: engine_step_cases)
  case effect
  with assms(2) show ?thesis using effect_history [OF effect] by simp
next
  case (submit opt rs malloc pid j status)
  with assms(2) show ?thesis by (auto simp: submit_plan_def Let_def put_batch_def split: if_splits)
next
  case (mark j)
  with assms(2) show ?thesis by (auto simp: mark_cancelled_def put_batch_def)
next
  case (got j ms status)
  with assms(2) show ?thesis by (auto simp: next_in_def put_batch_def split: option.splits)
next
  case stop
  with assms(2) show ?thesis by (simp add: stop_engine_def)
next
  case (ending j)
  with assms(2) show ?thesis using ending_history [OF ending] by simp
qed

lemma next_in_took:
  assumes "en_batches e i = Some b" "batch_next b (-1) = Some (KARU_OK, Some c, b')" "next_in i (-1) e = Some (KARU_OK, e1)"
  shows "en_batches e1 i = Some b'" "en_taken e1 i = en_taken e i @ [cp_tag c]" "cancelled b' = cancelled b"
  using assms by (auto simp: next_in_def put_batch_def batch_next_def split: if_splits list.splits)

lemma drains_spec:
  assumes "drains i e replies e'" "en_batches e i = Some b" "\<not> cancelled b"
  shows "\<exists>cs b'. replies = map (\<lambda>c. (KARU_OK, Some c)) cs @ [(KARU_END, None)] \<and> engine_step\<^sup>*\<^sup>* e e' \<and>
    en_taken e' i = en_taken e i @ map cp_tag cs \<and> en_submitted e' i = en_submitted e i \<and>
    en_batches e' i = Some b' \<and> \<not> cancelled b' \<and> batch_next b' (-1) = Some (KARU_END, None, b')"
  using assms
proof (induction arbitrary: b rule: drains.induct)
  case (others e e1 i replies e')
  note s = engine_step_submitted [OF others(1), of i]
  obtain b1 where "en_batches e1 i = Some b1" "\<not> cancelled b1" using others(3,6,7) by auto
  with others.IH others(1,2,6) s show ?case by (fastforce intro: converse_rtranclp_into_rtranclp)
next
  case (took e i b0 c b' e1 replies e')
  have st: "engine_step e e1" using took(3) by (rule s_next)
  note s = engine_step_submitted [OF st, of i] and n = next_in_took [OF took(1-3)]
  obtain cs b2 where h: "replies = map (\<lambda>c. (KARU_OK, Some c)) cs @ [(KARU_END, None)]" "engine_step\<^sup>*\<^sup>* e1 e'"
    "en_taken e' i = en_taken e1 i @ map cp_tag cs" "en_submitted e' i = en_submitted e1 i" "en_batches e' i = Some b2"
    "\<not> cancelled b2" "batch_next b2 (-1) = Some (KARU_END, None, b2)"
    using took.IH [OF n(1)] n(3) took.prems took(1) by auto
  with n st s took(1) show ?case
    by (intro exI [of _ "c # cs"] exI [of _ b2]) (auto intro: converse_rtranclp_into_rtranclp)
next
  case (ended e i b0)
  then show ?case by (intro exI [of _ "[]"] exI [of _ b0]) auto
qed

lemma fetch_loop_drained:
  "fetch_loop (map (\<lambda>c. (KARU_OK, Some c)) cs @ [(KARU_END, None)]) f =
     Some (if fst f \<noteq> KARU_OK then f
           else case List.find (\<lambda>c. cp_status c \<noteq> KARU_OK) cs of None \<Rightarrow> f | Some c \<Rightarrow> (cp_status c, cp_detail c))"
  by (induction cs arbitrary: f) auto

text \<open>
  C12. A blocking read answers for every request. From the moment its batch is submitted, whatever the engine
  does meanwhile, once the loop of \<open>client_fetch\<close> ends it has received exactly one completion for each request,
  and it returns the status and detail of the first completion that failed, or \<open>KARU_OK\<close> when none did.
\<close>

theorem fetch_answers_all:
  assumes "engine_step\<^sup>*\<^sup>* (new_engine opt m) e" "en_batches e i = Some b" "\<not> cancelled b" "en_taken e i = []"
    and "drains i e replies e'" "\<not> en_stop e'"
  shows "\<exists>cs. replies = map (\<lambda>c. (KARU_OK, Some c)) cs @ [(KARU_END, None)] \<and>
    mset (map cp_tag cs) = mset (en_submitted e i) \<and>
    fetch_loop replies (KARU_OK, []) =
      Some (case List.find (\<lambda>c. cp_status c \<noteq> KARU_OK) cs of
              None \<Rightarrow> (KARU_OK, []) | Some c \<Rightarrow> (cp_status c, cp_detail c))"
proof -
  obtain cs b' where d: "replies = map (\<lambda>c. (KARU_OK, Some c)) cs @ [(KARU_END, None)]" "engine_step\<^sup>*\<^sup>* e e'"
    "en_taken e' i = en_taken e i @ map cp_tag cs" "en_submitted e' i = en_submitted e i" "en_batches e' i = Some b'"
    "\<not> cancelled b'" "batch_next b' (-1) = Some (KARU_END, None, b')"
    using drains_spec [OF assms(5,2,3)] by blast
  have "ready b' = []" "pending_parts b' = 0"
    using d(6,7) by (auto simp: batch_next_def can_return_def split: if_splits list.splits)
  moreover have "book_ok (en_stop e') (flight_of (abs_engine e') i) (book_of (en_submitted e' i) (en_taken e' i) b')"
    by (rule reachable_book [OF rtranclp_trans [OF assms(1) d(2)] d(5)])
  ultimately have "mset (en_taken e' i) = mset (en_submitted e' i)"
    using d(6) assms(6) sum_length_zero by (auto simp: book_ok_def book_of_def)
  with d(3,4) assms(4) have "mset (map cp_tag cs) = mset (en_submitted e i)" by simp
  with d(1) show ?thesis by (intro exI [of _ cs]) (simp add: fetch_loop_drained)
qed

lemma next_in_waiting: "next_in i 0 e = Some (KARU_OK, e') \<Longrightarrow> next_in i (-1) e = Some (KARU_OK, e')"
  by (auto simp: next_in_def batch_next_def split: option.splits if_splits list.splits)

lemma sample_drains:
  "\<exists>c d. drains 3 sample_e3 [(KARU_OK, Some c), (KARU_OK, Some d), (KARU_END, None)] sample_e5"
proof -
  obtain b c d where v: "en_batches sample_e3 3 = Some b" "ready b = [c, d]" "\<not> cancelled b" "pending_parts b = 0"
    "next_in 3 0 sample_e3 = Some (KARU_OK, sample_e4)" "next_in 3 0 sample_e4 = Some (KARU_OK, sample_e5)"
    "en_batches sample_e5 3 = Some (b\<lparr>ready := []\<rparr>)"
    by (rule sample_e5_values) blast
  have n: "next_in 3 (-1) sample_e3 = Some (KARU_OK, sample_e4)" "next_in 3 (-1) sample_e4 = Some (KARU_OK, sample_e5)"
    using v(5,6) by (auto intro: next_in_waiting)
  have t: "batch_next b (-1) = Some (KARU_OK, Some c, b\<lparr>ready := [d]\<rparr>)"
    "batch_next (b\<lparr>ready := [d]\<rparr>) (-1) = Some (KARU_OK, Some d, b\<lparr>ready := []\<rparr>)"
    "batch_next (b\<lparr>ready := []\<rparr>) (-1) = Some (KARU_END, None, b\<lparr>ready := []\<rparr>)"
    using v(2,3,4) by (simp_all add: batch_next_def can_return_def)
  note e4 = next_in_took(1) [OF v(1) t(1) n(1)]
  show ?thesis
    by (intro exI, rule drains.took [OF v(1) t(1) n(1)], rule drains.took [OF e4 t(2) n(2)], rule drains.ended [OF v(7) t(3)])
qed

theorem fetch_answers_all_witness:
  "\<exists>replies cs. drains 3 sample_e3 replies sample_e5 \<and> replies = map (\<lambda>c. (KARU_OK, Some c)) cs @ [(KARU_END, None)] \<and>
     mset (map cp_tag cs) = {#8, 7#}"
proof -
  obtain b where b: "en_batches sample_e3 3 = Some b" "\<not> cancelled b" "en_taken sample_e3 3 = []" "en_submitted sample_e3 3 = [8, 7]"
    by (rule sample_e3_is) blast
  have "engine_step\<^sup>*\<^sup>* sample_e0 sample_e3"
    using sample_e1_step engine_step.s_queue [of sample_e1 3] sample_e2_step
    by (auto intro: rtranclp_trans [OF _ sample_e3_steps])
  then have r: "engine_step\<^sup>*\<^sup>* (new_engine default_client_options (\<lambda>_. CHR 0x00)) sample_e3" by (simp add: sample_e0_def)
  have s: "\<not> en_stop sample_e5" by (rule sample_e5_values) simp
  obtain replies where d: "drains 3 sample_e3 replies sample_e5" using sample_drains by blast
  from fetch_answers_all [OF r b(1,2,3) d s] b(4) have "\<exists>cs. replies = map (\<lambda>c. (KARU_OK, Some c)) cs @ [(KARU_END, None)] \<and>
     mset (map cp_tag cs) = {#8, 7#}" by auto
  with d show ?thesis by blast
qed

end
