(* ===== verification/Karu_Output_File.thy ===== *)
theory Karu_Output_File
  imports Karu_Types
begin

text \<open>
  The temporary output of a download, \<open>OutputFile\<close> in \<open>src/src/platform.cpp\<close>, in its POSIX branches. A file
  system maps names to files and files to their bytes, so that a hard link is a second name of one file.
  The errors the system may report are arguments; \<open>pwrite\<close> answers each call by an error or by how many bytes
  it takes. The loop of \<open>write_at\<close> may be interrupted for ever, so it is a partial function. Other
  processes do not change the file system meanwhile.
\<close>

section \<open>File systems\<close>

datatype errno = ENOTSUP | EOPNOTSUPP | ENOSYS | EPERM | EEXIST | EINTR | ENOENT | EOVERFLOW | EBADF | EIO | EBUSY | EINVAL
  | Errno int

record fs =
  fs_names :: "string \<rightharpoonup> nat"
  fs_data :: "nat \<Rightarrow> byte list"
  fs_next :: nat

definition fs_ok :: "fs \<Rightarrow> bool" where
  "fs_ok f \<longleftrightarrow> (\<forall>p n. fs_names f p = Some n \<longrightarrow> n < fs_next f)"

definition content :: "fs \<Rightarrow> string \<Rightarrow> byte list option" where
  "content f p = map_option (fs_data f) (fs_names f p)"

text \<open>Bytes written at a position; a gap behind the end is filled with zeros.\<close>

definition patch :: "byte list \<Rightarrow> nat \<Rightarrow> byte list \<Rightarrow> byte list" where
  "patch xs pos bs = take pos (xs @ replicate (pos - length xs) (CHR 0x00)) @ bs @ drop (pos + length bs) xs"

lemma length_patch [simp]: "pos + length bs \<le> length xs \<Longrightarrow> length (patch xs pos bs) = length xs"
  by (simp add: patch_def)

lemma nth_patch:
  assumes "pos + length bs \<le> length xs" "x < length xs"
  shows "patch xs pos bs ! x = (if pos \<le> x \<and> x < pos + length bs then bs ! (x - pos) else xs ! x)"
  using assms by (auto simp: patch_def nth_append)

lemma patch_Nil [simp]: "pos \<le> length xs \<Longrightarrow> patch xs pos [] = xs"
  by (simp add: patch_def)

lemma patch_patch:
  assumes "pos + length as + length bs \<le> length xs"
  shows "patch (patch xs pos as) (pos + length as) bs = patch xs pos (as @ bs)"
proof (rule nth_equalityI)
  show "length (patch (patch xs pos as) (pos + length as) bs) = length (patch xs pos (as @ bs))" using assms by simp
  fix x assume "x < length (patch (patch xs pos as) (pos + length as) bs)"
  then have "x < length xs" using assms by simp
  then show "patch (patch xs pos as) (pos + length as) bs ! x = patch xs pos (as @ bs) ! x"
    using assms by (auto simp: nth_patch nth_append)
qed

section \<open>The output file\<close>

record output_file =
  of_fd :: "nat option"
  of_temporary :: string
  of_destination :: string

definition no_output :: output_file where
  "no_output = \<lparr>of_fd = None, of_temporary = [], of_destination = []\<rparr>"

text \<open>
  \<open>oe_status\<close> is an error of \<open>symlink_status\<close>; \<open>oe_open\<close>, by attempt, an error of \<open>open\<close>;
  \<open>oe_pwrite\<close>, by call of \<open>write_at\<close> and of \<open>pwrite\<close>, the answers.
\<close>

record out_env =
  oe_pid :: int
  oe_counter :: nat
  oe_status :: "errno option"
  oe_open :: "nat \<Rightarrow> errno option"
  oe_truncate :: "errno option"
  oe_pwrite :: "nat \<Rightarrow> nat \<Rightarrow> errno + nat"
  oe_close :: "errno option"
  oe_link :: "errno option"
  oe_unlink :: bool
  oe_status_again :: "errno option"
  oe_rename :: "errno option"
  oe_remove :: bool

definition hard_links_unavailable :: "errno \<Rightarrow> bool" where
  "hard_links_unavailable e \<longleftrightarrow> e = ENOTSUP \<or> e = EOPNOTSUPP \<or> e = ENOSYS \<or> e = EPERM"

definition temporary_name :: "string \<Rightarrow> int \<Rightarrow> nat \<Rightarrow> string" where
  "temporary_name destination pid n = destination @ ''.karu.part.'' @ int_string pid @ ''.'' @ to_string n"

text \<open>The error of an exclusive creation, or the new file.\<close>

definition open_exclusive :: "errno option \<Rightarrow> string \<Rightarrow> fs \<Rightarrow> errno + (nat \<times> fs)" where
  "open_exclusive fails p f =
     (case fails of
        Some e \<Rightarrow> Inl e
      | None \<Rightarrow> if fs_names f p \<noteq> None then Inl EEXIST
                else Inr (fs_next f, f\<lparr>fs_names := (fs_names f)(p \<mapsto> fs_next f), fs_data := (fs_data f)(fs_next f := []),
                            fs_next := Suc (fs_next f)\<rparr>))"

fun create_temporary :: "out_env \<Rightarrow> nat list \<Rightarrow> output_file \<Rightarrow> fs \<Rightarrow> errno option \<times> output_file \<times> fs" where
  "create_temporary env [] out f = (Some EEXIST, out\<lparr>of_temporary := []\<rparr>, f)"
| "create_temporary env (a # as) out f =
     (let temporary = temporary_name (of_destination out) (oe_pid env) (oe_counter env + a)
      in case open_exclusive (oe_open env a) temporary f of
           Inr (n, f') \<Rightarrow> (None, out\<lparr>of_temporary := temporary, of_fd := Some n\<rparr>, f')
         | Inl e \<Rightarrow> (if e \<noteq> EEXIST then (Some e, out\<lparr>of_temporary := []\<rparr>, f)
                    else create_temporary env as (out\<lparr>of_temporary := temporary\<rparr>) f))"

text \<open>Why a destination that must not be replaced is refused, from the error of \<open>symlink_status\<close>.\<close>

definition inspect_error :: "errno option \<Rightarrow> string \<Rightarrow> fs \<Rightarrow> errno option" where
  "inspect_error status p f =
     (if status \<noteq> None \<and> status \<noteq> Some ENOENT then status
      else if status = None \<and> fs_names f p \<noteq> None then Some EEXIST else None)"

definition create_near :: "out_env \<Rightarrow> string \<Rightarrow> bool \<Rightarrow> output_file \<Rightarrow> fs \<Rightarrow> errno option \<times> output_file \<times> fs" where
  "create_near env destination overwrite out f =
     (if of_fd out \<noteq> None \<or> of_temporary out \<noteq> [] then (Some EBUSY, out, f)
      else (let out1 = out\<lparr>of_destination := destination\<rparr>
            in if destination = [] then (Some EINVAL, out1, f)
               else if \<not> overwrite \<and> inspect_error (oe_status env) destination f \<noteq> None
               then (inspect_error (oe_status env) destination f, out1, f)
               else create_temporary env [0..<100] out1 f))"

definition resize :: "out_env \<Rightarrow> u64 \<Rightarrow> output_file \<Rightarrow> fs \<Rightarrow> errno option \<times> fs" where
  "resize env sz out f =
     (case of_fd out of
        None \<Rightarrow> (Some EBADF, f)
      | Some n \<Rightarrow>
          if 2 ^ 63 - 1 < unat sz then (Some EOVERFLOW, f)
          else case oe_truncate env of
                 Some e \<Rightarrow> (Some e, f)
               | None \<Rightarrow> (None, f\<lparr>fs_data := (fs_data f)(n :=
                           take (unat sz) (fs_data f n @ replicate (unat sz - length (fs_data f n)) (CHR 0x00)))\<rparr>))"

text \<open>\<open>SSIZE_MAX\<close>, which is also the largest \<open>off_t\<close>.\<close>

definition SSIZE_MAX :: nat where
  "SSIZE_MAX = 2 ^ 63 - 1"

partial_function (option) write_loop ::
  "(nat \<Rightarrow> errno + nat) \<Rightarrow> nat \<Rightarrow> byte list \<Rightarrow> u64 \<Rightarrow> nat \<Rightarrow> byte list \<Rightarrow> (errno option \<times> byte list) option" where
  "write_loop pwrite k bs off written d =
     (if length bs \<le> written then Some (None, d)
      else if unat (u64_max - of_nat written) < unat off then Some (Some EOVERFLOW, d)
      else if SSIZE_MAX < unat (off + of_nat written) then Some (Some EOVERFLOW, d)
      else case pwrite k of
             Inl e \<Rightarrow> (if e = EINTR then write_loop pwrite (Suc k) bs off written d else Some (Some e, d))
           | Inr c \<Rightarrow>
               (let n = min c (min (length bs - written) SSIZE_MAX)
                in if n = 0 then Some (Some EIO, d)
                   else write_loop pwrite (Suc k) bs off (written + n)
                          (patch d (unat (off + of_nat written)) (take n (drop written bs)))))"

definition write_at :: "(nat \<Rightarrow> errno + nat) \<Rightarrow> byte list \<Rightarrow> u64 \<Rightarrow> output_file \<Rightarrow> fs \<Rightarrow> (errno option \<times> fs) option" where
  "write_at pwrite bs off out f =
     (case of_fd out of
        None \<Rightarrow> Some (Some EBADF, f)
      | Some n \<Rightarrow> map_option (\<lambda>(e, d). (e, f\<lparr>fs_data := (fs_data f)(n := d)\<rparr>)) (write_loop pwrite 0 bs off 0 (fs_data f n)))"

definition close_output :: "out_env \<Rightarrow> output_file \<Rightarrow> errno option \<times> output_file" where
  "close_output env out = (if of_fd out = None then (None, out) else (oe_close env, out\<lparr>of_fd := None\<rparr>))"

definition rename_file :: "string \<Rightarrow> string \<Rightarrow> fs \<Rightarrow> fs" where
  "rename_file p q f = f\<lparr>fs_names := (fs_names f)(q := fs_names f p, p := None)\<rparr>"

definition unlink_file :: "string \<Rightarrow> fs \<Rightarrow> fs" where
  "unlink_file p f = f\<lparr>fs_names := (fs_names f)(p := None)\<rparr>"

text \<open>Renaming, which ends both branches of \<open>publish\<close> that rename.\<close>

definition publish_by_rename :: "out_env \<Rightarrow> output_file \<Rightarrow> fs \<Rightarrow> errno option \<times> output_file \<times> fs" where
  "publish_by_rename env out f =
     (case oe_rename env of
        Some e \<Rightarrow> (Some e, out, f)
      | None \<Rightarrow> (None, out\<lparr>of_temporary := [], of_destination := []\<rparr>, rename_file (of_temporary out) (of_destination out) f))"

text \<open>The error of \<open>link\<close>: the destination is there, or the system's.\<close>

definition link_error :: "out_env \<Rightarrow> string \<Rightarrow> fs \<Rightarrow> errno option" where
  "link_error env q f = (if oe_link env \<noteq> None then oe_link env else if fs_names f q \<noteq> None then Some EEXIST else None)"

definition publish :: "out_env \<Rightarrow> bool \<Rightarrow> output_file \<Rightarrow> fs \<Rightarrow> errno option \<times> output_file \<times> fs" where
  "publish env overwrite out0 f =
     (case close_output env out0 of
        (Some e, out) \<Rightarrow> (Some e, out, f)
      | (None, out) \<Rightarrow>
          if of_temporary out = [] \<or> of_destination out = [] then (Some EBADF, out, f)
          else if overwrite then publish_by_rename env out f
          else (case link_error env (of_destination out) f of
                  None \<Rightarrow>
                    (let linked = f\<lparr>fs_names := (fs_names f)(of_destination out := fs_names f (of_temporary out))\<rparr>
                     in (None, out\<lparr>of_temporary := [], of_destination := []\<rparr>,
                         if oe_unlink env then unlink_file (of_temporary out) linked else linked))
                | Some e \<Rightarrow>
                    if \<not> hard_links_unavailable e then (Some e, out, f)
                    else if inspect_error (oe_status_again env) (of_destination out) f \<noteq> None
                    then (inspect_error (oe_status_again env) (of_destination out) f, out, f)
                    else publish_by_rename env out f))"

text \<open>The destructor: a temporary file that was not published is removed.\<close>

definition destroy_output :: "out_env \<Rightarrow> output_file \<Rightarrow> fs \<Rightarrow> fs" where
  "destroy_output env out f = (if of_temporary out \<noteq> [] \<and> oe_remove env then unlink_file (of_temporary out) f else f)"

section \<open>Writing\<close>

text \<open>What the loop keeps: the bytes before \<open>written\<close> are in the file \<open>d0\<close>, and nothing else has changed.\<close>

definition wrote :: "byte list \<Rightarrow> byte list \<Rightarrow> u64 \<Rightarrow> nat \<Rightarrow> byte list \<Rightarrow> bool" where
  "wrote d0 bs off written d \<longleftrightarrow> written \<le> length bs \<and> unat off + length bs \<le> length d0 \<and> length d0 \<le> SSIZE_MAX \<and>
     d = patch d0 (unat off) (take written bs)"

lemma wrote_position:
  assumes "wrote d0 bs off written d" "written < length bs"
  shows "unat (off + of_nat written) = unat off + written" "unat off \<le> unat (u64_max - of_nat written)"
    "unat (off + of_nat written) \<le> SSIZE_MAX"
proof -
  have b: "unat off + written < 2 ^ 63" using assms by (simp add: wrote_def SSIZE_MAX_def)
  then have w: "unat (of_nat written :: u64) = written" by (intro unat_of_nat_u64) simp
  show p: "unat (off + of_nat written) = unat off + written" using b by (subst unat_u64_add) (auto simp: w)
  show "unat (off + of_nat written) \<le> SSIZE_MAX" using p b by (simp add: SSIZE_MAX_def)
  have "unat (u64_max - of_nat written) = 2 ^ 64 - 1 - written"
    using b by (subst unat_u64_sub) (auto simp: w unat_u64_max)
  with b show "unat off \<le> unat (u64_max - of_nat written)" by simp
qed

lemma wrote_more:
  assumes "wrote d0 bs off written d" "written < length bs" "n \<le> length bs - written"
  shows "wrote d0 bs off (written + n) (patch d (unat (off + of_nat written)) (take n (drop written bs)))"
proof -
  have l: "length (take written bs) = written" "length (take n (drop written bs)) = n" using assms by auto
  have "patch (patch d0 (unat off) (take written bs)) (unat off + length (take written bs)) (take n (drop written bs)) =
      patch d0 (unat off) (take written bs @ take n (drop written bs))"
    using assms unfolding wrote_def by (intro patch_patch) (simp only: l, linarith)
  then have "patch d (unat (off + of_nat written)) (take n (drop written bs)) = patch d0 (unat off) (take (written + n) bs)"
    using assms(1) wrote_position(1) [OF assms(1,2)] by (simp add: wrote_def l take_add)
  with assms show ?thesis by (simp add: wrote_def)
qed

lemma wrote_length: "wrote d0 bs off written d \<Longrightarrow> length d = length d0"
  by (simp add: wrote_def)

lemma write_loop_wrote:
  assumes "write_loop pwrite k bs off written d = Some r" "wrote d0 bs off written d"
  shows "length (snd r) = length d0 \<and> (fst r = None \<longrightarrow> snd r = patch d0 (unat off) bs)"
proof -
  let ?P = "\<lambda>pwrite k bs off written d r. wrote d0 bs off written d \<longrightarrow>
    length (snd r) = length d0 \<and> (fst r = None \<longrightarrow> snd r = patch d0 (unat off) bs)"
  have "?P pwrite k bs off written d r"
  proof (rule write_loop.raw_induct [of ?P, OF _ assms(1)], intro impI, goal_cases)
    case (1 wl pw j bs off w d r)
    note IH = 1(1)
    show ?case
    proof (cases "length bs \<le> w")
      case True
      with 1(2,3) show ?thesis by (auto simp: wrote_def)
    next
      case False
      then have lt: "w < length bs" by simp
      note p = wrote_position [OF 1(3) lt]
      show ?thesis
      proof (cases "pw j")
        case (Inl e)
        with 1 lt p wrote_length [OF 1(3)] show ?thesis by (auto split: if_splits)
      next
        case (Inr c)
        let ?n = "min c (min (length bs - w) SSIZE_MAX)"
        have "?n \<le> length bs - w" by simp
        from IH wrote_more [OF 1(3) lt this] Inr 1(2) lt p wrote_length [OF 1(3)] show ?thesis by (auto simp: Let_def split: if_splits)
      qed
    qed
  qed
  with assms(2) show ?thesis by blast
qed

text \<open>A device that takes at least one byte per call, and is not interrupted, takes them all.\<close>

lemma write_loop_total:
  assumes "wrote d0 bs off written d" "\<And>j. \<exists>c > 0. pwrite j = Inr c"
  shows "\<exists>d'. write_loop pwrite k bs off written d = Some (None, d')"
  using assms(1)
proof (induction "length bs - written" arbitrary: k written d rule: less_induct)
  case less
  show ?case
  proof (cases "length bs \<le> written")
    case True
    then show ?thesis by (subst write_loop.simps) simp
  next
    case False
    then have lt: "written < length bs" by simp
    note p = wrote_position [OF less.prems lt]
    obtain c where c: "0 < c" "pwrite k = Inr c" using assms(2) by blast
    let ?n = "min c (min (length bs - written) SSIZE_MAX)"
    have n: "0 < ?n" "?n \<le> length bs - written" using c lt by (auto simp: SSIZE_MAX_def)
    from less.hyps [OF _ wrote_more [OF less.prems lt n(2)]] n lt
    obtain d' where "write_loop pwrite (Suc k) bs off (written + ?n)
        (patch d (unat (off + of_nat written)) (take ?n (drop written bs))) = Some (None, d')" by fastforce
    with p c n lt show ?thesis by (subst write_loop.simps) (auto simp: Let_def not_less)
  qed
qed

section \<open>From creation to publication\<close>

text \<open>
  \<open>staged f0 dest n out f\<close>: since the file system \<open>f0\<close>, only the temporary name has been added, for a file \<open>n\<close> that
  \<open>f0\<close> does not have, and only the bytes of \<open>n\<close> have been written.
\<close>

definition staged :: "fs \<Rightarrow> string \<Rightarrow> nat \<Rightarrow> output_file \<Rightarrow> fs \<Rightarrow> bool" where
  "staged f0 dest n out f \<longleftrightarrow> fs_ok f0 \<and> n = fs_next f0 \<and> of_destination out = dest \<and> dest \<noteq> [] \<and> of_temporary out \<noteq> [] \<and>
     of_temporary out \<noteq> dest \<and> fs_names f0 (of_temporary out) = None \<and>
     fs_names f = (fs_names f0)(of_temporary out \<mapsto> n) \<and> (\<forall>m. m \<noteq> n \<longrightarrow> fs_data f m = fs_data f0 m)"

lemma temporary_name_neq: "temporary_name p pid k \<noteq> p" "temporary_name p pid k \<noteq> []"
proof -
  have "length p < length (temporary_name p pid k)" by (simp add: temporary_name_def)
  then show "temporary_name p pid k \<noteq> p" "temporary_name p pid k \<noteq> []" by auto
qed

lemma create_temporary_cases:
  assumes "create_temporary env as out f = (e, out', f')" "fs_ok f" "of_destination out \<noteq> []" "of_fd out = None"
  shows "(\<exists>x. e = Some x \<and> f' = f \<and> of_temporary out' = []) \<or>
    (e = None \<and> of_fd out' = Some (fs_next f) \<and> staged f (of_destination out) (fs_next f) out' f' \<and> fs_data f' (fs_next f) = [])"
  using assms
proof (induction as arbitrary: out)
  case (Cons a as)
  let ?t = "temporary_name (of_destination out) (oe_pid env) (oe_counter env + a)"
  show ?case
  proof (cases "open_exclusive (oe_open env a) ?t f")
    case (Inl x)
    show ?thesis
    proof (cases "x = EEXIST")
      case True
      with Cons.prems Inl have "create_temporary env as (out\<lparr>of_temporary := ?t\<rparr>) f = (e, out', f')" by simp
      from Cons.IH [OF this] Cons.prems show ?thesis by simp
    next
      case False
      with Cons.prems Inl show ?thesis by auto
    qed
  next
    case (Inr r)
    then have r: "r = (fs_next f, f\<lparr>fs_names := (fs_names f)(?t \<mapsto> fs_next f), fs_data := (fs_data f)(fs_next f := []),
        fs_next := Suc (fs_next f)\<rparr>)" "fs_names f ?t = None"
      by (auto simp: open_exclusive_def split: option.splits if_splits)
    then have "e = None" "out' = out\<lparr>of_temporary := ?t, of_fd := Some (fs_next f)\<rparr>" "f' = snd r"
      using Cons.prems(1) Inr by (simp_all add: Let_def)
    with r Cons.prems(2-4) show ?thesis by (simp add: staged_def temporary_name_neq)
  qed
qed auto

lemma create_near_cases:
  assumes "create_near env dest overwrite no_output f = (e, out, f')" "fs_ok f"
  shows "(\<exists>x. e = Some x \<and> f' = f \<and> of_temporary out = []) \<or>
    (e = None \<and> of_fd out = Some (fs_next f) \<and> staged f dest (fs_next f) out f' \<and> fs_data f' (fs_next f) = [])"
proof (cases "create_temporary env [0..<100] (no_output\<lparr>of_destination := dest\<rparr>) f = (e, out, f') \<and> dest \<noteq> []")
  case True
  then show ?thesis using create_temporary_cases [of env "[0..<100]" "no_output\<lparr>of_destination := dest\<rparr>"] assms(2) by (simp add: no_output_def)
next
  case False
  with assms(1) have "\<exists>x. e = Some x" "f' = f" "of_temporary out = []"
    unfolding create_near_def no_output_def Let_def by (auto split: if_splits) (metis (no_types))+
  then show ?thesis by blast
qed

lemma staged_data: "staged f0 dest n out f \<Longrightarrow> staged f0 dest n out (f\<lparr>fs_data := (fs_data f)(n := d)\<rparr>)"
  by (simp add: staged_def)

lemma resize_cases:
  assumes "resize env sz out f = (e, f')" "staged f0 dest n out f" "of_fd out = Some n"
  shows "staged f0 dest n out f' \<and> (e = None \<longrightarrow> unat sz \<le> SSIZE_MAX \<and> length (fs_data f' n) = unat sz)"
  using assms staged_data by (auto simp: resize_def SSIZE_MAX_def split: if_splits option.splits)

lemma write_at_cases:
  assumes "write_at pwrite bs off out f = Some (e, f')" "staged f0 dest n out f" "of_fd out = Some n"
    "unat off + length bs \<le> length (fs_data f n)" "length (fs_data f n) \<le> SSIZE_MAX"
  shows "staged f0 dest n out f'" "length (fs_data f' n) = length (fs_data f n)"
    "e = None \<Longrightarrow> fs_data f' n = patch (fs_data f n) (unat off) bs"
proof -
  have w: "wrote (fs_data f n) bs off 0 (fs_data f n)" using assms(4,5) by (simp add: wrote_def)
  obtain d where d: "write_loop pwrite 0 bs off 0 (fs_data f n) = Some (e, d)" "f' = f\<lparr>fs_data := (fs_data f)(n := d)\<rparr>"
    using assms(1,3) by (auto simp: write_at_def)
  from write_loop_wrote [OF d(1) w] d(2) assms(2)
  show "staged f0 dest n out f'" "length (fs_data f' n) = length (fs_data f n)"
    "e = None \<Longrightarrow> fs_data f' n = patch (fs_data f n) (unat off) bs"
    by (simp_all add: staged_data)
qed

lemma write_at_total:
  assumes "of_fd out = Some n" "unat off + length bs \<le> length (fs_data f n)" "length (fs_data f n) \<le> SSIZE_MAX"
    "\<And>j. \<exists>c > 0. pwrite j = Inr c"
  shows "\<exists>f'. write_at pwrite bs off out f = Some (None, f')"
proof -
  have "wrote (fs_data f n) bs off 0 (fs_data f n)" using assms(2,3) by (simp add: wrote_def)
  from write_loop_total [OF this assms(4)] assms(1) show ?thesis by (auto simp: write_at_def)
qed

lemma staged_content:
  assumes "staged f0 dest n out f" "p \<noteq> of_temporary out"
  shows "content f p = content f0 p"
proof (cases "fs_names f0 p")
  case None
  with assms show ?thesis by (simp add: staged_def content_def)
next
  case (Some a)
  then have "a \<noteq> n" using assms(1) unfolding staged_def fs_ok_def by blast
  with assms Some show ?thesis by (simp add: staged_def content_def)
qed

text \<open>Whatever fails, every name of the file system keeps its file.\<close>

lemma destroy_staged:
  assumes "staged f0 dest n out f" "oe_remove env"
  shows "content (destroy_output env out f) = content f0"
proof
  fix p
  show "content (destroy_output env out f) p = content f0 p"
  proof (cases "p = of_temporary out")
    case True
    with assms show ?thesis by (simp add: staged_def content_def destroy_output_def unlink_file_def)
  next
    case False
    with assms staged_content [OF assms(1) False] show ?thesis
      by (simp add: content_def destroy_output_def unlink_file_def staged_def)
  qed
qed

text \<open>The three ways \<open>publish\<close> ends once the file is closed.\<close>

lemma publish_shape:
  assumes "close_output env out = (None, out1)" "of_temporary out1 \<noteq> []" "of_destination out1 \<noteq> []" "publish env overwrite out f = (e, out', f')"
  obtains (failed) x where "e = Some x" "out' = out1" "f' = f"
    | (renamed) "e = None" "of_temporary out' = []" "f' = rename_file (of_temporary out1) (of_destination out1) f"
        "\<not> overwrite \<and> oe_status_again env = None \<longrightarrow> fs_names f (of_destination out1) = None"
    | (linked) lk where "e = None" "of_temporary out' = []"
        "lk = f\<lparr>fs_names := (fs_names f)(of_destination out1 := fs_names f (of_temporary out1))\<rparr>"
        "f' = (if oe_unlink env then unlink_file (of_temporary out1) lk else lk)" "fs_names f (of_destination out1) = None"
proof (cases "overwrite \<or> (\<exists>x. link_error env (of_destination out1) f = Some x \<and> hard_links_unavailable x)")
  case True
  then show ?thesis
    using assms failed renamed unfolding publish_def publish_by_rename_def inspect_error_def
    by (auto split: if_splits option.splits) (metis (no_types))+
next
  case False
  then show ?thesis
  proof (cases "link_error env (of_destination out1) f")
    case None
    then have "fs_names f (of_destination out1) = None" by (auto simp: link_error_def split: if_splits)
    with None False assms show ?thesis
      by (intro linked [OF _ _ refl]) (auto simp: publish_def Let_def)
  next
    case (Some x)
    with False assms show ?thesis by (intro failed [of x]) (auto simp: publish_def)
  qed
qed

lemma publish_cases:
  assumes "publish env overwrite out f = (e, out', f')" "staged f0 dest n out f"
  shows "(\<exists>x. e = Some x \<and> f' = f \<and> staged f0 dest n out' f') \<or>
    (e = None \<and> of_temporary out' = [] \<and> (\<not> overwrite \<and> oe_status_again env = None \<longrightarrow> fs_names f0 dest = None) \<and>
     content f' dest = Some (fs_data f n) \<and>
     (\<forall>p. p \<noteq> dest \<longrightarrow> p \<noteq> of_temporary out \<longrightarrow> content f' p = content f0 p) \<and>
     (oe_unlink env \<longrightarrow> content f' (of_temporary out) = None))"
proof -
  have t: "of_temporary out \<noteq> []" "of_destination out = dest" "dest \<noteq> []" "of_temporary out \<noteq> dest"
    and nm: "fs_names f (of_temporary out) = Some n" "fs_names f dest = fs_names f0 dest"
    using assms(2) by (auto simp: staged_def)
  have other: "map_option (fs_data f) (fs_names f p) = content f0 p" if "p \<noteq> of_temporary out" for p
    using staged_content [OF assms(2) that] by (simp add: content_def)
  have s: "staged f0 dest n (out\<lparr>of_fd := fd\<rparr>) f" for fd using assms(2) by (simp add: staged_def)
  obtain ce fd where c: "close_output env out = (ce, out\<lparr>of_fd := fd\<rparr>)" by (metis close_output_def output_file.surjective output_file.update_convs(1))
  show ?thesis
  proof (cases ce)
    case (Some x)
    with assms(1) s c show ?thesis by (auto simp: publish_def)
  next
    case None
    note c [unfolded None]
    moreover have "of_temporary (out\<lparr>of_fd := fd\<rparr>) \<noteq> []" "of_destination (out\<lparr>of_fd := fd\<rparr>) \<noteq> []" using t by simp_all
    ultimately show ?thesis using assms(1)
    proof (cases rule: publish_shape [consumes 4, case_names failed renamed linked])
      case (failed x)
      with s show ?thesis by simp
    next
      case renamed
      with t nm other show ?thesis by (auto simp: content_def rename_file_def)
    next
      case (linked lk)
      with t nm other show ?thesis by (auto simp: content_def unlink_file_def)
    qed
  qed
qed

section \<open>Files open for reading\<close>

text \<open>
  The class \<open>File\<close>: whether it has a descriptor, and the answers of \<open>open\<close> and of the repeated \<open>pread\<close>.
\<close>

definition file_open :: "errno option \<Rightarrow> bool \<Rightarrow> errno option \<times> bool" where
  "file_open answer opened =
     (if opened then (Some EBUSY, True) else case answer of Some e \<Rightarrow> (Some e, False) | None \<Rightarrow> (None, True))"

partial_function (option) pread_loop :: "(nat \<Rightarrow> errno + byte list) \<Rightarrow> nat \<Rightarrow> nat \<Rightarrow> (errno + byte list) option" where
  "pread_loop pread k n =
     (case pread k of
        Inr d \<Rightarrow> Some (Inr (take n d))
      | Inl e \<Rightarrow> if e = EINTR then pread_loop pread (Suc k) n else Some (Inl e))"

definition file_read_at :: "(nat \<Rightarrow> errno + byte list) \<Rightarrow> bool \<Rightarrow> nat \<Rightarrow> u64 \<Rightarrow> (errno + byte list) option" where
  "file_read_at pread opened n offset =
     (if \<not> opened then Some (Inl EBADF)
      else if 2 ^ 63 - 1 < offset then Some (Inl EOVERFLOW)
      else pread_loop pread 0 (min n SSIZE_MAX))"

text \<open>A read returns once it is not interrupted, with the first answer that is not an interruption.\<close>

lemma pread_loop_first:
  assumes "pread j \<noteq> Inl EINTR" "\<forall>i < j. pread i = Inl EINTR" "k \<le> j"
  shows "pread_loop pread k n = Some (map_sum id (take n) (pread j))"
  using assms(3)
proof (induction "j - k" arbitrary: k)
  case 0
  with assms(1) show ?case by (subst pread_loop.simps) (auto split: sum.splits)
next
  case (Suc d)
  then have "pread k = Inl EINTR" "pread_loop pread (Suc k) n = Some (map_sum id (take n) (pread j))" using assms(2) by auto
  then show ?case by (subst pread_loop.simps) simp
qed

lemma file_read_at_returns:
  assumes "pread j \<noteq> Inl EINTR" "\<forall>i < j. pread i = Inl EINTR" "offset \<le> 2 ^ 63 - 1"
  shows "file_read_at pread True n offset = Some (map_sum id (take (min n SSIZE_MAX)) (pread j))"
proof -
  have "\<not> 2 ^ 63 - 1 < offset" using assms(3) by (simp only: not_less)
  then show ?thesis using pread_loop_first [OF assms(1,2) le0] by (simp only: file_read_at_def if_False simp_thms)
qed

end
