(* ===== verification/Karu_Download.thy ===== *)
theory Karu_Download
  imports Karu_Api Karu_Output_File
begin

text \<open>
  Whole-object downloads, \<open>src/src/download.cpp\<close>, with their entry point and the versioned structures of
  \<open>src/src/karu.cpp\<close>. The object is read in chunks through a bounded window of slots, each with a batch of its
  own, and every chunk is written at its offset. The engine and its batches answer through the environment:
  the first read, the submission of a part, each poll of a batch, numbered, of a slot, and its counters. A poll shows
  the completion and the bytes of the slot's buffer; a slot's number stands for the address of its part, which
  is the tag. The wait loop may run for ever when no batch answers, so it is a partial function.
\<close>

section \<open>Settings and summaries\<close>

record download_settings =
  dl_chunk_size :: u64
  dl_parallelism :: u64
  dl_overwrite :: bool
  dl_progress :: "(nat \<Rightarrow> u64 \<Rightarrow> u64 \<Rightarrow> int) option"

definition default_settings :: download_settings where
  "default_settings = \<lparr>dl_chunk_size = 8388608, dl_parallelism = 8, dl_overwrite = False, dl_progress = None\<rparr>"

record download_summary =
  sm_size :: u64
  sm_downloaded :: u64
  sm_received_bytes :: u64
  sm_retries :: u64
  sm_throttled :: u64
  sm_new_connections :: u64
  sm_resumed :: u64
  sm_credential_refreshes :: u64
  sm_etag :: string

definition no_summary :: download_summary where
  "no_summary = \<lparr>sm_size = 0, sm_downloaded = 0, sm_received_bytes = 0, sm_retries = 0, sm_throttled = 0,
     sm_new_connections = 0, sm_resumed = 0, sm_credential_refreshes = 0, sm_etag = []\<rparr>"

definition kProbeSize :: u64 where
  "kProbeSize = 1048576"

definition add_saturated :: "u64 \<Rightarrow> u64 \<Rightarrow> u64" where
  "add_saturated destination v = (if u64_max - destination < v then u64_max else destination + v)"

definition add_batch_stats :: "batch_counters \<Rightarrow> download_summary \<Rightarrow> download_summary" where
  "add_batch_stats c s =
     s\<lparr>sm_received_bytes := add_saturated (sm_received_bytes s) (bc_received_bytes c),
       sm_retries := add_saturated (sm_retries s) (bc_retries c),
       sm_throttled := add_saturated (sm_throttled s) (bc_throttled c),
       sm_new_connections := add_saturated (sm_new_connections s) (bc_new_connections c),
       sm_resumed := add_saturated (sm_resumed s) (bc_resumed c),
       sm_credential_refreshes := add_saturated (sm_credential_refreshes s) (bc_credential_refreshes c)\<rparr>"

definition add_probe_stats :: "range_stats \<Rightarrow> download_summary \<Rightarrow> download_summary" where
  "add_probe_stats c s =
     s\<lparr>sm_received_bytes := add_saturated (sm_received_bytes s) (rs_received_bytes c),
       sm_retries := add_saturated (sm_retries s) (rs_retries c),
       sm_throttled := add_saturated (sm_throttled s) (rs_throttled c),
       sm_new_connections := add_saturated (sm_new_connections s) (rs_new_connections c),
       sm_resumed := add_saturated (sm_resumed s) (rs_resumed c),
       sm_credential_refreshes := add_saturated (sm_credential_refreshes s) (rs_credential_refreshes c)\<rparr>"

section \<open>Slots\<close>

record download_part =
  dp_offset :: u64
  dp_length :: u64

record slot =
  sl_part :: download_part
  sl_batch :: bool

record poll =
  pl_status :: karu_status
  pl_done :: done_record
  pl_data :: "byte list"

record download_env =
  de_output :: out_env
  de_message :: "errno \<Rightarrow> string"
  de_probe :: "nat \<Rightarrow> ((karu_status \<times> string) + (u64 \<times> string)) \<times> range_stats \<times> byte list"
  de_submit :: "download_part \<Rightarrow> string option \<Rightarrow> karu_status"
  de_next :: "nat \<Rightarrow> nat \<Rightarrow> download_part \<Rightarrow> int \<Rightarrow> poll"
  de_stats :: "nat \<Rightarrow> karu_status \<times> batch_counters"

record download_state =
  ds_slots :: "slot list"
  ds_active :: nat
  ds_next_chunk :: u64
  ds_cursor :: nat
  ds_polls :: nat
  ds_writes :: nat
  ds_summary :: download_summary
  ds_out :: output_file
  ds_fs :: fs

type_synonym failure = "(karu_status \<times> string) \<times> download_state"

definition output_error :: "download_env \<Rightarrow> string \<Rightarrow> string \<Rightarrow> errno \<Rightarrow> karu_status \<times> string" where
  "output_error env destination action e = (KARU_ERR_IO, destination @ '': cannot '' @ action @ '': '' @ de_message env e)"

definition cancelled_error :: "string \<Rightarrow> karu_status \<times> string" where
  "cancelled_error destination = (KARU_ERR_CANCELLED, destination @ '': download cancelled by progress callback'')"

text \<open>Whether the progress callback, asked after \<open>k\<close> polls, wants to stop.\<close>

definition wants_stop :: "download_settings \<Rightarrow> nat \<Rightarrow> download_summary \<Rightarrow> bool" where
  "wants_stop cfg k s = (case dl_progress cfg of None \<Rightarrow> False | Some f \<Rightarrow> f k (sm_downloaded s) (sm_size s) = 0)"

definition probe_capacity :: "download_settings \<Rightarrow> u64" where
  "probe_capacity cfg = min (dl_chunk_size cfg) kProbeSize"

definition probe_length :: "download_settings \<Rightarrow> download_summary \<Rightarrow> u64" where
  "probe_length cfg s = min (probe_capacity cfg) (sm_size s)"

definition chunks :: "download_settings \<Rightarrow> download_summary \<Rightarrow> u64" where
  "chunks cfg s = (let remaining = sm_size s - probe_length cfg s
                   in if remaining = 0 then 0 else 1 + (remaining - 1) div dl_chunk_size cfg)"

definition chunk_part :: "download_settings \<Rightarrow> download_summary \<Rightarrow> u64 \<Rightarrow> download_part" where
  "chunk_part cfg s chunk =
     (let offset = probe_length cfg s + chunk * dl_chunk_size cfg
      in \<lparr>dp_offset = offset, dp_length = min (dl_chunk_size cfg) (sm_size s - offset)\<rparr>)"

definition submit_chunk :: "download_env \<Rightarrow> download_settings \<Rightarrow> download_summary \<Rightarrow> u64 \<Rightarrow> karu_status \<times> slot" where
  "submit_chunk env cfg s chunk =
     (let part = chunk_part cfg s chunk;
          submitted = de_submit env part (if sm_etag s = [] then None else Some (sm_etag s))
      in (submitted, \<lparr>sl_part = part, sl_batch = (submitted = KARU_OK)\<rparr>))"

text \<open>The first submissions, one for each of \<open>k\<close> slots, which join the window as they are submitted.\<close>

fun submit_first :: "download_env \<Rightarrow> download_settings \<Rightarrow> nat \<Rightarrow> download_state \<Rightarrow> failure + download_state" where
  "submit_first env cfg 0 st = Inr st"
| "submit_first env cfg (Suc k) st =
     (let (status, sl) = submit_chunk env cfg (ds_summary st) (ds_next_chunk st);
          st' = st\<lparr>ds_next_chunk := ds_next_chunk st + 1, ds_slots := ds_slots st @ [sl]\<rparr>
      in if status \<noteq> KARU_OK then Inl ((status, []), st') else submit_first env cfg k st')"

section \<open>The wait loop\<close>

definition short_part :: "string \<Rightarrow> done_record \<Rightarrow> download_part \<Rightarrow> karu_status \<times> string" where
  "short_part destination d part =
     (KARU_ERR_IO, destination @ '': download completed '' @ u64_string (dn_got d) @ '' of '' @ u64_string (dp_length part) @
        '' bytes at offset '' @ u64_string (dp_offset part))"

text \<open>The slot is free again: the next chunk takes it, or it stays empty.\<close>

definition refill_slot :: "download_env \<Rightarrow> download_settings \<Rightarrow> nat \<Rightarrow> download_state \<Rightarrow> failure + download_state" where
  "refill_slot env cfg index st =
     (if ds_next_chunk st < chunks cfg (ds_summary st)
      then (let (status, sl) = submit_chunk env cfg (ds_summary st) (ds_next_chunk st);
                st' = st\<lparr>ds_next_chunk := ds_next_chunk st + 1, ds_slots := (ds_slots st)[index := sl]\<rparr>
            in if status \<noteq> KARU_OK then Inl ((status, []), st') else Inr st')
      else Inr (st\<lparr>ds_slots := (ds_slots st)[index := (ds_slots st ! index)\<lparr>sl_batch := False\<rparr>],
                   ds_active := ds_active st - 1\<rparr>))"

text \<open>What follows a poll that gave a completion.\<close>

definition complete_slot :: "download_env \<Rightarrow> download_settings \<Rightarrow> string \<Rightarrow> nat \<Rightarrow> poll \<Rightarrow> download_state \<Rightarrow>
    (failure + download_state) option" where
  "complete_slot env cfg destination index p st =
     (let part = sl_part (ds_slots st ! index); d = pl_done p
      in if dn_status d \<noteq> KARU_OK then Some (Inl ((dn_status d, []), st))
         else if dn_tag d \<noteq> index \<or> dn_got d \<noteq> dp_length part then Some (Inl (short_part destination d part, st))
         else case write_at (oe_pwrite (de_output env) (ds_writes st)) (take (unat (dp_length part)) (pl_data p)) (dp_offset part)
                     (ds_out st) (ds_fs st) of
                None \<Rightarrow> None
              | Some (Some e, f) \<Rightarrow> Some (Inl (output_error env destination ''write temporary output'' e,
                                        st\<lparr>ds_fs := f, ds_writes := Suc (ds_writes st)\<rparr>))
              | Some (None, f) \<Rightarrow>
                  (let s = ds_summary st;
                       s1 = s\<lparr>sm_downloaded := add_saturated (sm_downloaded s) (dn_got d)\<rparr>;
                       st1 = st\<lparr>ds_fs := f, ds_writes := Suc (ds_writes st), ds_summary := s1\<rparr>;
                       (status, c) = de_stats env (ds_polls st)
                   in if wants_stop cfg (ds_polls st) s1 then Some (Inl (cancelled_error destination, st1))
                      else if status \<noteq> KARU_OK then Some (Inl ((status, []), st1))
                      else Some (refill_slot env cfg index (st1\<lparr>ds_summary := add_batch_stats c s1\<rparr>))))"

fun poll_round :: "download_env \<Rightarrow> download_settings \<Rightarrow> string \<Rightarrow> nat list \<Rightarrow> bool \<Rightarrow> bool \<Rightarrow> download_state \<Rightarrow>
    (failure + (bool \<times> download_state)) option" where
  "poll_round env cfg destination [] waited completed st = Some (Inr (completed, st))"
| "poll_round env cfg destination (step # steps) waited completed st =
     (let index = (ds_cursor st + step) mod length (ds_slots st);
          sl = ds_slots st ! index
      in if \<not> sl_batch sl then poll_round env cfg destination steps waited completed st
         else (let p = de_next env (ds_polls st) index (sl_part sl) (if waited then 0 else 10);
                   st1 = st\<lparr>ds_polls := Suc (ds_polls st)\<rparr>
               in if pl_status p = KARU_TIMEOUT then poll_round env cfg destination steps True completed st1
                  else if pl_status p \<noteq> KARU_OK then Some (Inl ((pl_status p, []), st1))
                  else case complete_slot env cfg destination index p st1 of
                         None \<Rightarrow> None
                       | Some (Inl x) \<Rightarrow> Some (Inl x)
                       | Some (Inr st2) \<Rightarrow>
                           poll_round env cfg destination steps True True
                             (st2\<lparr>ds_cursor := (index + 1) mod length (ds_slots st)\<rparr>)))"

definition after_round :: "bool \<Rightarrow> download_state \<Rightarrow> download_state" where
  "after_round completed st =
     (if completed then st else st\<lparr>ds_cursor := (ds_cursor st + 1) mod length (ds_slots st)\<rparr>)"

partial_function (option) wait_loop ::
  "download_env \<Rightarrow> download_settings \<Rightarrow> string \<Rightarrow> download_state \<Rightarrow> (failure + download_state) option" where
  "wait_loop env cfg destination st =
     (if ds_active st = 0 then Some (Inr st)
      else case poll_round env cfg destination [0..<length (ds_slots st)] False False st of
             None \<Rightarrow> None
           | Some (Inl x) \<Rightarrow> Some (Inl x)
           | Some (Inr r) \<Rightarrow> wait_loop env cfg destination (after_round (fst r) (snd r)))"

section \<open>The download\<close>

definition start_state :: "output_file \<Rightarrow> fs \<Rightarrow> download_state" where
  "start_state out f = \<lparr>ds_slots = [], ds_active = 0, ds_next_chunk = 0, ds_cursor = 0, ds_polls = 0, ds_writes = 0,
     ds_summary = no_summary, ds_out = out, ds_fs = f\<rparr>"

definition create_error :: "download_env \<Rightarrow> string \<Rightarrow> errno \<Rightarrow> karu_status \<times> string" where
  "create_error env destination e =
     (if e = EEXIST then (KARU_ERR_IO, destination @ '': destination already exists'')
      else output_error env destination ''create temporary output'' e)"

text \<open>The first bytes, which are written before any chunk is submitted.\<close>

definition write_probe :: "download_env \<Rightarrow> download_settings \<Rightarrow> string \<Rightarrow> byte list \<Rightarrow> download_state \<Rightarrow>
    (failure + download_state) option" where
  "write_probe env cfg destination d st =
     (let n = probe_length cfg (ds_summary st)
      in if n = 0 then Some (Inr st)
         else case write_at (oe_pwrite (de_output env) 0) (take (unat n) d) 0 (ds_out st) (ds_fs st) of
                None \<Rightarrow> None
              | Some (Some e, f) \<Rightarrow> Some (Inl (output_error env destination ''write temporary output'' e,
                                        st\<lparr>ds_fs := f, ds_writes := 1\<rparr>))
              | Some (None, f) \<Rightarrow>
                  (let st1 = st\<lparr>ds_fs := f, ds_writes := 1, ds_summary := (ds_summary st)\<lparr>sm_downloaded := n\<rparr>\<rparr>
                   in if wants_stop cfg 0 (ds_summary st1) then Some (Inl (cancelled_error destination, st1)) else Some (Inr st1)))"

definition slot_count :: "download_settings \<Rightarrow> download_summary \<Rightarrow> nat" where
  "slot_count cfg s = unat (min (dl_parallelism cfg) (chunks cfg s))"

definition start_chunks :: "download_env \<Rightarrow> download_settings \<Rightarrow> download_state \<Rightarrow> failure + download_state" where
  "start_chunks env cfg st =
     map_sum id (\<lambda>st'. st'\<lparr>ds_active := length (ds_slots st')\<rparr>) (submit_first env cfg (slot_count cfg (ds_summary st)) st)"

text \<open>Everything between creating the temporary file and publishing it.\<close>

definition download_body :: "download_env \<Rightarrow> download_settings \<Rightarrow> string \<Rightarrow> output_file \<Rightarrow> fs \<Rightarrow> (failure + download_state) option" where
  "download_body env cfg destination out f =
     (case de_probe env (unat (probe_capacity cfg)) of
        (Inl failed, stats, d) \<Rightarrow> Some (Inl (failed, start_state out f))
      | (Inr (sz, etag), stats, d) \<Rightarrow>
          (let s = add_probe_stats stats (no_summary\<lparr>sm_size := sz, sm_etag := etag\<rparr>);
               st = (start_state out f)\<lparr>ds_summary := s\<rparr>
           in case resize (de_output env) sz out f of
                (Some e, f') \<Rightarrow> Some (Inl (output_error env destination ''resize temporary output'' e, st\<lparr>ds_fs := f'\<rparr>))
              | (None, f') \<Rightarrow>
                  (case write_probe env cfg destination d (st\<lparr>ds_fs := f'\<rparr>) of
                     None \<Rightarrow> None
                   | Some (Inl x) \<Rightarrow> Some (Inl x)
                   | Some (Inr st1) \<Rightarrow>
                       (case start_chunks env cfg st1 of
                          Inl x \<Rightarrow> Some (Inl x)
                        | Inr st2 \<Rightarrow> wait_loop env cfg destination st2))))"

text \<open>The status and its message, the summary and the file system afterwards.\<close>

definition download :: "download_env \<Rightarrow> download_settings \<Rightarrow> string \<Rightarrow> fs \<Rightarrow> ((karu_status \<times> string) \<times> download_summary \<times> fs) option" where
  "download env cfg destination f0 =
     (case create_near (de_output env) destination (dl_overwrite cfg) no_output f0 of
        (Some e, out, f) \<Rightarrow> Some (create_error env destination e, no_summary, destroy_output (de_output env) out f)
      | (None, out, f) \<Rightarrow>
          (case download_body env cfg destination out f of
             None \<Rightarrow> None
           | Some (Inl (failed, st)) \<Rightarrow> Some (failed, ds_summary st, destroy_output (de_output env) (ds_out st) (ds_fs st))
           | Some (Inr st) \<Rightarrow>
               (case publish (de_output env) (dl_overwrite cfg) (ds_out st) (ds_fs st) of
                  (Some e, out', f') \<Rightarrow> Some (output_error env destination ''publish downloaded file'' e, ds_summary st,
                                          destroy_output (de_output env) out' f')
                | (None, out', f') \<Rightarrow> Some ((KARU_OK, []), ds_summary st, destroy_output (de_output env) out' f'))))"

section \<open>The entry point\<close>

record download_options =
  do_struct_size :: nat
  do_chunk_size :: u64
  do_parallelism :: u64
  do_overwrite :: int
  do_progress :: "(nat \<Rightarrow> u64 \<Rightarrow> u64 \<Rightarrow> int) option"

text \<open>The message of a refusal, or the settings.\<close>

definition read_download_options :: "download_options option \<Rightarrow> string + download_settings" where
  "read_download_options options =
     (case options of
        None \<Rightarrow> Inr default_settings
      | Some ov \<Rightarrow>
          if \<not> available (do_struct_size ov) 8 8 then Inl ''karu_client_download: download options structure is too small''
          else (let r1 = default_settings\<lparr>dl_chunk_size := do_chunk_size ov\<rparr>;
                    r2 = (if available (do_struct_size ov) 16 8 then r1\<lparr>dl_parallelism := do_parallelism ov\<rparr> else r1);
                    has_overwrite = available (do_struct_size ov) 24 4;
                    r3 = (if has_overwrite then r2\<lparr>dl_overwrite := (do_overwrite ov \<noteq> 0)\<rparr> else r2);
                    r4 = (if available (do_struct_size ov) 32 8 then r3\<lparr>dl_progress := do_progress ov\<rparr> else r3)
                in if has_overwrite \<and> do_overwrite ov \<noteq> 0 \<and> do_overwrite ov \<noteq> 1
                   then Inl ''karu_client_download: overwrite must be zero or one''
                   else if dl_chunk_size r4 = 0 \<or> dl_chunk_size r4 = TO_END
                   then Inl ''karu_client_download: chunk_size must be nonzero and finite''
                   else if dl_parallelism r4 = 0 then Inl ''karu_client_download: parallelism is outside the supported range''
                   else if u64_max div dl_chunk_size r4 < dl_parallelism r4
                   then Inl ''karu_client_download: chunk_size times parallelism is too large''
                   else Inr r4))"

record download_result =
  dr_struct_size :: nat
  dr_summary :: download_summary
  dr_etag :: "byte list"

definition store_download_result :: "download_result option \<Rightarrow> download_summary \<Rightarrow> download_result option" where
  "store_download_result out s =
     map_option (\<lambda>r.
       (let n = dr_struct_size r; old = dr_summary r
        in r\<lparr>dr_summary :=
               \<lparr>sm_size = copy_counter n 8 (sm_size old) (sm_size s),
                sm_downloaded = copy_counter n 16 (sm_downloaded old) (sm_downloaded s),
                sm_received_bytes = copy_counter n 24 (sm_received_bytes old) (sm_received_bytes s),
                sm_retries = copy_counter n 32 (sm_retries old) (sm_retries s),
                sm_throttled = copy_counter n 40 (sm_throttled old) (sm_throttled s),
                sm_new_connections = copy_counter n 48 (sm_new_connections old) (sm_new_connections s),
                sm_resumed = copy_counter n 56 (sm_resumed old) (sm_resumed s),
                sm_credential_refreshes = copy_counter n 64 (sm_credential_refreshes old) (sm_credential_refreshes s),
                sm_etag = sm_etag old\<rparr>,
             dr_etag := (if available n 72 ETAG_SIZE then store_etag (sm_etag s) (dr_etag r) else dr_etag r)\<rparr>)) out"

definition karu_client_download :: "download_env \<Rightarrow> client option \<Rightarrow> resolved option \<Rightarrow> string option \<Rightarrow> download_options option \<Rightarrow>
    download_result option \<Rightarrow> cpp_exception option \<Rightarrow> byte list \<Rightarrow> fs \<Rightarrow> (karu_status \<times> byte list \<times> download_result option \<times> fs) option" where
  "karu_client_download env cl locator destination options result throws err0 f =
     (let err = clear_error err0;
          refused = (\<lambda>message. Some (KARU_ERR_INVALID, set_error message err, result, f))
      in case (cl, locator, destination) of
           (Some c, Some l, Some dest) \<Rightarrow>
             if dest = [] then refused ''karu_client_download: destination is empty''
             else if (case result of None \<Rightarrow> False | Some r \<Rightarrow> \<not> available (dr_struct_size r) 8 8)
             then refused ''karu_client_download: result structure is too small''
             else (case throws of
                     Some ex \<Rightarrow> Some (thrown ''karu_client_download'' ex err (result, f))
                   | None \<Rightarrow>
                       (case read_download_options options of
                          Inl message \<Rightarrow> refused message
                        | Inr cfg \<Rightarrow>
                            map_option (\<lambda>((status, message), s, f').
                                if status \<noteq> KARU_OK then (status, if message = [] then err else set_error message err, result, f')
                                else (KARU_OK, err, store_download_result result s, f'))
                              (download env cfg dest f)))
         | _ \<Rightarrow> refused ''karu_client_download: null argument'')"

section \<open>Chunks cover the object\<close>

lemma chunks_unat:
  assumes "dl_chunk_size cfg \<noteq> 0"
  shows "unat (chunks cfg s) = (let r = unat (sm_size s) - unat (probe_length cfg s)
     in if r = 0 then 0 else 1 + (r - 1) div unat (dl_chunk_size cfg))"
proof -
  let ?r = "sm_size s - probe_length cfg s"
  have r: "unat ?r = unat (sm_size s) - unat (probe_length cfg s)"
    by (intro unat_u64_sub) (simp add: probe_length_def unat_min_u64)
  show ?thesis
  proof (cases "?r = 0")
    case True
    with r show ?thesis by (simp add: chunks_def Let_def)
  next
    case False
    then have m: "unat (?r - 1) = unat ?r - 1" "0 < unat ?r" by (auto simp: unat_u64_minus1 unat_gt_0)
    have "(unat ?r - 1) div unat (dl_chunk_size cfg) \<le> unat ?r - 1" by (rule div_le_dividend)
    then have "1 + (unat ?r - 1) div unat (dl_chunk_size cfg) < 2 ^ 64" using unat_u64_less [of ?r] m(2) by linarith
    then have "unat (1 + (?r - 1) div dl_chunk_size cfg) = 1 + (unat ?r - 1) div unat (dl_chunk_size cfg)"
      by (subst unat_u64_add) (simp_all add: unat_div m(1))
    with False m(2) r show ?thesis by (simp add: chunks_def Let_def)
  qed
qed

lemma chunk_part_unat:
  assumes "dl_chunk_size cfg \<noteq> 0" "unat k < unat (chunks cfg s)"
  shows "unat (dp_offset (chunk_part cfg s k)) = unat (probe_length cfg s) + unat k * unat (dl_chunk_size cfg)"
    "unat (dp_length (chunk_part cfg s k)) =
       min (unat (dl_chunk_size cfg)) (unat (sm_size s) - unat (dp_offset (chunk_part cfg s k)))"
    "unat (dp_offset (chunk_part cfg s k)) < unat (sm_size s)"
proof -
  let ?c = "unat (dl_chunk_size cfg)" and ?r = "unat (sm_size s) - unat (probe_length cfg s)"
  have c: "0 < ?c" using assms(1) by (simp add: unat_gt_0)
  have r: "?r \<noteq> 0" "unat k \<le> (?r - 1) div ?c" using assms(2) by (auto simp: chunks_unat [OF assms(1)] Let_def split: if_splits)
  have "unat k * ?c \<le> ?r - 1" using r(2) c by (metis div_times_less_eq_dividend le_trans mult_le_mono1)
  then have lt: "unat (probe_length cfg s) + unat k * ?c < unat (sm_size s)" using r(1) by linarith
  then have "unat (k * dl_chunk_size cfg) = unat k * ?c" using unat_u64_less [of "sm_size s"] by (intro unat_u64_mult) linarith
  then have o: "unat (probe_length cfg s + k * dl_chunk_size cfg) = unat (probe_length cfg s) + unat k * ?c"
    using lt unat_u64_less [of "sm_size s"] by (subst unat_u64_add) auto
  then show "unat (dp_offset (chunk_part cfg s k)) = unat (probe_length cfg s) + unat k * ?c"
    "unat (dp_offset (chunk_part cfg s k)) < unat (sm_size s)"
    using lt by (simp_all add: chunk_part_def Let_def)
  show "unat (dp_length (chunk_part cfg s k)) = min ?c (unat (sm_size s) - unat (dp_offset (chunk_part cfg s k)))"
    using lt o by (simp add: chunk_part_def Let_def unat_min_u64 unat_u64_sub)
qed

text \<open>Every byte behind the probe belongs to a chunk.\<close>

lemma chunk_of_byte:
  assumes "dl_chunk_size cfg \<noteq> 0" "unat (probe_length cfg s) \<le> x" "x < unat (sm_size s)"
  obtains k where "unat k < unat (chunks cfg s)" "unat (dp_offset (chunk_part cfg s k)) \<le> x"
    "x < unat (dp_offset (chunk_part cfg s k)) + unat (dp_length (chunk_part cfg s k))"
proof -
  let ?c = "unat (dl_chunk_size cfg)" and ?p = "unat (probe_length cfg s)"
  have c: "0 < ?c" using assms(1) by (simp add: unat_gt_0)
  let ?k = "(x - ?p) div ?c"
  have le: "?k \<le> (unat (sm_size s) - ?p - 1) div ?c" using assms by (intro div_le_mono) linarith
  then have k: "?k < unat (chunks cfg s)" using assms(2,3) by (simp add: chunks_unat [OF assms(1)] Let_def)
  have u: "unat (of_nat ?k :: u64) = ?k" using k unat_u64_less [of "chunks cfg s"] by (intro unat_of_nat_u64) linarith
  note p = chunk_part_unat [OF assms(1), of "of_nat ?k" s, unfolded u, OF k]
  have "?k * ?c \<le> x - ?p" "x - ?p < ?k * ?c + ?c"
    using dividend_less_div_times [OF c, of "x - ?p"] by (simp_all add: div_times_less_eq_dividend add.commute)
  with p(1) assms(2) have o: "unat (dp_offset (chunk_part cfg s (of_nat ?k))) \<le> x"
    "x < unat (dp_offset (chunk_part cfg s (of_nat ?k))) + ?c"
    by linarith+
  with p(2,3) assms(3) have "x < unat (dp_offset (chunk_part cfg s (of_nat ?k))) + unat (dp_length (chunk_part cfg s (of_nat ?k)))"
    by (simp add: min_def)
  note o(1) this
  then show ?thesis using that k u by metis
qed

lemma chunk_cong: "sm_size s' = sm_size s \<Longrightarrow> chunk_part cfg s' = chunk_part cfg s \<and> chunks cfg s' = chunks cfg s \<and>
    probe_length cfg s' = probe_length cfg s"
  by (simp add: chunk_part_def chunks_def probe_length_def Let_def fun_eq_iff)

section \<open>The invariant of the wait loop\<close>

text \<open>What a completion that reports success shows is the object's.\<close>

definition honest_polls :: "(nat \<Rightarrow> byte) \<Rightarrow> download_env \<Rightarrow> bool" where
  "honest_polls obj env \<longleftrightarrow> (\<forall>k i part t. let p = de_next env k i part t in
     pl_status p = KARU_OK \<and> dn_status (pl_done p) = KARU_OK \<and> dn_got (pl_done p) = dp_length part \<longrightarrow>
       unat (dp_length part) \<le> length (pl_data p) \<and> slice_at obj (unat (dp_offset part)) (take (unat (dp_length part)) (pl_data p)))"

definition has_part :: "(nat \<Rightarrow> byte) \<Rightarrow> byte list \<Rightarrow> download_part \<Rightarrow> bool" where
  "has_part obj d part \<longleftrightarrow> (\<forall>x. unat (dp_offset part) \<le> x \<and> x < unat (dp_offset part) + unat (dp_length part) \<longrightarrow> d ! x = obj x)"

definition busy :: "download_state \<Rightarrow> slot list" where
  "busy st = filter sl_batch (ds_slots st)"

text \<open>The temporary file is staged as \<open>n\<close>, open and as long as the object.\<close>

definition on_file :: "fs \<Rightarrow> string \<Rightarrow> nat \<Rightarrow> download_state \<Rightarrow> bool" where
  "on_file f0 dest n st \<longleftrightarrow> staged f0 dest n (ds_out st) (ds_fs st) \<and> of_fd (ds_out st) = Some n \<and>
     length (fs_data (ds_fs st) n) = unat (sm_size (ds_summary st)) \<and> unat (sm_size (ds_summary st)) \<le> SSIZE_MAX"

text \<open>Every chunk submitted so far is in a slot or in the file, and a slot is empty only when all are submitted.\<close>

definition chunks_inv :: "(nat \<Rightarrow> byte) \<Rightarrow> download_settings \<Rightarrow> nat \<Rightarrow> download_state \<Rightarrow> bool" where
  "chunks_inv obj cfg n st \<longleftrightarrow>
     (let s = ds_summary st; d = fs_data (ds_fs st) n
      in unat (ds_next_chunk st) \<le> unat (chunks cfg s) \<and>
         (\<forall>x < unat (probe_length cfg s). d ! x = obj x) \<and>
         (\<forall>sl \<in> set (busy st). \<exists>k. unat k < unat (ds_next_chunk st) \<and> sl_part sl = chunk_part cfg s k) \<and>
         (\<forall>k. unat k < unat (ds_next_chunk st) \<longrightarrow> has_part obj d (chunk_part cfg s k) \<or>
            (\<exists>sl \<in> set (busy st). sl_part sl = chunk_part cfg s k)) \<and>
         ds_active st = length (busy st) \<and>
         (unat (ds_next_chunk st) < unat (chunks cfg s) \<longrightarrow> ds_slots st \<noteq> [] \<and> busy st = ds_slots st))"

text \<open>When no slot is busy, the file is the object.\<close>

lemma chunks_inv_done:
  assumes "chunks_inv obj cfg n st" "on_file f0 dest n st" "ds_active st = 0" "dl_chunk_size cfg \<noteq> 0"
  shows "fs_data (ds_fs st) n = map obj [0..<unat (sm_size (ds_summary st))]"
proof (rule nth_equalityI)
  let ?s = "ds_summary st" and ?d = "fs_data (ds_fs st) n"
  have b: "busy st = []" using assms(1,3) by (simp add: chunks_inv_def Let_def)
  then have all: "unat (ds_next_chunk st) = unat (chunks cfg ?s)" using assms(1) by (auto simp: chunks_inv_def Let_def)
  show len: "length ?d = length (map obj [0..<unat (sm_size ?s)])" using assms(2) by (simp add: on_file_def)
  fix x assume x: "x < length ?d"
  then have xs: "x < unat (sm_size ?s)" using len by simp
  have "?d ! x = obj x"
  proof (cases "x < unat (probe_length cfg ?s)")
    case True
    then show ?thesis using assms(1) by (simp add: chunks_inv_def Let_def)
  next
    case False
    then obtain k where k: "unat k < unat (chunks cfg ?s)" "unat (dp_offset (chunk_part cfg ?s k)) \<le> x"
      "x < unat (dp_offset (chunk_part cfg ?s k)) + unat (dp_length (chunk_part cfg ?s k))"
      using chunk_of_byte [OF assms(4) _ xs] by (metis not_less)
    have "has_part obj ?d (chunk_part cfg ?s k)" using assms(1) b k(1) all by (simp add: chunks_inv_def Let_def)
    with k(2,3) show ?thesis by (simp add: has_part_def)
  qed
  with xs show "?d ! x = map obj [0..<unat (sm_size ?s)] ! x" by simp
qed

lemma has_part_patch:
  assumes "unat (dp_offset part) + length bs \<le> length d" "slice_at obj (unat (dp_offset part)) bs" "length bs = unat (dp_length part)"
  shows "has_part obj (patch d (unat (dp_offset part)) bs) part"
    "x < length d \<Longrightarrow> d ! x = obj x \<Longrightarrow> patch d (unat (dp_offset part)) bs ! x = obj x"
  using assms by (auto simp: has_part_def nth_patch slice_at_def)

lemma submit_chunk_cases:
  assumes "submit_chunk env cfg s k = (status, sl)"
  shows "sl_part sl = chunk_part cfg s k" "sl_batch sl \<longleftrightarrow> status = KARU_OK"
  using assms by (auto simp: submit_chunk_def Let_def)

lemma next_chunk_unat:
  assumes "k < chunks cfg s"
  shows "unat (k + 1) = unat k + 1"
  using assms unat_u64_less [of "chunks cfg s"] by (subst unat_u64_add) (auto simp: u64_less_iff)

text \<open>Refilling the slot \<open>old\<close>, whose chunk is in the file, keeps the invariant.\<close>

lemma refill_slot_inv:
  assumes inv: "chunks_inv obj cfg n st" and sl: "ds_slots st = pre @ old # post" "index = length pre" "sl_batch old"
    and part: "has_part obj (fs_data (ds_fs st) n) (sl_part old)"
  shows "case refill_slot env cfg index st of
      Inl (failed, st') \<Rightarrow> fst failed \<noteq> KARU_OK \<and> ds_out st' = ds_out st \<and> ds_fs st' = ds_fs st
    | Inr st' \<Rightarrow> chunks_inv obj cfg n st' \<and> ds_out st' = ds_out st \<and> ds_fs st' = ds_fs st \<and> ds_summary st' = ds_summary st \<and>
        length (ds_slots st') = length (ds_slots st)"
proof -
  let ?s = "ds_summary st" and ?d = "fs_data (ds_fs st) n" and ?K = "unat (ds_next_chunk st)"
  let ?rest = "filter sl_batch pre @ filter sl_batch post"
  have b: "busy st = filter sl_batch pre @ old # filter sl_batch post" using sl by (simp add: busy_def)
  have u: "(ds_slots st)[index := y] = pre @ y # post" "ds_slots st ! index = old" for y using sl by simp_all
  have i: "?K \<le> unat (chunks cfg ?s)" "\<forall>x < unat (probe_length cfg ?s). ?d ! x = obj x"
      "\<forall>y \<in> set ?rest. \<exists>k. unat k < ?K \<and> sl_part y = chunk_part cfg ?s k" "ds_active st = Suc (length ?rest)"
    using inv b by (auto simp: chunks_inv_def Let_def)
  have cover: "has_part obj ?d (chunk_part cfg ?s k) \<or> (\<exists>y \<in> set ?rest. sl_part y = chunk_part cfg ?s k)" if "unat k < ?K" for k
  proof -
    have "has_part obj ?d (chunk_part cfg ?s k) \<or> (\<exists>y \<in> set (busy st). sl_part y = chunk_part cfg ?s k)"
      using inv that by (simp add: chunks_inv_def Let_def)
    then show ?thesis using b part by auto
  qed
  show ?thesis
  proof (cases "ds_next_chunk st < chunks cfg ?s")
    case False
    let ?st = "st\<lparr>ds_slots := pre @ old\<lparr>sl_batch := False\<rparr> # post, ds_active := ds_active st - 1\<rparr>"
    have "busy ?st = ?rest" by (simp add: busy_def)
    then have "chunks_inv obj cfg n ?st" using i cover False by (auto simp: chunks_inv_def Let_def u64_less_iff)
    with False show ?thesis using sl by (simp add: refill_slot_def u)
  next
    case True
    obtain status y where y: "submit_chunk env cfg ?s (ds_next_chunk st) = (status, y)" by fastforce
    note yp = submit_chunk_cases [OF y]
    let ?st = "st\<lparr>ds_next_chunk := ds_next_chunk st + 1, ds_slots := pre @ y # post\<rparr>"
    have r: "refill_slot env cfg index st = (if status \<noteq> KARU_OK then Inl ((status, []), ?st) else Inr ?st)"
      using True y by (simp add: refill_slot_def u Let_def)
    have "chunks_inv obj cfg n ?st" if "status = KARU_OK"
    proof -
      have bs: "busy ?st = filter sl_batch pre @ y # filter sl_batch post" using that yp(2) by (simp add: busy_def)
      have K: "unat (ds_next_chunk ?st) = ?K + 1" using next_chunk_unat [OF True] by simp
      have "filter sl_batch (ds_slots st) = ds_slots st"
        using inv True by (simp add: chunks_inv_def Let_def u64_less_iff busy_def)
      then have "\<forall>z \<in> set (ds_slots st). sl_batch z" by (simp only: filter_id_conv)
      then have "filter sl_batch pre = pre" "filter sl_batch post = post" by (auto simp: sl(1) filter_id_conv)
      then have fb: "busy ?st = ds_slots ?st" using bs by simp
      have "has_part obj ?d (chunk_part cfg ?s k) \<or> (\<exists>z \<in> set (busy ?st). sl_part z = chunk_part cfg ?s k)" if "unat k < ?K + 1" for k
      proof (cases "unat k = ?K")
        case True
        then have "k = ds_next_chunk st" by (simp add: u64_eq_iff)
        then show ?thesis using bs yp(1) by auto
      next
        case False
        with that cover [of k] bs show ?thesis by auto
      qed
      moreover have "\<forall>z \<in> set (busy ?st). \<exists>k. unat k < ?K + 1 \<and> sl_part z = chunk_part cfg ?s k"
      proof
        fix z assume "z \<in> set (busy ?st)"
        then consider "z = y" | "z \<in> set ?rest" using bs by auto
        then show "\<exists>k. unat k < ?K + 1 \<and> sl_part z = chunk_part cfg ?s k"
        proof cases
          case 1
          with yp(1) show ?thesis by (intro exI [of _ "ds_next_chunk st"]) simp
        next
          case 2
          then obtain k where "unat k < ?K" "sl_part z = chunk_part cfg ?s k" using i(3) by blast
          then show ?thesis by (intro exI [of _ k]) simp
        qed
      qed
      moreover have "?K + 1 \<le> unat (chunks cfg ?s)" using True by (simp add: u64_less_iff)
      moreover have "length (busy ?st) = ds_active ?st" using i(4) bs by simp
      ultimately show ?thesis unfolding chunks_inv_def Let_def K using i(2) fb by simp
    qed
    with r sl show ?thesis by simp
  qed
qed

text \<open>What the loop promises: a failure keeps the file staged, and progress keeps the invariant.\<close>

definition kept :: "(nat \<Rightarrow> byte) \<Rightarrow> download_settings \<Rightarrow> fs \<Rightarrow> string \<Rightarrow> nat \<Rightarrow> download_state \<Rightarrow> bool" where
  "kept obj cfg f0 dest n st \<longleftrightarrow> on_file f0 dest n st \<and> chunks_inv obj cfg n st"

definition failed_well :: "fs \<Rightarrow> string \<Rightarrow> nat \<Rightarrow> failure \<Rightarrow> bool" where
  "failed_well f0 dest n x \<longleftrightarrow> fst (fst x) \<noteq> KARU_OK \<and> staged f0 dest n (ds_out (snd x)) (ds_fs (snd x))"

lemma busy_chunk:
  assumes "kept obj cfg f0 dest n st" "sl \<in> set (busy st)" "dl_chunk_size cfg \<noteq> 0"
  shows "unat (dp_offset (sl_part sl)) + unat (dp_length (sl_part sl)) \<le> length (fs_data (ds_fs st) n)"
proof -
  obtain k where k: "unat k < unat (ds_next_chunk st)" "sl_part sl = chunk_part cfg (ds_summary st) k"
    using assms(1,2) by (auto simp: kept_def chunks_inv_def Let_def)
  have "unat k < unat (chunks cfg (ds_summary st))" using k(1) assms(1) by (simp add: kept_def chunks_inv_def Let_def)
  from chunk_part_unat [OF assms(3) this] k(2) assms(1) show ?thesis by (simp add: kept_def on_file_def)
qed

lemma chunks_inv_written:
  assumes "chunks_inv obj cfg n st" "sm_size s = sm_size (ds_summary st)"
    and "length (fs_data f n) = length (fs_data (ds_fs st) n)" "unat (sm_size s) = length (fs_data f n)" "dl_chunk_size cfg \<noteq> 0"
    and mono: "\<And>x. x < length (fs_data f n) \<Longrightarrow> fs_data (ds_fs st) n ! x = obj x \<Longrightarrow> fs_data f n ! x = obj x"
  shows "chunks_inv obj cfg n (st\<lparr>ds_fs := f, ds_writes := w, ds_summary := s\<rparr>)"
proof -
  let ?st = "st\<lparr>ds_fs := f, ds_writes := w, ds_summary := s\<rparr>"
  have c: "chunk_part cfg s = chunk_part cfg (ds_summary st)" "chunks cfg s = chunks cfg (ds_summary st)"
    "probe_length cfg s = probe_length cfg (ds_summary st)" using chunk_cong [OF assms(2)] by simp_all
  have b: "busy ?st = busy st" by (simp add: busy_def)
  have p: "unat (probe_length cfg s) \<le> length (fs_data f n)" using assms(4) by (simp add: probe_length_def unat_min_u64)
  have "has_part obj (fs_data f n) (chunk_part cfg s k)"
    if "unat k < unat (ds_next_chunk st)" "has_part obj (fs_data (ds_fs st) n) (chunk_part cfg s k)" for k
  proof -
    have "unat k < unat (chunks cfg s)" using that(1) assms(1) c by (simp add: chunks_inv_def Let_def)
    from chunk_part_unat [OF assms(5) this] have "unat (dp_offset (chunk_part cfg s k)) + unat (dp_length (chunk_part cfg s k)) \<le> length (fs_data f n)"
      using assms(4) by simp
    with that(2) mono show ?thesis by (auto simp: has_part_def)
  qed
  then show ?thesis using assms(1) c b p mono unfolding chunks_inv_def Let_def by auto
qed

lemma complete_slot_kept:
  assumes k: "kept obj cfg f0 dest n st" and i: "index < length (ds_slots st)" "sl_batch (ds_slots st ! index)"
    and c: "dl_chunk_size cfg \<noteq> 0" and h: "honest_polls obj env" "p = de_next env j index (sl_part (ds_slots st ! index)) t" "pl_status p = KARU_OK"
    and r: "complete_slot env cfg dest index p st = Some r"
  shows "case r of Inl x \<Rightarrow> failed_well f0 dest n x
    | Inr st' \<Rightarrow> kept obj cfg f0 dest n st' \<and> length (ds_slots st') = length (ds_slots st)"
proof -
  let ?old = "ds_slots st ! index"
  let ?part = "sl_part ?old" and ?d = "fs_data (ds_fs st) n"
  obtain pre post where sl: "ds_slots st = pre @ ?old # post" "index = length pre"
    using id_take_nth_drop [OF i(1)] i(1) by (metis length_take min.absorb4)
  have mem: "?old \<in> set (busy st)" using i by (simp add: busy_def)
  have bound: "unat (dp_offset ?part) + unat (dp_length ?part) \<le> length ?d" by (rule busy_chunk [OF k mem c])
  have st: "staged f0 dest n (ds_out st) (ds_fs st)" "of_fd (ds_out st) = Some n" "length ?d = unat (sm_size (ds_summary st))"
    "length ?d \<le> SSIZE_MAX"
    using k by (auto simp: kept_def on_file_def)
  show ?thesis
  proof (cases "dn_status (pl_done p) = KARU_OK \<and> dn_tag (pl_done p) = index \<and> dn_got (pl_done p) = dp_length ?part")
    case False
    with r st(1) show ?thesis by (auto simp: complete_slot_def Let_def failed_well_def short_part_def split: if_splits)
  next
    case True
    let ?bs = "take (unat (dp_length ?part)) (pl_data p)"
    have bs: "length ?bs = unat (dp_length ?part)" "slice_at obj (unat (dp_offset ?part)) ?bs"
      using h True unfolding honest_polls_def Let_def by (metis length_take min.absorb2)+
    obtain e f where w: "write_at (oe_pwrite (de_output env) (ds_writes st)) ?bs (dp_offset ?part) (ds_out st) (ds_fs st) = Some (e, f)"
      using r True by (auto simp: complete_slot_def Let_def split: option.splits)
    note wc = write_at_cases [OF w st(1,2) _ st(4)]
    have b: "unat (dp_offset ?part) + length ?bs \<le> length ?d" using bs(1) bound by simp
    show ?thesis
    proof (cases e)
      case (Some x)
      with r True w wc(1) b show ?thesis by (auto simp: complete_slot_def Let_def failed_well_def output_error_def)
    next
      case None
      let ?s1 = "(ds_summary st)\<lparr>sm_downloaded := add_saturated (sm_downloaded (ds_summary st)) (dn_got (pl_done p))\<rparr>"
      obtain status ctr where stats: "de_stats env (ds_polls st) = (status, ctr)" by fastforce
      let ?st = "st\<lparr>ds_fs := f, ds_writes := Suc (ds_writes st), ds_summary := add_batch_stats ctr ?s1\<rparr>"
      have d: "fs_data f n = patch ?d (unat (dp_offset ?part)) ?bs" "length (fs_data f n) = length ?d" using wc(2,3) b None by simp_all
      have sz: "sm_size (ds_summary ?st) = sm_size (ds_summary st)" by (simp add: add_batch_stats_def)
      have "chunks_inv obj cfg n ?st"
        using k c d st(3) sz has_part_patch(2) [OF b bs(2,1)]
        by (intro chunks_inv_written) (auto simp: kept_def add_batch_stats_def)
      moreover have "has_part obj (fs_data (ds_fs ?st) n) ?part" using has_part_patch(1) [OF b bs(2,1)] d by simp
      ultimately have rf: "case refill_slot env cfg index ?st of
          Inl (failed, st') \<Rightarrow> fst failed \<noteq> KARU_OK \<and> ds_out st' = ds_out ?st \<and> ds_fs st' = ds_fs ?st
        | Inr st' \<Rightarrow> chunks_inv obj cfg n st' \<and> ds_out st' = ds_out ?st \<and> ds_fs st' = ds_fs ?st \<and> ds_summary st' = ds_summary ?st \<and>
            length (ds_slots st') = length (ds_slots ?st)"
        using sl i(2) by (intro refill_slot_inv [of _ _ _ _ pre ?old post]) simp_all
      have s2: "staged f0 dest n (ds_out st) f" using wc(1) b by simp
      have rr: "r = (if wants_stop cfg (ds_polls st) ?s1 then Inl (cancelled_error dest, st\<lparr>ds_fs := f, ds_writes := Suc (ds_writes st), ds_summary := ?s1\<rparr>)
          else if status \<noteq> KARU_OK then Inl ((status, []), st\<lparr>ds_fs := f, ds_writes := Suc (ds_writes st), ds_summary := ?s1\<rparr>)
          else refill_slot env cfg index ?st)"
        using r True w None stats by (simp add: complete_slot_def Let_def split: if_splits)
      show ?thesis
      proof (cases "wants_stop cfg (ds_polls st) ?s1 \<or> status \<noteq> KARU_OK")
        case True
        with rr s2 show ?thesis by (auto simp: failed_well_def cancelled_error_def)
      next
        case False
        with rr have e: "refill_slot env cfg index ?st = r" by simp
        from rf [unfolded e] s2 st d(2) sz show ?thesis
          by (cases r) (auto simp: failed_well_def kept_def on_file_def split: prod.splits)
      qed
    qed
  qed
qed

lemma kept_simps [simp]:
  "kept obj cfg f0 dest n (st\<lparr>ds_polls := k\<rparr>) = kept obj cfg f0 dest n st"
  "kept obj cfg f0 dest n (st\<lparr>ds_cursor := c\<rparr>) = kept obj cfg f0 dest n st"
  "kept obj cfg f0 dest n (after_round b st) = kept obj cfg f0 dest n st"
  by (simp_all add: kept_def on_file_def chunks_inv_def busy_def after_round_def)

lemma failed_well_polls: "kept obj cfg f0 dest n st \<Longrightarrow> status \<noteq> KARU_OK \<Longrightarrow> failed_well f0 dest n ((status, m), st\<lparr>ds_polls := k\<rparr>)"
  by (simp add: failed_well_def kept_def on_file_def)

lemma poll_round_kept:
  assumes "kept obj cfg f0 dest n st" "ds_slots st \<noteq> []" "dl_chunk_size cfg \<noteq> 0" "honest_polls obj env"
    "poll_round env cfg dest steps waited completed st = Some r"
  shows "case r of Inl x \<Rightarrow> failed_well f0 dest n x
    | Inr (b, st') \<Rightarrow> kept obj cfg f0 dest n st' \<and> length (ds_slots st') = length (ds_slots st)"
  using assms(1,2,5)
proof (induction steps arbitrary: waited completed st)
  case Nil
  then show ?case by auto
next
  case (Cons step steps)
  let ?i = "(ds_cursor st + step) mod length (ds_slots st)"
  let ?sl = "ds_slots st ! ?i" and ?st1 = "st\<lparr>ds_polls := Suc (ds_polls st)\<rparr>"
  let ?p = "de_next env (ds_polls st) ?i (sl_part ?sl) (if waited then 0 else 10)"
  have i: "?i < length (ds_slots st)" using Cons.prems(2) by simp
  show ?case
  proof (cases "sl_batch ?sl")
    case False
    with Cons show ?thesis by (simp add: Let_def)
  next
    case batch: True
    show ?thesis
    proof (cases "pl_status ?p = KARU_OK")
      case bad: False
      show ?thesis
      proof (cases "pl_status ?p = KARU_TIMEOUT")
        case True
        with Cons.prems(3) batch have "poll_round env cfg dest steps True completed ?st1 = Some r" by (simp add: Let_def)
        from Cons.IH [OF _ _ this] Cons.prems(1,2) show ?thesis by (cases r) auto
      next
        case False
        with Cons.prems(3) batch bad have "r = Inl ((pl_status ?p, []), ?st1)" by (auto simp: Let_def)
        with failed_well_polls [OF Cons.prems(1) bad] show ?thesis by simp
      qed
    next
      case ok: True
      then have e: "poll_round env cfg dest (step # steps) waited completed st =
          (case complete_slot env cfg dest ?i ?p ?st1 of None \<Rightarrow> None | Some (Inl x) \<Rightarrow> Some (Inl x)
           | Some (Inr st2) \<Rightarrow> poll_round env cfg dest steps True True (st2\<lparr>ds_cursor := (?i + 1) mod length (ds_slots st)\<rparr>))"
        using batch by (simp add: Let_def)
      obtain c where c: "complete_slot env cfg dest ?i ?p ?st1 = Some c" using Cons.prems(3) e by (cases "complete_slot env cfg dest ?i ?p ?st1") auto
      have k1: "kept obj cfg f0 dest n ?st1" "?i < length (ds_slots ?st1)" "sl_batch (ds_slots ?st1 ! ?i)" using Cons.prems(1) i batch by simp_all
      have "case c of Inl x \<Rightarrow> failed_well f0 dest n x | Inr st' \<Rightarrow> kept obj cfg f0 dest n st' \<and> length (ds_slots st') = length (ds_slots ?st1)"
        by (rule complete_slot_kept [OF k1 assms(3,4) _ ok c]) simp
      then show ?thesis
      proof (cases c)
        case (Inl x)
        with c e Cons.prems(3) \<open>case c of Inl x \<Rightarrow> _ x | Inr st' \<Rightarrow> _ st'\<close> show ?thesis by auto
      next
        case (Inr st2)
        let ?st3 = "st2\<lparr>ds_cursor := (?i + 1) mod length (ds_slots st)\<rparr>"
        have k: "kept obj cfg f0 dest n ?st3" "length (ds_slots ?st3) = length (ds_slots st)" "ds_slots ?st3 \<noteq> []"
          using Inr \<open>case c of Inl x \<Rightarrow> _ x | Inr st' \<Rightarrow> _ st'\<close> Cons.prems(2) by auto
        have "poll_round env cfg dest steps True True ?st3 = Some r" using c e Cons.prems(3) Inr by simp
        from Cons.IH [OF k(1,3) this] k(2) show ?thesis by (cases r) auto
      qed
    qed
  qed
qed

lemma wait_loop_kept:
  assumes "wait_loop env cfg dest st = Some r" "kept obj cfg f0 dest n st" "dl_chunk_size cfg \<noteq> 0" "honest_polls obj env"
  shows "case r of Inl x \<Rightarrow> failed_well f0 dest n x | Inr st' \<Rightarrow> kept obj cfg f0 dest n st' \<and> ds_active st' = 0"
proof -
  let ?P = "\<lambda>env cfg dest st r. kept obj cfg f0 dest n st \<longrightarrow> dl_chunk_size cfg \<noteq> 0 \<longrightarrow> honest_polls obj env \<longrightarrow>
    (case r of Inl x \<Rightarrow> failed_well f0 dest n x | Inr st' \<Rightarrow> kept obj cfg f0 dest n st' \<and> ds_active st' = 0)"
  have "?P env cfg dest st r"
  proof (rule wait_loop.raw_induct [of ?P, OF _ assms(1)], intro impI, goal_cases)
    case (1 wl env cfg dest st r)
    show ?case
    proof (cases "ds_active st = 0")
      case True
      with 1 show ?thesis by auto
    next
      case False
      then have ne: "ds_slots st \<noteq> []" using 1(3) by (auto simp: kept_def chunks_inv_def Let_def busy_def)
      obtain q where q: "poll_round env cfg dest [0..<length (ds_slots st)] False False st = Some q"
        using 1(2) False by (auto split: option.splits)
      note pr = poll_round_kept [OF 1(3) ne 1(4,5) q]
      show ?thesis
      proof (cases q)
        case (Inl x)
        with q 1(2) False pr show ?thesis by auto
      next
        case (Inr b)
        with q 1(2) False have "wl env cfg dest (after_round (fst b) (snd b)) = Some r" by simp
        from 1(1) [OF this] pr Inr 1(4,5) show ?thesis by (cases b) simp
      qed
    qed
  qed
  with assms show ?thesis by blast
qed

section \<open>From the first bytes to the published file\<close>

definition fresh_slot :: "download_settings \<Rightarrow> download_summary \<Rightarrow> nat \<Rightarrow> slot" where
  "fresh_slot cfg s j = \<lparr>sl_part = chunk_part cfg s (of_nat j), sl_batch = True\<rparr>"

lemma submit_first_cases:
  assumes "submit_first env cfg k st = r" "unat (ds_next_chunk st) + k < 2 ^ 64"
  shows "case r of
      Inl x \<Rightarrow> fst (fst x) \<noteq> KARU_OK \<and> ds_out (snd x) = ds_out st \<and> ds_fs (snd x) = ds_fs st
    | Inr st' \<Rightarrow> \<exists>c. unat c = unat (ds_next_chunk st) + k \<and> st' = st\<lparr>ds_next_chunk := c,
        ds_slots := ds_slots st @ map (fresh_slot cfg (ds_summary st)) [unat (ds_next_chunk st)..<unat (ds_next_chunk st) + k]\<rparr>"
  using assms
proof (induction k arbitrary: st)
  case 0
  then show ?case by (auto intro!: exI [of _ "ds_next_chunk st"])
next
  case (Suc k)
  obtain status sl where sl: "submit_chunk env cfg (ds_summary st) (ds_next_chunk st) = (status, sl)" by fastforce
  let ?st = "st\<lparr>ds_next_chunk := ds_next_chunk st + 1, ds_slots := ds_slots st @ [sl]\<rparr>"
  have u: "unat (ds_next_chunk st + 1) = unat (ds_next_chunk st) + 1" using Suc.prems(2) by (subst unat_u64_add) auto
  show ?case
  proof (cases "status = KARU_OK")
    case False
    with Suc.prems(1) sl show ?thesis by auto
  next
    case True
    then have f: "sl = fresh_slot cfg (ds_summary st) (unat (ds_next_chunk st))"
      using submit_chunk_cases [OF sl] by (simp add: fresh_slot_def)
    have "submit_first env cfg k ?st = r" using Suc.prems(1) sl True by simp
    from Suc.IH [OF this] Suc.prems(2) u f show ?thesis
      by (cases r) (auto simp: upt_conv_Cons simp del: upt_Suc)
  qed
qed

text \<open>After the probe has been written.\<close>

definition probed :: "(nat \<Rightarrow> byte) \<Rightarrow> download_settings \<Rightarrow> nat \<Rightarrow> download_state \<Rightarrow> bool" where
  "probed obj cfg n st \<longleftrightarrow> ds_slots st = [] \<and> ds_next_chunk st = 0 \<and>
     (\<forall>x < unat (probe_length cfg (ds_summary st)). fs_data (ds_fs st) n ! x = obj x)"

lemma start_chunks_kept:
  assumes "on_file f0 dest n st" "probed obj cfg n st" "dl_parallelism cfg \<noteq> 0" "start_chunks env cfg st = r"
  shows "case r of Inl x \<Rightarrow> failed_well f0 dest n x | Inr st' \<Rightarrow> kept obj cfg f0 dest n st'"
proof -
  let ?s = "ds_summary st"
  let ?k = "slot_count cfg ?s"
  have k: "?k = min (unat (dl_parallelism cfg)) (unat (chunks cfg ?s))" by (simp add: slot_count_def unat_min_u64)
  have k64: "?k < 2 ^ 64" using k unat_u64_less [of "chunks cfg ?s"] by linarith
  have p: "0 < unat (dl_parallelism cfg)" using assms(3) by (simp add: unat_gt_0)
  have z: "ds_slots st = []" "unat (ds_next_chunk st) = 0" using assms(2) by (simp_all add: probed_def)
  obtain q where q: "submit_first env cfg ?k st = q" by blast
  note sf = submit_first_cases [OF q, unfolded z]
  show ?thesis
  proof (cases q)
    case (Inl x)
    with assms(1,4) q sf k64 show ?thesis by (auto simp: start_chunks_def failed_well_def on_file_def)
  next
    case (Inr st')
    then obtain c where c: "unat c = ?k" "st' = st\<lparr>ds_next_chunk := c, ds_slots := map (fresh_slot cfg ?s) [0..<?k]\<rparr>"
      using sf k64 by auto
    let ?st = "st'\<lparr>ds_active := length (ds_slots st')\<rparr>"
    have b: "busy ?st = map (fresh_slot cfg ?s) [0..<?k]" using c(2) by (simp add: busy_def fresh_slot_def filter_id_conv)
    have part: "sl_part (fresh_slot cfg ?s (unat j)) = chunk_part cfg ?s j" for j by (simp add: fresh_slot_def)
    have "\<exists>sl \<in> set (busy ?st). sl_part sl = chunk_part cfg ?s j" if "unat j < ?k" for j
      using that b part by (intro bexI [of _ "fresh_slot cfg ?s (unat j)"]) auto
    moreover have "\<exists>j. unat j < ?k \<and> sl_part sl = chunk_part cfg ?s j" if m: "sl \<in> set (busy ?st)" for sl
    proof -
      obtain j where j: "j < ?k" "sl = fresh_slot cfg ?s j" using m b by auto
      then have "unat (of_nat j :: u64) = j" using k64 by (intro unat_of_nat_u64) simp
      with j show ?thesis by (intro exI [of _ "of_nat j"]) (simp add: fresh_slot_def)
    qed
    ultimately have "chunks_inv obj cfg n ?st"
      using assms(2) c b k p unfolding chunks_inv_def Let_def by (auto simp: probed_def)
    with assms(1,4) q Inr c(2) show ?thesis by (auto simp: start_chunks_def kept_def on_file_def)
  qed
qed

text \<open>The first read reports a failure or shows the beginning of the object.\<close>

definition honest_probe :: "(nat \<Rightarrow> byte) \<Rightarrow> download_env \<Rightarrow> bool" where
  "honest_probe obj env \<longleftrightarrow> (\<forall>cap. case de_probe env cap of
      (Inl x, _) \<Rightarrow> fst x \<noteq> KARU_OK
    | (Inr (sz, etag), stats, d) \<Rightarrow> min cap (unat sz) \<le> length d \<and> slice_at obj 0 (take (min cap (unat sz)) d))"

lemma write_probe_cases:
  assumes "on_file f0 dest n st" "ds_slots st = []" "ds_next_chunk st = 0"
    "unat (probe_length cfg (ds_summary st)) \<le> length d" "slice_at obj 0 (take (unat (probe_length cfg (ds_summary st))) d)"
    "write_probe env cfg dest d st = Some r"
  shows "case r of Inl x \<Rightarrow> failed_well f0 dest n x
    | Inr st' \<Rightarrow> on_file f0 dest n st' \<and> probed obj cfg n st' \<and> sm_size (ds_summary st') = sm_size (ds_summary st)"
proof -
  let ?n = "probe_length cfg (ds_summary st)"
  have st: "staged f0 dest n (ds_out st) (ds_fs st)" "of_fd (ds_out st) = Some n"
    "length (fs_data (ds_fs st) n) = unat (sm_size (ds_summary st))" "length (fs_data (ds_fs st) n) \<le> SSIZE_MAX"
    using assms(1) by (auto simp: on_file_def)
  show ?thesis
  proof (cases "?n = 0")
    case True
    with assms show ?thesis by (auto simp: write_probe_def probed_def)
  next
    case False
    have b: "unat (0 :: u64) + length (take (unat ?n) d) \<le> length (fs_data (ds_fs st) n)"
      using st(3) by (simp add: probe_length_def unat_min_u64)
    obtain e f where w: "write_at (oe_pwrite (de_output env) 0) (take (unat ?n) d) 0 (ds_out st) (ds_fs st) = Some (e, f)"
      using assms(6) False by (auto simp: write_probe_def Let_def split: option.splits)
    note wc = write_at_cases [OF w st(1,2) b st(4)]
    show ?thesis
    proof (cases e)
      case (Some x)
      with assms(6) False w wc(1) show ?thesis by (auto simp: write_probe_def Let_def failed_well_def output_error_def)
    next
      case None
      let ?s = "(ds_summary st)\<lparr>sm_downloaded := ?n\<rparr>"
      have "probe_length cfg ?s = ?n" using chunk_cong [of ?s "ds_summary st"] by simp
      moreover have "fs_data f n ! x = obj x" if "x < unat ?n" for x
        using that wc(3) [OF None] b st(3) assms(4,5) by (auto simp: nth_patch slice_at_def)
      ultimately show ?thesis
        using assms(2,3,6) False w None wc(1,2) st
        by (auto simp: write_probe_def Let_def failed_well_def cancelled_error_def on_file_def probed_def split: if_splits)
    qed
  qed
qed

lemma download_body_cases:
  assumes "download_body env cfg dest out f = Some r" "staged f0 dest n out f" "of_fd out = Some n"
    and "dl_chunk_size cfg \<noteq> 0" "dl_parallelism cfg \<noteq> 0" "honest_probe obj env" "honest_polls obj env"
  shows "case r of Inl x \<Rightarrow> failed_well f0 dest n x | Inr st \<Rightarrow> kept obj cfg f0 dest n st \<and> ds_active st = 0"
proof -
  obtain a stats d where pr: "de_probe env (unat (probe_capacity cfg)) = (a, stats, d)" using prod_cases3 by blast
  show ?thesis
  proof (cases a)
    case (Inl x)
    have "fst x \<noteq> KARU_OK" using assms(6) pr Inl unfolding honest_probe_def by (metis (mono_tags, lifting) case_prod_conv old.sum.simps(5))
    with assms(1,2) pr Inl show ?thesis by (auto simp: download_body_def failed_well_def start_state_def)
  next
    case (Inr b)
    obtain sz etag where b: "b = (sz, etag)" by fastforce
    let ?s = "add_probe_stats stats (no_summary\<lparr>sm_size := sz, sm_etag := etag\<rparr>)"
    have sz: "sm_size ?s = sz" by (simp add: add_probe_stats_def)
    have pl: "unat (probe_length cfg ?s) = min (unat (probe_capacity cfg)) (unat sz)" by (simp add: probe_length_def sz unat_min_u64)
    have d: "unat (probe_length cfg ?s) \<le> length d" "slice_at obj 0 (take (unat (probe_length cfg ?s)) d)"
      using assms(6) pr Inr b unfolding honest_probe_def pl
      by (metis (mono_tags, lifting) case_prod_conv old.sum.simps(6))+
    obtain e f1 where rs: "resize (de_output env) sz out f = (e, f1)" by fastforce
    note rc = resize_cases [OF rs assms(2,3)]
    show ?thesis
    proof (cases e)
      case (Some x)
      with assms(1) pr Inr b rs rc show ?thesis
        by (auto simp: download_body_def Let_def failed_well_def start_state_def output_error_def)
    next
      case None
      let ?st = "(start_state out f)\<lparr>ds_summary := ?s, ds_fs := f1\<rparr>"
      have o: "on_file f0 dest n ?st" using rc None assms(3) sz by (simp add: on_file_def start_state_def)
      obtain w where w: "write_probe env cfg dest d ?st = Some w"
        using assms(1) pr Inr b rs None by (auto simp: download_body_def Let_def split: option.splits)
      have wp: "case w of Inl x \<Rightarrow> failed_well f0 dest n x
          | Inr st' \<Rightarrow> on_file f0 dest n st' \<and> probed obj cfg n st' \<and> sm_size (ds_summary st') = sm_size (ds_summary ?st)"
        by (rule write_probe_cases [OF o _ _ _ _ w]) (use d in \<open>simp_all add: start_state_def\<close>)
      show ?thesis
      proof (cases w)
        case (Inl x)
        with assms(1) pr Inr b rs None w wp show ?thesis by (auto simp: download_body_def Let_def)
      next
        case w2: (Inr st1)
        obtain q where q: "start_chunks env cfg st1 = q" by blast
        have sc: "case q of Inl x \<Rightarrow> failed_well f0 dest n x | Inr st' \<Rightarrow> kept obj cfg f0 dest n st'"
          using wp w2 by (intro start_chunks_kept [OF _ _ assms(5) q]) auto
        show ?thesis
        proof (cases q)
          case (Inl x)
          with assms(1) pr Inr b rs None w w2 q sc show ?thesis by (auto simp: download_body_def Let_def)
        next
          case q2: (Inr st2)
          then have "wait_loop env cfg dest st2 = Some r"
            using assms(1) pr Inr b rs None w w2 q by (simp add: download_body_def Let_def)
          from wait_loop_kept [OF this _ assms(4,7)] sc q2 show ?thesis by simp
        qed
      qed
    qed
  qed
qed

lemma download_outcome:
  assumes "download env cfg dest f0 = Some ((status, message), s, f)" "fs_ok f0"
    and "dl_chunk_size cfg \<noteq> 0" "dl_parallelism cfg \<noteq> 0" "honest_probe obj env" "honest_polls obj env"
    and "oe_unlink (de_output env)" "oe_remove (de_output env)"
  shows "if status = KARU_OK
    then content f = (content f0)(dest \<mapsto> map obj [0..<unat (sm_size s)]) \<and>
      (\<not> dl_overwrite cfg \<and> oe_status_again (de_output env) = None \<longrightarrow> content f0 dest = None)
    else content f = content f0"
proof -
  let ?o = "de_output env"
  obtain e out f1 where cn: "create_near ?o dest (dl_overwrite cfg) no_output f0 = (e, out, f1)" using prod_cases3 by blast
  note cc = create_near_cases [OF cn assms(2)]
  have undone: "status \<noteq> KARU_OK \<and> content f = content f0"
    if "failed_well f0 dest n x" "(fst x, destroy_output ?o (ds_out (snd x)) (ds_fs (snd x))) = ((status, message), f)" for n x
    using that destroy_staged [of f0 dest n "ds_out (snd x)" "ds_fs (snd x)" ?o] assms(8) by (auto simp: failed_well_def)
  show ?thesis
  proof (cases e)
    case (Some x)
    with assms(1) cn cc show ?thesis
      by (auto simp: download_def create_error_def output_error_def destroy_output_def split: if_splits)
  next
    case None
    let ?n = "fs_next f0"
    have st: "staged f0 dest ?n out f1" "of_fd out = Some ?n" using cc None by auto
    obtain r where r: "download_body env cfg dest out f1 = Some r" using assms(1) cn None by (auto simp: download_def split: option.splits)
    note bc = download_body_cases [OF r st assms(3-6)]
    show ?thesis
    proof (cases r)
      case (Inl x)
      then have eq: "(fst x, destroy_output ?o (ds_out (snd x)) (ds_fs (snd x))) = ((status, message), f)"
        using assms(1) cn None r by (cases x) (auto simp: download_def)
      have "failed_well f0 dest ?n x" using bc Inl by simp
      from undone [OF this eq] show ?thesis by simp
    next
      case (Inr st2)
      have k: "on_file f0 dest ?n st2" "chunks_inv obj cfg ?n st2" "ds_active st2 = 0" using bc Inr by (auto simp: kept_def)
      have d: "fs_data (ds_fs st2) ?n = map obj [0..<unat (sm_size (ds_summary st2))]" by (rule chunks_inv_done [OF k(2,1,3) assms(3)])
      have s2: "staged f0 dest ?n (ds_out st2) (ds_fs st2)" using k(1) by (simp add: on_file_def)
      obtain pe out' f' where pb: "publish ?o (dl_overwrite cfg) (ds_out st2) (ds_fs st2) = (pe, out', f')" using prod_cases3 by blast
      note pc = publish_cases [OF pb s2]
      show ?thesis
      proof (cases pe)
        case (Some x)
        then have "status \<noteq> KARU_OK" "f = destroy_output ?o out' f'" "staged f0 dest ?n out' f'"
          using assms(1) cn None r Inr pb pc by (auto simp: download_def output_error_def)
        with destroy_staged assms(8) show ?thesis by simp
      next
        case ok: None
        then have res: "status = KARU_OK" "s = ds_summary st2" "f = f'"
          using assms(1) cn None r Inr pb pc by (auto simp: download_def destroy_output_def)
        have t: "fs_names f0 (of_temporary (ds_out st2)) = None" "of_temporary (ds_out st2) \<noteq> dest" using s2 by (auto simp: staged_def)
        have "content f' p = ((content f0)(dest \<mapsto> map obj [0..<unat (sm_size s)])) p" for p
          using pc ok d res(2) assms(7) t by (cases "p = dest"; cases "p = of_temporary (ds_out st2)") (auto simp: content_def)
        then have "content f' = (content f0)(dest \<mapsto> map obj [0..<unat (sm_size s)])" by blast
        with res pc ok show ?thesis by (auto simp: content_def)
      qed
    qed
  qed
qed

section \<open>Completion\<close>

text \<open>
  Everything works: submissions, counters and writes succeed, nobody cancels, every poll either times out or
  gives the whole part, and the batch of a part is done after some poll.
\<close>

definition answering :: "download_settings \<Rightarrow> download_env \<Rightarrow> bool" where
  "answering cfg env \<longleftrightarrow> (\<forall>part e. de_submit env part e = KARU_OK) \<and> (\<forall>k. fst (de_stats env k) = KARU_OK) \<and>
     (\<forall>k s. \<not> wants_stop cfg k s) \<and> (\<forall>w j. \<exists>c > 0. oe_pwrite (de_output env) w j = Inr c) \<and>
     (\<forall>k i part t. let p = de_next env k i part t; d = pl_done p in pl_status p = KARU_TIMEOUT \<or>
        pl_status p = KARU_OK \<and> dn_status d = KARU_OK \<and> dn_tag d = i \<and> dn_got d = dp_length part) \<and>
     (\<forall>i part. \<exists>m. \<forall>k \<ge> m. \<forall>t. pl_status (de_next env k i part t) = KARU_OK)"

definition left :: "download_settings \<Rightarrow> download_state \<Rightarrow> nat" where
  "left cfg st = unat (chunks cfg (ds_summary st)) - unat (ds_next_chunk st) + ds_active st"

text \<open>From poll \<open>m\<close> on, no batch of a slot keeps the caller waiting.\<close>

definition ready_from :: "download_env \<Rightarrow> download_settings \<Rightarrow> u64 \<Rightarrow> nat \<Rightarrow> nat \<Rightarrow> bool" where
  "ready_from env cfg sz n m \<longleftrightarrow> (\<forall>i < n. \<forall>c s k t. sm_size s = sz \<and> m \<le> k \<longrightarrow>
     pl_status (de_next env k i (chunk_part cfg s c) t) = KARU_OK)"

lemma ready_from_exists:
  assumes "answering cfg env"
  shows "\<exists>m. ready_from env cfg sz n m"
proof -
  let ?s = "no_summary\<lparr>sm_size := sz\<rparr>"
  have cp: "chunk_part cfg s c = chunk_part cfg ?s c" if "sm_size s = sz" for s c using chunk_cong [of s ?s] that by simp
  obtain g where g: "\<And>i part k t. g i part \<le> k \<Longrightarrow> pl_status (de_next env k i part t) = KARU_OK"
    using assms unfolding answering_def by metis
  let ?A = "(\<lambda>(i, c). g i (chunk_part cfg ?s c)) ` ({..<n} \<times> UNIV)"
  have fin: "finite ?A" by simp
  have "pl_status (de_next env k i (chunk_part cfg s c) t) = KARU_OK" if "i < n" "sm_size s = sz" "Max (insert 0 ?A) \<le> k" for i c s k t
  proof -
    have "g i (chunk_part cfg ?s c) \<in> ?A" using that(1) by force
    then have "g i (chunk_part cfg ?s c) \<le> k" using that(3) fin by (meson Max_ge finite_insert insertI2 le_trans)
    then show ?thesis using g cp [OF that(2)] by metis
  qed
  then show ?thesis unfolding ready_from_def by blast
qed

lemma complete_slot_size:
  assumes "complete_slot env cfg dest index p st = Some (Inr st')"
  shows "sm_size (ds_summary st') = sm_size (ds_summary st)"
  using assms
  by (auto simp: complete_slot_def refill_slot_def add_batch_stats_def Let_def split: if_splits option.splits prod.splits)

lemma refill_slot_left:
  assumes "answering cfg env" "index < length (ds_slots st)" "0 < ds_active st"
  shows "\<exists>st'. refill_slot env cfg index st = Inr st' \<and> left cfg st' < left cfg st \<and> ds_polls st' = ds_polls st"
proof (cases "ds_next_chunk st < chunks cfg (ds_summary st)")
  case False
  with assms(3) show ?thesis by (simp add: refill_slot_def left_def)
next
  case True
  have "fst (submit_chunk env cfg (ds_summary st) (ds_next_chunk st)) = KARU_OK"
    using assms(1) by (simp add: answering_def submit_chunk_def Let_def)
  then obtain sl where sl: "submit_chunk env cfg (ds_summary st) (ds_next_chunk st) = (KARU_OK, sl)" by (metis prod.collapse)
  from next_chunk_unat [OF True] True show ?thesis
    by (simp add: refill_slot_def sl left_def u64_less_iff)
qed

lemma complete_slot_left:
  assumes "answering cfg env" "kept obj cfg f0 dest n st" "index < length (ds_slots st)" "sl_batch (ds_slots st ! index)"
    and "dl_chunk_size cfg \<noteq> 0" "p = de_next env j index (sl_part (ds_slots st ! index)) t" "pl_status p = KARU_OK"
  shows "\<exists>st'. complete_slot env cfg dest index p st = Some (Inr st') \<and> left cfg st' < left cfg st \<and> ds_polls st' = ds_polls st"
proof -
  let ?part = "sl_part (ds_slots st ! index)" and ?bs = "take (unat (dp_length (sl_part (ds_slots st ! index)))) (pl_data p)"
  have mem: "ds_slots st ! index \<in> set (busy st)" using assms(3,4) by (simp add: busy_def)
  have d: "dn_status (pl_done p) = KARU_OK" "dn_tag (pl_done p) = index" "dn_got (pl_done p) = dp_length ?part"
    using assms(1,6,7) unfolding answering_def Let_def by (metis karu_status.distinct(3))+
  have "unat (dp_offset ?part) + length ?bs \<le> length (fs_data (ds_fs st) n)" using busy_chunk [OF assms(2) mem assms(5)] by simp
  moreover have "of_fd (ds_out st) = Some n" "length (fs_data (ds_fs st) n) \<le> SSIZE_MAX" using assms(2) by (auto simp: kept_def on_file_def)
  moreover have "\<exists>c > 0. oe_pwrite (de_output env) (ds_writes st) i = Inr c" for i using assms(1) by (simp add: answering_def)
  ultimately obtain f where w: "write_at (oe_pwrite (de_output env) (ds_writes st)) ?bs (dp_offset ?part) (ds_out st) (ds_fs st) = Some (None, f)"
    using write_at_total by metis
  obtain ctr where c: "de_stats env (ds_polls st) = (KARU_OK, ctr)" using assms(1) by (metis answering_def prod.collapse)
  have ns: "\<not> wants_stop cfg k s" for k s using assms(1) by (simp add: answering_def)
  let ?s = "add_batch_stats ctr ((ds_summary st)\<lparr>sm_downloaded := add_saturated (sm_downloaded (ds_summary st)) (dn_got (pl_done p))\<rparr>)"
  let ?st = "st\<lparr>ds_fs := f, ds_writes := Suc (ds_writes st), ds_summary := ?s\<rparr>"
  have l: "left cfg ?st = left cfg st" using chunk_cong [of ?s "ds_summary st"] by (simp add: left_def add_batch_stats_def)
  have "0 < ds_active ?st" using assms(2) mem by (auto simp: kept_def chunks_inv_def Let_def)
  then obtain st' where "refill_slot env cfg index ?st = Inr st'" "left cfg st' < left cfg ?st" "ds_polls st' = ds_polls ?st"
    using refill_slot_left [OF assms(1), of index ?st] assms(3) by auto
  with d w c ns l show ?thesis by (simp add: complete_slot_def Let_def)
qed

text \<open>A step of a round that finds a busy slot.\<close>

definition hits :: "nat list \<Rightarrow> download_state \<Rightarrow> bool" where
  "hits steps st \<longleftrightarrow> (\<exists>step \<in> set steps. sl_batch (ds_slots st ! ((ds_cursor st + step) mod length (ds_slots st))))"

definition work :: "download_settings \<Rightarrow> nat \<Rightarrow> download_state \<Rightarrow> nat" where
  "work cfg m st = left cfg st + (m - ds_polls st)"

lemma hits_all:
  assumes "0 < length (busy st)"
  shows "hits [0..<length (ds_slots st)] st"
proof -
  let ?n = "length (ds_slots st)"
  obtain j where j: "j < ?n" "sl_batch (ds_slots st ! j)" using assms unfolding busy_def by (metis filter_False in_set_conv_nth length_greater_0_conv)
  let ?step = "(j + (?n - ds_cursor st mod ?n)) mod ?n"
  have n: "0 < ?n" using j(1) by linarith
  then have lt: "ds_cursor st mod ?n < ?n" by (rule mod_less_divisor)
  have "(ds_cursor st + ?step) mod ?n = (ds_cursor st mod ?n + (j + (?n - ds_cursor st mod ?n))) mod ?n"
    by (simp add: mod_add_left_eq mod_add_right_eq)
  also have "\<dots> = (j + ?n) mod ?n" using lt by simp
  also have "\<dots> = j" using j(1) by simp
  finally show ?thesis unfolding hits_def using j n by (intro bexI [of _ ?step]) auto
qed

lemma poll_round_works:
  assumes a: "answering cfg env" "dl_chunk_size cfg \<noteq> 0" "honest_polls obj env"
    and "kept obj cfg f0 dest n st" "ds_slots st \<noteq> []" "ready_from env cfg (sm_size (ds_summary st)) (length (ds_slots st)) m"
  shows "\<exists>b st'. poll_round env cfg dest steps waited completed st = Some (Inr (b, st')) \<and> kept obj cfg f0 dest n st' \<and>
    length (ds_slots st') = length (ds_slots st) \<and> sm_size (ds_summary st') = sm_size (ds_summary st) \<and>
    work cfg m st' \<le> work cfg m st \<and> (hits steps st \<longrightarrow> work cfg m st' < work cfg m st)"
  using assms(4-6)
proof (induction steps arbitrary: waited completed st)
  case Nil
  then show ?case by (auto simp: hits_def)
next
  case (Cons step steps)
  let ?i = "(ds_cursor st + step) mod length (ds_slots st)"
  let ?sl = "ds_slots st ! ?i" and ?st1 = "st\<lparr>ds_polls := Suc (ds_polls st)\<rparr>"
  let ?p = "de_next env (ds_polls st) ?i (sl_part ?sl) (if waited then 0 else 10)"
  have i: "?i < length (ds_slots st)" using Cons.prems(2) by simp
  show ?case
  proof (cases "sl_batch ?sl")
    case False
    then have "hits (step # steps) st = hits steps st" by (auto simp: hits_def)
    with False Cons show ?thesis by (simp add: Let_def)
  next
    case batch: True
    show ?thesis
    proof (cases "pl_status ?p = KARU_OK")
      case False
      then have to: "pl_status ?p = KARU_TIMEOUT" using a(1) unfolding answering_def Let_def by metis
      have "ds_polls st < m"
      proof (rule ccontr)
        assume "\<not> ds_polls st < m"
        moreover have "?sl \<in> set (busy st)" using batch i by (simp add: busy_def)
        then obtain k where "sl_part ?sl = chunk_part cfg (ds_summary st) k"
          using Cons.prems(1) unfolding kept_def chunks_inv_def Let_def by blast
        ultimately have "pl_status ?p = KARU_OK" using Cons.prems(3) i unfolding ready_from_def by (metis not_less)
        with False show False by simp
      qed
      then have lt: "work cfg m ?st1 < work cfg m st" by (simp add: work_def left_def)
      obtain b st' where "poll_round env cfg dest steps True completed ?st1 = Some (Inr (b, st'))" "kept obj cfg f0 dest n st'"
        "length (ds_slots st') = length (ds_slots ?st1)" "sm_size (ds_summary st') = sm_size (ds_summary ?st1)" "work cfg m st' \<le> work cfg m ?st1"
        using Cons.IH [of ?st1 True completed] Cons.prems by auto
      with to batch lt show ?thesis by (simp add: Let_def)
    next
      case ok: True
      have k1: "kept obj cfg f0 dest n ?st1" "?i < length (ds_slots ?st1)" "sl_batch (ds_slots ?st1 ! ?i)" using Cons.prems(1) i batch by simp_all
      have p1: "?p = de_next env (ds_polls st) ?i (sl_part (ds_slots ?st1 ! ?i)) (if waited then 0 else 10)" by simp
      obtain st2 where c: "complete_slot env cfg dest ?i ?p ?st1 = Some (Inr st2)" "left cfg st2 < left cfg ?st1" "ds_polls st2 = Suc (ds_polls st)"
        using complete_slot_left [OF a(1) k1 a(2) p1 ok] by auto
      have k2: "kept obj cfg f0 dest n st2" "length (ds_slots st2) = length (ds_slots st)"
        using complete_slot_kept [OF k1 a(2,3) p1 ok c(1)] by auto
      have z: "sm_size (ds_summary st2) = sm_size (ds_summary st)"
        using k2(1) k1(1) complete_slot_size [OF c(1)] by simp
      let ?st3 = "st2\<lparr>ds_cursor := (?i + 1) mod length (ds_slots st)\<rparr>"
      have lt: "work cfg m ?st3 < work cfg m st" using c(2,3) by (simp add: work_def left_def)
      have k3: "kept obj cfg f0 dest n ?st3" "ds_slots ?st3 \<noteq> []" "ready_from env cfg (sm_size (ds_summary ?st3)) (length (ds_slots ?st3)) m"
        using k2 Cons.prems(2,3) z by auto
      obtain b st' where "poll_round env cfg dest steps True True ?st3 = Some (Inr (b, st'))" "kept obj cfg f0 dest n st'"
        "length (ds_slots st') = length (ds_slots ?st3)" "sm_size (ds_summary st') = sm_size (ds_summary ?st3)" "work cfg m st' \<le> work cfg m ?st3"
        using Cons.IH [OF k3, of True True] by auto
      with ok batch c(1) lt k2(2) z show ?thesis by (simp add: Let_def)
    qed
  qed
qed

lemma wait_loop_works:
  assumes a: "answering cfg env" "dl_chunk_size cfg \<noteq> 0" "honest_polls obj env"
    and "kept obj cfg f0 dest n st" "ready_from env cfg (sm_size (ds_summary st)) (length (ds_slots st)) m"
  shows "\<exists>st'. wait_loop env cfg dest st = Some (Inr st') \<and> sm_size (ds_summary st') = sm_size (ds_summary st)"
  using assms(4,5)
proof (induction "work cfg m st" arbitrary: st rule: less_induct)
  case less
  show ?case
  proof (cases "ds_active st = 0")
    case True
    then show ?thesis by (subst wait_loop.simps) simp
  next
    case False
    then have "0 < length (busy st)" using less.prems(1) by (simp add: kept_def chunks_inv_def Let_def)
    then have h: "hits [0..<length (ds_slots st)] st" "ds_slots st \<noteq> []" by (rule hits_all) (use \<open>0 < length (busy st)\<close> in \<open>auto simp: busy_def\<close>)
    obtain b st' where r: "poll_round env cfg dest [0..<length (ds_slots st)] False False st = Some (Inr (b, st'))" "kept obj cfg f0 dest n st'"
      "length (ds_slots st') = length (ds_slots st)" "sm_size (ds_summary st') = sm_size (ds_summary st)" "work cfg m st' < work cfg m st"
      using poll_round_works [OF a less.prems(1) h(2) less.prems(2), of "[0..<length (ds_slots st)]" False False] h(1) by blast
    let ?st = "after_round b st'"
    have st: "work cfg m ?st < work cfg m st" "length (ds_slots ?st) = length (ds_slots st)" "sm_size (ds_summary ?st) = sm_size (ds_summary st)"
      using r(3-5) by (simp_all add: after_round_def work_def left_def)
    then obtain st2 where "wait_loop env cfg dest ?st = Some (Inr st2)" "sm_size (ds_summary st2) = sm_size (ds_summary ?st)"
      using less.hyps [OF st(1)] r(2) less.prems(2) by auto
    with False r(1) st(3) show ?thesis by (subst wait_loop.simps) simp
  qed
qed

text \<open>A file system that takes the output: no call fails, some temporary name is free, and the destination may be written.\<close>

definition healthy :: "download_env \<Rightarrow> download_settings \<Rightarrow> string \<Rightarrow> fs \<Rightarrow> bool" where
  "healthy env cfg dest f0 \<longleftrightarrow>
     (let oe = de_output env
      in dest \<noteq> [] \<and> (\<forall>a. oe_open oe a = None) \<and> oe_truncate oe = None \<and> oe_close oe = None \<and> oe_link oe = None \<and>
         oe_rename oe = None \<and> oe_status oe = None \<and> oe_unlink oe \<and> oe_remove oe \<and>
         (\<exists>a \<in> set [0..<100]. fs_names f0 (temporary_name dest (oe_pid oe) (oe_counter oe + a)) = None) \<and>
         (dl_overwrite cfg \<or> fs_names f0 dest = None))"

lemma create_temporary_works:
  assumes "\<forall>a. oe_open env a = None" "\<exists>a \<in> set as. fs_names f (temporary_name (of_destination out) (oe_pid env) (oe_counter env + a)) = None"
  shows "\<exists>out' f'. create_temporary env as out f = (None, out', f')"
  using assms(2)
proof (induction as arbitrary: out)
  case (Cons a as)
  let ?t = "temporary_name (of_destination out) (oe_pid env) (oe_counter env + a)"
  show ?case
  proof (cases "fs_names f ?t")
    case None
    then show ?thesis by (simp add: assms(1) open_exclusive_def Let_def)
  next
    case (Some y)
    with Cons.prems have "\<exists>b \<in> set as. fs_names f (temporary_name (of_destination (out\<lparr>of_temporary := ?t\<rparr>)) (oe_pid env) (oe_counter env + b)) = None"
      by auto
    from Cons.IH [OF this] Some show ?thesis by (simp add: assms(1) open_exclusive_def Let_def)
  qed
qed simp

lemma publish_works:
  assumes "healthy env cfg dest f0" "staged f0 dest n out f"
  shows "\<exists>out' f'. publish (de_output env) (dl_overwrite cfg) out f = (None, out', f')"
proof -
  have c: "close_output (de_output env) out = (None, out\<lparr>of_fd := None\<rparr>)"
    using assms(1) by (cases out) (auto simp: close_output_def healthy_def Let_def)
  have "fs_names f dest = fs_names f0 dest" using assms(2) by (auto simp: staged_def)
  with c assms show ?thesis
    by (auto simp: publish_def publish_by_rename_def link_error_def healthy_def staged_def Let_def)
qed

lemma write_probe_works:
  assumes "answering cfg env" "on_file f0 dest n st"
  shows "\<exists>st'. write_probe env cfg dest d st = Some (Inr st')"
proof -
  let ?n = "probe_length cfg (ds_summary st)"
  have st: "of_fd (ds_out st) = Some n" "length (fs_data (ds_fs st) n) \<le> SSIZE_MAX"
      "unat (0 :: u64) + length (take (unat ?n) d) \<le> length (fs_data (ds_fs st) n)"
    using assms(2) by (auto simp: on_file_def probe_length_def unat_min_u64)
  have "\<exists>c > 0. oe_pwrite (de_output env) 0 i = Inr c" for i using assms(1) by (simp add: answering_def)
  then obtain f where "write_at (oe_pwrite (de_output env) 0) (take (unat ?n) d) 0 (ds_out st) (ds_fs st) = Some (None, f)"
    using write_at_total [OF st(1,3,2)] by metis
  then show ?thesis using assms(1) by (auto simp: write_probe_def Let_def answering_def)
qed

lemma submit_first_works: "answering cfg env \<Longrightarrow> \<exists>st'. submit_first env cfg k st = Inr st'"
  by (induction k arbitrary: st) (auto simp: answering_def submit_chunk_def Let_def)

lemma submit_first_summary: "submit_first env cfg k st = Inr st' \<Longrightarrow> ds_summary st' = ds_summary st"
  by (induction k arbitrary: st) (auto simp: submit_chunk_def Let_def split: if_splits)

lemma download_body_works:
  assumes "answering cfg env" "healthy env cfg dest f0" "staged f0 dest n out f" "of_fd out = Some n"
    and "dl_chunk_size cfg \<noteq> 0" "dl_parallelism cfg \<noteq> 0" "honest_probe obj env" "honest_polls obj env"
    and pr: "de_probe env (unat (probe_capacity cfg)) = (Inr (sz, etag), stats, d)" and "unat sz \<le> SSIZE_MAX"
  shows "\<exists>st. download_body env cfg dest out f = Some (Inr st) \<and> sm_size (ds_summary st) = sz"
proof -
  let ?s = "add_probe_stats stats (no_summary\<lparr>sm_size := sz, sm_etag := etag\<rparr>)"
  have sz: "sm_size ?s = sz" by (simp add: add_probe_stats_def)
  obtain f1 where rs: "resize (de_output env) sz out f = (None, f1)"
    using assms(2,4,10) by (simp add: resize_def healthy_def Let_def SSIZE_MAX_def)
  note rc = resize_cases [OF rs assms(3,4)]
  let ?st = "(start_state out f)\<lparr>ds_summary := ?s, ds_fs := f1\<rparr>"
  have o: "on_file f0 dest n ?st" using rc assms(4) sz by (simp add: on_file_def start_state_def)
  obtain st1 where w: "write_probe env cfg dest d ?st = Some (Inr st1)" using write_probe_works [OF assms(1) o] by blast
  have pl: "unat (probe_length cfg ?s) = min (unat (probe_capacity cfg)) (unat sz)" by (simp add: probe_length_def sz unat_min_u64)
  have d: "unat (probe_length cfg ?s) \<le> length d" "slice_at obj 0 (take (unat (probe_length cfg ?s)) d)"
    using assms(7) pr unfolding honest_probe_def pl by (metis (mono_tags, lifting) case_prod_conv old.sum.simps(6))+
  have wp: "on_file f0 dest n st1" "probed obj cfg n st1" "sm_size (ds_summary st1) = sz"
    using write_probe_cases [OF o _ _ _ _ w, of obj] d sz by (simp_all add: start_state_def)
  obtain st2 where q: "start_chunks env cfg st1 = Inr st2" "ds_summary st2 = ds_summary st1"
    using submit_first_works [OF assms(1), of "slot_count cfg (ds_summary st1)" st1] submit_first_summary by (fastforce simp: start_chunks_def)
  have k: "kept obj cfg f0 dest n st2" using start_chunks_kept [OF wp(1,2) assms(6) q(1)] by simp
  obtain m where "ready_from env cfg (sm_size (ds_summary st2)) (length (ds_slots st2)) m" using ready_from_exists [OF assms(1)] by blast
  from wait_loop_works [OF assms(1,5,8) k this] q w rs pr wp(3) show ?thesis
    by (auto simp: download_body_def Let_def)
qed

lemma download_works:
  assumes "answering cfg env" "healthy env cfg dest f0" "fs_ok f0" "dl_chunk_size cfg \<noteq> 0" "dl_parallelism cfg \<noteq> 0"
    and "honest_probe obj env" "honest_polls obj env"
    and "de_probe env (unat (probe_capacity cfg)) = (Inr (sz, etag), stats, d)" "unat sz \<le> SSIZE_MAX"
  shows "\<exists>s f. download env cfg dest f0 = Some ((KARU_OK, []), s, f) \<and> content f = (content f0)(dest \<mapsto> map obj [0..<unat sz])"
proof -
  let ?o = "de_output env"
  have "\<exists>out f. create_temporary ?o [0..<100] (no_output\<lparr>of_destination := dest\<rparr>) f0 = (None, out, f)"
    using assms(2) by (intro create_temporary_works) (auto simp: healthy_def Let_def)
  then obtain out f1 where cn: "create_near ?o dest (dl_overwrite cfg) no_output f0 = (None, out, f1)"
    using assms(2) by (auto simp: create_near_def no_output_def healthy_def Let_def inspect_error_def)
  then have st: "staged f0 dest (fs_next f0) out f1" "of_fd out = Some (fs_next f0)" using create_near_cases [OF cn assms(3)] by auto
  obtain st2 where b: "download_body env cfg dest out f1 = Some (Inr st2)" "sm_size (ds_summary st2) = sz"
    using download_body_works [OF assms(1,2) st assms(4-9)] by blast
  have "staged f0 dest (fs_next f0) (ds_out st2) (ds_fs st2)"
    using download_body_cases [OF b(1) st assms(4-7)] by (simp add: kept_def on_file_def)
  then obtain out' f' where "publish ?o (dl_overwrite cfg) (ds_out st2) (ds_fs st2) = (None, out', f')"
    using publish_works [OF assms(2)] by blast
  then have r: "download env cfg dest f0 = Some ((KARU_OK, []), ds_summary st2, destroy_output ?o out' f')"
    using cn b(1) by (simp add: download_def)
  with download_outcome [OF r assms(3-7)] assms(2) b(2) show ?thesis by (auto simp: healthy_def Let_def)
qed

text \<open>Five bytes in chunks of two: the first poll of all times out, and every write takes one byte.\<close>

definition sample_byte :: "nat \<Rightarrow> byte" where
  "sample_byte x = char_of (x + 65)"

definition sample_output_env :: out_env where
  "sample_output_env = \<lparr>oe_pid = 7, oe_counter = 0, oe_status = None, oe_open = (\<lambda>_. None), oe_truncate = None,
     oe_pwrite = (\<lambda>_ _. Inr 1), oe_close = None, oe_link = None, oe_unlink = True, oe_status_again = None, oe_rename = None,
     oe_remove = True\<rparr>"

definition sample_download :: download_env where
  "sample_download = \<lparr>de_output = sample_output_env, de_message = (\<lambda>_. []),
     de_probe = (\<lambda>cap. (Inr (5, []), no_stats, map sample_byte [0..<cap])), de_submit = (\<lambda>_ _. KARU_OK),
     de_next = (\<lambda>k i part t. \<lparr>pl_status = (if k = 0 then KARU_TIMEOUT else KARU_OK),
        pl_done = \<lparr>dn_tag = i, dn_status = KARU_OK, dn_got = dp_length part, dn_buffer = None\<rparr>,
        pl_data = map sample_byte [unat (dp_offset part)..<unat (dp_offset part) + unat (dp_length part)]\<rparr>),
     de_stats = (\<lambda>_. (KARU_OK, no_counters))\<rparr>"

definition sample_download_settings :: download_settings where
  "sample_download_settings = default_settings\<lparr>dl_chunk_size := 2, dl_parallelism := 2\<rparr>"

definition sample_disk :: fs where
  "sample_disk = \<lparr>fs_names = Map.empty, fs_data = (\<lambda>_. []), fs_next = 0\<rparr>"

lemma sample_download_ok:
  "answering sample_download_settings sample_download" "healthy sample_download sample_download_settings ''out'' sample_disk"
  "fs_ok sample_disk" "dl_chunk_size sample_download_settings \<noteq> 0" "dl_parallelism sample_download_settings \<noteq> 0"
  "honest_probe sample_byte sample_download" "honest_polls sample_byte sample_download"
proof -
  show "answering sample_download_settings sample_download"
    by (auto simp: answering_def sample_download_def sample_download_settings_def default_settings_def wants_stop_def
        sample_output_env_def intro!: exI [of _ 1])
  show "healthy sample_download sample_download_settings ''out'' sample_disk"
    by (simp add: healthy_def sample_download_def sample_output_env_def sample_disk_def Let_def) (rule exI [of _ 0], simp)
  show "fs_ok sample_disk" by (simp add: fs_ok_def sample_disk_def)
  show "dl_chunk_size sample_download_settings \<noteq> 0" "dl_parallelism sample_download_settings \<noteq> 0"
    by (simp_all add: sample_download_settings_def)
  show "honest_probe sample_byte sample_download" by (simp add: honest_probe_def sample_download_def slice_at_def)
  show "honest_polls sample_byte sample_download" by (simp add: honest_polls_def sample_download_def slice_at_def Let_def)
qed

lemma sample_probe:
  "de_probe sample_download (unat (probe_capacity sample_download_settings)) = (Inr (5, []), no_stats, [CHR ''A'', CHR ''B''])"
  by code_simp

text \<open>
  C13. A download is all or nothing. When the batches hand over the object's bytes, a download that returns
  \<open>KARU_OK\<close> has put exactly the object under the destination, of which it replaces an existing file only when
  told so; whatever fails, the destination included, every name of the file system has the bytes it had before.
  No temporary name is left behind.
\<close>

theorem download_all_or_nothing:
  assumes "download env cfg dest f0 = Some ((status, message), s, f)" "fs_ok f0"
    and "dl_chunk_size cfg \<noteq> 0" "dl_parallelism cfg \<noteq> 0" "honest_probe obj env" "honest_polls obj env"
    and "oe_unlink (de_output env)" "oe_remove (de_output env)"
  shows "if status = KARU_OK
    then content f = (content f0)(dest \<mapsto> map obj [0..<unat (sm_size s)]) \<and>
      (\<not> dl_overwrite cfg \<and> oe_status_again (de_output env) = None \<longrightarrow> content f0 dest = None)
    else content f = content f0"
  by (rule download_outcome [OF assms])

theorem download_all_or_nothing_witness:
  "\<exists>s f. download sample_download sample_download_settings ''out'' sample_disk = Some ((KARU_OK, []), s, f) \<and>
     (\<exists>n. content f ''out'' = Some (map sample_byte [0..<n]))"
proof -
  obtain s f where d: "download sample_download sample_download_settings ''out'' sample_disk = Some ((KARU_OK, []), s, f)"
    using download_works [OF sample_download_ok sample_probe] by (auto simp: SSIZE_MAX_def)
  have "oe_unlink (de_output sample_download)" "oe_remove (de_output sample_download)"
    by (simp_all add: sample_download_def sample_output_env_def)
  from download_all_or_nothing [OF d sample_download_ok(3-7) this] have "content f ''out'' = Some (map sample_byte [0..<unat (sm_size s)])"
    by simp
  with d show ?thesis by blast
qed

text \<open>
  C14. A download completes. When the file system takes the output, submissions succeed and every batch answers
  after finitely many polls, the wait loop ends and the download returns \<open>KARU_OK\<close> with the object published,
  whatever the size of the chunks, the width of the window and the order in which the batches answer.
\<close>

theorem download_completes:
  assumes "answering cfg env" "healthy env cfg dest f0" "fs_ok f0" "dl_chunk_size cfg \<noteq> 0" "dl_parallelism cfg \<noteq> 0"
    and "honest_probe obj env" "honest_polls obj env"
    and "de_probe env (unat (probe_capacity cfg)) = (Inr (sz, etag), stats, d)" "unat sz \<le> SSIZE_MAX"
  shows "\<exists>s f. download env cfg dest f0 = Some ((KARU_OK, []), s, f) \<and> content f = (content f0)(dest \<mapsto> map obj [0..<unat sz])"
  by (rule download_works [OF assms])

theorem download_completes_witness:
  "\<exists>s f. download sample_download sample_download_settings ''out'' sample_disk = Some ((KARU_OK, []), s, f) \<and>
     content f ''out'' = Some ''ABCDE''"
proof -
  have "map sample_byte [0..<unat (5 :: u64)] = ''ABCDE''" by code_simp
  with download_completes [OF sample_download_ok sample_probe] show ?thesis by (auto simp: SSIZE_MAX_def)
qed

end
