(* ===== verification/Karu_Facade.thy ===== *)
theory Karu_Facade
  imports Karu_Download
begin

text \<open>
  The C++ interface, \<open>src/include/karu/karu.hpp\<close>: classes over the C calls that turn a status into an
  \<open>expected\<close> with the error text of the thread. A class holds its handle, \<^const>\<open>None\<close> once it has been moved from.
  A \<open>string_view\<close> reaches the C interface as the C string of its copy. The section \<open>What the facade passes on\<close> relates
  the reads and options of a caller to the requests and settings of the C interface.
\<close>

section \<open>Errors\<close>

record facade_error =
  fe_status :: karu_status
  fe_message :: string

type_synonym 'a facade_result = "facade_error + 'a"

definition current_error :: "karu_status \<Rightarrow> byte list \<Rightarrow> facade_error" where
  "current_error status err = \<lparr>fe_status = status, fe_message = last_error err\<rparr>"

text \<open>What every call does with the status it gets: the value, or the current error.\<close>

definition checked :: "karu_status \<Rightarrow> byte list \<Rightarrow> 'a \<Rightarrow> 'a facade_result" where
  "checked status err v = (if status \<noteq> KARU_OK then Inl (current_error status err) else Inr v)"

section \<open>Configurations and objects\<close>

definition config_from_environment :: "(string \<rightharpoonup> string) \<Rightarrow> (string \<Rightarrow> bool) \<Rightarrow> cpp_exception option \<Rightarrow> byte list \<Rightarrow>
    config_builder option facade_result \<times> byte list" where
  "config_from_environment env regular throws err =
     (case karu_config_create env regular True throws err of (status, err', raw) \<Rightarrow> (checked status err' raw, err'))"

definition config_empty :: "cpp_exception option \<Rightarrow> byte list \<Rightarrow> config_builder option facade_result \<times> byte list" where
  "config_empty throws err =
     (case karu_config_create_empty True throws err of (status, err', raw) \<Rightarrow> (checked status err' raw, err'))"

text \<open>A setter changes the configuration its handle refers to.\<close>

definition config_setter :: "karu_status \<times> byte list \<times> config_builder option \<Rightarrow> unit facade_result \<times> byte list \<times> config_builder option" where
  "config_setter answer = (case answer of (status, err, handle) \<Rightarrow> (checked status err (), err, handle))"

definition config_set :: "string \<Rightarrow> string \<Rightarrow> config_builder option \<Rightarrow> cpp_exception option \<Rightarrow> byte list \<Rightarrow>
    unit facade_result \<times> byte list \<times> config_builder option" where
  "config_set name v handle throws err = config_setter (karu_config_set_option handle (Some (c_string name)) (Some (c_string v)) throws err)"

definition config_unset :: "string \<Rightarrow> config_builder option \<Rightarrow> cpp_exception option \<Rightarrow> byte list \<Rightarrow>
    unit facade_result \<times> byte list \<times> config_builder option" where
  "config_unset name handle throws err = config_setter (karu_config_set_option handle (Some (c_string name)) None throws err)"

definition config_set_path :: "string \<Rightarrow> string \<Rightarrow> string \<Rightarrow> config_builder option \<Rightarrow> cpp_exception option \<Rightarrow> byte list \<Rightarrow>
    unit facade_result \<times> byte list \<times> config_builder option" where
  "config_set_path p name v handle throws err =
     config_setter (karu_config_set_path_option handle (Some (c_string p)) (Some (c_string name)) (Some (c_string v)) throws err)"

definition config_unset_path :: "string \<Rightarrow> string \<Rightarrow> config_builder option \<Rightarrow> cpp_exception option \<Rightarrow> byte list \<Rightarrow>
    unit facade_result \<times> byte list \<times> config_builder option" where
  "config_unset_path p name handle throws err =
     config_setter (karu_config_set_path_option handle (Some (c_string p)) (Some (c_string name)) None throws err)"

definition config_set_credentials_provider :: "int \<Rightarrow> addr option \<Rightarrow> addr option \<Rightarrow> addr option \<Rightarrow> config_builder option \<Rightarrow>
    cpp_exception option \<Rightarrow> byte list \<Rightarrow> unit facade_result \<times> byte list \<times> config_builder option" where
  "config_set_credentials_provider kind provider user_data release handle throws err =
     config_setter (karu_config_set_credentials_provider handle kind provider user_data release throws err)"

definition config_clear_credentials_provider :: "int \<Rightarrow> config_builder option \<Rightarrow> cpp_exception option \<Rightarrow> byte list \<Rightarrow>
    unit facade_result \<times> byte list \<times> config_builder option" where
  "config_clear_credentials_provider kind handle throws err = config_set_credentials_provider kind None None None handle throws err"

definition object_parse :: "string \<Rightarrow> cpp_exception option \<Rightarrow> byte list \<Rightarrow> resolved option facade_result \<times> byte list" where
  "object_parse uri throws err =
     (case karu_resolve (Some (c_string uri)) True throws err of (status, err', raw) \<Rightarrow> (checked status err' raw, err'))"

section \<open>Batches\<close>

datatype batch_event_state = Ready | End | Timeout

record batch_event =
  be_state :: batch_event_state
  be_tag :: "tag option"
  be_status :: karu_status
  be_bytes_read :: u64
  be_message :: string

definition empty_event :: "batch_event_state \<Rightarrow> batch_event" where
  "empty_event st = \<lparr>be_state = st, be_tag = None, be_status = KARU_OK, be_bytes_read = 0, be_message = []\<rparr>"

definition event_of :: "karu_status \<Rightarrow> byte list \<Rightarrow> done_record option \<Rightarrow> batch_event facade_result" where
  "event_of status err completed =
     (if status = KARU_END then Inr (empty_event End)
      else if status = KARU_TIMEOUT then Inr (empty_event Timeout)
      else if status \<noteq> KARU_OK then Inl (current_error status err)
      else (case completed of
              None \<Rightarrow> Inr (empty_event Ready)
            | Some d \<Rightarrow> Inr \<lparr>be_state = Ready, be_tag = Some (dn_tag d), be_status = dn_status d, be_bytes_read = dn_got d,
                             be_message = (if dn_status d = KARU_OK then [] else last_error err)\<rparr>))"

definition facade_next :: "int \<Rightarrow> batch_state option \<Rightarrow> int \<Rightarrow> byte list \<Rightarrow> (batch_event facade_result \<times> byte list \<times> batch_state option) option" where
  "facade_next pid handle timeout_ms err =
     map_option (\<lambda>(status, err', completed, handle'). (event_of status err' completed, err', handle'))
       (karu_batch_next pid handle True timeout_ms err)"

definition no_counters :: batch_counters where
  "no_counters = \<lparr>bc_transfers = 0, bc_transfers_finished = 0, bc_requested_bytes = 0, bc_received_bytes = 0, bc_retries = 0,
     bc_throttled = 0, bc_new_connections = 0, bc_resumed = 0, bc_credential_refreshes = 0\<rparr>"

definition STATS_SIZE :: nat where "STATS_SIZE = 80"

definition facade_stats :: "int \<Rightarrow> batch_state option \<Rightarrow> byte list \<Rightarrow> batch_counters facade_result \<times> byte list" where
  "facade_stats pid handle err =
     (let out = \<lparr>bs_struct_size = STATS_SIZE, bs_counters = no_counters\<rparr>
      in case karu_batch_get_stats pid handle (Some out) err of
           (status, err', filled) \<Rightarrow> (checked status err' (bs_counters (case filled of None \<Rightarrow> out | Some st \<Rightarrow> st)), err'))"

section \<open>Clients\<close>

definition facade_client_create :: "string \<Rightarrow> config_builder option \<Rightarrow> cpp_exception option \<Rightarrow> byte list \<Rightarrow> client option facade_result \<times> byte list" where
  "facade_client_create version_string config throws err =
     (case karu_client_create version_string config True throws err of (status, err', raw) \<Rightarrow> (checked status err' raw, err'))"

definition facade_size :: "int \<times> memory \<Rightarrow> (resolved \<Rightarrow> (karu_status \<times> string) + u64) \<Rightarrow> client option \<Rightarrow> resolved option \<Rightarrow>
    cpp_exception option \<Rightarrow> byte list \<Rightarrow> u64 facade_result \<times> byte list \<times> client option" where
  "facade_size process sz handle obj throws err =
     (case karu_client_size process sz handle obj (Some 0) throws err of
        (status, err', v, handle') \<Rightarrow> (checked status err' (case v of None \<Rightarrow> 0 | Some n \<Rightarrow> n), err', handle'))"

definition INFO_SIZE :: nat where "INFO_SIZE = 272"

definition new_info :: object_info where
  "new_info = \<lparr>io_struct_size = INFO_SIZE, io_size = 0, io_etag = replicate ETAG_SIZE (CHR 0x00)\<rparr>"

definition facade_info :: "karu_status \<times> byte list \<times> object_info option \<times> client option \<Rightarrow> (u64 \<times> string) facade_result \<times> byte list \<times> client option" where
  "facade_info answer =
     (case answer of (status, err, filled, handle) \<Rightarrow>
        (let info = (case filled of None \<Rightarrow> new_info | Some i \<Rightarrow> i)
         in (checked status err (io_size info, c_string (io_etag info)), err, handle)))"

definition facade_stat :: "int \<times> memory \<Rightarrow> (resolved \<Rightarrow> (karu_status \<times> string) + (u64 \<times> string)) \<Rightarrow> client option \<Rightarrow> resolved option \<Rightarrow>
    cpp_exception option \<Rightarrow> byte list \<Rightarrow> (u64 \<times> string) facade_result \<times> byte list \<times> client option" where
  "facade_stat process info handle obj throws err = facade_info (karu_client_stat process info handle obj (Some new_info) throws err)"

definition facade_read_ends :: "int \<times> memory \<Rightarrow> (resolved \<Rightarrow> addr \<times> nat \<Rightarrow> addr \<times> nat \<Rightarrow> (karu_status \<times> string) + (u64 \<times> string)) \<Rightarrow>
    client option \<Rightarrow> resolved option \<Rightarrow> addr option \<Rightarrow> u64 \<Rightarrow> addr option \<Rightarrow> u64 \<Rightarrow> cpp_exception option \<Rightarrow> byte list \<Rightarrow>
    (u64 \<times> string) facade_result \<times> byte list \<times> client option" where
  "facade_read_ends process read handle obj head head_length tail tail_length throws err =
     facade_info (karu_client_read_ends process read handle obj head head_length tail tail_length (Some new_info) throws err)"

section \<open>Downloads\<close>

text \<open>\<open>DownloadOptions\<close> has the fields of \<open>DownloadSettings\<close>, and \<open>DownloadResult\<close> those of \<open>DownloadSummary\<close>.\<close>

definition OPTIONS_SIZE :: nat where "OPTIONS_SIZE = 48"

definition native_options :: "download_settings \<Rightarrow> download_options" where
  "native_options options =
     \<lparr>do_struct_size = OPTIONS_SIZE, do_chunk_size = dl_chunk_size options, do_parallelism = dl_parallelism options,
      do_overwrite = (if dl_overwrite options then 1 else 0), do_progress = dl_progress options\<rparr>"

definition RESULT_SIZE :: nat where "RESULT_SIZE = 328"

definition new_result :: download_result where
  "new_result = \<lparr>dr_struct_size = RESULT_SIZE, dr_summary = no_summary, dr_etag = replicate ETAG_SIZE (CHR 0x00)\<rparr>"

definition facade_download :: "download_env \<Rightarrow> client option \<Rightarrow> resolved option \<Rightarrow> string \<Rightarrow> download_settings \<Rightarrow> cpp_exception option \<Rightarrow> byte list \<Rightarrow> fs \<Rightarrow>
    (download_summary facade_result \<times> byte list \<times> fs) option" where
  "facade_download env handle obj destination options throws err f =
     map_option (\<lambda>(status, err', filled, f').
         (let r = (case filled of None \<Rightarrow> new_result | Some x \<Rightarrow> x)
          in (checked status err' ((dr_summary r)\<lparr>sm_etag := c_string (dr_etag r)\<rparr>), err', f')))
       (karu_client_download env handle obj (Some (c_string destination)) (Some (native_options options)) (Some new_result) throws err f)"

section \<open>Reads\<close>

text \<open>A span is an address and a length. The object of a read is a pointer to an \<open>Object\<close>, which has a handle.\<close>

record facade_read =
  fr_object :: "resolved option option"
  fr_offset :: u64
  fr_destination :: "addr \<times> u64"
  fr_tag :: tag
  fr_if_match :: string

record facade_options =
  fo_coalesce_gap :: "u64 option"
  fo_coalesce_limit :: "u64 option"
  fo_coalesce_parts :: "u64 option"
  fo_coalesce_amplification :: "u64 option"

definition inherit_or :: "u64 option \<Rightarrow> u64" where
  "inherit_or v = (case v of None \<Rightarrow> KARU_INHERIT | Some x \<Rightarrow> x)"

definition make_options :: "facade_options \<Rightarrow> submit_overrides" where
  "make_options o1 =
     \<lparr>so_struct_size = 40, so_coalesce_gap = inherit_or (fo_coalesce_gap o1), so_coalesce_limit = inherit_or (fo_coalesce_limit o1),
      so_coalesce_parts = inherit_or (fo_coalesce_parts o1), so_coalesce_amplification = inherit_or (fo_coalesce_amplification o1)\<rparr>"

definition condition_of :: "string \<Rightarrow> string option" where
  "condition_of if_match = (if if_match = [] then None else Some (c_string if_match))"

fun make_requests :: "facade_read list \<Rightarrow> c_request list facade_result" where
  "make_requests [] = Inr []"
| "make_requests (r # rs) =
     (case fr_object r of
        None \<Rightarrow> Inl \<lparr>fe_status = KARU_ERR_INVALID, fe_message = ''read has no object''\<rparr>
      | Some handle \<Rightarrow>
          if snd (fr_destination r) = 0 then Inl \<lparr>fe_status = KARU_ERR_INVALID, fe_message = ''read has an empty destination''\<rparr>
          else and_then (make_requests rs) (\<lambda>reqs.
            Inr (\<lparr>cr_locator = handle, cr_offset = fr_offset r, cr_length = snd (fr_destination r),
                  cr_buffer = Some (fst (fr_destination r)), cr_tag = fr_tag r, cr_if_match = condition_of (fr_if_match r)\<rparr> # reqs)))"

definition read_into :: "submit_env \<Rightarrow> (karu_status \<times> completion option) list \<Rightarrow> client option \<Rightarrow> resolved option \<Rightarrow> u64 \<Rightarrow> addr \<times> u64 \<Rightarrow> string \<Rightarrow>
    cpp_exception option \<Rightarrow> byte list \<Rightarrow> (unit facade_result \<times> byte list) option" where
  "read_into env replies handle obj offset destination if_match throws err =
     (if snd destination = 0 then Some (Inr (), err)
      else (let request = \<lparr>cr_locator = obj, cr_offset = offset, cr_length = snd destination, cr_buffer = Some (fst destination),
                           cr_tag = 0, cr_if_match = condition_of if_match\<rparr>
            in map_option (\<lambda>(status, err'). (checked status err' (), err')) (karu_client_fetch env replies handle (Some [request]) 1 throws err)))"

text \<open>\<open>read\<close> reads into a vector of its own, at \<open>fst vec\<close>, whose content it returns from the memory after the call.\<close>

definition facade_read_bytes :: "submit_env \<Rightarrow> (karu_status \<times> completion option) list \<Rightarrow> client option \<Rightarrow> resolved option \<Rightarrow> u64 \<Rightarrow> addr \<times> u64 \<Rightarrow> string \<Rightarrow>
    (addr \<Rightarrow> byte) \<Rightarrow> cpp_exception option \<Rightarrow> byte list \<Rightarrow> (byte list facade_result \<times> byte list) option" where
  "facade_read_bytes env replies handle obj offset vec if_match after throws err =
     map_option (\<lambda>(completed, err'). (case completed of Inl e \<Rightarrow> Inl e | Inr u \<Rightarrow> Inr (map (\<lambda>k. after (fst vec + k)) [0..<unat (snd vec)]), err'))
       (read_into env replies handle obj offset vec if_match throws err)"

definition facade_fetch :: "submit_env \<Rightarrow> (karu_status \<times> completion option) list \<Rightarrow> client option \<Rightarrow> facade_read list \<Rightarrow> facade_options \<Rightarrow>
    cpp_exception option \<Rightarrow> byte list \<Rightarrow> (unit facade_result \<times> byte list) option" where
  "facade_fetch env replies handle reads options throws err =
     (case make_requests reads of
        Inl e \<Rightarrow> Some (Inl e, err)
      | Inr reqs \<Rightarrow> map_option (\<lambda>(status, err'). (checked status err' (), err'))
          (karu_client_fetch_with env replies handle (Some reqs) (length reqs) (Some (make_options options)) throws err))"

definition facade_submit :: "submit_env \<Rightarrow> client option \<Rightarrow> facade_read list \<Rightarrow> facade_options \<Rightarrow> cpp_exception option \<Rightarrow> byte list \<Rightarrow>
    (nat option facade_result \<times> byte list \<times> client option) option" where
  "facade_submit env handle reads options throws err =
     (case make_requests reads of
        Inl e \<Rightarrow> Some (Inl e, err, handle)
      | Inr reqs \<Rightarrow> map_option (\<lambda>(status, err', raw, handle'). (checked status err' raw, err', handle'))
          (karu_client_submit_with env handle (Some reqs) (length reqs) (Some (make_options options)) True throws err))"

section \<open>What the facade passes on\<close>

text \<open>The settings of a download arrive as they are, or are refused.\<close>

definition downloadable :: "download_settings \<Rightarrow> bool" where
  "downloadable cfg \<longleftrightarrow> dl_chunk_size cfg \<noteq> 0 \<and> dl_chunk_size cfg \<noteq> TO_END \<and> dl_parallelism cfg \<noteq> 0 \<and>
     dl_parallelism cfg \<le> u64_max div dl_chunk_size cfg"

lemma native_options_exact: "downloadable cfg \<Longrightarrow> read_download_options (Some (native_options cfg)) = Inr cfg"
  by (cases cfg) (auto simp: downloadable_def read_download_options_def native_options_def available_def OPTIONS_SIZE_def Let_def
      default_settings_def dest: leD)

lemma native_options_refused: "\<not> downloadable cfg \<Longrightarrow> \<exists>m. read_download_options (Some (native_options cfg)) = Inl m"
  by (auto simp: downloadable_def read_download_options_def native_options_def available_def OPTIONS_SIZE_def Let_def not_less)

definition override_of :: "u64 option \<Rightarrow> u64 \<Rightarrow> u64" where
  "override_of v d = (case v of None \<Rightarrow> d | Some x \<Rightarrow> if x = KARU_INHERIT then d else x)"

definition applied_options :: "facade_options \<Rightarrow> client_options \<Rightarrow> client_options" where
  "applied_options o1 d = d\<lparr>coalesce_gap := override_of (fo_coalesce_gap o1) (coalesce_gap d),
     coalesce_limit := override_of (fo_coalesce_limit o1) (coalesce_limit d),
     coalesce_parts := override_of (fo_coalesce_parts o1) (coalesce_parts d),
     coalesce_amplification := override_of (fo_coalesce_amplification o1) (coalesce_amplification d)\<rparr>"

lemma override_inherit: "off + 8 \<le> 40 \<Longrightarrow> override 40 off (inherit_or v) = (if v = Some KARU_INHERIT then None else v)"
  by (cases v) (auto simp: override_def inherit_or_def available_def)

lemma overridden:
  "(if inherit_or v = KARU_INHERIT then d else d\<lparr>coalesce_gap := inherit_or v\<rparr>) = d\<lparr>coalesce_gap := override_of v (coalesce_gap d)\<rparr>"
  "(case if v = Some KARU_INHERIT then None else v of None \<Rightarrow> d | Some x \<Rightarrow> d\<lparr>coalesce_limit := x\<rparr>) =
     d\<lparr>coalesce_limit := override_of v (coalesce_limit d)\<rparr>"
  "(case if v = Some KARU_INHERIT then None else v of None \<Rightarrow> d | Some x \<Rightarrow> d\<lparr>coalesce_parts := x\<rparr>) =
     d\<lparr>coalesce_parts := override_of v (coalesce_parts d)\<rparr>"
  "(case if v = Some KARU_INHERIT then None else v of None \<Rightarrow> d | Some x \<Rightarrow> d\<lparr>coalesce_amplification := x\<rparr>) =
     d\<lparr>coalesce_amplification := override_of v (coalesce_amplification d)\<rparr>"
  by (cases v; simp add: inherit_or_def override_of_def)+

lemma make_options_exact:
  assumes "fo_coalesce_limit o1 \<noteq> Some 0" "fo_coalesce_parts o1 \<noteq> Some 0" "fo_coalesce_amplification o1 \<noteq> Some 0"
  shows "submit_options d (Some (make_options o1)) call err = (Some (applied_options o1 d), err)"
proof -
  have "(if v = Some KARU_INHERIT then None else v) \<noteq> Some 0" if "v \<noteq> Some 0" for v :: "u64 option" using that by simp
  note nonzero = this [OF assms(1)] this [OF assms(2)] this [OF assms(3)]
  have "submit_options d (Some (make_options o1)) call err =
    (let limit = if fo_coalesce_limit o1 = Some KARU_INHERIT then None else fo_coalesce_limit o1;
         parts = if fo_coalesce_parts o1 = Some KARU_INHERIT then None else fo_coalesce_parts o1;
         amplification = if fo_coalesce_amplification o1 = Some KARU_INHERIT then None else fo_coalesce_amplification o1;
         opt1 = d\<lparr>coalesce_gap := override_of (fo_coalesce_gap o1) (coalesce_gap d)\<rparr>;
         opt2 = (case limit of None \<Rightarrow> opt1 | Some v \<Rightarrow> opt1\<lparr>coalesce_limit := v\<rparr>);
         opt3 = (case parts of None \<Rightarrow> opt2 | Some v \<Rightarrow> opt2\<lparr>coalesce_parts := v\<rparr>)
     in (Some (case amplification of None \<Rightarrow> opt3 | Some v \<Rightarrow> opt3\<lparr>coalesce_amplification := v\<rparr>), err))"
    unfolding submit_options_def make_options_def option.case submit_overrides.simps Let_def available_def
    by (simp only: override_inherit overridden nonzero if_False refl) simp
  then show ?thesis by (simp add: Let_def overridden applied_options_def)
qed

definition read_request :: "facade_read \<Rightarrow> request" where
  "read_request r = \<lparr>rq_locator = the (the (fr_object r)), rq_offset = fr_offset r, rq_length = snd (fr_destination r),
     rq_buffer = Some (fst (fr_destination r)), rq_tag = fr_tag r, rq_if_match = c_string (fr_if_match r)\<rparr>"

definition sound_read :: "facade_read \<Rightarrow> bool" where
  "sound_read r \<longleftrightarrow> (\<exists>l. fr_object r = Some (Some l)) \<and> snd (fr_destination r) \<noteq> 0 \<and> snd (fr_destination r) \<noteq> TO_END \<and>
     CHR 0x0D \<notin> set (c_string (fr_if_match r)) \<and> CHR 0x0A \<notin> set (c_string (fr_if_match r))"

lemma make_requests_sound:
  assumes "\<forall>r \<in> set reads. sound_read r"
  shows "\<exists>reqs. make_requests reads = Inr reqs \<and> map request_of reqs = map read_request reads \<and> (\<forall>r \<in> set reqs. well_formed r) \<and>
    length reqs = length reads \<and> missing_buffer i reqs = None"
  using assms
proof (induction reads arbitrary: i)
  case (Cons r reads)
  have "\<forall>r \<in> set reads. sound_read r" using Cons.prems by simp
  from Cons.IH [OF this, of "Suc i"]
  obtain reqs where reqs: "make_requests reads = Inr reqs" "map request_of reqs = map read_request reads"
    "\<forall>r \<in> set reqs. well_formed r" "length reqs = length reads" "missing_buffer (Suc i) reqs = None" by blast
  obtain l where l: "fr_object r = Some (Some l)" using Cons.prems by (auto simp: sound_read_def)
  define q where "q = \<lparr>cr_locator = Some l, cr_offset = fr_offset r, cr_length = snd (fr_destination r),
      cr_buffer = Some (fst (fr_destination r)), cr_tag = fr_tag r, cr_if_match = condition_of (fr_if_match r)\<rparr>"
  have "make_requests (r # reads) = Inr (q # reqs)" using Cons.prems l reqs(1) by (simp add: sound_read_def q_def)
  moreover have "request_of q = read_request r"
    using l by (simp add: request_of_def read_request_def q_def condition_of_def c_string_def)
  moreover have "well_formed q" using Cons.prems by (auto simp: well_formed_def sound_read_def q_def condition_of_def split: if_splits)
  moreover have "cr_buffer q \<noteq> None" by (simp add: q_def)
  ultimately show ?case using reqs by (intro exI [of _ "q # reqs"]) simp
qed simp

lemma convert_sound:
  assumes "\<forall>r \<in> set reqs. well_formed r"
  shows "convert_requests call 0 reqs [] err = (map request_of reqs, err)"
  using convert_requests_spec [of call 0 reqs "[]" err] assms by (cases "convert_requests call 0 reqs [] err") auto

definition positive_options :: "facade_options \<Rightarrow> bool" where
  "positive_options o1 \<longleftrightarrow> fo_coalesce_limit o1 \<noteq> Some 0 \<and> fo_coalesce_parts o1 \<noteq> Some 0 \<and> fo_coalesce_amplification o1 \<noteq> Some 0"

text \<open>
  C20. What a C++ caller submits is what the engine gets. For reads that name an object, a destination of finite size and
  a condition without line breaks, and options that are not zero, \<open>Client::submit\<close> hands the engine of the client one request
  per read, in order, with the read's offset, length, destination, tag and condition, and the client's
  settings with exactly the options that are set; it answers with the status of the engine.
\<close>

theorem facade_submit_exact:
  assumes "\<forall>r \<in> set reads. sound_read r" "positive_options options"
    and "acquire_engine (sv_pid env) (sv_memory env) c = (e, c')"
  shows "facade_submit env (Some c) reads options None err =
    map_option (\<lambda>(status, e'). (checked status (clear_error err) (if status = KARU_OK then Some (sv_batch env) else None), clear_error err,
        Some (c'\<lparr>cl_engine := Some e'\<rparr>)))
      (engine_submit (sv_malloc env) (sv_pid env) (sv_batch env) (applied_options options (cs_client (cl_config c)))
        (map read_request reads) e)"
proof -
  obtain reqs where reqs: "make_requests reads = Inr reqs" "map request_of reqs = map read_request reads"
    "\<forall>r \<in> set reqs. well_formed r" using make_requests_sound [OF assms(1)] by blast
  have "length (map read_request reads) = length reqs" using reqs(2) by (metis length_map)
  then show ?thesis
    using assms(2,3) reqs
    by (simp add: facade_submit_def karu_client_submit_with_def client_submit_def convert_sound make_options_exact positive_options_def
        option.map_comp comp_def split_def)
qed

definition sample_facade_read :: facade_read where
  "sample_facade_read = \<lparr>fr_object = Some (Some (empty_resolved\<lparr>res_backend := File, res_target := ''f''\<rparr>)), fr_offset = 0,
     fr_destination = (0, 4), fr_tag = 1, fr_if_match = []\<rparr>"

definition sample_facade_options :: facade_options where
  "sample_facade_options = \<lparr>fo_coalesce_gap = Some 0, fo_coalesce_limit = None, fo_coalesce_parts = None, fo_coalesce_amplification = Some 2\<rparr>"

definition sample_submit_env :: submit_env where
  "sample_submit_env = \<lparr>sv_malloc = \<lambda>k n. Some 0, sv_pid = 7, sv_memory = \<lambda>a. CHR 0x00, sv_batch = 0\<rparr>"

theorem facade_submit_exact_witness:
  "let env = sample_submit_env; (e, c') = acquire_engine (sv_pid env) (sv_memory env) sample_client in
   facade_submit env (Some sample_client) [sample_facade_read] sample_facade_options None no_message =
    map_option (\<lambda>(status, e'). (checked status (clear_error no_message) (if status = KARU_OK then Some (sv_batch env) else None),
        clear_error no_message, Some (c'\<lparr>cl_engine := Some e'\<rparr>)))
      (engine_submit (sv_malloc env) (sv_pid env) (sv_batch env) (applied_options sample_facade_options (cs_client (cl_config sample_client)))
        [read_request sample_facade_read] e)"
proof -
  have "\<forall>r \<in> set [sample_facade_read]. sound_read r"
    by (simp add: sound_read_def sample_facade_read_def c_string_def TO_END_def u64_max_def)
  moreover have "positive_options sample_facade_options" by (simp add: positive_options_def sample_facade_options_def)
  moreover obtain e c' where a: "acquire_engine (sv_pid sample_submit_env) (sv_memory sample_submit_env) sample_client = (e, c')" by force
  ultimately show ?thesis
    using facade_submit_exact [of "[sample_facade_read]" sample_facade_options sample_submit_env sample_client e c' no_message]
    unfolding Let_def a by simp
qed

end
