(* ===== verification/Karu_Discovery.thy ===== *)
theory Karu_Discovery
  imports Karu_Backends
begin

text \<open>
  The discovery of credentials: the helpers that \<open>src/src/backends/credentials.cpp\<close> shares among the loaders of
  the providers. A loader is a function of the log of HTTP requests sent so far, which it extends, so that what
  is sent, and to whom, can be stated. The environment has the files, the answer to each request, the clock
  after so many requests, and the result of a command. libcurl reports a failure, or a status and
  the pieces of the body it hands to \<open>collect_body\<close>,
  or before that the message for the first option it refuses; memory suffices for the list of headers.
\<close>

named_theorems sends_intros "what a step of a loader sends"
named_theorems yields_intros "what a step of a loader returns"

section \<open>JSON\<close>

text \<open>What follows the colon behind the first \<open>needle\<close> that has one.\<close>

function json_value :: "string \<Rightarrow> string \<Rightarrow> string option" where
  "json_value needle s =
     (if needle = [] then None
      else case find_sub needle s of
        None \<Rightarrow> None
      | Some k \<Rightarrow>
          (let rest = drop (k + length needle) s; t = dropWhile is_space rest
           in if t = [] \<or> hd t \<noteq> CHR '':'' then json_value needle rest else Some (dropWhile is_space (tl t))))"
  by pat_completeness auto
termination
proof (relation "measure (length \<circ> snd)", goal_cases)
  case (2 needle s k rest t)
  have "s \<noteq> []" using 2(1,2) by (cases s) auto
  with 2(1,3) show ?case by simp
qed simp

declare json_value.simps [simp del]

definition json_quote :: "string \<Rightarrow> string" where
  "json_quote name = CHR 0x22 # name @ [CHR 0x22]"

text \<open>The text up to the closing quote.\<close>

fun json_text :: "string \<Rightarrow> string \<Rightarrow> string option" where
  "json_text [] acc = None"
| "json_text (c # s) acc =
     (if c = CHR 0x22 then Some acc
      else if c \<noteq> CHR 0x5C then json_text s (acc @ [c])
      else case s of
             [] \<Rightarrow> None
           | e # s' \<Rightarrow>
               if e = CHR 0x22 \<or> e = CHR 0x5C \<or> e = CHR ''/'' then json_text s' (acc @ [e])
               else if e = CHR ''b'' then json_text s' (acc @ [CHR 0x08])
               else if e = CHR ''f'' then json_text s' (acc @ [CHR 0x0C])
               else if e = CHR ''n'' then json_text s' (acc @ [CHR 0x0A])
               else if e = CHR ''r'' then json_text s' (acc @ [CHR 0x0D])
               else if e = CHR ''t'' then json_text s' (acc @ [CHR 0x09])
               else None)"

definition json_string :: "string \<Rightarrow> string \<Rightarrow> string option" where
  "json_string json name =
     (case json_value (json_quote name) json of
        None \<Rightarrow> None
      | Some v \<Rightarrow> if v = [] \<or> hd v \<noteq> CHR 0x22 then None else json_text (tl v) [])"

definition json_integer :: "string \<Rightarrow> string \<Rightarrow> int option" where
  "json_integer json name =
     (let unquoted =
        (case find_sub (json_quote name) json of
           None \<Rightarrow> None
         | Some found \<Rightarrow>
             (let rest = drop (found + length (json_quote name)) json
              in case find_char CHR '':'' rest of
                   None \<Rightarrow> None
                 | Some colon \<Rightarrow> map_option fst (from_chars_signed 64 (dropWhile is_space (drop (colon + 1) rest)))))
      in case json_string json name of
           None \<Rightarrow> unquoted
         | Some quoted \<Rightarrow> (case from_chars_signed 64 quoted of
                            Some (v, []) \<Rightarrow> Some v
                          | _ \<Rightarrow> unquoted))"

section \<open>Times and sections\<close>

definition days_from_civil :: "int \<Rightarrow> int \<Rightarrow> int \<Rightarrow> int" where
  "days_from_civil y m d =
     (let y' = (if m \<le> 2 then y - 1 else y); era = y' div 400; yoe = y' mod 400;
          doy = (153 * (if 2 < m then m - 3 else m + 9) + 2) div 5 + d - 1
      in era * 146097 + yoe * 365 + yoe div 4 - yoe div 100 + doy - 719468)"

definition timegm :: "int \<Rightarrow> int \<Rightarrow> int \<Rightarrow> int \<Rightarrow> int \<Rightarrow> int \<Rightarrow> int" where
  "timegm y m d h mi s = days_from_civil y m d * 86400 + h * 3600 + mi * 60 + s"

definition number_at :: "string \<Rightarrow> nat \<Rightarrow> nat \<Rightarrow> int" where
  "number_at s i n = int (digits_value (take n (drop i s)))"

text \<open>
  \<open>get_time\<close> with the format \<open>%Y-%m-%dT%H:%M:%S\<close>, on full-width fields; shortened fields, on which
  standard libraries differ, are refused.
\<close>

definition iso8601_epoch :: "string \<Rightarrow> int" where
  "iso8601_epoch text0 =
     (let s = take 19 text0; n = number_at s
      in if length s = 19 \<and> (\<forall>i \<in> set [0, 1, 2, 3, 5, 6, 8, 9, 11, 12, 14, 15, 17, 18]. is_digit (s ! i)) \<and>
            s ! 4 = CHR ''-'' \<and> s ! 7 = CHR ''-'' \<and> s ! 10 = CHR ''T'' \<and> s ! 13 = CHR '':'' \<and> s ! 16 = CHR '':'' \<and>
            1 \<le> n 5 2 \<and> n 5 2 \<le> 12 \<and> 1 \<le> n 8 2 \<and> n 8 2 \<le> 31 \<and> n 11 2 \<le> 23 \<and> n 14 2 \<le> 59 \<and> n 17 2 \<le> 60
         then timegm (n 0 4) (n 5 2) (n 8 2) (n 11 2) (n 14 2) (n 17 2) else 0)"

type_synonym ini_section = "string \<rightharpoonup> string"
type_synonym ini_file = "string \<rightharpoonup> ini_section"

text \<open>\<open>getline\<close>: the pieces between line feeds, without an empty last one.\<close>

function lines_of :: "string \<Rightarrow> string list" where
  "lines_of s =
     (if s = [] then []
      else case find_char CHR 0x0A s of
             None \<Rightarrow> [s]
           | Some k \<Rightarrow> take k s # lines_of (drop (k + 1) s))"
  by pat_completeness auto
termination by (relation "measure length") auto

declare lines_of.simps [simp del]

definition ini_line :: "string \<times> ini_file \<Rightarrow> string \<Rightarrow> string \<times> ini_file" where
  "ini_line st raw =
     (let line = trim raw
      in if line = [] \<or> hd line = CHR ''#'' \<or> hd line = CHR '';'' then st
         else if hd line = CHR ''['' \<and> last line = CHR '']'' then (trim (take (length line - 2) (drop 1 line)), snd st)
         else case find_first_of ''=:'' line of
                None \<Rightarrow> st
              | Some separator \<Rightarrow>
                  if fst st = [] then st
                  else (let keys = (case snd st (fst st) of None \<Rightarrow> Map.empty | Some m \<Rightarrow> m);
                            key = lower (trim (take separator line)); v = trim (drop (separator + 1) line)
                        in (fst st, (snd st)(fst st \<mapsto> keys(key \<mapsto> v)))))"

definition parse_ini :: "string \<Rightarrow> ini_file" where
  "parse_ini contents = snd (foldl ini_line ([], Map.empty) (lines_of contents))"

definition read_ini :: "files \<Rightarrow> string \<Rightarrow> string \<Rightarrow> ini_file request_result" where
  "read_ini fs path purpose = and_then (read_text_file fs path purpose) (\<lambda>contents. Inr (parse_ini contents))"

section \<open>Requests to credential services\<close>

text \<open>How the running libcurl finds CA certificates, and which of its defaults has to go.\<close>

record curl_ca_support =
  curl_version :: nat
  curl_tls :: string
  default_ca_path :: bool
  default_bundle :: bool
  hashed_ca_directory :: bool

datatype ca_default = Clear_None | Clear_Directory | Clear_Bundle

definition OPENSSL_NAMES :: "string list" where
  "OPENSSL_NAMES = [''OpenSSL/'', ''LibreSSL/'', ''BoringSSL'', ''AWS-LC/'', ''quictls/'']"

definition ca_default_to_clear :: "http_request_options \<Rightarrow> curl_ca_support \<Rightarrow> ca_default" where
  "ca_default_to_clear options curl =
     (let openssl = list_ex (\<lambda>n. starts_with n (curl_tls curl)) OPENSSL_NAMES;
          configured_bundle = (ca_bundle options \<noteq> [] \<and> \<not> system_ca_bundle options)
      in if \<not> openssl \<or> ca_path options \<noteq> [] then Clear_None
         else if \<not> configured_bundle \<and> hashed_ca_directory curl then Clear_Bundle
         else if 0x075700 \<le> curl_version curl \<and> default_ca_path curl \<and> (ca_bundle options \<noteq> [] \<or> default_bundle curl)
         then Clear_Directory
         else Clear_None)"

record http_call =
  hc_method :: string
  hc_url :: string
  hc_body :: string
  hc_headers :: "header list"
  hc_timeout :: int
  hc_http :: http_request_options
  hc_ca :: ca_default

record http_response =
  hr_status :: int
  hr_body :: string

datatype http_outcome = Http_Failed string | Http_Response int "string list"

record command_result =
  cr_output :: string
  cr_exit_code :: int
  cr_timed_out :: bool
  cr_output_limit_exceeded :: bool

record discovery_env =
  dv_files :: files
  dv_init :: "nat \<Rightarrow> bool"
  dv_curl :: curl_ca_support
  dv_setup :: "nat \<Rightarrow> http_call \<Rightarrow> string option"
  dv_http :: "nat \<Rightarrow> http_call \<Rightarrow> http_outcome"
  dv_write_error :: string
  dv_now :: "nat \<Rightarrow> int"
  dv_command :: "string \<Rightarrow> nat \<Rightarrow> int \<Rightarrow> string + command_result"

type_synonym 'a loader = "http_call list \<Rightarrow> 'a request_result \<times> http_call list"

definition ld_lift :: "'a request_result \<Rightarrow> 'a loader" where
  "ld_lift r sent = (r, sent)"

definition ld_bind :: "'a loader \<Rightarrow> ('a \<Rightarrow> 'b loader) \<Rightarrow> 'b loader" where
  "ld_bind m f sent = (case m sent of (Inl e, sent') \<Rightarrow> (Inl e, sent') | (Inr a, sent') \<Rightarrow> f a sent')"

text \<open>For callers that look at the failure themselves.\<close>

definition ld_try :: "'a loader \<Rightarrow> ('a request_result) loader" where
  "ld_try m sent = (case m sent of (r, sent') \<Rightarrow> (Inr r, sent'))"

definition ld_now :: "discovery_env \<Rightarrow> int loader" where
  "ld_now env sent = (Inr (dv_now env (length sent)), sent)"

definition collect_body :: "string \<Rightarrow> string \<Rightarrow> string option" where
  "collect_body result d = (if TEXT_LIMIT - min (length result) TEXT_LIMIT < length d then None else Some (result @ d))"

fun collect_chunks :: "string \<Rightarrow> string list \<Rightarrow> string option" where
  "collect_chunks result [] = Some result"
| "collect_chunks result (d # ds) =
     (case collect_body result d of None \<Rightarrow> None | Some r \<Rightarrow> collect_chunks r ds)"

definition credential_request :: "discovery_env \<Rightarrow> string \<Rightarrow> string \<Rightarrow> string \<Rightarrow> header list \<Rightarrow> int \<Rightarrow> http_request_options \<Rightarrow> http_response loader" where
  "credential_request env meth url body headers timeout_seconds options sent =
     (if \<not> dv_init env (length sent) then (Inl \<lparr>re_status = KARU_ERR_NOMEM, re_message = ''curl_easy_init failed''\<rparr>, sent)
      else if \<not> list_all valid_header headers then (Inl (credential_error ''credential header is invalid''), sent)
      else (let call = \<lparr>hc_method = meth, hc_url = url, hc_body = body, hc_headers = headers, hc_timeout = timeout_seconds,
                        hc_http = options, hc_ca = ca_default_to_clear options (dv_curl env)\<rparr>;
                sent' = sent @ [call]
            in case dv_setup env (length sent) call of
                 Some m \<Rightarrow> (Inl (credential_error (''credential endpoint setup: '' @ m)), sent)
               | None \<Rightarrow>
                   (case dv_http env (length sent) call of
                      Http_Failed m \<Rightarrow> (Inl (credential_error (''credential endpoint: '' @ m)), sent')
                    | Http_Response status chunks \<Rightarrow>
                        (case collect_chunks [] chunks of
                           None \<Rightarrow> (Inl (credential_error (''credential endpoint: '' @ dv_write_error env)), sent')
                         | Some b \<Rightarrow> (Inr \<lparr>hr_status = status, hr_body = b\<rparr>, sent')))))"

definition success :: "http_response \<Rightarrow> bool" where
  "success r \<longleftrightarrow> 200 \<le> hr_status r \<and> hr_status r < 300"

definition form_header :: header where
  "form_header = (''Content-Type'', ''application/x-www-form-urlencoded'')"

definition oauth_token :: "discovery_env \<Rightarrow> string \<Rightarrow> string \<Rightarrow> header list \<Rightarrow> http_request_options \<Rightarrow> provider_credentials loader" where
  "oauth_token env url form extra_headers options =
     ld_bind (credential_request env ''POST'' url form (extra_headers @ [form_header]) 5 options) (\<lambda>response.
       if \<not> success response
       then ld_lift (Inl (credential_error (''credential endpoint returned HTTP '' @ int_string (hr_status response))))
       else case json_string (hr_body response) ''access_token'' of
              None \<Rightarrow> ld_lift (Inl (credential_error ''credential response has no access_token''))
            | Some token \<Rightarrow>
                if token = [] then ld_lift (Inl (credential_error ''credential response has no access_token''))
                else ld_bind (ld_now env) (\<lambda>now.
                  (let lifetime = (case json_integer (hr_body response) ''expires_in'' of None \<Rightarrow> 3600 | Some v \<Rightarrow> v)
                   in ld_lift (Inr (empty_credentials\<lparr>bearer_token := token, expires_at := now + max lifetime 60\<rparr>)))))"

text \<open>The guard of every optional request: a failure or an error status gives no credentials.\<close>

definition when_success :: "http_response loader \<Rightarrow> (http_response \<Rightarrow> provider_credentials loader) \<Rightarrow> provider_credentials loader" where
  "when_success m f =
     ld_bind (ld_try m) (\<lambda>r. case r of
        Inl e \<Rightarrow> ld_lift (Inr empty_credentials)
      | Inr t \<Rightarrow> if success t then f t else ld_lift (Inr empty_credentials))"

definition value_or :: "'a \<Rightarrow> 'a option \<Rightarrow> 'a" where
  "value_or d v = (case v of None \<Rightarrow> d | Some x \<Rightarrow> x)"

text \<open>
  The reader knows no escape for a code point, and the sum of the clock and a lifetime is not bounded by 64 bits.
\<close>

lemma json_unicode_escape_absent: "json_string (''{\"t\":\"a'' @ [CHR 0x5C] @ ''u003d\"}'') ''t'' = None"
  by code_simp

lemma oauth_expiry_overflows:
  assumes "json_string (hr_body r) ''access_token'' = Some t" "t \<noteq> []" "json_integer (hr_body r) ''expires_in'' = Some (2 ^ 63 - 1)"
    and "credential_request env ''POST'' url form (extra @ [form_header]) 5 options sent = (Inr r, sent')" "success r"
    and "0 < dv_now env (length sent')"
  shows "\<exists>c. oauth_token env url form extra options sent = (Inr c, sent') \<and> 2 ^ 63 - 1 < expires_at c"
  using assms by (simp add: oauth_token_def ld_bind_def ld_lift_def ld_now_def empty_credentials_def)

section \<open>What a loader sends\<close>

definition sends :: "(http_call \<Rightarrow> bool) \<Rightarrow> 'a loader \<Rightarrow> bool" where
  "sends P m \<longleftrightarrow> (\<forall>sent. \<exists>calls. snd (m sent) = sent @ calls \<and> list_all P calls)"

lemma sendsI:
  assumes "\<And>sent. \<exists>calls. snd (m sent) = sent @ calls \<and> list_all P calls"
  shows "sends P m"
  using assms unfolding sends_def by blast

lemma sendsD: "sends P m \<Longrightarrow> list_all P (snd (m []))"
  unfolding sends_def by (metis append_Nil)

lemma sends_mono: "(\<And>call. P call \<Longrightarrow> Q call) \<Longrightarrow> sends P m \<Longrightarrow> sends Q m"
  unfolding sends_def by (meson list_all_iff)

lemma sends_lift [sends_intros]: "sends P (ld_lift r)"
  by (rule sendsI) (simp add: ld_lift_def)

lemma sends_now [sends_intros]: "sends P (ld_now env)"
  by (rule sendsI) (simp add: ld_now_def)

lemma sends_bind [sends_intros]:
  assumes "sends P m" "\<And>a. sends P (f a)"
  shows "sends P (ld_bind m f)"
proof (rule sendsI)
  fix sent
  obtain calls where 1: "snd (m sent) = sent @ calls" "list_all P calls" using assms(1) unfolding sends_def by blast
  show "\<exists>calls. snd (ld_bind m f sent) = sent @ calls \<and> list_all P calls"
  proof (cases "fst (m sent)")
    case (Inl e)
    with 1 show ?thesis by (auto simp: ld_bind_def split: prod.splits)
  next
    case (Inr a)
    obtain more where "snd (f a (sent @ calls)) = (sent @ calls) @ more" "list_all P more"
      using assms(2) [of a] unfolding sends_def by blast
    with 1 Inr show ?thesis by (auto simp: ld_bind_def intro!: exI [of _ "calls @ more"] split: prod.splits)
  qed
qed

lemma sends_try [sends_intros]: "sends P m \<Longrightarrow> sends P (ld_try m)"
  unfolding sends_def by (auto simp: ld_try_def split: prod.splits) (metis snd_conv)

lemma sends_request [sends_intros]:
  assumes "P \<lparr>hc_method = meth, hc_url = url, hc_body = body, hc_headers = headers, hc_timeout = timeout,
    hc_http = options, hc_ca = ca_default_to_clear options (dv_curl env)\<rparr>"
  shows "sends P (credential_request env meth url body headers timeout options)"
  using assms by (intro sendsI) (auto simp: credential_request_def Let_def split: http_outcome.splits option.splits)

lemma sends_if [sends_intros]:
  "(b \<Longrightarrow> sends P m) \<Longrightarrow> (\<not> b \<Longrightarrow> sends P m') \<Longrightarrow> sends P (if b then m else m')"
  by simp

lemma sends_option [sends_intros]:
  "(v = None \<Longrightarrow> sends P m) \<Longrightarrow> (\<And>x. v = Some x \<Longrightarrow> sends P (f x)) \<Longrightarrow> sends P (case v of None \<Rightarrow> m | Some x \<Rightarrow> f x)"
  by (cases v) auto

lemma sends_sum [sends_intros]:
  "(\<And>e. r = Inl e \<Longrightarrow> sends P (f e)) \<Longrightarrow> (\<And>x. r = Inr x \<Longrightarrow> sends P (g x)) \<Longrightarrow> sends P (case r of Inl e \<Rightarrow> f e | Inr x \<Rightarrow> g x)"
  by (cases r) auto

lemma sends_when_success [sends_intros]:
  "sends P m \<Longrightarrow> (\<And>t. sends P (f t)) \<Longrightarrow> sends P (when_success m f)"
  unfolding when_success_def by (intro sends_intros)

lemma sends_oauth [sends_intros]:
  assumes "P \<lparr>hc_method = ''POST'', hc_url = url, hc_body = form, hc_headers = extra @ [form_header], hc_timeout = 5,
    hc_http = options, hc_ca = ca_default_to_clear options (dv_curl env)\<rparr>"
  shows "sends P (oauth_token env url form extra options)"
  unfolding oauth_token_def Let_def using assms by (intro sends_intros)

text \<open>The log is what a loader received, with its own requests behind.\<close>

lemma sends_extends: "sends P m \<Longrightarrow> \<exists>calls. snd (m sent) = sent @ calls \<and> list_all P calls"
  unfolding sends_def by blast

section \<open>What a loader returns\<close>

definition yields :: "('a \<Rightarrow> bool) \<Rightarrow> 'a loader \<Rightarrow> bool" where
  "yields Q m \<longleftrightarrow> (\<forall>sent a. fst (m sent) = Inr a \<longrightarrow> Q a)"

lemma yieldsD: "yields Q m \<Longrightarrow> m sent = (Inr a, sent') \<Longrightarrow> Q a"
  unfolding yields_def by (metis fst_conv)

lemma yields_lift [yields_intros]: "(\<And>a. r = Inr a \<Longrightarrow> Q a) \<Longrightarrow> yields Q (ld_lift r)"
  by (simp add: yields_def ld_lift_def)

lemma yields_bind_from: "yields R m \<Longrightarrow> (\<And>a. R a \<Longrightarrow> yields Q (f a)) \<Longrightarrow> yields Q (ld_bind m f)"
proof (unfold yields_def, intro allI impI)
  fix sent b
  assume m: "\<forall>sent a. fst (m sent) = Inr a \<longrightarrow> R a" and f: "\<And>a. R a \<Longrightarrow> \<forall>sent b. fst (f a sent) = Inr b \<longrightarrow> Q b"
    and eq: "fst (ld_bind m f sent) = Inr b"
  obtain r sent' where r: "m sent = (r, sent')" by force
  show "Q b"
  proof (cases r)
    case (Inr a)
    with m r have "R a" by (metis fst_conv)
    with f eq r Inr show ?thesis by (auto simp: ld_bind_def)
  qed (use eq r in \<open>simp add: ld_bind_def\<close>)
qed

lemma yields_mono: "yields R m \<Longrightarrow> (\<And>a. R a \<Longrightarrow> Q a) \<Longrightarrow> yields Q m"
  unfolding yields_def by blast

lemma yields_bind [yields_intros]: "(\<And>a. yields Q (f a)) \<Longrightarrow> yields Q (ld_bind m f)"
  by (rule yields_bind_from [of "\<lambda>a. True"]) (simp_all add: yields_def)

lemma yields_if [yields_intros]:
  "(b \<Longrightarrow> yields Q m) \<Longrightarrow> (\<not> b \<Longrightarrow> yields Q m') \<Longrightarrow> yields Q (if b then m else m')"
  by simp

lemma yields_sum [yields_intros]:
  "(\<And>e. r = Inl e \<Longrightarrow> yields Q (f e)) \<Longrightarrow> (\<And>x. r = Inr x \<Longrightarrow> yields Q (g x)) \<Longrightarrow> yields Q (case r of Inl e \<Rightarrow> f e | Inr x \<Rightarrow> g x)"
  by (cases r) auto

lemma yields_option [yields_intros]:
  "(v = None \<Longrightarrow> yields Q m) \<Longrightarrow> (\<And>x. v = Some x \<Longrightarrow> yields Q (f x)) \<Longrightarrow> yields Q (case v of None \<Rightarrow> m | Some x \<Rightarrow> f x)"
  by (cases v) auto

lemma yields_when_success [yields_intros]:
  "Q empty_credentials \<Longrightarrow> (\<And>t. yields Q (f t)) \<Longrightarrow> yields Q (when_success m f)"
  unfolding when_success_def by (intro yields_intros) simp_all

text \<open>A pair of access key and secret, or neither.\<close>

definition whole_pair :: "provider_credentials \<Rightarrow> bool" where
  "whole_pair c \<longleftrightarrow> (access_key_id c = []) = (secret_access_key c = [])"

lemma whole_pair_none [simp]: "whole_pair empty_credentials"
  by (simp add: whole_pair_def empty_credentials_def)

lemma yields_oauth [yields_intros]: "yields whole_pair (oauth_token env url form extra options)"
  unfolding oauth_token_def Let_def
  by (intro yields_intros) (auto simp: whole_pair_def empty_credentials_def)

section \<open>The interface of the loaders\<close>

text \<open>
  The requests that only a metadata service of a cloud answers carry one of these headers. They are told by the
  header, not by the address: a token service whose address a credential file names is not among them.
\<close>

definition METADATA_HEADERS :: "string list" where
  "METADATA_HEADERS = [''Metadata'', ''Metadata-Flavor'', ''X-aws-ec2-metadata-token-ttl-seconds'', ''X-aws-ec2-metadata-token'']"

definition metadata_call :: "http_call \<Rightarrow> bool" where
  "metadata_call call \<longleftrightarrow> list_ex (\<lambda>h. fst h \<in> set METADATA_HEADERS) (hc_headers call)"

text \<open>Loads for one path after the other, as the cache asks for them.\<close>

fun load_each :: "(string \<Rightarrow> provider_credentials loader) \<Rightarrow> string list \<Rightarrow> http_call list \<Rightarrow> http_call list" where
  "load_each load [] sent = sent"
| "load_each load (p # ps) sent = load_each load ps (snd (load p sent))"

text \<open>
  What a loader promises: paths whose credentials are given cost no request and yield them unchanged, and no
  metadata service is asked for a path that does not permit it.
\<close>

locale credential_source =
  fixes load :: "string \<Rightarrow> provider_credentials loader"
    and given :: "string \<Rightarrow> provider_credentials option"
    and metadata :: "string \<Rightarrow> bool"
  assumes given_offline: "given p = Some c \<Longrightarrow> load p sent = (Inr c, sent)"
    and asks_permitted: "\<not> metadata p \<Longrightarrow> sends (\<lambda>call. \<not> metadata_call call) (load p)"
begin

lemma load_each_offline:
  assumes "\<forall>p \<in> set ps. given p \<noteq> None"
  shows "load_each load ps sent = sent"
  using assms by (induction ps arbitrary: sent) (auto simp: given_offline)

lemma load_each_permitted:
  assumes "\<forall>p \<in> set ps. \<not> metadata p" and "\<not> list_ex metadata_call sent"
  shows "\<not> list_ex metadata_call (load_each load ps sent)"
  using assms
proof (induction ps arbitrary: sent)
  case (Cons p ps)
  obtain calls where "snd (load p sent) = sent @ calls" "list_all (\<lambda>call. \<not> metadata_call call) calls"
    using sends_extends [OF asks_permitted] Cons.prems(1) by (meson list.set_intros(1))
  then have "\<not> list_ex metadata_call (snd (load p sent))"
    using Cons.prems(2) by (auto simp: list_ex_iff list_all_iff)
  with Cons show ?case by simp
qed simp

end

end
