(* ===== verification/Karu_Aws_Credentials.thy ===== *)
theory Karu_Aws_Credentials
  imports Karu_Discovery
begin

text \<open>
  The credentials of AWS and Source: profiles (\<open>src/src/backends/aws_profile.cpp\<close>), the chain of
  \<open>src/src/backends/s3_credentials.cpp\<close> and \<open>src/src/backends/source_credentials.cpp\<close>. The section
  \<open>What AWS is sent\<close> bounds the requests of a load, and the loaders implement \<open>credential_source\<close>.
\<close>

section \<open>Profiles\<close>

definition PROCESS_OUTPUT_LIMIT :: nat where "PROCESS_OUTPUT_LIMIT = 1048576"

definition run_credential_process :: "discovery_env \<Rightarrow> string \<Rightarrow> string \<Rightarrow> int \<Rightarrow> string request_result" where
  "run_credential_process env command label timeout_seconds =
     (case dv_command env command PROCESS_OUTPUT_LIMIT (timeout_seconds * 1000) of
        Inl m \<Rightarrow> Inl (credential_error (label @ '' credential_process could not start: '' @ m))
      | Inr r \<Rightarrow>
          if cr_timed_out r then Inl \<lparr>re_status = KARU_TIMEOUT, re_message = label @ '' credential_process exceeded the request timeout''\<rparr>
          else if cr_output_limit_exceeded r then Inl (credential_error (label @ '' credential_process returned more than 1 MiB''))
          else if cr_exit_code r \<noteq> 0
          then Inl (credential_error (label @ '' credential_process exited with status '' @ int_string (cr_exit_code r)))
          else Inr (cr_output r))"

record aws_profile =
  ap_values :: ini_section
  ap_found :: bool

definition profile_value :: "aws_profile \<Rightarrow> string \<Rightarrow> string" where
  "profile_value p name = value_or [] (ap_values p name)"

definition quoted :: "string \<Rightarrow> string" where
  "quoted s = [quote_char] @ s @ [quote_char]"

text \<open>The section of the config file, and the shared credentials over it.\<close>

definition config_profile :: "files \<Rightarrow> bool \<Rightarrow> string \<Rightarrow> string \<Rightarrow> string \<Rightarrow> aws_profile request_result" where
  "config_profile fs exists file profile label =
     (if \<not> exists then Inr \<lparr>ap_values = Map.empty, ap_found = False\<rparr>
      else and_then (read_ini fs file (label @ '' config'')) (\<lambda>ini.
        case ini (if profile = ''default'' then ''default'' else ''profile '' @ profile) of
          None \<Rightarrow> Inr \<lparr>ap_values = Map.empty, ap_found = False\<rparr>
        | Some entries \<Rightarrow> Inr \<lparr>ap_values = entries, ap_found = True\<rparr>))"

definition shared_profile :: "files \<Rightarrow> bool \<Rightarrow> string \<Rightarrow> string \<Rightarrow> string \<Rightarrow> aws_profile \<Rightarrow> aws_profile request_result" where
  "shared_profile fs exists file profile label result =
     (if \<not> exists then Inr result
      else and_then (read_ini fs file (label @ '' shared credentials'')) (\<lambda>ini.
        case ini profile of
          None \<Rightarrow> Inr result
        | Some entries \<Rightarrow> Inr \<lparr>ap_values = ap_values result ++ entries, ap_found = True\<rparr>))"

definition read_aws_profile :: "discovery_env \<Rightarrow> config_builder \<Rightarrow> string \<Rightarrow> string \<Rightarrow> string \<Rightarrow> string \<Rightarrow> string \<Rightarrow> aws_profile request_result" where
  "read_aws_profile env c path profile config_file_option credentials_file_option label =
     (let config_path = expand_user_path c (config_option c path config_file_option (default_aws_path c ''config''));
          credentials_path = expand_user_path c (config_option c path credentials_file_option (default_aws_path c ''credentials'')) in
      and_then (path_exists (dv_files env) config_path (label @ '' config file'')) (\<lambda>config_exists.
      and_then (path_exists (dv_files env) credentials_path (label @ '' shared credentials file'')) (\<lambda>credentials_exists.
        if has_option c path config_file_option \<and> \<not> config_exists
        then Inl (credential_error (label @ '' config file does not exist: '' @ quoted config_path))
        else and_then (config_profile (dv_files env) config_exists config_path profile label) (\<lambda>result.
        if has_option c path credentials_file_option \<and> \<not> credentials_exists
        then Inl (credential_error (label @ '' shared credentials file does not exist: '' @ quoted credentials_path))
        else shared_profile (dv_files env) credentials_exists credentials_path profile label result))))"

definition aws_json_credentials :: "string \<Rightarrow> provider_credentials" where
  "aws_json_credentials json = empty_credentials\<lparr>
     access_key_id := value_or [] (json_string json ''AccessKeyId''),
     secret_access_key := value_or [] (json_string json ''SecretAccessKey''),
     session_token := value_or (value_or [] (json_string json ''SessionToken'')) (json_string json ''Token''),
     expires_at := (case json_string json ''Expiration'' of None \<Rightarrow> 0 | Some t \<Rightarrow> iso8601_epoch t)\<rparr>"

definition credentials_from_aws_profile :: "discovery_env \<Rightarrow> aws_profile \<Rightarrow> string \<Rightarrow> int \<Rightarrow> provider_credentials request_result" where
  "credentials_from_aws_profile env profile label timeout_seconds =
     (if profile_value profile ''sso_session'' \<noteq> [] \<or> profile_value profile ''sso_start_url'' \<noteq> []
      then Inl (credential_error (label @ '' IAM Identity Center profiles require a custom credential provider''))
      else if profile_value profile ''role_arn'' \<noteq> [] \<or> profile_value profile ''source_profile'' \<noteq> [] \<or>
              profile_value profile ''web_identity_token_file'' \<noteq> []
      then Inl (credential_error (label @ '' AssumeRole profiles require a custom credential provider''))
      else if profile_value profile ''credential_process'' \<noteq> []
      then and_then (run_credential_process env (profile_value profile ''credential_process'') label timeout_seconds) (\<lambda>out.
             (let result = aws_json_credentials out
              in if access_key_id result = [] \<or> secret_access_key result = []
                 then Inl (credential_error (label @ '' credential_process response is incomplete''))
                 else Inr (result\<lparr>pc_region := profile_value profile ''region''\<rparr>)))
      else (let result = empty_credentials\<lparr>access_key_id := profile_value profile ''aws_access_key_id'',
                  secret_access_key := profile_value profile ''aws_secret_access_key'',
                  session_token := profile_value profile ''aws_session_token'', pc_region := profile_value profile ''region''\<rparr>
            in if (access_key_id result = []) \<noteq> (secret_access_key result = [])
               then Inl (credential_error (label @ '' profile access key and secret must be set together''))
               else Inr result))"

section \<open>Source\<close>

definition key_pair :: "config_builder \<Rightarrow> string \<Rightarrow> string \<Rightarrow> string \<Rightarrow> string \<Rightarrow> provider_credentials" where
  "key_pair c path access secret session = empty_credentials\<lparr>access_key_id := config_option c path access [],
     secret_access_key := config_option c path secret [], session_token := config_option c path session []\<rparr>"

definition load_source_credentials :: "discovery_env \<Rightarrow> config_snapshot \<Rightarrow> string \<Rightarrow> provider_credentials loader" where
  "load_source_credentials env cfg path =
     (let c = cs_layers cfg;
          direct = key_pair c path ''SOURCE_ACCESS_KEY_ID'' ''SOURCE_SECRET_ACCESS_KEY'' ''SOURCE_SESSION_TOKEN'';
          profile_name = config_option c path ''SOURCE_PROFILE'' ''source-coop'' in
      ld_lift
       (if access_key_id direct \<noteq> [] \<or> secret_access_key direct \<noteq> []
        then (if access_key_id direct = [] \<or> secret_access_key direct = []
              then Inl (credential_error (path @ '': Source access key and secret must be set together''))
              else Inr direct)
        else and_then (read_aws_profile env c path profile_name ''SOURCE_CONFIG_FILE'' ''SOURCE_SHARED_CREDENTIALS_FILE'' ''Source'') (\<lambda>profile.
          if \<not> ap_found profile then Inl (credential_error (path @ '': Source profile '' @ quoted profile_name @ '' was not found''))
          else and_then (credentials_from_aws_profile env profile ''Source'' (request_timeout_seconds (cs_client cfg))) (\<lambda>credentials.
            if access_key_id credentials = [] \<or> secret_access_key credentials = []
            then Inl (credential_error (path @ '': Source profile '' @ quoted profile_name @ '' did not provide credentials''))
            else Inr credentials))))"

section \<open>The AWS chain\<close>

definition SAFE_HOSTS :: "string list" where
  "SAFE_HOSTS = [''127.0.0.1'', ''::1'', ''localhost'', ''169.254.170.2'']"

definition safe_container_endpoint :: "string \<Rightarrow> bool" where
  "safe_container_endpoint url =
     (case split_url url of
        Inl e \<Rightarrow> False
      | Inr parts \<Rightarrow>
          (let scheme = lower (up_scheme parts); authority = up_authority parts
           in if scheme = ''https'' then True
              else if scheme \<noteq> ''http'' \<or> find_char CHR ''@'' authority \<noteq> None then False
              else if starts_with ''['' authority
              then (case find_char CHR '']'' authority of
                      None \<Rightarrow> False
                    | Some closing \<Rightarrow>
                        if closing + 1 < length authority \<and> authority ! (closing + 1) \<noteq> CHR '':'' then False
                        else lower (substr 1 (Some (closing - 1)) authority) \<in> set SAFE_HOSTS)
              else lower (substr 0 (find_char CHR '':'' authority) authority) \<in> set SAFE_HOSTS))"

definition xml_value :: "string \<Rightarrow> string \<Rightarrow> string option" where
  "xml_value xml name =
     (case find_sub (''<'' @ name @ ''>'') xml of
        None \<Rightarrow> None
      | Some first \<Rightarrow>
          (let rest = drop (first + length (''<'' @ name @ ''>'')) xml
           in map_option (\<lambda>n. take n rest) (find_sub (''</'' @ name @ ''>'') rest)))"

definition complete_session :: "provider_credentials \<Rightarrow> int \<Rightarrow> bool" where
  "complete_session r now \<longleftrightarrow> access_key_id r \<noteq> [] \<and> secret_access_key r \<noteq> [] \<and> session_token r \<noteq> [] \<and> now < expires_at r"

definition web_identity_form :: "string \<Rightarrow> string \<Rightarrow> string \<Rightarrow> string" where
  "web_identity_form role session_name token =
     ''Action=AssumeRoleWithWebIdentity&Version=2011-06-15&RoleArn='' @ form_encode role @
     ''&RoleSessionName='' @ form_encode session_name @ ''&WebIdentityToken='' @ form_encode (trim token)"

definition aws_web_identity ::
  "discovery_env \<Rightarrow> string \<Rightarrow> string \<Rightarrow> string \<Rightarrow> string \<Rightarrow> http_request_options \<Rightarrow> provider_credentials loader" where
  "aws_web_identity env role token_file session_name endpoint http =
     ld_bind (ld_lift (read_text_file (dv_files env) token_file ''AWS web identity token'')) (\<lambda>token.
     ld_bind (ld_now env) (\<lambda>started.
       (let session = (if session_name = [] then ''karu-'' @ int_string started else session_name) in
     ld_bind (credential_request env ''POST'' endpoint (web_identity_form role session token) [form_header] 5 http) (\<lambda>response.
       if \<not> success response
       then ld_lift (Inl (credential_error (''AWS web identity exchange returned HTTP '' @ int_string (hr_status response))))
       else ld_bind (ld_now env) (\<lambda>now.
         (let body = hr_body response;
              result = empty_credentials\<lparr>access_key_id := value_or [] (xml_value body ''AccessKeyId''),
                secret_access_key := value_or [] (xml_value body ''SecretAccessKey''),
                session_token := value_or [] (xml_value body ''SessionToken''),
                expires_at := iso8601_epoch (value_or [] (xml_value body ''Expiration''))\<rparr>
          in ld_lift (if complete_session result now then Inr result
                      else Inl (credential_error ''AWS web identity response is incomplete''))))))))"

definition container_url :: "config_builder \<Rightarrow> string \<Rightarrow> string" where
  "container_url c path =
     (let full = config_option c path ''AWS_CONTAINER_CREDENTIALS_FULL_URI'' [];
          relative = config_option c path ''AWS_CONTAINER_CREDENTIALS_RELATIVE_URI'' []
      in if full \<noteq> [] then full else if relative \<noteq> [] then ''http://169.254.170.2'' @ relative else [])"

definition container_authorization :: "discovery_env \<Rightarrow> config_builder \<Rightarrow> string \<Rightarrow> string request_result" where
  "container_authorization env c path =
     (let authorization = config_option c path ''AWS_CONTAINER_AUTHORIZATION_TOKEN'' [];
          token_file = expand_user_path c (config_option c path ''AWS_CONTAINER_AUTHORIZATION_TOKEN_FILE'' [])
      in if authorization = [] \<and> token_file \<noteq> []
         then and_then (read_text_file (dv_files env) token_file ''AWS container authorization token'') (\<lambda>loaded. Inr (trim loaded))
         else Inr authorization)"

definition aws_container :: "discovery_env \<Rightarrow> config_snapshot \<Rightarrow> string \<Rightarrow> provider_credentials loader" where
  "aws_container env cfg path =
     (let url = container_url (cs_layers cfg) path
      in if \<not> safe_container_endpoint url
         then ld_lift (Inl (credential_error ''AWS_CONTAINER_CREDENTIALS_FULL_URI must use HTTPS or a loopback/ECS host''))
         else ld_bind (ld_lift (container_authorization env (cs_layers cfg) path)) (\<lambda>authorization.
              ld_bind (credential_request env ''GET'' url [] (if authorization \<noteq> [] then [(''Authorization'', authorization)] else [])
                         2 (cs_http cfg)) (\<lambda>response.
              if \<not> success response then ld_lift (Inl (credential_error ''AWS container credentials request failed''))
              else ld_bind (ld_now env) (\<lambda>now.
                (let result = aws_json_credentials (hr_body response)
                 in ld_lift (if complete_session result now then Inr result
                             else Inl (credential_error ''AWS container credentials are incomplete'')))))))"

definition IMDS :: string where "IMDS = ''http://169.254.169.254/latest/''"

definition IMDS_ROLES :: string where "IMDS_ROLES = IMDS @ ''meta-data/iam/security-credentials/''"

definition aws_instance :: "discovery_env \<Rightarrow> config_snapshot \<Rightarrow> int \<Rightarrow> provider_credentials loader" where
  "aws_instance env cfg metadata_timeout =
     when_success (credential_request env ''PUT'' (IMDS @ ''api/token'') [] [(''X-aws-ec2-metadata-token-ttl-seconds'', ''21600'')]
       metadata_timeout (cs_http cfg)) (\<lambda>token.
     (let headers = [(''X-aws-ec2-metadata-token'', trim (hr_body token))] in
     when_success (credential_request env ''GET'' IMDS_ROLES [] headers metadata_timeout (cs_http cfg)) (\<lambda>role_name.
     when_success (credential_request env ''GET'' (IMDS_ROLES @ form_encode (trim (hr_body role_name))) [] headers
       metadata_timeout (cs_http cfg)) (\<lambda>response.
     ld_bind (ld_now env) (\<lambda>now.
       (let result = aws_json_credentials (hr_body response)
        in ld_lift (Inr (if complete_session result now then result else empty_credentials))))))))"

definition aws_metadata_timeout :: "config_builder \<Rightarrow> string \<Rightarrow> int request_result" where
  "aws_metadata_timeout c path =
     (case from_chars_signed 64 (config_option c path ''AWS_METADATA_SERVICE_TIMEOUT'' ''1'') of
        Some (v, []) \<Rightarrow> (if 1 \<le> v \<and> v \<le> 60 then Inr v
                         else Inl (config_error ''AWS_METADATA_SERVICE_TIMEOUT must be in [1, 60]''))
      | _ \<Rightarrow> Inl (config_error ''AWS_METADATA_SERVICE_TIMEOUT must be in [1, 60]''))"

definition try_imds :: "config_builder \<Rightarrow> string \<Rightarrow> bool" where
  "try_imds c path \<longleftrightarrow> \<not> option_is_true (config_option c path ''AWS_EC2_METADATA_DISABLED'' ''NO'') \<and>
     (discover_default_credentials c \<or> has_option c path ''AWS_EC2_METADATA_DISABLED'')"

text \<open>Behind the profile: the container, then the instance.\<close>

definition aws_ambient :: "discovery_env \<Rightarrow> config_snapshot \<Rightarrow> string \<Rightarrow> provider_credentials loader" where
  "aws_ambient env cfg path =
     (let c = cs_layers cfg in
      if container_url c path \<noteq> [] then aws_container env cfg path
      else ld_bind (ld_lift (aws_metadata_timeout c path)) (\<lambda>metadata_timeout.
           if try_imds c path then aws_instance env cfg metadata_timeout else ld_lift (Inr empty_credentials)))"

definition aws_from_profile :: "discovery_env \<Rightarrow> config_snapshot \<Rightarrow> string \<Rightarrow> aws_profile \<Rightarrow> provider_credentials loader" where
  "aws_from_profile env cfg path loaded =
     (let c = cs_layers cfg;
          role = config_option c path ''AWS_ROLE_ARN'' (profile_value loaded ''role_arn'');
          web_token = expand_user_path c
            (config_option c path ''AWS_WEB_IDENTITY_TOKEN_FILE'' (profile_value loaded ''web_identity_token_file'')) in
      if role \<noteq> [] \<and> web_token \<noteq> []
      then ld_bind (aws_web_identity env role web_token
             (config_option c path ''AWS_ROLE_SESSION_NAME'' (profile_value loaded ''role_session_name''))
             (config_option c path ''AWS_STS_ENDPOINT'' ''https://sts.amazonaws.com/'') (cs_http cfg))
             (\<lambda>credentials. ld_lift (Inr (credentials\<lparr>pc_region := profile_value loaded ''region''\<rparr>)))
      else if role \<noteq> []
      then ld_lift (Inl (credential_error ''AWS chained AssumeRole profiles require a custom credential provider; credential_process and web identity profiles are supported natively''))
      else ld_bind (ld_lift (credentials_from_aws_profile env loaded ''AWS'' (request_timeout_seconds (cs_client cfg)))) (\<lambda>credentials.
           if access_key_id credentials \<noteq> [] then ld_lift (Inr credentials) else aws_ambient env cfg path))"

definition load_aws_credentials :: "discovery_env \<Rightarrow> config_snapshot \<Rightarrow> string \<Rightarrow> provider_credentials loader" where
  "load_aws_credentials env cfg path =
     (let c = cs_layers cfg;
          direct = key_pair c path ''AWS_ACCESS_KEY_ID'' ''AWS_SECRET_ACCESS_KEY'' ''AWS_SESSION_TOKEN'';
          profile = config_option c path ''AWS_PROFILE'' ''default'' in
      if access_key_id direct \<noteq> [] \<or> secret_access_key direct \<noteq> []
      then ld_lift (if access_key_id direct = [] \<or> secret_access_key direct = []
                    then Inl (credential_error (path @ '': AWS access key and secret must be set together'')) else Inr direct)
      else ld_bind (ld_lift (read_aws_profile env c path profile ''AWS_CONFIG_FILE'' ''AWS_SHARED_CREDENTIALS_FILE'' ''AWS'')) (\<lambda>loaded.
           if has_option c path ''AWS_PROFILE'' \<and> \<not> ap_found loaded
           then ld_lift (Inl (credential_error (''AWS profile '' @ quoted profile @ '' was not found'')))
           else aws_from_profile env cfg path loaded))"

section \<open>What AWS is sent\<close>

text \<open>
  The authorities that may be asked without encryption, with or without a port: the loopback names and the
  address of the ECS agent.
\<close>

definition local_authority :: "string \<Rightarrow> bool" where
  "local_authority a \<longleftrightarrow>
     list_ex (\<lambda>h. lower a = h \<or> starts_with (h @ '':'') (lower a) \<or>
       lower a = ''['' @ h @ '']'' \<or> starts_with (''['' @ h @ '']:'') (lower a)) SAFE_HOSTS"

definition confined :: "string \<Rightarrow> bool" where
  "confined url = (case split_url url of Inl e \<Rightarrow> False | Inr parts \<Rightarrow> up_scheme parts = ''https'' \<or> local_authority (up_authority parts))"

lemma lower_append: "lower (a @ b) = lower a @ lower b"
  by (simp add: lower_def)

lemma lower_mark: "c \<in> {CHR '':'', CHR ''['', CHR '']''} \<Longrightarrow> lower (c # s) = c # lower s"
  by (auto simp: lower_def ascii_lower_def)

text \<open>A host cut out of an authority, and what stands around it.\<close>

lemma plain_host:
  assumes "lower (substr 0 (find_char CHR '':'' a) a) = h"
  shows "lower a = h \<or> starts_with (h @ '':'') (lower a)"
proof (cases "find_char CHR '':'' a")
  case None
  with assms show ?thesis by (simp add: substr_def)
next
  case (Some k)
  then obtain u v where "a = u @ CHR '':'' # v" "length u = k" by (rule find_char_SomeE)
  with assms Some show ?thesis by (simp add: substr_def lower_append lower_mark)
qed

lemma bracketed_host:
  assumes "starts_with ''['' a" "find_char CHR '']'' a = Some k"
    and "\<not> (k + 1 < length a \<and> a ! (k + 1) \<noteq> CHR '':'')"
    and "lower (substr 1 (Some (k - 1)) a) = h"
  shows "lower a = ''['' @ h @ '']'' \<or> starts_with (''['' @ h @ '']:'') (lower a)"
proof -
  obtain u v where a: "a = u @ CHR '']'' # v" "length u = k" using assms(2) by (rule find_char_SomeE)
  then obtain w where w: "u = CHR ''['' # w" using assms(1) by (cases u) auto
  have h: "lower w = h" using a w assms(4) by (auto simp: substr_def)
  have "v = [] \<or> (\<exists>v'. v = CHR '':'' # v')"
  proof (cases v)
    case (Cons x v')
    have "a ! (k + 1) = x" using a Cons by (simp add: nth_append)
    with assms(3) a Cons show ?thesis by auto
  qed simp
  with a w h show ?thesis by (auto simp: lower_append lower_mark lower_def [of "[]"])
qed

lemma safe_confined:
  assumes "safe_container_endpoint url"
  shows "confined url"
proof -
  obtain parts where parts: "split_url url = Inr parts"
    using assms by (cases "split_url url") (auto simp: safe_container_endpoint_def)
  define a where "a = up_authority parts"
  have scheme: "lower (up_scheme parts) = up_scheme parts"
    using parts by (auto simp: split_url_def Let_def lower_def ascii_lower_def split: option.splits if_splits prod.splits)
  note sce = assms [unfolded safe_container_endpoint_def parts sum.case Let_def scheme, folded a_def]
  show ?thesis
  proof (cases "up_scheme parts = ''https''")
    case True
    then show ?thesis by (simp add: confined_def parts)
  next
    case False
    have "local_authority a"
    proof (cases "starts_with ''['' a")
      case True
      with sce False obtain k where k: "find_char CHR '']'' a = Some k" by (cases "find_char CHR '']'' a") (auto split: if_splits)
      with sce False True have "\<not> (k + 1 < length a \<and> a ! (k + 1) \<noteq> CHR '':'')"
        "lower (substr 1 (Some (k - 1)) a) \<in> set SAFE_HOSTS" by (auto split: if_splits)
      then show ?thesis unfolding local_authority_def list_ex_iff using bracketed_host [OF True k] by blast
    next
      case False': False
      with sce False have "lower (substr 0 (find_char CHR '':'' a) a) \<in> set SAFE_HOSTS" by (auto split: if_splits)
      then show ?thesis unfolding local_authority_def list_ex_iff using plain_host by blast
    qed
    then show ?thesis by (simp add: confined_def parts a_def)
  qed
qed

text \<open>
  The requests of the chain: the exchange of a web identity token, the container, and the instance service,
  whose answers enter the path only in encoded form.
\<close>

definition aws_call :: "config_snapshot \<Rightarrow> string \<Rightarrow> http_call \<Rightarrow> bool" where
  "aws_call cfg path call \<longleftrightarrow>
     (let c = cs_layers cfg; url = hc_url call; hs = map fst (hc_headers call)
      in url = config_option c path ''AWS_STS_ENDPOINT'' ''https://sts.amazonaws.com/'' \<and> hc_headers call = [form_header] \<or>
         url = container_url c path \<and> confined url \<and> hs \<in> {[], [''Authorization'']} \<or>
         try_imds c path \<and> (\<exists>tail. url = IMDS @ ''api/token'' \<or> url = IMDS_ROLES @ form_encode tail) \<and>
           ''Authorization'' \<notin> set hs)"

lemma aws_sends: "sends (aws_call cfg path) (load_aws_credentials env cfg path)"
  unfolding load_aws_credentials_def aws_from_profile_def aws_ambient_def aws_container_def aws_instance_def
    aws_web_identity_def Let_def
  by (intro sends_intros)
    (auto simp: aws_call_def Let_def safe_confined form_encode_def intro: exI [of _ "[]"])

definition both_keys :: "provider_credentials \<Rightarrow> provider_credentials option" where
  "both_keys d = (if access_key_id d \<noteq> [] \<and> secret_access_key d \<noteq> [] then Some d else None)"

definition aws_given :: "config_snapshot \<Rightarrow> string \<Rightarrow> provider_credentials option" where
  "aws_given cfg path = both_keys (key_pair (cs_layers cfg) path ''AWS_ACCESS_KEY_ID'' ''AWS_SECRET_ACCESS_KEY'' ''AWS_SESSION_TOKEN'')"

definition source_given :: "config_snapshot \<Rightarrow> string \<Rightarrow> provider_credentials option" where
  "source_given cfg path =
     both_keys (key_pair (cs_layers cfg) path ''SOURCE_ACCESS_KEY_ID'' ''SOURCE_SECRET_ACCESS_KEY'' ''SOURCE_SESSION_TOKEN'')"

lemma no_metadata_names: "\<not> metadata_call call" if "hc_headers call = [form_header] \<or> map fst (hc_headers call) \<in> {[], [''Authorization'']}"
proof -
  have "map fst (hc_headers call) \<in> {[], [''Authorization''], [''Content-Type'']}" using that by (auto simp: form_header_def)
  then have "set (map fst (hc_headers call)) \<inter> set METADATA_HEADERS = {}" by (auto simp: METADATA_HEADERS_def)
  then show ?thesis by (auto simp: metadata_call_def list_ex_iff)
qed

interpretation aws: credential_source "load_aws_credentials env cfg" "aws_given cfg" "try_imds (cs_layers cfg)" for env cfg
proof (unfold_locales, goal_cases)
  case (1 p c sent)
  then show ?case by (auto simp: aws_given_def both_keys_def load_aws_credentials_def Let_def ld_lift_def split: if_splits)
next
  case (2 p)
  have "aws_call cfg p call \<Longrightarrow> \<not> metadata_call call" for call
    using 2 by (intro no_metadata_names) (auto simp: aws_call_def Let_def)
  then show ?case by (blast intro: sends_mono [OF _ aws_sends])
qed

interpretation source: credential_source "load_source_credentials env cfg" "source_given cfg" "\<lambda>p. False" for env cfg
proof (unfold_locales, goal_cases)
  case (1 p c sent)
  then show ?case by (auto simp: source_given_def both_keys_def load_source_credentials_def Let_def ld_lift_def split: if_splits)
next
  case (2 p)
  show ?case unfolding load_source_credentials_def Let_def by (intro sends_intros)
qed

text \<open>A machine whose container endpoint is set, as the witnesses use it.\<close>

definition sample_options :: "(string \<times> string) list \<Rightarrow> config_snapshot" where
  "sample_options opts = \<lparr>cs_layers = empty_builder\<lparr>cb_explicit := map_of opts\<rparr>, cs_client = default_client_options,
     cs_http = default_http_request_options, cs_headers = [], has_configured_headers = False\<rparr>"

definition sample_machine :: "http_outcome \<Rightarrow> discovery_env" where
  "sample_machine answer = \<lparr>dv_files = \<lparr>file_exists = \<lambda>p. Inr False, file_content = \<lambda>p. None\<rparr>, dv_init = \<lambda>n. True,
     dv_curl = \<lparr>curl_version = 0x080500, curl_tls = ''OpenSSL/3.0'', default_ca_path = False, default_bundle = True,
       hashed_ca_directory = False\<rparr>,
     dv_setup = \<lambda>n call. None, dv_http = \<lambda>n call. answer, dv_write_error = ''write'', dv_now = \<lambda>n. 1000,
     dv_command = \<lambda>command limit timeout. Inl ''none''\<rparr>"

definition sample_container :: config_snapshot where
  "sample_container = sample_options [(''AWS_CONTAINER_CREDENTIALS_FULL_URI'', ''http://localhost:80/creds''),
     (''AWS_CONTAINER_AUTHORIZATION_TOKEN'', ''secret'')]"

lemma sample_container_sends:
  "map (\<lambda>call. (hc_url call, hc_headers call)) (snd (load_aws_credentials (sample_machine (Http_Failed ''down'')) sample_container ''/vsis3/b/k'' []))
     = [(''http://localhost:80/creds'', [(''Authorization'', ''secret'')])]"
  by code_simp

text \<open>
  C16. Whatever the files, the clock and the servers do, a load of AWS credentials sends its requests to three
  places only: the configured STS endpoint, the container endpoint, and, where the configuration permits it, the
  instance service under two fixed paths, of which a server's answer can only fill in an encoded last
  segment. An authorization token goes out only over HTTPS or to a loopback or ECS authority.
\<close>

theorem aws_requests_confined:
  assumes "call \<in> set (snd (load_aws_credentials env cfg path []))"
  shows "aws_call cfg path call \<and> (''Authorization'' \<in> fst ` set (hc_headers call) \<longrightarrow> confined (hc_url call))"
proof -
  have "aws_call cfg path call" using sendsD [OF aws_sends] assms by (auto simp: list_all_iff)
  then show ?thesis by (auto simp: aws_call_def Let_def form_header_def)
qed

theorem aws_requests_confined_witness:
  "\<exists>call. call \<in> set (snd (load_aws_credentials (sample_machine (Http_Failed ''down'')) sample_container ''/vsis3/b/k'' [])) \<and>
     hc_headers call = [(''Authorization'', ''secret'')] \<and> confined (hc_url call)"
proof -
  obtain call where c: "snd (load_aws_credentials (sample_machine (Http_Failed ''down'')) sample_container ''/vsis3/b/k'' []) = [call]"
    "hc_headers call = [(''Authorization'', ''secret'')]"
    using sample_container_sends by auto
  then show ?thesis using aws_requests_confined [of call "sample_machine (Http_Failed ''down'')" sample_container "''/vsis3/b/k''"] by auto
qed

text \<open>The entries of a profile are those of the config file, overridden one by one by the shared credentials.\<close>

definition entries_of :: "files \<Rightarrow> string \<Rightarrow> string \<Rightarrow> ini_section" where
  "entries_of fs file name =
     (case (file_exists fs file, read_ini fs file []) of
        (Inr True, Inr f) \<Rightarrow> value_or Map.empty (f name)
      | _ \<Rightarrow> Map.empty)"

lemma read_ini_entries:
  "read_ini fs file purpose = Inr f \<Longrightarrow> file_exists fs file = Inr True \<Longrightarrow> entries_of fs file name = value_or Map.empty (f name)"
  by (auto simp: entries_of_def read_ini_def read_text_file_def and_then_def split: option.splits prod.splits if_splits)

lemma config_profile_entries:
  assumes "config_profile fs b file profile label = Inr p" "file_exists fs file = Inr b"
  shows "ap_values p = entries_of fs file (if profile = ''default'' then ''default'' else ''profile '' @ profile)"
proof (cases b)
  case False
  with assms show ?thesis by (auto simp: config_profile_def entries_of_def)
next
  case True
  with assms(1) obtain ini where "read_ini fs file (label @ '' config'') = Inr ini"
    by (auto simp: config_profile_def and_then_Inr)
  with assms True show ?thesis by (auto simp: config_profile_def read_ini_entries value_or_def split: option.splits if_splits)
qed

lemma shared_profile_entries:
  assumes "shared_profile fs b file profile label q = Inr p" "file_exists fs file = Inr b"
  shows "ap_values p = ap_values q ++ entries_of fs file profile"
proof (cases b)
  case False
  with assms show ?thesis by (auto simp: shared_profile_def entries_of_def)
next
  case True
  with assms(1) obtain ini where "read_ini fs file (label @ '' shared credentials'') = Inr ini"
    by (auto simp: shared_profile_def and_then_Inr)
  with assms True show ?thesis by (auto simp: shared_profile_def read_ini_entries value_or_def split: option.splits)
qed

lemma path_exists_Inr: "path_exists fs file purpose = Inr b \<longleftrightarrow> file_exists fs file = Inr b"
  by (simp add: path_exists_def split: sum.splits)

lemma profile_entries:
  assumes "read_aws_profile env c path profile conf cred label = Inr p"
  shows "ap_values p =
     entries_of (dv_files env) (expand_user_path c (config_option c path conf (default_aws_path c ''config'')))
       (if profile = ''default'' then ''default'' else ''profile '' @ profile) ++
     entries_of (dv_files env) (expand_user_path c (config_option c path cred (default_aws_path c ''credentials''))) profile"
proof -
  obtain b d q where
    "file_exists (dv_files env) (expand_user_path c (config_option c path conf (default_aws_path c ''config''))) = Inr b"
    "file_exists (dv_files env) (expand_user_path c (config_option c path cred (default_aws_path c ''credentials''))) = Inr d"
    "config_profile (dv_files env) b (expand_user_path c (config_option c path conf (default_aws_path c ''config''))) profile label = Inr q"
    "shared_profile (dv_files env) d (expand_user_path c (config_option c path cred (default_aws_path c ''credentials''))) profile label q = Inr p"
    using assms unfolding read_aws_profile_def Let_def and_then_Inr path_exists_Inr by (auto simp: and_then_Inr split: if_splits)
  then show ?thesis by (simp add: config_profile_entries shared_profile_entries)
qed

end
