(* ===== verification/Karu_Cloud_Credentials.thy ===== *)
theory Karu_Cloud_Credentials
  imports Karu_Aws_Credentials
begin

text \<open>
  The credentials of Google Cloud Storage and Azure: \<open>src/src/backends/gcs_credentials.cpp\<close> and
  \<open>src/src/backends/azure_credentials.cpp\<close>, with the assertion a service account signs. OpenSSL is a parameter.
\<close>

section \<open>Assertions\<close>

fun replace_newlines :: "string \<Rightarrow> string" where
  "replace_newlines [] = []"
| "replace_newlines (c # s) =
     (if c = CHR 0x5C \<and> s \<noteq> [] \<and> hd s = CHR ''n'' then CHR 0x0A # replace_newlines (tl s) else c # replace_newlines s)"

definition normalize_pem :: "string \<Rightarrow> string" where
  "normalize_pem v = filter (\<lambda>c. c \<noteq> CHR 0x0D) (replace_newlines v)"

definition base64url :: "crypto \<Rightarrow> bytes \<Rightarrow> string" where
  "base64url cr bs =
     (let result = map (\<lambda>c. if c = CHR ''+'' then CHR ''-'' else if c = CHR ''/'' then CHR ''_'' else c) (base64 cr bs)
      in rev (dropWhile (\<lambda>c. c = CHR ''='') (rev result)))"

definition escape_char :: "char \<Rightarrow> string" where
  "escape_char c =
     (if c = CHR 0x22 then [CHR 0x5C, CHR 0x22]
      else if c = CHR 0x5C then [CHR 0x5C, CHR 0x5C]
      else if c = CHR 0x0A then [CHR 0x5C, CHR ''n'']
      else if c = CHR 0x0D then [CHR 0x5C, CHR ''r'']
      else if c = CHR 0x09 then [CHR 0x5C, CHR ''t'']
      else [c])"

definition json_escape :: "string \<Rightarrow> string" where
  "json_escape v = concat (map escape_char v)"

text \<open>What the signer uses of OpenSSL: whether an allocation or a call succeeds, the key in a PEM text, and
  the signature of a message.\<close>

record signer =
  sg_crypto :: crypto
  sg_reader :: bool
  sg_key :: "string \<Rightarrow> nat option"
  sg_context :: bool
  sg_init :: "nat \<Rightarrow> bool"
  sg_size :: "nat \<Rightarrow> bool"
  sg_sign :: "nat \<Rightarrow> string \<Rightarrow> bytes option"

definition rsa_sha256 :: "signer \<Rightarrow> string \<Rightarrow> string \<Rightarrow> string request_result" where
  "rsa_sha256 sg private_key message =
     (if \<not> sg_reader sg then Inl \<lparr>re_status = KARU_ERR_NOMEM, re_message = ''cannot allocate key reader''\<rparr>
      else case sg_key sg private_key of
        None \<Rightarrow> Inl (credential_error ''service account private_key is invalid'')
      | Some key \<Rightarrow>
          if \<not> sg_context sg then Inl \<lparr>re_status = KARU_ERR_NOMEM, re_message = ''cannot allocate signer''\<rparr>
          else if \<not> sg_init sg key then Inl (credential_error ''cannot initialize service account signature'')
          else if \<not> sg_size sg key then Inl (credential_error ''cannot size service account signature'')
          else (case sg_sign sg key message of
                  None \<Rightarrow> Inl (credential_error ''cannot sign service account assertion'')
                | Some signature \<Rightarrow> Inr (base64url (sg_crypto sg) signature)))"

definition jwt_claims :: "string \<Rightarrow> string \<Rightarrow> string \<Rightarrow> int \<Rightarrow> string" where
  "jwt_claims email scope token_uri now =
     ''{\"iss\":\"'' @ json_escape email @ ''\",\"scope\":\"'' @ json_escape scope @ ''\",\"aud\":\"'' @ json_escape token_uri @
     ''\",\"iat\":'' @ int_string now @ '',\"exp\":'' @ int_string (now + 3600) @ ''}''"

definition unsigned_assertion :: "crypto \<Rightarrow> string \<Rightarrow> string" where
  "unsigned_assertion cr claims = base64url cr ''{\"alg\":\"RS256\",\"typ\":\"JWT\"}'' @ ''.'' @ base64url cr claims"

section \<open>Google Cloud Storage\<close>

definition GCS_SCOPE :: string where "GCS_SCOPE = ''https://www.googleapis.com/auth/devstorage.read_only''"

definition GCS_TOKEN_URI :: string where "GCS_TOKEN_URI = ''https://oauth2.googleapis.com/token''"

definition gcs_service_account_values ::
  "discovery_env \<Rightarrow> signer \<Rightarrow> string \<Rightarrow> string \<Rightarrow> string \<Rightarrow> string \<Rightarrow> http_request_options \<Rightarrow> provider_credentials loader" where
  "gcs_service_account_values env sg email private_key token_uri scope options =
     (if email = [] \<or> private_key = [] then ld_lift (Inl (credential_error ''GCS service_account JSON is incomplete''))
      else ld_bind (ld_now env) (\<lambda>now.
        (let assertion = unsigned_assertion (sg_crypto sg) (jwt_claims email scope token_uri now) in
         ld_bind (ld_lift (rsa_sha256 sg private_key assertion)) (\<lambda>signature.
           oauth_token env token_uri
             (''grant_type=urn%3Aietf%3Aparams%3Aoauth%3Agrant-type%3Ajwt-bearer&assertion='' @
              form_encode (assertion @ ''.'' @ signature)) [] options))))"

definition gcs_service_account :: "discovery_env \<Rightarrow> signer \<Rightarrow> string \<Rightarrow> config_snapshot \<Rightarrow> string \<Rightarrow> provider_credentials loader" where
  "gcs_service_account env sg json cfg path =
     (case (json_string json ''client_email'', json_string json ''private_key'') of
        (Some email, Some private_key) \<Rightarrow>
          gcs_service_account_values env sg email (normalize_pem private_key)
            (value_or GCS_TOKEN_URI (json_string json ''token_uri''))
            (config_option (cs_layers cfg) path ''GCS_SCOPE'' GCS_SCOPE) (cs_http cfg)
      | _ \<Rightarrow> ld_lift (Inl (credential_error ''GCS service_account JSON is incomplete'')))"

definition gcs_authorized_user :: "discovery_env \<Rightarrow> string \<Rightarrow> config_snapshot \<Rightarrow> string \<Rightarrow> provider_credentials loader" where
  "gcs_authorized_user env json cfg path =
     (let get = (\<lambda>opt name. config_option (cs_layers cfg) path opt (value_or [] (json_string json name)));
          client_id = get ''GCS_CLIENT_ID'' ''client_id'';
          client_secret = get ''GCS_CLIENT_SECRET'' ''client_secret'';
          refresh_token = get ''GCS_REFRESH_TOKEN'' ''refresh_token''
      in if client_id = [] \<or> client_secret = [] \<or> refresh_token = []
         then ld_lift (Inl (credential_error ''GCS authorized_user credentials are incomplete''))
         else oauth_token env (value_or GCS_TOKEN_URI (json_string json ''token_uri''))
                (''client_id='' @ form_encode client_id @ ''&client_secret='' @ form_encode client_secret @
                 ''&refresh_token='' @ form_encode refresh_token @ ''&grant_type=refresh_token'') [] (cs_http cfg))"

definition external_subject :: "discovery_env \<Rightarrow> string \<Rightarrow> config_snapshot \<Rightarrow> string loader" where
  "external_subject env json cfg =
     (case (json_string json ''file'', json_string json ''url'') of
        (Some subject_file, _) \<Rightarrow>
          ld_bind (ld_lift (read_text_file (dv_files env) (expand_user_path (cs_layers cfg) subject_file) ''GCS external account subject token''))
            (\<lambda>loaded. ld_lift (Inr (trim loaded)))
      | (None, Some subject_url) \<Rightarrow>
          ld_bind (credential_request env ''GET'' subject_url [] [] 5 (cs_http cfg)) (\<lambda>loaded.
            if \<not> success loaded then ld_lift (Inl (credential_error ''GCS external account subject endpoint failed''))
            else ld_lift (Inr (trim (hr_body loaded))))
      | (None, None) \<Rightarrow> ld_lift (Inl (credential_error ''GCS external_account credential_source is incomplete'')))"

definition subject_field :: "string \<Rightarrow> string \<Rightarrow> string request_result" where
  "subject_field json subject =
     (let field = value_or [] (json_string json ''subject_token_field_name'')
      in if field = [] then Inr subject
         else (let extracted = value_or [] (json_string subject field)
               in if extracted = []
                  then Inl (credential_error ''GCS external account response has no configured subject token field'')
                  else Inr extracted))"

definition exchange_form :: "string \<Rightarrow> string \<Rightarrow> string \<Rightarrow> string \<Rightarrow> string" where
  "exchange_form audience scope subject_type subject =
     ''audience='' @ form_encode audience @ ''&grant_type=urn%3Aietf%3Aparams%3Aoauth%3Agrant-type%3Atoken-exchange'' @
     ''&requested_token_type=urn%3Aietf%3Aparams%3Aoauth%3Atoken-type%3Aaccess_token'' @
     ''&scope='' @ form_encode scope @ ''&subject_token_type='' @ form_encode subject_type @
     ''&subject_token='' @ form_encode subject"

definition impersonate :: "discovery_env \<Rightarrow> string \<Rightarrow> string \<Rightarrow> string \<Rightarrow> http_request_options \<Rightarrow> provider_credentials loader" where
  "impersonate env url scope token http =
     ld_bind (credential_request env ''POST'' url (''{\"scope\":[\"'' @ json_escape scope @ ''\"],\"lifetime\":\"3600s\"}'')
        [(''Authorization'', ''Bearer '' @ token), (''Content-Type'', ''application/json'')] 5 http) (\<lambda>response.
       if \<not> success response then ld_lift (Inl (credential_error ''GCS service account impersonation failed''))
       else ld_bind (ld_now env) (\<lambda>now.
         (let result = empty_credentials\<lparr>bearer_token := value_or [] (json_string (hr_body response) ''accessToken''),
                expires_at := iso8601_epoch (value_or [] (json_string (hr_body response) ''expireTime''))\<rparr>
          in ld_lift (if bearer_token result = [] \<or> expires_at result \<le> now
                      then Inl (credential_error ''GCS impersonation response has no token'') else Inr result))))"

definition gcs_external_account :: "discovery_env \<Rightarrow> string \<Rightarrow> config_snapshot \<Rightarrow> string \<Rightarrow> provider_credentials loader" where
  "gcs_external_account env json cfg path =
     (let scope = config_option (cs_layers cfg) path ''GCS_SCOPE'' GCS_SCOPE;
          token_url = value_or ''https://sts.googleapis.com/v1/token'' (json_string json ''token_url'');
          impersonation = value_or [] (json_string json ''service_account_impersonation_url'')
      in case (json_string json ''audience'', json_string json ''subject_token_type'') of
           (Some audience, Some subject_type) \<Rightarrow>
             ld_bind (external_subject env json cfg) (\<lambda>loaded.
             ld_bind (ld_lift (subject_field json loaded)) (\<lambda>subject.
             ld_bind (oauth_token env token_url (exchange_form audience scope subject_type subject) [] (cs_http cfg)) (\<lambda>exchanged.
               if impersonation = [] then ld_lift (Inr exchanged)
               else impersonate env impersonation scope (bearer_token exchanged) (cs_http cfg))))
         | _ \<Rightarrow> ld_lift (Inl (credential_error ''GCS external_account credential_source is incomplete'')))"

text \<open>The file of the application default credentials, empty when there is none.\<close>

definition adc_path :: "discovery_env \<Rightarrow> config_builder \<Rightarrow> string \<Rightarrow> string request_result" where
  "adc_path env c path =
     (let configured = expand_user_path c (config_option c path ''GOOGLE_APPLICATION_CREDENTIALS'' []);
          cloud_config = expand_user_path c (config_option c path ''CLOUDSDK_CONFIG'' []);
          found = (if cloud_config \<noteq> [] then without_trailing_slash cloud_config @ ''/application_default_credentials.json''
                   else default_gcloud_adc_path c)
      in if configured \<noteq> [] then Inr configured
         else if found = [] then Inr []
         else and_then (path_exists (dv_files env) found ''Google application credentials'') (\<lambda>exists.
              Inr (if exists then found else [])))"

definition gcs_from_adc :: "discovery_env \<Rightarrow> signer \<Rightarrow> config_snapshot \<Rightarrow> string \<Rightarrow> string \<Rightarrow> provider_credentials loader" where
  "gcs_from_adc env sg cfg path file =
     ld_bind (ld_lift (read_text_file (dv_files env) file ''Google application credentials'')) (\<lambda>json.
       (let type = value_or [] (json_string json ''type'')
        in if type = ''service_account'' then gcs_service_account env sg json cfg path
           else if type = ''authorized_user'' then gcs_authorized_user env json cfg path
           else if type = ''external_account'' then gcs_external_account env json cfg path
           else ld_lift (Inl (credential_error (''GOOGLE_APPLICATION_CREDENTIALS has unsupported type '' @ quoted type)))))"

definition gcs_from_key :: "discovery_env \<Rightarrow> signer \<Rightarrow> config_snapshot \<Rightarrow> string \<Rightarrow> provider_credentials loader" where
  "gcs_from_key env sg cfg path =
     (let c = cs_layers cfg;
          private_key = config_option c path ''GCS_PRIVATE_KEY'' [];
          private_key_file = expand_user_path c (config_option c path ''GCS_PRIVATE_KEY_FILE'' []);
          client_email = config_option c path ''GCS_CLIENT_EMAIL'' [] in
      if private_key \<noteq> [] \<and> private_key_file \<noteq> []
      then ld_lift (Inl (credential_error ''set only one of GCS_PRIVATE_KEY and GCS_PRIVATE_KEY_FILE''))
      else ld_bind (ld_lift (if private_key = [] \<and> private_key_file \<noteq> []
                             then read_text_file (dv_files env) private_key_file ''GCS OAuth private key'' else Inr private_key)) (\<lambda>key.
           if key = [] \<or> client_email = []
           then ld_lift (Inl (credential_error ''GCS_CLIENT_EMAIL and a GCS private key must be set together''))
           else gcs_service_account_values env sg client_email (normalize_pem key) GCS_TOKEN_URI
                  (config_option c path ''GCS_SCOPE'' GCS_SCOPE) (cs_http cfg)))"

definition gcs_try_metadata :: "config_builder \<Rightarrow> string \<Rightarrow> bool" where
  "gcs_try_metadata c path \<longleftrightarrow>
     (discover_default_credentials c \<or> has_option c path ''GCS_METADATA_ENDPOINT'' \<or> has_option c path ''GCS_METADATA_DISABLED'') \<and>
     \<not> option_is_true (config_option c path ''GCS_METADATA_DISABLED'' ''NO'')"

definition gcs_metadata :: "discovery_env \<Rightarrow> config_snapshot \<Rightarrow> string \<Rightarrow> provider_credentials loader" where
  "gcs_metadata env cfg path =
     (let c = cs_layers cfg;
          required = has_option c path ''GCS_METADATA_ENDPOINT'';
          endpoint = config_option c path ''GCS_METADATA_ENDPOINT''
            ''http://metadata.google.internal/computeMetadata/v1/instance/service-accounts/default/token'' in
      ld_bind (ld_try (credential_request env ''GET'' endpoint [] [(''Metadata-Flavor'', ''Google'')] 1 (cs_http cfg))) (\<lambda>response.
        case response of
          Inl e \<Rightarrow> ld_lift (if required then Inl e else Inr empty_credentials)
        | Inr r \<Rightarrow>
            if \<not> success r
            then ld_lift (if required then Inl (credential_error (''GCS credential endpoint returned HTTP '' @ int_string (hr_status r)))
                          else Inr empty_credentials)
            else ld_bind (ld_now env) (\<lambda>now.
              (let token = value_or [] (json_string (hr_body r) ''access_token'')
               in ld_lift
                    (if token \<noteq> []
                     then Inr (empty_credentials\<lparr>bearer_token := token,
                            expires_at := now + value_or 3600 (json_integer (hr_body r) ''expires_in'')\<rparr>)
                     else if required then Inl (credential_error ''GCS credential endpoint response has no access token'')
                     else Inr empty_credentials)))))"

definition gcs_direct :: "config_builder \<Rightarrow> string \<Rightarrow> provider_credentials" where
  "gcs_direct c path = empty_credentials\<lparr>bearer_token := config_option c path ''GCS_ACCESS_TOKEN'' [],
     access_key_id := config_option c path ''GCS_HMAC_ACCESS_KEY_ID'' [],
     secret_access_key := config_option c path ''GCS_HMAC_SECRET_ACCESS_KEY'' []\<rparr>"

definition load_gcs_credentials :: "discovery_env \<Rightarrow> signer \<Rightarrow> config_snapshot \<Rightarrow> string \<Rightarrow> provider_credentials loader" where
  "load_gcs_credentials env sg cfg path =
     (let c = cs_layers cfg; direct = gcs_direct c path in
      if bearer_token direct \<noteq> [] then ld_lift (Inr direct)
      else if access_key_id direct \<noteq> [] \<or> secret_access_key direct \<noteq> []
      then ld_lift (if access_key_id direct = [] \<or> secret_access_key direct = []
                    then Inl (credential_error (path @ '': GCS HMAC access key and secret must be set together'')) else Inr direct)
      else if config_option c path ''GCS_REFRESH_TOKEN'' [] \<noteq> [] then gcs_authorized_user env ''{}'' cfg path
      else ld_bind (ld_lift (adc_path env c path)) (\<lambda>file.
        if file \<noteq> [] then gcs_from_adc env sg cfg path file
        else if config_option c path ''GCS_PRIVATE_KEY'' [] \<noteq> [] \<or>
                expand_user_path c (config_option c path ''GCS_PRIVATE_KEY_FILE'' []) \<noteq> [] \<or>
                config_option c path ''GCS_CLIENT_EMAIL'' [] \<noteq> []
        then gcs_from_key env sg cfg path
        else if gcs_try_metadata c path then gcs_metadata env cfg path
        else ld_lift (Inr empty_credentials)))"

section \<open>Azure\<close>

definition azure_direct :: "config_builder \<Rightarrow> string \<Rightarrow> provider_credentials" where
  "azure_direct c path = empty_credentials\<lparr>account_name := config_option c path ''AZURE_STORAGE_ACCOUNT'' [],
     secret_access_key := config_option c path ''AZURE_STORAGE_ACCESS_KEY'' [],
     sas_token := config_option c path ''AZURE_STORAGE_SAS_TOKEN'' [],
     bearer_token := config_option c path ''AZURE_STORAGE_ACCESS_TOKEN'' []\<rparr>"

definition azure_principal :: "discovery_env \<Rightarrow> config_snapshot \<Rightarrow> string \<Rightarrow> string \<Rightarrow> string \<Rightarrow> string \<Rightarrow> string \<Rightarrow> provider_credentials loader" where
  "azure_principal env cfg path tenant client secret federated_file =
     (let c = cs_layers cfg in
      ld_bind (ld_lift
        (if federated_file \<noteq> []
         then and_then (read_text_file (dv_files env) federated_file ''Azure federated token'') (\<lambda>loaded.
                Inr (''&client_assertion_type=urn%3Aietf%3Aparams%3Aoauth%3Aclient-assertion-type%3Ajwt-bearer'' @
                     ''&client_assertion='' @ form_encode (trim loaded)))
         else Inr (''&client_secret='' @ form_encode secret))) (\<lambda>grant.
      oauth_token env
        (without_trailing_slash (config_option c path ''AZURE_AUTHORITY_HOST'' ''https://login.microsoftonline.com'') @
         ''/'' @ form_encode tenant @ ''/oauth2/v2.0/token'')
        (''client_id='' @ form_encode client @ grant @ ''&scope='' @
         form_encode (config_option c path ''AZURE_STORAGE_SCOPE'' ''https://storage.azure.com/.default'') @
         ''&grant_type=client_credentials'') [] (cs_http cfg)))"

record identity_selector =
  is_object :: string
  is_client :: string
  is_resource :: string

definition selector_count :: "identity_selector \<Rightarrow> nat" where
  "selector_count s = of_bool (is_object s \<noteq> []) + of_bool (is_client s \<noteq> []) + of_bool (is_resource s \<noteq> [])"

definition add_identity_selector :: "identity_selector \<Rightarrow> string \<Rightarrow> string" where
  "add_identity_selector s url =
     (if is_object s \<noteq> [] then url @ ''&object_id='' @ form_encode (is_object s)
      else if is_client s \<noteq> [] then url @ ''&client_id='' @ form_encode (is_client s)
      else if is_resource s \<noteq> [] then url @ ''&msi_res_id='' @ form_encode (is_resource s)
      else url)"

definition identity_url :: "string \<Rightarrow> string \<Rightarrow> string \<Rightarrow> identity_selector \<Rightarrow> string" where
  "identity_url endpoint version resource s =
     add_identity_selector s
       (endpoint @ (if find_char CHR ''?'' endpoint = None then ''?'' else ''&'') @
        ''api-version='' @ version @ ''&resource='' @ form_encode resource)"

definition azure_token :: "int \<Rightarrow> string \<Rightarrow> provider_credentials" where
  "azure_token now body = empty_credentials\<lparr>bearer_token := value_or [] (json_string body ''access_token''),
     expires_at := value_or (now + 3600) (json_integer body ''expires_on'')\<rparr>"

definition azure_app_service :: "discovery_env \<Rightarrow> config_snapshot \<Rightarrow> string \<Rightarrow> string \<Rightarrow> string \<Rightarrow> identity_selector \<Rightarrow> provider_credentials loader" where
  "azure_app_service env cfg path endpoint resource s =
     (let identity_header = config_option (cs_layers cfg) path ''IDENTITY_HEADER'' [] in
      ld_bind (credential_request env ''GET'' (identity_url endpoint ''2019-08-01'' resource s) []
        (if identity_header \<noteq> [] then [(''X-IDENTITY-HEADER'', identity_header)] else []) 2 (cs_http cfg)) (\<lambda>response.
        if \<not> success response
        then ld_lift (Inl (credential_error (''Azure App Service identity returned HTTP '' @ int_string (hr_status response))))
        else ld_bind (ld_now env) (\<lambda>now.
          (let result = azure_token now (hr_body response)
           in ld_lift (if bearer_token result = []
                       then Inl (credential_error ''Azure App Service identity response has no access token'') else Inr result)))))"

definition azure_managed :: "discovery_env \<Rightarrow> config_snapshot \<Rightarrow> string \<Rightarrow> string \<Rightarrow> identity_selector \<Rightarrow> provider_credentials loader" where
  "azure_managed env cfg path resource s =
     (let c = cs_layers cfg;
          required = has_option c path ''IMDS_ENDPOINT'';
          imds = config_option c path ''IMDS_ENDPOINT'' ''http://169.254.169.254/metadata/identity/oauth2/token'';
          direct = azure_direct c path in
      ld_bind (ld_try (credential_request env ''GET'' (identity_url imds ''2018-02-01'' resource s) [] [(''Metadata'', ''true'')] 1 (cs_http cfg)))
       (\<lambda>response. case response of
          Inl e \<Rightarrow> ld_lift (if required then Inl e else Inr direct)
        | Inr r \<Rightarrow>
            if \<not> success r
            then ld_lift (if required then Inl (credential_error (''Azure managed identity endpoint returned HTTP '' @ int_string (hr_status r)))
                          else Inr direct)
            else ld_bind (ld_now env) (\<lambda>now.
              (let result = azure_token now (hr_body r)
               in ld_lift (if bearer_token result \<noteq> [] then Inr result
                           else if required then Inl (credential_error ''Azure managed identity endpoint response has no access token'')
                           else Inr direct)))))"

definition azure_try_metadata :: "config_builder \<Rightarrow> string \<Rightarrow> bool" where
  "azure_try_metadata c path \<longleftrightarrow> discover_default_credentials c \<or> has_option c path ''IMDS_ENDPOINT''"

definition azure_identity :: "discovery_env \<Rightarrow> config_snapshot \<Rightarrow> string \<Rightarrow> provider_credentials loader" where
  "azure_identity env cfg path =
     (let c = cs_layers cfg; get = (\<lambda>name. config_option c path name []);
          tenant = get ''AZURE_TENANT_ID''; client = get ''AZURE_CLIENT_ID''; secret = get ''AZURE_CLIENT_SECRET'';
          federated_file = expand_user_path c (get ''AZURE_FEDERATED_TOKEN_FILE'');
          resource = config_option c path ''AZURE_STORAGE_RESOURCE'' ''https://storage.azure.com/'';
          s = \<lparr>is_object = get ''AZURE_IMDS_OBJECT_ID'', is_client = config_option c path ''AZURE_IMDS_CLIENT_ID'' client,
               is_resource = get ''AZURE_IMDS_MSI_RES_ID''\<rparr> in
      if tenant \<noteq> [] \<and> client \<noteq> [] \<and> (secret \<noteq> [] \<or> federated_file \<noteq> [])
      then azure_principal env cfg path tenant client secret federated_file
      else if 1 < selector_count s
      then ld_lift (Inl (config_error ''set only one Azure managed-identity selector: object ID, client ID, or resource ID''))
      else if get ''IDENTITY_ENDPOINT'' \<noteq> [] then azure_app_service env cfg path (get ''IDENTITY_ENDPOINT'') resource s
      else if \<not> azure_try_metadata c path then ld_lift (Inr (azure_direct c path))
      else azure_managed env cfg path resource s)"

definition load_azure_credentials :: "discovery_env \<Rightarrow> config_snapshot \<Rightarrow> string \<Rightarrow> provider_credentials loader" where
  "load_azure_credentials env cfg path =
     (let direct = azure_direct (cs_layers cfg) path in
      if has_option (cs_layers cfg) path ''AZURE_STORAGE_CONNECTION_STRING'' then ld_lift (Inr direct)
      else if sas_token direct \<noteq> [] \<or> bearer_token direct \<noteq> [] \<or> secret_access_key direct \<noteq> [] then ld_lift (Inr direct)
      else azure_identity env cfg path)"

section \<open>What the loaders send\<close>

definition gcs_given :: "config_snapshot \<Rightarrow> string \<Rightarrow> provider_credentials option" where
  "gcs_given cfg path =
     (let d = gcs_direct (cs_layers cfg) path in if bearer_token d \<noteq> [] then Some d else both_keys d)"

definition azure_given :: "config_snapshot \<Rightarrow> string \<Rightarrow> provider_credentials option" where
  "azure_given cfg path =
     (let d = azure_direct (cs_layers cfg) path
      in if has_option (cs_layers cfg) path ''AZURE_STORAGE_CONNECTION_STRING'' \<or> sas_token d \<noteq> [] \<or> bearer_token d \<noteq> [] \<or>
            secret_access_key d \<noteq> [] then Some d else None)"

definition plain_call :: "http_call \<Rightarrow> bool" where
  "plain_call call \<longleftrightarrow> \<not> metadata_call call"

lemma plain_call_names:
  "plain_call \<lparr>hc_method = m, hc_url = u, hc_body = b, hc_headers = hs, hc_timeout = t, hc_http = h, hc_ca = ca\<rparr> \<longleftrightarrow>
     set (map fst hs) \<inter> set METADATA_HEADERS = {}"
  by (auto simp: plain_call_def metadata_call_def list_ex_iff)

lemma form_header_plain [simp]: "fst form_header \<notin> set METADATA_HEADERS" "''Authorization'' \<notin> set METADATA_HEADERS"
  "''Content-Type'' \<notin> set METADATA_HEADERS" "''X-IDENTITY-HEADER'' \<notin> set METADATA_HEADERS"
  by (simp_all add: form_header_def METADATA_HEADERS_def)

lemma gcs_account_plain [sends_intros]:
  "sends plain_call (gcs_service_account_values env sg email private_key token_uri scope options)"
  unfolding gcs_service_account_values_def Let_def by (intro sends_intros) (simp add: plain_call_names)

lemma gcs_service_plain [sends_intros]: "sends plain_call (gcs_service_account env sg json cfg path)"
  unfolding gcs_service_account_def by (auto intro!: sends_intros split: option.split)

lemma gcs_user_plain [sends_intros]: "sends plain_call (gcs_authorized_user env json cfg path)"
  unfolding gcs_authorized_user_def Let_def by (intro sends_intros) (simp add: plain_call_names)

lemma external_subject_plain [sends_intros]: "sends plain_call (external_subject env json cfg)"
  unfolding external_subject_def by (auto intro!: sends_intros simp: plain_call_names split: option.split)

lemma impersonate_plain [sends_intros]: "sends plain_call (impersonate env url scope token http)"
  unfolding impersonate_def Let_def by (intro sends_intros) (simp add: plain_call_names)

lemma gcs_external_plain [sends_intros]: "sends plain_call (gcs_external_account env json cfg path)"
  unfolding gcs_external_account_def Let_def by (auto intro!: sends_intros simp: plain_call_names split: option.split)

lemma gcs_plain:
  assumes "\<not> gcs_try_metadata (cs_layers cfg) path"
  shows "sends plain_call (load_gcs_credentials env sg cfg path)"
  using assms unfolding load_gcs_credentials_def gcs_from_adc_def gcs_from_key_def Let_def
  by (intro sends_intros) simp

lemma azure_plain:
  assumes "\<not> azure_try_metadata (cs_layers cfg) path"
  shows "sends plain_call (load_azure_credentials env cfg path)"
  using assms unfolding load_azure_credentials_def azure_identity_def azure_principal_def azure_app_service_def Let_def
  by (intro sends_intros) (auto simp: plain_call_names)

lemma gcs_offline: "gcs_given cfg path = Some c \<Longrightarrow> load_gcs_credentials env sg cfg path sent = (Inr c, sent)"
  by (auto simp: gcs_given_def both_keys_def load_gcs_credentials_def Let_def ld_lift_def split: if_splits)

lemma azure_offline: "azure_given cfg path = Some c \<Longrightarrow> load_azure_credentials env cfg path sent = (Inr c, sent)"
  unfolding azure_given_def load_azure_credentials_def Let_def by (auto simp: ld_lift_def split: if_splits)

interpretation gcs: credential_source "load_gcs_credentials env sg cfg" "gcs_given cfg" "gcs_try_metadata (cs_layers cfg)"
  for env sg cfg
  by unfold_locales (rule gcs_offline, assumption, rule gcs_plain [unfolded plain_call_def])

interpretation azure: credential_source "load_azure_credentials env cfg" "azure_given cfg" "azure_try_metadata (cs_layers cfg)"
  for env cfg
  by unfold_locales (rule azure_offline, assumption, rule azure_plain [unfolded plain_call_def])

text \<open>
  A configuration that neither discovers credentials nor names a metadata option for a path.
\<close>

definition METADATA_OPTIONS :: "string list" where
  "METADATA_OPTIONS = [''AWS_EC2_METADATA_DISABLED'', ''GCS_METADATA_ENDPOINT'', ''GCS_METADATA_DISABLED'', ''IMDS_ENDPOINT'']"

definition hermetic :: "config_snapshot \<Rightarrow> string \<Rightarrow> bool" where
  "hermetic cfg path \<longleftrightarrow> \<not> discover_default_credentials (cs_layers cfg) \<and> \<not> list_ex (has_option (cs_layers cfg) path) METADATA_OPTIONS"

lemma hermetic_permits:
  "hermetic cfg path \<Longrightarrow> \<not> try_imds (cs_layers cfg) path \<and> \<not> gcs_try_metadata (cs_layers cfg) path \<and> \<not> azure_try_metadata (cs_layers cfg) path"
  by (auto simp: hermetic_def METADATA_OPTIONS_def try_imds_def gcs_try_metadata_def azure_try_metadata_def)

text \<open>
  C17. Under a configuration that does not discover credentials and names no metadata option, no sequence of
  loads of any provider asks the metadata service of a cloud, whatever the files say and the servers answer.
\<close>

theorem hermetic_asks_no_metadata:
  assumes "\<forall>p \<in> set ps. hermetic cfg p"
  shows "\<not> list_ex metadata_call (load_each (load_aws_credentials env cfg) ps []) \<and>
     \<not> list_ex metadata_call (load_each (load_gcs_credentials env sg cfg) ps []) \<and>
     \<not> list_ex metadata_call (load_each (load_azure_credentials env cfg) ps []) \<and>
     \<not> list_ex metadata_call (load_each (load_source_credentials env cfg) ps [])"
  using assms hermetic_permits
  by (intro conjI aws.load_each_permitted gcs.load_each_permitted azure.load_each_permitted source.load_each_permitted) auto

theorem hermetic_asks_no_metadata_witness:
  "list_all (hermetic sample_container) [''/vsis3/b/k'', ''/vsigs/b/k''] \<and>
   \<not> list_ex metadata_call
     (load_each (load_aws_credentials (sample_machine (Http_Failed ''down'')) sample_container) [''/vsis3/b/k'', ''/vsigs/b/k''] [])"
proof -
  have h: "list_all (hermetic sample_container) [''/vsis3/b/k'', ''/vsigs/b/k'']" by code_simp
  then have "\<forall>p \<in> set [''/vsis3/b/k'', ''/vsigs/b/k'']. hermetic sample_container p" by (simp only: list_all_iff)
  with h show ?thesis using hermetic_asks_no_metadata [of "[''/vsis3/b/k'', ''/vsigs/b/k'']" sample_container "sample_machine (Http_Failed ''down'')"]
    by blast
qed

section \<open>What the loaders return\<close>

lemma profile_pair: "credentials_from_aws_profile env p label t = Inr c \<Longrightarrow> whole_pair c"
  by (auto simp: credentials_from_aws_profile_def whole_pair_def and_then_Inr Let_def empty_credentials_def split: if_splits)

lemma session_pair: "complete_session c now \<Longrightarrow> whole_pair c"
  by (simp add: complete_session_def whole_pair_def)

lemma region_pair: "whole_pair (c\<lparr>pc_region := r\<rparr>) = whole_pair c"
  by (simp add: whole_pair_def)

lemma web_identity_pair: "yields whole_pair (aws_web_identity env role file session endpoint http)"
  unfolding aws_web_identity_def Let_def
  by (intro yields_intros) (auto split: if_splits intro: session_pair)

lemma aws_ambient_pair: "yields whole_pair (aws_ambient env cfg path)"
  unfolding aws_ambient_def aws_container_def aws_instance_def Let_def
  by (intro yields_intros) (auto split: if_splits intro: session_pair)

lemma aws_profile_pair: "yields whole_pair (aws_from_profile env cfg path loaded)"
  unfolding aws_from_profile_def Let_def
  by (intro yields_if yields_bind_from [OF web_identity_pair] yields_bind_from [of whole_pair] yields_lift aws_ambient_pair)
    (auto intro: profile_pair simp: region_pair)

lemma aws_pair: "yields whole_pair (load_aws_credentials env cfg path)"
  unfolding load_aws_credentials_def Let_def
  by (intro yields_intros aws_profile_pair) (auto simp: whole_pair_def split: if_splits)

lemma source_pair: "yields whole_pair (load_source_credentials env cfg path)"
  unfolding load_source_credentials_def Let_def
  by (intro yields_intros) (auto simp: whole_pair_def and_then_Inr split: if_splits)

lemma service_account_pair [yields_intros]:
  "yields whole_pair (gcs_service_account_values env sg email private_key token_uri scope options)"
  unfolding gcs_service_account_values_def Let_def by (intro yields_intros) auto

lemma token_pair [simp]: "whole_pair (empty_credentials\<lparr>bearer_token := t, expires_at := e\<rparr>)"
  by (simp add: whole_pair_def empty_credentials_def)

lemma impersonate_pair: "yields whole_pair (impersonate env url scope token http)"
  unfolding impersonate_def Let_def by (intro yields_intros) (auto split: if_splits)

lemma gcs_adc_pair: "yields whole_pair (gcs_from_adc env sg cfg path file)"
proof -
  have "yields whole_pair (gcs_service_account env sg json cfg path)" for json
    unfolding gcs_service_account_def by (auto intro!: yields_intros split: option.split)
  moreover have "yields whole_pair (gcs_authorized_user env json cfg path)" for json
    unfolding gcs_authorized_user_def Let_def by (intro yields_intros) simp
  moreover have "yields whole_pair (gcs_external_account env json cfg path)" for json
    unfolding gcs_external_account_def Let_def
    by (auto intro!: yields_bind yields_bind_from [OF yields_oauth] yields_if yields_lift impersonate_pair split: option.split)
  ultimately show ?thesis unfolding gcs_from_adc_def Let_def by (intro yields_intros) auto
qed

text \<open>A token wins over a pair, which is then not looked at.\<close>

definition token_or_pair :: "provider_credentials \<Rightarrow> bool" where
  "token_or_pair c \<longleftrightarrow> bearer_token c \<noteq> [] \<or> whole_pair c"

lemma token_or_pairI: "yields whole_pair m \<Longrightarrow> yields token_or_pair m"
  by (erule yields_mono) (simp add: token_or_pair_def)

lemma gcs_pair: "yields token_or_pair (load_gcs_credentials env sg cfg path)"
proof -
  have "yields whole_pair (gcs_authorized_user env json cfg path)" for json
    unfolding gcs_authorized_user_def Let_def by (intro yields_intros) simp
  moreover have "yields whole_pair (gcs_metadata env cfg path)"
    unfolding gcs_metadata_def Let_def by (intro yields_intros) (auto split: if_splits)
  moreover have "yields whole_pair (gcs_from_key env sg cfg path)"
    unfolding gcs_from_key_def Let_def by (intro yields_intros) auto
  ultimately show ?thesis
    unfolding load_gcs_credentials_def Let_def
    by (intro yields_intros token_or_pairI gcs_adc_pair)
      (auto simp: token_or_pair_def whole_pair_def gcs_direct_def empty_credentials_def split: if_splits)
qed

text \<open>
  C18. No load hands out half of a key pair: whatever sources answer, AWS and Source credentials have both an
  access key and a secret or neither, and so have the credentials of GCS unless they carry a token, which is
  used instead.
\<close>

theorem loads_no_half_pair:
  "(fst (load_aws_credentials env cfg path sent) = Inr a \<longrightarrow> whole_pair a) \<and>
   (fst (load_source_credentials env cfg path sent) = Inr b \<longrightarrow> whole_pair b) \<and>
   (fst (load_gcs_credentials env sg cfg path sent) = Inr c \<longrightarrow> bearer_token c \<noteq> [] \<or> whole_pair c)"
  using aws_pair [of env cfg path] source_pair [of env cfg path] gcs_pair [of env sg cfg path]
  unfolding yields_def token_or_pair_def by blast

definition sample_keys :: config_snapshot where
  "sample_keys = sample_options [(''AWS_ACCESS_KEY_ID'', ''a''), (''AWS_SECRET_ACCESS_KEY'', ''s''),
     (''SOURCE_ACCESS_KEY_ID'', ''b''), (''SOURCE_SECRET_ACCESS_KEY'', ''t''),
     (''GCS_HMAC_ACCESS_KEY_ID'', ''c''), (''GCS_HMAC_SECRET_ACCESS_KEY'', ''u'')]"

definition sample_signer :: signer where
  "sample_signer = \<lparr>sg_crypto = \<lparr>evp_sha256 = \<lambda>b. None, hmac_evp_sha1 = \<lambda>k v. None, evp_encode_block = id, evp_decode_block = \<lambda>s. None\<rparr>,
     sg_reader = True, sg_key = \<lambda>p. None, sg_context = True, sg_init = \<lambda>k. True, sg_size = \<lambda>k. True, sg_sign = \<lambda>k m. None\<rparr>"

definition sample_pair :: "string \<Rightarrow> string \<Rightarrow> provider_credentials" where
  "sample_pair k v = empty_credentials\<lparr>access_key_id := k, secret_access_key := v\<rparr>"

lemma sample_keys_load:
  "fst (load_aws_credentials (sample_machine (Http_Failed ''down'')) sample_keys ''/vsis3/b/k'' []) = Inr (sample_pair ''a'' ''s'')"
  "fst (load_source_credentials (sample_machine (Http_Failed ''down'')) sample_keys ''/vsis3/b/k'' []) = Inr (sample_pair ''b'' ''t'')"
  "fst (load_gcs_credentials (sample_machine (Http_Failed ''down'')) sample_signer sample_keys ''/vsis3/b/k'' []) = Inr (sample_pair ''c'' ''u'')"
  by code_simp+

theorem loads_no_half_pair_witness:
  "whole_pair (sample_pair ''a'' ''s'') \<and> whole_pair (sample_pair ''b'' ''t'') \<and> whole_pair (sample_pair ''c'' ''u'')"
  using loads_no_half_pair [of "sample_machine (Http_Failed ''down'')" sample_keys "''/vsis3/b/k''" "[]"
      "sample_pair ''a'' ''s''" "sample_pair ''b'' ''t''" sample_signer "sample_pair ''c'' ''u''"]
  unfolding sample_keys_load by (simp add: sample_pair_def empty_credentials_def)

section \<open>Escaped text reads back\<close>

abbreviation quote :: char where "quote \<equiv> CHR 0x22"

text \<open>The search for a key, one character at a time.\<close>

lemma json_value_step:
  assumes "needle \<noteq> []"
  shows "json_value needle (c # s) =
     (if prefix needle (c # s)
      then (let rest = drop (length needle) (c # s); t = dropWhile is_space rest
            in if t = [] \<or> hd t \<noteq> CHR '':'' then json_value needle rest else Some (dropWhile is_space (tl t)))
      else json_value needle s)"
proof (cases "prefix needle (c # s)")
  case True
  then show ?thesis using assms by (subst json_value.simps) (simp add: Let_def)
next
  case False
  have "json_value needle (c # s) =
     (case find_sub needle s of None \<Rightarrow> None
      | Some k \<Rightarrow> (let rest = drop (k + length needle) s; t = dropWhile is_space rest
                  in if t = [] \<or> hd t \<noteq> CHR '':'' then json_value needle rest else Some (dropWhile is_space (tl t))))"
    using assms False by (subst json_value.simps) (simp add: Let_def split: option.splits)
  also have "\<dots> = json_value needle s" using assms by (subst (2) json_value.simps) simp
  finally show ?thesis using False by simp
qed

lemma json_quote_nonempty [simp]: "json_quote name \<noteq> []"
  by (simp add: json_quote_def)

lemma json_value_skip: "c \<noteq> quote \<Longrightarrow> json_value (json_quote name) (c # s) = json_value (json_quote name) s"
  by (subst json_value_step) (auto simp: json_quote_def)

lemma escape_cases:
  obtains "escape_char c = [c]" "c \<noteq> quote" "c \<noteq> CHR 0x5C"
  | d where "escape_char c = [CHR 0x5C, d]" "d \<noteq> quote" "c \<noteq> quote"
  | "escape_char c = [CHR 0x5C, quote]" "c = quote"
  by (cases "c = quote"; cases "c = CHR 0x5C"; cases "c = CHR 0x0A"; cases "c = CHR 0x0D"; cases "c = CHR 0x09")
    (auto simp: escape_char_def)

definition key_name :: "string \<Rightarrow> bool" where
  "key_name name \<longleftrightarrow> name \<noteq> [] \<and> set name \<inter> {quote, CHR 0x5C, CHR '','', CHR '':''} = {}"

lemma escaped_prefix:
  assumes "prefix (name @ [quote]) (json_escape v @ quote # t)" "set name \<inter> {quote, CHR 0x5C} = {}"
  shows "json_escape v = name"
  using assms
proof (induction v arbitrary: name)
  case Nil
  then show ?case by (cases name) (auto simp: json_escape_def)
next
  case (Cons c v)
  show ?case
  proof (cases name)
    case Nil
    with Cons.prems(1) show ?thesis by (cases c rule: escape_cases) (auto simp: json_escape_def)
  next
    case (Cons d name')
    with Cons.prems Cons.IH [of name'] show ?thesis
      by (cases c rule: escape_cases) (auto simp: json_escape_def)
  qed
qed

text \<open>No key is found inside an escaped text, nor behind it before the comma.\<close>

lemma json_value_in_text:
  assumes "key_name name"
  shows "json_value (json_quote name) (json_escape v @ quote # CHR '','' # rest) = json_value (json_quote name) rest"
proof (induction v)
  case Nil
  have "\<not> prefix (json_quote name) (quote # CHR '','' # rest)"
    using assms by (cases name) (auto simp: json_quote_def key_name_def)
  then show ?case by (simp add: json_escape_def json_value_step [of _ quote] json_value_skip)
next
  case (Cons c v)
  show ?case
  proof (cases c rule: escape_cases)
    case 3
    let ?t = "json_escape v @ quote # CHR '','' # rest"
    have "json_value (json_quote name) (quote # ?t) = json_value (json_quote name) rest"
    proof (cases "prefix (json_quote name) (quote # ?t)")
      case True
      then have "json_escape v = name"
        using assms by (intro escaped_prefix) (auto simp: json_quote_def key_name_def)
      with True show ?thesis
        by (subst json_value_step) (simp_all add: json_quote_def is_space_def json_value_skip [unfolded json_quote_def])
    qed (simp add: json_value_step Cons.IH)
    with 3 show ?thesis by (simp add: json_escape_def json_value_skip)
  qed (use Cons.IH in \<open>simp_all add: json_escape_def json_value_skip\<close>)
qed

lemma json_value_text:
  assumes "key_name name"
  shows "json_value (json_quote name) (quote # json_escape v @ quote # CHR '','' # rest) = json_value (json_quote name) rest"
  using json_value_in_text [OF assms, of "quote # v" rest] by (simp add: json_escape_def escape_char_def json_value_skip)

lemma json_value_key: "json_value (json_quote name) (quote # name @ quote # CHR '':'' # s) = Some (dropWhile is_space s)"
  by (subst json_value_step) (simp_all add: json_quote_def is_space_def Let_def)

lemma json_value_skips: "quote \<notin> set m \<Longrightarrow> json_value (json_quote name) (m @ s) = json_value (json_quote name) s"
  by (induction m) (auto simp: json_value_skip)

lemma json_value_field:
  assumes "key_name name" "key_name m" "m \<noteq> name"
  shows "json_value (json_quote name) (quote # m @ quote # CHR '':'' # quote # json_escape v @ quote # CHR '','' # rest)
    = json_value (json_quote name) rest"
proof -
  let ?t = "quote # json_escape v @ quote # CHR '','' # rest"
  have "\<not> prefix (json_quote name) (quote # m @ quote # CHR '':'' # ?t)"
  proof
    assume "prefix (json_quote name) (quote # m @ quote # CHR '':'' # ?t)"
    then obtain z where "m @ quote # CHR '':'' # ?t = name @ quote # z" by (auto simp: json_quote_def prefix_def)
    then have "takeWhile (\<lambda>c. c \<noteq> quote) (m @ quote # CHR '':'' # ?t) = takeWhile (\<lambda>c. c \<noteq> quote) (name @ quote # z)" by simp
    moreover have "takeWhile (\<lambda>c. c \<noteq> quote) m = m" "takeWhile (\<lambda>c. c \<noteq> quote) name = name"
      using assms by (auto simp: takeWhile_eq_all_conv key_name_def)
    ultimately have "m = name" by (simp add: takeWhile_tail)
    with assms(3) show False by simp
  qed
  moreover have "\<not> prefix (json_quote name) (quote # CHR '':'' # ?t)"
    using assms(1) by (cases name) (auto simp: json_quote_def key_name_def)
  ultimately show ?thesis
    using assms json_value_step [of "json_quote name" quote "m @ quote # CHR '':'' # ?t"]
      json_value_step [of "json_quote name" quote "CHR '':'' # ?t"]
    by (simp add: json_value_skips json_value_skip json_value_text key_name_def)
qed

lemma json_text_escaped: "json_text (json_escape v @ quote # t) acc = Some (acc @ v)"
proof (induction v arbitrary: acc)
  case Nil
  show ?case by (simp add: json_escape_def)
next
  case (Cons c v)
  then show ?case by (simp add: json_escape_def escape_char_def)
qed

lemma json_string_field:
  assumes "json_value (json_quote name) s = json_value (json_quote name) (quote # name @ quote # CHR '':'' # quote # json_escape v @ quote # t)"
  shows "json_string s name = Some v"
  using assms json_text_escaped [of v t "[]"] by (simp add: json_value_key json_string_def is_space_def)

text \<open>
  C19. The claims a service account signs name the issuer, the scope and the audience exactly as given: read
  with the library's own reader, each field is the text that was put in, whatever quotes, backslashes or
  line breaks it has, and whatever the other two texts are.
\<close>

theorem jwt_claims_exact:
  "json_string (jwt_claims email scope token_uri now) ''iss'' = Some email \<and>
   json_string (jwt_claims email scope token_uri now) ''scope'' = Some scope \<and>
   json_string (jwt_claims email scope token_uri now) ''aud'' = Some token_uri"
proof -
  have keys: "key_name ''iss''" "key_name ''scope''" "key_name ''aud''" by (simp_all add: key_name_def)
  note fields = json_value_field [OF keys(2,1), simplified] json_value_field [OF keys(3,1), simplified] json_value_field [OF keys(3,2), simplified]
  show ?thesis
    by (intro conjI json_string_field) (simp_all add: jwt_claims_def json_value_skip fields)
qed

end
