(* ===== verification/Karu_Process.thy ===== *)
theory Karu_Process
  imports Karu_Aws_Credentials
begin

text \<open>
  Commands of credential processes, \<open>src/src/process.cpp\<close> as compiled for POSIX: a shell in its own process group
  whose output is read through a pipe, up to a limit and a deadline. The environment has the answers of the
  system calls, in the order of the calls, and the readings of the clock in nanoseconds; an error is its
  message. Which descriptors are open and what became of the child is part of the state. A killed child is taken to
  end, so that the blocking \<open>waitpid\<close> of \<open>terminate_process\<close> returns with it; the descriptors are those the function still
  holds once the child runs, as a set-up that fails closes both ends of the pipe and a successful one the end for writing.
\<close>

section \<open>The state of a command\<close>

datatype wait_status = Exited int | Signalled int | Neither

text \<open>An empty read is the end of the pipe; \<open>Read_Pending\<close> stands for \<open>EAGAIN\<close>, \<open>EWOULDBLOCK\<close> and \<open>EINTR\<close>, and
  \<open>Wait_Pending\<close> for a child that runs and for \<open>EINTR\<close>.\<close>

datatype read_answer = Read_Bytes "byte list" | Read_Pending | Read_Failed string

datatype wait_answer = Wait_Done wait_status | Wait_Pending | Wait_Failed string

record process_env =
  pe_pipe :: "string option"
  pe_setup :: "string option"
  pe_spawn :: "string option"
  pe_fcntl :: "string option"
  pe_read :: "nat \<Rightarrow> read_answer"
  pe_wait :: "nat \<Rightarrow> wait_answer"
  pe_now :: "nat \<Rightarrow> int"

record command_state =
  rn_result :: command_result
  rn_pipe_closed :: bool
  rn_child_finished :: bool
  rn_status :: wait_status
  rn_reads :: nat
  rn_waits :: nat
  rn_clock :: nat
  rn_descriptors :: nat
  rn_started :: bool
  rn_killed :: bool
  rn_reaped :: bool
  rn_poll_ms :: "int list"

definition no_result :: command_result where
  "no_result = \<lparr>cr_output = [], cr_exit_code = -1, cr_timed_out = False, cr_output_limit_exceeded = False\<rparr>"

definition no_command :: command_state where
  "no_command = \<lparr>rn_result = no_result, rn_pipe_closed = False, rn_child_finished = False, rn_status = Exited 0,
     rn_reads = 0, rn_waits = 0, rn_clock = 1, rn_descriptors = 0, rn_started = False, rn_killed = False, rn_reaped = False,
     rn_poll_ms = []\<rparr>"

type_synonym command_outcome = "(string + command_result) \<times> command_state"

section \<open>The loop\<close>

definition terminate_process :: "command_state \<Rightarrow> command_state" where
  "terminate_process s = s\<lparr>rn_killed := True, rn_reaped := True\<rparr>"

text \<open>The end of the pipe that is read.\<close>

definition close_read :: "command_state \<Rightarrow> command_state" where
  "close_read s = s\<lparr>rn_descriptors := rn_descriptors s - 1\<rparr>"

definition READ_SIZE :: nat where "READ_SIZE = 4096"

definition output_length :: "command_state \<Rightarrow> nat" where
  "output_length s = length (cr_output (rn_result s))"

function read_pipe :: "process_env \<Rightarrow> nat \<Rightarrow> command_state \<Rightarrow> command_outcome + command_state" where
  "read_pipe env limit s =
     (let s1 = s\<lparr>rn_reads := Suc (rn_reads s)\<rparr>
      in case pe_read env (rn_reads s) of
           Read_Failed m \<Rightarrow> Inl (Inl m, close_read (terminate_process s1))
         | Read_Pending \<Rightarrow> Inr s1
         | Read_Bytes answer \<Rightarrow>
             (let d = take READ_SIZE answer
              in if d = [] then Inr (s1\<lparr>rn_pipe_closed := True\<rparr>)
                 else if limit - min limit (output_length s) < length d
                 then (let r = (rn_result s)\<lparr>cr_output_limit_exceeded := True\<rparr>
                       in Inl (Inr r, close_read (terminate_process (s1\<lparr>rn_result := r\<rparr>))))
                 else read_pipe env limit (s1\<lparr>rn_result := (rn_result s)\<lparr>cr_output := cr_output (rn_result s) @ d\<rparr>\<rparr>)))"
  by pat_completeness auto
termination
proof (relation "measure (\<lambda>(env, limit, s). limit - output_length s)", goal_cases)
  case (2 env limit s s1 answer d)
  have "0 < length d" "length d \<le> limit - min limit (output_length s)" using 2(4,5) by simp_all
  then have "limit - (output_length s + length d) < limit - output_length s" by linarith
  moreover have "output_length (s1\<lparr>rn_result := (rn_result s)\<lparr>cr_output := cr_output (rn_result s) @ d\<rparr>\<rparr>) = output_length s + length d"
    by (simp add: output_length_def)
  ultimately show ?case by simp
qed simp

declare read_pipe.simps [simp del]

definition wait_child :: "process_env \<Rightarrow> command_state \<Rightarrow> command_outcome + command_state" where
  "wait_child env s =
     (if rn_child_finished s then Inr s
      else (let s1 = s\<lparr>rn_waits := Suc (rn_waits s)\<rparr>
            in case pe_wait env (rn_waits s) of
                 Wait_Done status \<Rightarrow> Inr (s1\<lparr>rn_child_finished := True, rn_status := status, rn_reaped := True\<rparr>)
               | Wait_Pending \<Rightarrow> Inr s1
               | Wait_Failed m \<Rightarrow> Inl (Inl m, close_read (s1\<lparr>rn_killed := True\<rparr>))))"

definition check_deadline :: "process_env \<Rightarrow> int option \<Rightarrow> command_state \<Rightarrow> command_outcome + command_state" where
  "check_deadline env deadline s =
     (case deadline of
        None \<Rightarrow> Inr s
      | Some t \<Rightarrow>
          (let s1 = s\<lparr>rn_clock := Suc (rn_clock s)\<rparr>
           in if t \<le> pe_now env (rn_clock s)
              then (let r = (rn_result s)\<lparr>cr_timed_out := True\<rparr>; s2 = s1\<lparr>rn_result := r\<rparr>
                    in Inl (Inr r, close_read (if rn_child_finished s then s2\<lparr>rn_killed := True\<rparr> else terminate_process s2)))
              else Inr s1))"

text \<open>The wait for output: at least one and at most fifty milliseconds.\<close>

definition clamp :: "int \<Rightarrow> int \<Rightarrow> int \<Rightarrow> int" where
  "clamp v lo hi = (if v < lo then lo else if hi < v then hi else v)"

definition poll_output :: "process_env \<Rightarrow> int option \<Rightarrow> command_state \<Rightarrow> command_state" where
  "poll_output env deadline s =
     (if rn_pipe_closed s \<and> rn_child_finished s then s
      else case deadline of
             None \<Rightarrow> s\<lparr>rn_poll_ms := clamp 50 1 50 # rn_poll_ms s\<rparr>
           | Some t \<Rightarrow>
               (let gap = t - pe_now env (rn_clock s)
                in s\<lparr>rn_clock := Suc (rn_clock s), rn_poll_ms := clamp (sgn gap * (\<bar>gap\<bar> div 1000000)) 1 50 # rn_poll_ms s\<rparr>))"

definition command_round :: "process_env \<Rightarrow> nat \<Rightarrow> int option \<Rightarrow> command_state \<Rightarrow> command_outcome + command_state" where
  "command_round env limit deadline s =
     and_then (if rn_pipe_closed s then Inr s else read_pipe env limit s) (\<lambda>s1.
     and_then (wait_child env s1) (\<lambda>s2.
     and_then (check_deadline env deadline s2) (\<lambda>s3. Inr (poll_output env deadline s3))))"

partial_function (option) command_loop :: "process_env \<Rightarrow> nat \<Rightarrow> int option \<Rightarrow> command_state \<Rightarrow> (command_outcome + command_state) option" where
  "command_loop env limit deadline s =
     (if rn_pipe_closed s \<and> rn_child_finished s then Some (Inr s)
      else case command_round env limit deadline s of
             Inl r \<Rightarrow> Some (Inl r)
           | Inr s' \<Rightarrow> command_loop env limit deadline s')"

section \<open>Running a command\<close>

definition exit_code_of :: "wait_status \<Rightarrow> int \<Rightarrow> int" where
  "exit_code_of st old = (case st of Exited n \<Rightarrow> n | Signalled n \<Rightarrow> 128 + n | Neither \<Rightarrow> old)"

definition finish_command :: "command_state \<Rightarrow> command_outcome" where
  "finish_command s =
     (let r = (rn_result s)\<lparr>cr_exit_code := exit_code_of (rn_status s) (cr_exit_code (rn_result s))\<rparr>
      in (Inr r, close_read (s\<lparr>rn_result := r\<rparr>)))"

definition INVALID_ARGUMENT :: string where "INVALID_ARGUMENT = ''Invalid argument''"

definition run_command :: "process_env \<Rightarrow> string \<Rightarrow> nat \<Rightarrow> int \<Rightarrow> command_outcome option" where
  "run_command env command limit timeout_ms =
     (if command = [] \<or> CHR 0x00 \<in> set command then Some (Inl INVALID_ARGUMENT, no_command)
      else (let deadline = (if 0 < timeout_ms then Some (pe_now env 0 + timeout_ms * 1000000) else None) in
        case pe_pipe env of
          Some m \<Rightarrow> Some (Inl m, no_command)
        | None \<Rightarrow>
            (case pe_setup env of
               Some m \<Rightarrow> Some (Inl m, no_command)
             | None \<Rightarrow>
                 (case pe_spawn env of
                    Some m \<Rightarrow> Some (Inl m, no_command)
                  | None \<Rightarrow>
                      (let s = no_command\<lparr>rn_descriptors := 1, rn_started := True\<rparr>
                       in case pe_fcntl env of
                            Some m \<Rightarrow> Some (Inl m, close_read (terminate_process s))
                          | None \<Rightarrow> map_option (\<lambda>r. case r of Inl res \<Rightarrow> res | Inr s' \<Rightarrow> finish_command s') (command_loop env limit deadline s))))))"

section \<open>What a command leaves\<close>

text \<open>The bytes of the first \<open>n\<close> reads.\<close>

definition bytes_read :: "process_env \<Rightarrow> nat \<Rightarrow> byte list" where
  "bytes_read env n = concat (map (\<lambda>k. case pe_read env k of Read_Bytes d \<Rightarrow> take READ_SIZE d | _ \<Rightarrow> []) [0..<n])"

lemma bytes_read_Suc: "bytes_read env (Suc n) = bytes_read env n @ (case pe_read env n of Read_Bytes d \<Rightarrow> take READ_SIZE d | _ \<Rightarrow> [])"
  by (simp add: bytes_read_def)

definition clean_result :: "command_result \<Rightarrow> bool" where
  "clean_result r \<longleftrightarrow> \<not> cr_timed_out r \<and> \<not> cr_output_limit_exceeded r"

text \<open>A child that runs, with one end of the pipe open.\<close>

definition command_running :: "process_env \<Rightarrow> nat \<Rightarrow> command_state \<Rightarrow> bool" where
  "command_running env limit s \<longleftrightarrow> rn_started s \<and> rn_descriptors s = 1 \<and> rn_reaped s = rn_child_finished s \<and>
     clean_result (rn_result s) \<and> cr_exit_code (rn_result s) = -1 \<and> output_length s \<le> limit \<and> cr_output (rn_result s) = bytes_read env (rn_reads s)"

text \<open>
  What holds when the call returns: no descriptor is open; a child that was started has been waited for, unless waiting
  failed, and then it has been killed; the output keeps the limit; a command that was cut off has been
  killed, and the output of any other is all that was read, to the end of the pipe.
\<close>

definition settled :: "process_env \<Rightarrow> nat \<Rightarrow> command_outcome \<Rightarrow> bool" where
  "settled env limit out \<longleftrightarrow>
     (case out of (r, s) \<Rightarrow>
        rn_descriptors s = 0 \<and> (rn_started s \<longrightarrow> rn_reaped s \<or> rn_killed s \<and> isl r) \<and>
        (case r of
           Inl m \<Rightarrow> True
         | Inr c \<Rightarrow> rn_started s \<and> length (cr_output c) \<le> limit \<and>
             (if clean_result c
              then rn_pipe_closed s \<and> rn_child_finished s \<and> cr_output c = bytes_read env (rn_reads s) \<and>
                cr_exit_code c = exit_code_of (rn_status s) (-1)
              else rn_killed s)))"

definition round_ok :: "process_env \<Rightarrow> nat \<Rightarrow> (command_state \<Rightarrow> bool) \<Rightarrow> command_outcome + command_state \<Rightarrow> bool" where
  "round_ok env limit Q x = (case x of Inl out \<Rightarrow> settled env limit out | Inr s \<Rightarrow> command_running env limit s \<and> Q s)"

lemma round_okI:
  "(\<And>out. x = Inl out \<Longrightarrow> settled env limit out) \<Longrightarrow> (\<And>s. x = Inr s \<Longrightarrow> command_running env limit s \<and> Q s) \<Longrightarrow> round_ok env limit Q x"
  by (cases x) (auto simp: round_ok_def)

lemma round_ok_then:
  assumes "round_ok env limit Q x" "\<And>s. command_running env limit s \<Longrightarrow> Q s \<Longrightarrow> round_ok env limit R (f s)"
  shows "round_ok env limit R (and_then x f)"
  using assms by (cases x) (auto simp: round_ok_def)

lemma read_pipe_ok:
  assumes "command_running env limit s"
  shows "round_ok env limit (\<lambda>s'. rn_clock s' = rn_clock s \<and> rn_child_finished s' = rn_child_finished s) (read_pipe env limit s)"
  using assms
proof (induction env limit s rule: read_pipe.induct)
  case (1 env limit s)
  show ?case
  proof (cases "pe_read env (rn_reads s)")
    case (Read_Bytes answer)
    define d where "d = take READ_SIZE answer"
    let ?s = "s\<lparr>rn_reads := Suc (rn_reads s), rn_result := (rn_result s)\<lparr>cr_output := cr_output (rn_result s) @ d\<rparr>\<rparr>"
    consider "d = []" | "d \<noteq> []" "limit - min limit (output_length s) < length d" | "d \<noteq> []" "length d \<le> limit - min limit (output_length s)"
      by fastforce
    then show ?thesis
    proof cases
      case 3
      then have "command_running env limit ?s"
        using 1(2) Read_Bytes by (auto simp: command_running_def clean_result_def output_length_def bytes_read_Suc d_def)
      moreover have "read_pipe env limit s = read_pipe env limit ?s"
        using 3 Read_Bytes by (subst read_pipe.simps) (simp add: Let_def flip: d_def)
      ultimately show ?thesis using 1(1) [OF refl Read_Bytes refl] 3 by (simp add: d_def [symmetric])
    qed (use 1(2) Read_Bytes in \<open>auto simp: read_pipe.simps [of env limit s] round_ok_def command_running_def settled_def clean_result_def
      output_length_def bytes_read_Suc close_read_def terminate_process_def Let_def d_def\<close>)
  qed (use 1(2) in \<open>auto simp: read_pipe.simps [of env limit s] round_ok_def command_running_def settled_def clean_result_def
      output_length_def bytes_read_Suc close_read_def terminate_process_def Let_def\<close>)
qed

lemma wait_child_ok:
  assumes "command_running env limit s"
  shows "round_ok env limit (\<lambda>s'. rn_clock s' = rn_clock s) (wait_child env s)"
  using assms
  by (auto simp: wait_child_def round_ok_def command_running_def settled_def output_length_def close_read_def Let_def
      split: wait_answer.splits)

lemma check_deadline_ok:
  assumes "command_running env limit s"
  shows "round_ok env limit (\<lambda>s'. \<forall>t. deadline = Some t \<longrightarrow> pe_now env (rn_clock s) < t \<and> rn_clock s < rn_clock s') (check_deadline env deadline s)"
  using assms
  by (auto simp: check_deadline_def round_ok_def command_running_def settled_def clean_result_def output_length_def close_read_def
      terminate_process_def Let_def split: option.splits)

lemma poll_output_ok:
  assumes "command_running env limit s"
  shows "command_running env limit (poll_output env deadline s) \<and> rn_clock s \<le> rn_clock (poll_output env deadline s)"
  using assms by (auto simp: poll_output_def command_running_def output_length_def Let_def split: option.splits)

lemma command_round_ok:
  assumes "command_running env limit s"
  shows "round_ok env limit (\<lambda>s'. \<forall>t. deadline = Some t \<longrightarrow> pe_now env (rn_clock s) < t \<and> rn_clock s < rn_clock s')
    (command_round env limit deadline s)"
proof -
  have 1: "round_ok env limit (\<lambda>s'. rn_clock s' = rn_clock s) (if rn_pipe_closed s then Inr s else read_pipe env limit s)"
    using assms read_pipe_ok [OF assms] by (cases "read_pipe env limit s") (auto simp: round_ok_def)
  have 2: "round_ok env limit (\<lambda>s'. rn_clock s' = rn_clock s) (wait_child env s1)"
    if "command_running env limit s1" "rn_clock s1 = rn_clock s" for s1
    using wait_child_ok [OF that(1)] that(2) by simp
  have 3: "round_ok env limit (\<lambda>s'. \<forall>t. deadline = Some t \<longrightarrow> pe_now env (rn_clock s) < t \<and> rn_clock s < rn_clock s')
      (and_then (check_deadline env deadline s2) (\<lambda>s3. Inr (poll_output env deadline s3)))"
    if "command_running env limit s2" "rn_clock s2 = rn_clock s" for s2
  proof (rule round_ok_then [OF check_deadline_ok [OF that(1), of deadline]])
    fix s3
    assume "command_running env limit s3" "\<forall>t. deadline = Some t \<longrightarrow> pe_now env (rn_clock s2) < t \<and> rn_clock s2 < rn_clock s3"
    with poll_output_ok [OF this(1), of deadline] that(2)
    show "round_ok env limit (\<lambda>s'. \<forall>t. deadline = Some t \<longrightarrow> pe_now env (rn_clock s) < t \<and> rn_clock s < rn_clock s')
        (Inr (poll_output env deadline s3))"
      by (auto simp: round_ok_def)
  qed
  show ?thesis unfolding command_round_def
    by (rule round_ok_then [OF 1], rule round_ok_then [OF 2], assumption+, rule 3)
qed

text \<open>Every outcome of the loop is settled or leaves the child finished and its output read.\<close>

lemma command_loop_ok:
  assumes "command_loop env limit deadline s = Some r" "command_running env limit s"
  shows "round_ok env limit (\<lambda>s'. rn_pipe_closed s' \<and> rn_child_finished s') r"
proof -
  have "command_running env limit s \<longrightarrow> round_ok env limit (\<lambda>s'. rn_pipe_closed s' \<and> rn_child_finished s') r"
  proof (rule command_loop.raw_induct [of "\<lambda>env limit deadline s r. command_running env limit s \<longrightarrow>
        round_ok env limit (\<lambda>s'. rn_pipe_closed s' \<and> rn_child_finished s') r", OF _ assms(1)], intro impI, goal_cases)
    case (1 loop env limit deadline s r)
    show ?case
    proof (cases "rn_pipe_closed s \<and> rn_child_finished s")
      case True
      with 1(2,3) show ?thesis by (auto simp: round_ok_def)
    next
      case False
      show ?thesis
      proof (cases "command_round env limit deadline s")
        case (Inl out)
        with 1(2) False command_round_ok [OF 1(3), of deadline] show ?thesis by (auto simp: round_ok_def)
      next
        case (Inr s')
        with command_round_ok [OF 1(3), of deadline] have "command_running env limit s'" by (simp add: round_ok_def)
        moreover have "loop env limit deadline s' = Some r" using 1(2) False Inr by auto
        ultimately show ?thesis using 1(1) by blast
      qed
    qed
  qed
  with assms(2) show ?thesis by simp
qed

text \<open>The loop ends once the clock has passed the deadline.\<close>

lemma command_loop_total:
  assumes "\<forall>k \<ge> n. t \<le> pe_now env k" "command_running env limit s"
  shows "\<exists>r. command_loop env limit (Some t) s = Some r"
  using assms(2)
proof (induction "n - rn_clock s" arbitrary: s rule: less_induct)
  case less
  show ?case
  proof (cases "rn_pipe_closed s \<and> rn_child_finished s")
    case False
    show ?thesis
    proof (cases "command_round env limit (Some t) s")
      case (Inr s')
      with command_round_ok [OF less.prems, of "Some t"]
      have s': "command_running env limit s'" "pe_now env (rn_clock s) < t" "rn_clock s < rn_clock s'" by (auto simp: round_ok_def)
      with assms(1) have "rn_clock s < n" by (meson not_le)
      with s'(3) have "n - rn_clock s' < n - rn_clock s" by simp
      from less.hyps [OF this s'(1)] obtain r where "command_loop env limit (Some t) s' = Some r" by blast
      with False Inr show ?thesis by (subst command_loop.simps) auto
    qed (use False in \<open>subst command_loop.simps, auto\<close>)
  qed (subst command_loop.simps, auto)
qed

lemma finish_command_settled:
  "command_running env limit s \<Longrightarrow> rn_pipe_closed s \<Longrightarrow> rn_child_finished s \<Longrightarrow> settled env limit (finish_command s)"
  by (auto simp: finish_command_def settled_def command_running_def clean_result_def output_length_def close_read_def Let_def)

lemma run_command_settled:
  assumes "run_command env command limit timeout = Some out"
  shows "settled env limit out"
proof -
  let ?s = "no_command\<lparr>rn_descriptors := 1, rn_started := True\<rparr>"
  have start: "command_running env limit ?s"
    by (simp add: command_running_def no_command_def no_result_def clean_result_def output_length_def bytes_read_def)
  show ?thesis
  proof (cases "command = [] \<or> CHR 0x00 \<in> set command \<or> pe_pipe env \<noteq> None \<or> pe_setup env \<noteq> None \<or> pe_spawn env \<noteq> None \<or> pe_fcntl env \<noteq> None")
    case True
    with assms show ?thesis
      by (auto simp: run_command_def Let_def settled_def no_command_def close_read_def terminate_process_def split: option.splits if_splits)
  next
    case False
    then obtain r deadline where "command_loop env limit deadline ?s = Some r"
      and out: "out = (case r of Inl res \<Rightarrow> res | Inr s' \<Rightarrow> finish_command s')"
      using assms by (auto simp: run_command_def Let_def)
    from command_loop_ok [OF this(1) start] show ?thesis
      unfolding out by (cases r) (auto simp: round_ok_def finish_command_settled)
  qed
qed

lemma run_command_total:
  assumes "0 < timeout" "\<forall>k \<ge> n. pe_now env 0 + timeout * 1000000 \<le> pe_now env k"
  shows "\<exists>out. run_command env command limit timeout = Some out"
proof -
  let ?s = "no_command\<lparr>rn_descriptors := 1, rn_started := True\<rparr>"
  have start: "command_running env limit ?s"
    by (simp add: command_running_def no_command_def no_result_def clean_result_def output_length_def bytes_read_def)
  from command_loop_total [OF assms(2) start] assms(1) show ?thesis
    by (auto simp: run_command_def Let_def split: option.splits)
qed

text \<open>
  The output of a credential process, when it is accepted, is all the command wrote, at most one mebibyte, of a
  child that was waited for and whose exit code was zero.
\<close>

lemma credential_process_output:
  assumes "run_command penv command PROCESS_OUTPUT_LIMIT (t * 1000) = Some (dv_command env command PROCESS_OUTPUT_LIMIT (t * 1000), s)"
    and "run_credential_process env command label t = Inr out"
  shows "out = bytes_read penv (rn_reads s) \<and> length out \<le> PROCESS_OUTPUT_LIMIT \<and> rn_reaped s \<and> rn_pipe_closed s \<and>
    exit_code_of (rn_status s) (-1) = 0 \<and> rn_descriptors s = 0"
proof -
  obtain c where c: "dv_command env command PROCESS_OUTPUT_LIMIT (t * 1000) = Inr c"
    "\<not> cr_timed_out c" "\<not> cr_output_limit_exceeded c" "cr_exit_code c = 0" "out = cr_output c"
    using assms(2) by (auto simp: run_credential_process_def split: sum.splits if_splits)
  from run_command_settled [OF assms(1)] c show ?thesis
    by (auto simp: settled_def clean_result_def)
qed

text \<open>
  C21. A command with a deadline returns, once the clock has passed it, whatever the child writes and however the
  system calls answer; and what it leaves is settled: no descriptor is open, the child was waited for, or killed when waiting
  failed, the output keeps its limit, a command that was cut off was killed, and the output of
  any other is every byte it wrote, with its exit code.
\<close>

theorem command_returns_settled:
  assumes "0 < timeout" "\<forall>k \<ge> n. pe_now env 0 + timeout * 1000000 \<le> pe_now env k"
  shows "\<exists>out. run_command env command limit timeout = Some out \<and> settled env limit out"
  using run_command_total [OF assms] run_command_settled by blast

definition sample_process :: process_env where
  "sample_process = \<lparr>pe_pipe = None, pe_setup = None, pe_spawn = None, pe_fcntl = None,
     pe_read = \<lambda>k. if k = 0 then Read_Bytes ''key'' else Read_Pending, pe_wait = \<lambda>k. Wait_Pending, pe_now = \<lambda>k. 400000 * int k\<rparr>"

theorem command_returns_settled_witness:
  "\<exists>out. run_command sample_process ''helper'' 8 1 = Some out \<and> settled sample_process 8 out"
  by (rule command_returns_settled [of 1 3]) (auto simp: sample_process_def)

end
