(* ===== verification/Karu_Wakeup.thy ===== *)
theory Karu_Wakeup
  imports Karu_Engine "HOL-Library.Multiset" "HOL-Library.Word"
begin

text \<open>
  How the engine of \<open>src/src/runtime/engine.cpp\<close> wakes its I/O loops: the queue of HTTP transfers
  counted by \<open>http_backlog_\<close>, the mask \<open>idle_loops_\<close> of the loops that poll with spare capacity,
  the producers in \<open>wake_idle_loops\<close> and \<open>wake_loops\<close>, and the end of an iteration of \<open>io_loop\<close>, which
  chooses a time-out, announces that the loop is idle and polls.

  Every access to \<open>http_backlog_\<close> and \<open>idle_loops_\<close> is one step, and the steps of all threads
  interleave; the early exit of \<open>take_http\<close> and the first test of the backlog, which the code reads with
  acquire order, read the current value as well. A loop is its counts of transfers: the phases of an
  iteration between \<open>take_http\<close> and the time-out leave any counts, for only the loop's own thread changes
  them. Of \<open>curl_multi_wakeup\<close> the model has what libcurl documents: it ends the poll of that
  handle, or the next one when none is under way. \<open>lw_claimed\<close> is a history the code does not keep: a
  producer has cleared the bit of the loop since the loop last took transfers.
\<close>

unbundle bit_operations_syntax

section \<open>State\<close>

datatype loop_pc =
    At_Take | At_Work | At_Announce int | At_Check int | At_Poll int bool | At_Clear | At_Exit

record loop_wait =
  lw_pc :: loop_pc
  lw_limit :: nat
  lw_active :: nat
  lw_pending :: nat
  lw_resolving :: nat
  lw_wakeup :: bool
  lw_claimed :: bool

datatype waker =
    Wake_Load nat
  | Wake_Scan nat "64 word"
  | Wake_Poke nat "64 word" nat
  | Wake_All nat

record wake_state =
  wk_stop :: bool
  wk_backlog :: nat
  wk_idle :: "64 word"
  wk_loops :: "loop_wait list"
  wk_wakers :: "waker multiset"

definition new_loop_wait :: "nat \<Rightarrow> loop_wait" where
  "new_loop_wait n = \<lparr>lw_pc = At_Take, lw_limit = n, lw_active = 0, lw_pending = 0, lw_resolving = 0,
     lw_wakeup = False, lw_claimed = False\<rparr>"

definition new_wake_state :: "int \<Rightarrow> int \<Rightarrow> wake_state" where
  "new_wake_state conc threads = \<lparr>wk_stop = False, wk_backlog = 0, wk_idle = 0,
     wk_loops = map new_loop_wait (loop_limits conc threads), wk_wakers = {#}\<rparr>"

definition on_loop :: "nat \<Rightarrow> (loop_wait \<Rightarrow> loop_wait) \<Rightarrow> wake_state \<Rightarrow> wake_state" where
  "on_loop i f s = s\<lparr>wk_loops := (wk_loops s)[i := f (wk_loops s ! i)]\<rparr>"

section \<open>Producers\<close>

definition countr_zero :: "64 word \<Rightarrow> nat" where
  "countr_zero w = length (takeWhile (\<lambda>k. \<not> bit w k) [0..<64])"

definition loop_bit :: "nat \<Rightarrow> 64 word" where
  "loop_bit i = push_bit i 1"

definition multi_wakeup :: "nat \<Rightarrow> wake_state \<Rightarrow> wake_state" where
  "multi_wakeup i = on_loop i (\<lambda>lp. lp\<lparr>lw_wakeup := True\<rparr>)"

fun waker_step :: "waker \<Rightarrow> wake_state \<Rightarrow> waker option \<times> wake_state" where
  "waker_step (Wake_Load n) s = (Some (Wake_Scan n (wk_idle s)), s)"
| "waker_step (Wake_Scan n idle) s =
     (if 0 < n \<and> idle \<noteq> 0
      then (let index = countr_zero idle; mask = loop_bit index; rest = idle AND NOT mask; before = wk_idle s;
                s1 = s\<lparr>wk_idle := before AND NOT mask\<rparr>
            in if before AND mask \<noteq> 0
               then (Some (Wake_Poke n rest index), on_loop index (\<lambda>lp. lp\<lparr>lw_claimed := True\<rparr>) s1)
               else (Some (Wake_Scan n rest), s1))
      else (None, s))"
| "waker_step (Wake_Poke n idle index) s = (Some (Wake_Scan (n - 1) idle), multi_wakeup index s)"
| "waker_step (Wake_All index) s =
     (if index < length (wk_loops s) then (Some (Wake_All (Suc index)), multi_wakeup index s) else (None, s))"

definition enqueue_http :: "nat \<Rightarrow> wake_state \<Rightarrow> wake_state" where
  "enqueue_http n s = s\<lparr>wk_backlog := wk_backlog s + n, wk_wakers := add_mset (Wake_Load n) (wk_wakers s)\<rparr>"

definition queue_one :: "wake_state \<Rightarrow> wake_state" where
  "queue_one s = (if wk_stop s then s else enqueue_http 1 s)"

definition cancel_queued :: "nat \<Rightarrow> wake_state \<Rightarrow> wake_state" where
  "cancel_queued discarded s =
     s\<lparr>wk_backlog := wk_backlog s - discarded, wk_wakers := add_mset (Wake_All 0) (wk_wakers s)\<rparr>"

definition publish_stop :: "wake_state \<Rightarrow> wake_state" where
  "publish_stop s = s\<lparr>wk_stop := True, wk_wakers := add_mset (Wake_All 0) (wk_wakers s)\<rparr>"

section \<open>The end of an iteration\<close>

text \<open>
  The counts a loop has after its phases, the times its retries are due and the handles libcurl runs.
\<close>

record loop_counts =
  lc_active :: nat
  lc_pending :: nat
  lc_resolving :: nat
  lc_retries :: "int list"
  lc_running :: nat
  lc_now :: int

definition has_room :: "loop_wait \<Rightarrow> bool" where
  "has_room lp \<longleftrightarrow> lw_active lp + lw_resolving lp < lw_limit lp"

definition whole_milliseconds :: "int \<Rightarrow> int" where
  "whole_milliseconds d = (if d < 0 then - (- d div 1000000) else d div 1000000)"

definition poll_timeout :: "bool \<Rightarrow> nat \<Rightarrow> loop_counts \<Rightarrow> int" where
  "poll_timeout room backlog c =
     (let t = (if room \<and> (lc_pending c \<noteq> 0 \<or> backlog \<noteq> 0) then 0
               else if lc_retries c \<noteq> []
               then max 0 (min (whole_milliseconds (Min (set (lc_retries c)) - lc_now c)) 50)
               else if lc_running c = 0 \<and> lc_pending c = 0 then 200 else 50)
      in if lc_resolving c \<noteq> 0 then min t 20 else t)"

definition take_transfers :: "wake_state \<Rightarrow> nat \<Rightarrow> wake_state" where
  "take_transfers s i =
     (let lp = wk_loops s ! i; n = min (lw_limit lp - (lw_active lp + lw_pending lp + lw_resolving lp)) (wk_backlog s)
      in on_loop i (\<lambda>lp. lp\<lparr>lw_pending := lw_pending lp + n, lw_claimed := False, lw_pc := At_Work\<rparr>)
           (s\<lparr>wk_backlog := wk_backlog s - n\<rparr>))"

definition choose_timeout :: "loop_counts \<Rightarrow> wake_state \<Rightarrow> nat \<Rightarrow> wake_state" where
  "choose_timeout c s i =
     on_loop i (\<lambda>lp0.
       let lp = lp0\<lparr>lw_active := lc_active c, lw_pending := lc_pending c, lw_resolving := lc_resolving c\<rparr>;
           t = poll_timeout (has_room lp) (wk_backlog s) c
       in lp\<lparr>lw_pc := if has_room lp \<and> t \<noteq> 0 then At_Announce t else At_Poll t False\<rparr>) s"

definition loop_step :: "loop_counts \<Rightarrow> nat \<Rightarrow> wake_state \<Rightarrow> wake_state" where
  "loop_step c i s =
     (let go = (\<lambda>pc. on_loop i (\<lambda>lp. lp\<lparr>lw_pc := pc\<rparr>))
      in case lw_pc (wk_loops s ! i) of
        At_Take \<Rightarrow> if wk_stop s then go At_Exit s else take_transfers s i
      | At_Work \<Rightarrow> choose_timeout c s i
      | At_Announce t \<Rightarrow> go (At_Check t) (s\<lparr>wk_idle := wk_idle s OR loop_bit i\<rparr>)
      | At_Check t \<Rightarrow> go (At_Poll (if wk_backlog s \<noteq> 0 then 0 else t) True) s
      | At_Poll t announced \<Rightarrow>
          on_loop i (\<lambda>lp. lp\<lparr>lw_wakeup := False, lw_pc := if announced then At_Clear else At_Take\<rparr>) s
      | At_Clear \<Rightarrow> go At_Take (s\<lparr>wk_idle := wk_idle s AND NOT (loop_bit i)\<rparr>)
      | At_Exit \<Rightarrow> s)"

text \<open>
  The threads together: a batch or a worker queues transfers, a batch is cancelled, a lookup ends,
  the engine stops, a producer or a loop goes on by one access.
\<close>

inductive wake_step :: "wake_state \<Rightarrow> wake_state \<Rightarrow> bool" where
  submitted: "0 < n \<Longrightarrow> wake_step s (enqueue_http n s)"
| queued: "wake_step s (queue_one s)"
| cancels: "wake_step s (cancel_queued discarded s)"
| looked_up: "wake_step s (s\<lparr>wk_wakers := add_mset (Wake_All 0) (wk_wakers s)\<rparr>)"
| stops: "wake_step s (publish_stop s)"
| wakes: "wk_wakers s = add_mset p others \<Longrightarrow> waker_step p s = (rest, s') \<Longrightarrow>
    wake_step s (s'\<lparr>wk_wakers := (case rest of None \<Rightarrow> others | Some q \<Rightarrow> add_mset q others)\<rparr>)"
| loops: "i < length (wk_loops s) \<Longrightarrow> wake_step s (loop_step c i s)"

section \<open>The invariant\<close>

text \<open>
  A loop counts as idle from its announcement to the clearing of its bit. What a producer may still
  wake on behalf of loop \<open>i\<close>: all it has queued before it reads the mask, and after that only when
  it has seen the bit of \<open>i\<close>.
\<close>

fun idle_pc :: "loop_pc \<Rightarrow> bool" where
  "idle_pc (At_Check t) = True"
| "idle_pc (At_Poll t announced) = announced"
| "idle_pc At_Clear = True"
| "idle_pc pc = False"

fun due :: "nat \<Rightarrow> waker \<Rightarrow> nat" where
  "due i (Wake_Load n) = n"
| "due i (Wake_Scan n idle) = (if bit idle i then n else 0)"
| "due i (Wake_Poke n idle index) = (if bit idle i then n - 1 else 0)"
| "due i (Wake_All index) = 0"

definition claimed_loops :: "loop_wait list \<Rightarrow> nat" where
  "claimed_loops ls = length (filter lw_claimed ls)"

definition covered :: "wake_state \<Rightarrow> nat \<Rightarrow> bool" where
  "covered s i \<longleftrightarrow> wk_backlog s \<le> sum_mset (image_mset (due i) (wk_wakers s)) + claimed_loops (wk_loops s)"

definition poked :: "waker multiset \<Rightarrow> nat \<Rightarrow> bool" where
  "poked M i \<longleftrightarrow> (\<exists>n idle. Wake_Poke n idle i \<in># M)"

definition swept :: "waker multiset \<Rightarrow> nat \<Rightarrow> bool" where
  "swept M i \<longleftrightarrow> (\<exists>k \<le> i. Wake_All k \<in># M)"

definition wait_ok :: "bool \<Rightarrow> loop_wait \<Rightarrow> bool" where
  "wait_ok announced lp \<longleftrightarrow>
     (announced \<longrightarrow> idle_pc (lw_pc lp) \<and> \<not> lw_claimed lp) \<and>
     (idle_pc (lw_pc lp) \<longrightarrow> announced \<or> lw_claimed lp) \<and>
     (lw_claimed lp \<longrightarrow> idle_pc (lw_pc lp) \<or> lw_pc lp \<in> {At_Take, At_Exit}) \<and>
     (idle_pc (lw_pc lp) \<or> lw_claimed lp \<or> (\<exists>t. lw_pc lp = At_Announce t) \<longrightarrow> has_room lp \<and> lw_pending lp = 0) \<and>
     (\<forall>t. lw_pc lp = At_Poll t False \<and> t \<noteq> 0 \<longrightarrow> \<not> has_room lp)"

definition wakes_ok :: "wake_state \<Rightarrow> nat \<Rightarrow> loop_wait \<Rightarrow> bool" where
  "wakes_ok s i lp \<longleftrightarrow>
     (lw_claimed lp \<and> (\<exists>t. lw_pc lp \<in> {At_Check t, At_Poll t True}) \<longrightarrow> lw_wakeup lp \<or> poked (wk_wakers s) i) \<and>
     (wk_stop s \<and> lw_pc lp \<notin> {At_Take, At_Clear, At_Exit} \<longrightarrow> lw_wakeup lp \<or> swept (wk_wakers s) i) \<and>
     (lw_pc lp = At_Exit \<longrightarrow> wk_stop s)"

definition sleeps_idle :: "wake_state \<Rightarrow> nat \<Rightarrow> loop_wait \<Rightarrow> bool" where
  "sleeps_idle s i lp \<longleftrightarrow> \<not> wk_stop s \<and> bit (wk_idle s) i \<and> (\<exists>t. lw_pc lp = At_Poll t True \<and> t \<noteq> 0)"

definition wake_inv :: "wake_state \<Rightarrow> bool" where
  "wake_inv s \<longleftrightarrow> length (wk_loops s) \<le> 64 \<and> (\<forall>k. bit (wk_idle s) k \<longrightarrow> k < length (wk_loops s)) \<and>
     (\<forall>i < length (wk_loops s). wait_ok (bit (wk_idle s) i) (wk_loops s ! i) \<and> wakes_ok s i (wk_loops s ! i) \<and>
        (sleeps_idle s i (wk_loops s ! i) \<longrightarrow> covered s i))"

lemma bit_loop_bit [simp]: "bit (loop_bit i) k \<longleftrightarrow> k = i \<and> i < 64"
  by (auto simp: loop_bit_def bit_exp_iff)

lemma bit_masked: "i < 64 \<Longrightarrow> bit (w AND NOT (loop_bit i)) k \<longleftrightarrow> bit w k \<and> k \<noteq> i"
  using bit_imp_le_length [of w k] by (auto simp: bit_and_iff bit_not_iff)

lemma mask_test:
  assumes "i < 64"
  shows "w AND loop_bit i \<noteq> 0 \<longleftrightarrow> bit w i"
  using assms unfolding bit_eq_iff [of "w AND loop_bit i" 0] by (auto simp: bit_and_iff)

lemma masked_absent:
  assumes "i < 64" "\<not> bit w i"
  shows "w AND NOT (loop_bit i) = w"
  using assms by (intro bit_word_eqI) (auto simp: bit_masked)

lemma countr_zero_bit:
  assumes "w \<noteq> 0"
  shows "countr_zero w < 64" "bit w (countr_zero w)"
proof -
  obtain k where k: "k < 64" "bit w k" using assms bit_imp_le_length by (fastforce simp: bit_eq_iff)
  then have "\<not> (\<forall>x \<in> set [0..<64]. \<not> bit w x)" by auto
  then have l: "countr_zero w < length [0..<64]"
    unfolding countr_zero_def using length_takeWhile_le takeWhile_eq_all_conv by (metis le_neq_implies_less takeWhile_eq_take take_all_iff le_refl)
  then show "countr_zero w < 64" by simp
  show "bit w (countr_zero w)"
    using nth_length_takeWhile [of "\<lambda>k. \<not> bit w k" "[0..<64]"] l unfolding countr_zero_def by simp
qed

lemma claimed_update:
  assumes "i < length ls"
  shows "claimed_loops (ls[i := x]) + of_bool (lw_claimed (ls ! i)) = claimed_loops ls + of_bool (lw_claimed x)"
  using assms unfolding claimed_loops_def
proof (induction ls arbitrary: i)
  case (Cons y ls)
  then show ?case by (cases i) auto
qed simp

lemma poked_simps [simp]:
  "poked (add_mset p M) i \<longleftrightarrow> (\<exists>n idle. p = Wake_Poke n idle i) \<or> poked M i" "\<not> poked {#} i"
  by (auto simp: poked_def)

lemma swept_simps [simp]:
  "swept (add_mset p M) i \<longleftrightarrow> (\<exists>k \<le> i. p = Wake_All k) \<or> swept M i" "\<not> swept {#} i"
  by (auto simp: swept_def)

lemma on_loop_simps [simp]:
  "wk_stop (on_loop i f s) = wk_stop s" "wk_backlog (on_loop i f s) = wk_backlog s" "wk_idle (on_loop i f s) = wk_idle s"
  "wk_wakers (on_loop i f s) = wk_wakers s" "wk_loops (on_loop i f s) = (wk_loops s)[i := f (wk_loops s ! i)]"
  by (simp_all add: on_loop_def)

lemmas wake_inv_simps = wait_ok_def wakes_ok_def sleeps_idle_def covered_def

lemma enqueue_inv: "wake_inv s \<Longrightarrow> wake_inv (enqueue_http n s)"
  by (auto simp: wake_inv_def enqueue_http_def wakes_ok_def sleeps_idle_def covered_def)

lemma queue_one_inv: "wake_inv s \<Longrightarrow> wake_inv (queue_one s)"
  by (simp add: queue_one_def enqueue_inv)

lemma sweep_inv: "wake_inv s \<Longrightarrow> wake_inv (s\<lparr>wk_wakers := add_mset (Wake_All k) (wk_wakers s)\<rparr>)"
  by (auto simp: wake_inv_def wakes_ok_def sleeps_idle_def covered_def)

lemma cancel_inv: "wake_inv s \<Longrightarrow> wake_inv (cancel_queued discarded s)"
  by (fastforce simp: wake_inv_def cancel_queued_def wakes_ok_def sleeps_idle_def covered_def)

lemma stop_inv: "wake_inv s \<Longrightarrow> wake_inv (publish_stop s)"
  by (auto simp: wake_inv_def publish_stop_def wakes_ok_def sleeps_idle_def covered_def)

text \<open>A step of a loop touches no other loop but through the backlog and the number of claimed loops.\<close>

lemma loop_frame:
  assumes "wake_inv s" "i < length (wk_loops s)"
    and "wk_loops s' = (wk_loops s)[i := lp]" "wk_wakers s' = wk_wakers s" "wk_stop s' = wk_stop s"
    and "\<And>k. k \<noteq> i \<Longrightarrow> bit (wk_idle s') k = bit (wk_idle s) k"
    and "\<And>d. wk_backlog s \<le> d + claimed_loops (wk_loops s) \<Longrightarrow> wk_backlog s' \<le> d + claimed_loops (wk_loops s')"
    and "wait_ok (bit (wk_idle s') i) lp" "wakes_ok s i lp" "sleeps_idle s' i lp \<Longrightarrow> covered s' i"
  shows "wake_inv s'"
  unfolding wake_inv_def
proof (intro conjI allI impI)
  show "length (wk_loops s') \<le> 64" using assms(1,3) by (simp add: wake_inv_def)
  show "k < length (wk_loops s')" if "bit (wk_idle s') k" for k
    using assms(1-3,6) that by (cases "k = i") (auto simp: wake_inv_def)
  fix j
  assume "j < length (wk_loops s')"
  then have j: "j < length (wk_loops s)" using assms(3) by simp
  show "wait_ok (bit (wk_idle s') j) (wk_loops s' ! j)"
    using assms(1-3,6,8) j by (cases "j = i") (auto simp: wake_inv_def)
  show "wakes_ok s' j (wk_loops s' ! j)"
    using assms(1-5,9) j by (cases "j = i") (auto simp: wake_inv_def wakes_ok_def)
  assume "sleeps_idle s' j (wk_loops s' ! j)"
  then show "covered s' j"
    using assms j by (cases "j = i") (auto simp: wake_inv_def sleeps_idle_def covered_def)
qed

lemma claimed_kept:
  assumes "i < length ls" "lw_claimed x = lw_claimed (ls ! i)"
  shows "claimed_loops (ls[i := x]) = claimed_loops ls"
  using claimed_update [OF assms(1), of x] assms(2) by simp

lemma take_transfers_inv:
  assumes "wake_inv s" "i < length (wk_loops s)" "lw_pc (wk_loops s ! i) = At_Take" "\<not> wk_stop s"
  shows "wake_inv (take_transfers s i)"
proof -
  let ?lp = "wk_loops s ! i"
  define n where "n = min (lw_limit ?lp - (lw_active ?lp + lw_pending ?lp + lw_resolving ?lp)) (wk_backlog s)"
  define lp where "lp = ?lp\<lparr>lw_pending := lw_pending ?lp + n, lw_claimed := False, lw_pc := At_Work\<rparr>"
  have s': "take_transfers s i = on_loop i (\<lambda>_. lp) (s\<lparr>wk_backlog := wk_backlog s - n\<rparr>)"
    by (simp add: take_transfers_def n_def lp_def Let_def on_loop_def)
  have ok: "wait_ok (bit (wk_idle s) i) ?lp" using assms(1,2) by (simp add: wake_inv_def)
  have room: "1 \<le> n" if "lw_claimed ?lp" "wk_backlog s \<noteq> 0"
    using ok that by (auto simp: wait_ok_def has_room_def n_def)
  show ?thesis unfolding s'
  proof (rule loop_frame [OF assms(1,2), of _ lp])
    fix d
    assume "wk_backlog s \<le> d + claimed_loops (wk_loops s)"
    then show "wk_backlog (on_loop i (\<lambda>_. lp) (s\<lparr>wk_backlog := wk_backlog s - n\<rparr>)) \<le>
        d + claimed_loops (wk_loops (on_loop i (\<lambda>_. lp) (s\<lparr>wk_backlog := wk_backlog s - n\<rparr>)))"
      using claimed_update [OF assms(2), of lp] room by (cases "lw_claimed ?lp"; cases "wk_backlog s = 0") (auto simp: lp_def)
  qed (use ok assms(3,4) in \<open>auto simp: lp_def wait_ok_def wakes_ok_def sleeps_idle_def\<close>)
qed

lemma choose_timeout_inv:
  assumes "wake_inv s" "i < length (wk_loops s)" "lw_pc (wk_loops s ! i) = At_Work"
  shows "wake_inv (choose_timeout c s i)"
proof -
  let ?lp = "wk_loops s ! i"
  define lp where "lp = ?lp\<lparr>lw_active := lc_active c, lw_pending := lc_pending c, lw_resolving := lc_resolving c\<rparr>"
  define t where "t = poll_timeout (has_room lp) (wk_backlog s) c"
  define lp' where "lp' = lp\<lparr>lw_pc := if has_room lp \<and> t \<noteq> 0 then At_Announce t else At_Poll t False\<rparr>"
  have s': "choose_timeout c s i = on_loop i (\<lambda>_. lp') s"
    unfolding choose_timeout_def lp_def lp'_def t_def Let_def on_loop_def ..
  have ok: "wait_ok (bit (wk_idle s) i) ?lp" "wakes_ok s i ?lp" using assms(1,2) by (simp_all add: wake_inv_def)
  have p: "lw_pending lp = 0" if "has_room lp" "t \<noteq> 0"
    using that by (auto simp: t_def poll_timeout_def lp_def Let_def split: if_splits)
  have r: "has_room lp' = has_room lp" by (simp add: lp'_def has_room_def)
  show ?thesis unfolding s'
  proof (rule loop_frame [OF assms(1,2), of _ lp'])
    show "wait_ok (bit (wk_idle (on_loop i (\<lambda>_. lp') s)) i) lp'"
      using ok(1) p r assms(3) by (auto simp: wait_ok_def lp'_def) (auto simp: lp_def)
  qed (use ok assms(3) claimed_kept [OF assms(2), of lp'] in \<open>auto simp: lp_def lp'_def wakes_ok_def sleeps_idle_def\<close>)
qed

lemma loop_step_inv:
  assumes "wake_inv s" "i < length (wk_loops s)"
  shows "wake_inv (loop_step c i s)"
proof -
  let ?lp = "wk_loops s ! i"
  have ok: "wait_ok (bit (wk_idle s) i) ?lp" "wakes_ok s i ?lp" and i: "i < 64"
    using assms by (auto simp: wake_inv_def)
  note kept = claimed_kept [OF assms(2)] and frame = loop_frame [OF assms]
  show ?thesis
  proof (cases "lw_pc ?lp")
    case At_Take
    then show ?thesis
    proof (cases "wk_stop s")
      case True
      with At_Take show ?thesis
        by (simp add: loop_step_def) (rule frame, use ok kept in \<open>auto simp: wait_ok_def wakes_ok_def sleeps_idle_def has_room_def\<close>)
    qed (simp add: loop_step_def take_transfers_inv [OF assms])
  next
    case At_Work
    then show ?thesis by (simp add: loop_step_def choose_timeout_inv [OF assms])
  next
    case (At_Announce t)
    then show ?thesis
      by (simp add: loop_step_def)
        (rule frame, use ok kept i in \<open>auto simp: wait_ok_def wakes_ok_def sleeps_idle_def has_room_def bit_or_iff\<close>)
  next
    case (At_Check t)
    then have "loop_step c i s = on_loop i (\<lambda>lp. lp\<lparr>lw_pc := At_Poll (if wk_backlog s \<noteq> 0 then 0 else t) True\<rparr>) s"
      unfolding loop_step_def by simp
    with At_Check show ?thesis
      by (simp only:)
        (rule frame, use ok kept in \<open>auto simp: wait_ok_def wakes_ok_def sleeps_idle_def has_room_def covered_def split: if_splits\<close>)
  next
    case (At_Poll t announced)
    then show ?thesis
    proof (cases announced)
      case True
      with At_Poll show ?thesis
        by (simp add: loop_step_def)
          (rule frame, use ok kept in \<open>auto simp: wait_ok_def wakes_ok_def sleeps_idle_def has_room_def\<close>)
    next
      case False
      with At_Poll show ?thesis
        by (simp add: loop_step_def)
          (rule frame, use ok kept in \<open>auto simp: wait_ok_def wakes_ok_def sleeps_idle_def has_room_def\<close>)
    qed
  next
    case At_Clear
    then show ?thesis
      by (simp add: loop_step_def)
        (rule frame, use ok kept i in \<open>auto simp: wait_ok_def wakes_ok_def sleeps_idle_def has_room_def bit_masked\<close>)
  next
    case At_Exit
    then show ?thesis using assms(1) by (simp add: loop_step_def)
  qed
qed

text \<open>
  A producer that goes on keeps what it owes to the other loops: \<open>q\<close> is what it becomes. The loop it touches,
  if any, only gains a wake-up or a claim.
\<close>

lemma waker_frame:
  assumes "wake_inv s" "wk_wakers s = add_mset p others"
    and "length (wk_loops s') = length (wk_loops s)" "wk_stop s' = wk_stop s" "wk_backlog s' = wk_backlog s"
    and "\<And>k. bit (wk_idle s') k \<Longrightarrow> bit (wk_idle s) k"
    and "\<And>j. j < length (wk_loops s) \<Longrightarrow> wait_ok (bit (wk_idle s) j) (wk_loops s ! j) \<Longrightarrow>
      wait_ok (bit (wk_idle s') j) (wk_loops s' ! j)"
    and "\<And>j. j < length (wk_loops s) \<Longrightarrow> wakes_ok s j (wk_loops s ! j) \<Longrightarrow> wakes_ok s' j (wk_loops s' ! j)"
    and "\<And>j. j < length (wk_loops s) \<Longrightarrow> lw_pc (wk_loops s' ! j) = lw_pc (wk_loops s ! j)"
    and "\<And>j. bit (wk_idle s') j \<Longrightarrow> sum_mset (image_mset (due j) (wk_wakers s)) + claimed_loops (wk_loops s) \<le>
      sum_mset (image_mset (due j) (wk_wakers s')) + claimed_loops (wk_loops s')"
  shows "wake_inv s'"
  unfolding wake_inv_def
proof (intro conjI allI impI)
  show "length (wk_loops s') \<le> 64" using assms(1,3) by (simp add: wake_inv_def)
  show "k < length (wk_loops s')" if "bit (wk_idle s') k" for k
    using assms(1,3) assms(6) [OF that] by (simp add: wake_inv_def)
  fix j
  assume "j < length (wk_loops s')"
  then have j: "j < length (wk_loops s)" using assms(3) by simp
  show "wait_ok (bit (wk_idle s') j) (wk_loops s' ! j)" "wakes_ok s' j (wk_loops s' ! j)"
    using assms(1) assms(7,8) [OF j] j by (simp_all add: wake_inv_def)
  assume idle: "sleeps_idle s' j (wk_loops s' ! j)"
  then have "sleeps_idle s j (wk_loops s ! j)" using assms(4,6) assms(9) [OF j] by (simp add: sleeps_idle_def)
  then have "covered s j" using assms(1) j by (simp add: wake_inv_def)
  moreover have "bit (wk_idle s') j" using idle by (simp add: sleeps_idle_def)
  ultimately show "covered s' j" using assms(5) assms(10) [of j] unfolding covered_def by linarith
qed

lemma multi_wakeup_loop:
  "wk_loops (multi_wakeup i s) ! j = (if j = i \<and> i < length (wk_loops s) then (wk_loops s ! i)\<lparr>lw_wakeup := True\<rparr> else wk_loops s ! j)"
  "claimed_loops (wk_loops (multi_wakeup i s)) = claimed_loops (wk_loops s)"
  "wk_stop (multi_wakeup i s) = wk_stop s" "wk_backlog (multi_wakeup i s) = wk_backlog s" "wk_idle (multi_wakeup i s) = wk_idle s"
  "length (wk_loops (multi_wakeup i s)) = length (wk_loops s)"
proof -
  show "claimed_loops (wk_loops (multi_wakeup i s)) = claimed_loops (wk_loops s)"
    by (cases "i < length (wk_loops s)") (simp_all add: multi_wakeup_def claimed_kept list_update_beyond not_less)
qed (auto simp: multi_wakeup_def nth_list_update list_update_beyond not_less)

lemma scan_inv:
  assumes "wake_inv s" "wk_wakers s = add_mset (Wake_Scan n idle) others" "0 < n" "idle \<noteq> 0"
    "waker_step (Wake_Scan n idle) s = (Some q, s')"
  shows "wake_inv (s'\<lparr>wk_wakers := add_mset q others\<rparr>)"
proof -
  let ?i = "countr_zero idle"
  note i = countr_zero_bit [OF assms(4)]
  show ?thesis
  proof (cases "bit (wk_idle s) ?i")
    case False
    then have q: "q = Wake_Scan n (idle AND NOT (loop_bit ?i))" "s' = s"
      using assms(3-5) i by (auto simp: Let_def mask_test masked_absent)
    show ?thesis
    proof (rule waker_frame [OF assms(1,2)])
      fix j
      assume "bit (wk_idle (s'\<lparr>wk_wakers := add_mset q others\<rparr>)) j"
      with False q have "j \<noteq> ?i" by auto
      then show "sum_mset (image_mset (due j) (wk_wakers s)) + claimed_loops (wk_loops s) \<le>
          sum_mset (image_mset (due j) (wk_wakers (s'\<lparr>wk_wakers := add_mset q others\<rparr>))) +
          claimed_loops (wk_loops (s'\<lparr>wk_wakers := add_mset q others\<rparr>))"
        using q i by (simp add: assms(2) bit_masked)
    qed (use q assms(2) in \<open>auto simp: wakes_ok_def\<close>)
  next
    case True
    then have l: "?i < length (wk_loops s)" using assms(1) by (simp add: wake_inv_def)
    have q: "q = Wake_Poke n (idle AND NOT (loop_bit ?i)) ?i"
      "s' = on_loop ?i (\<lambda>lp. lp\<lparr>lw_claimed := True\<rparr>) (s\<lparr>wk_idle := wk_idle s AND NOT (loop_bit ?i)\<rparr>)"
      using assms(3-5) i True by (auto simp: Let_def mask_test)
    have "wait_ok True (wk_loops s ! ?i)" using assms(1) l True by (auto simp: wake_inv_def)
    then have c: "claimed_loops (wk_loops s') = Suc (claimed_loops (wk_loops s))"
      using claimed_update [OF l, of "(wk_loops s ! ?i)\<lparr>lw_claimed := True\<rparr>"] q by (auto simp: wait_ok_def)
    show ?thesis
    proof (rule waker_frame [OF assms(1,2)])
      fix j
      assume "j < length (wk_loops s)" "wait_ok (bit (wk_idle s) j) (wk_loops s ! j)"
      then show "wait_ok (bit (wk_idle (s'\<lparr>wk_wakers := add_mset q others\<rparr>)) j) (wk_loops (s'\<lparr>wk_wakers := add_mset q others\<rparr>) ! j)"
        using True q i by (cases "j = ?i") (auto simp: bit_masked wait_ok_def has_room_def)
    next
      fix j
      assume "j < length (wk_loops s)" "wakes_ok s j (wk_loops s ! j)"
      then show "wakes_ok (s'\<lparr>wk_wakers := add_mset q others\<rparr>) j (wk_loops (s'\<lparr>wk_wakers := add_mset q others\<rparr>) ! j)"
        using q assms(2) by (cases "j = ?i") (auto simp: wakes_ok_def)
    next
      fix j
      assume "bit (wk_idle (s'\<lparr>wk_wakers := add_mset q others\<rparr>)) j"
      then have "j \<noteq> ?i" using q i by (auto simp: bit_masked)
      then show "sum_mset (image_mset (due j) (wk_wakers s)) + claimed_loops (wk_loops s) \<le>
          sum_mset (image_mset (due j) (wk_wakers (s'\<lparr>wk_wakers := add_mset q others\<rparr>))) +
          claimed_loops (wk_loops (s'\<lparr>wk_wakers := add_mset q others\<rparr>))"
        using q i c assms(3) by (simp add: assms(2) bit_masked)
    qed (use q i l in \<open>auto simp: bit_masked nth_list_update\<close>)
  qed
qed

lemma waker_step_inv:
  assumes "wake_inv s" "wk_wakers s = add_mset p others" "waker_step p s = (rest, s')"
  shows "wake_inv (s'\<lparr>wk_wakers := (case rest of None \<Rightarrow> others | Some q \<Rightarrow> add_mset q others)\<rparr>)"
proof -
  note frame = waker_frame [OF assms(1,2)]
  have quiet: ?thesis if "s' = s" "\<forall>n w j. p \<noteq> Wake_Poke n w j" "\<forall>j. p = Wake_All j \<longrightarrow> length (wk_loops s) \<le> j"
    "\<And>j. bit (wk_idle s) j \<Longrightarrow> due j p \<le> (case rest of None \<Rightarrow> 0 | Some q \<Rightarrow> due j q)"
    unfolding that(1) by (rule frame) (use that(2-4) in \<open>auto simp: assms(2) wakes_ok_def split: option.splits\<close>)
  have stirred: ?thesis if "s' = multi_wakeup index s" "p = Wake_All index \<or> (\<exists>n w. p = Wake_Poke n w index)"
    "rest = Some q" "\<And>j. due j p \<le> due j q" "p = Wake_All index \<Longrightarrow> q = Wake_All (Suc index)" for index q
    unfolding that(1,3)
    by (rule frame) (use that(2,4,5) in \<open>auto simp: assms(2) wait_ok_def wakes_ok_def has_room_def multi_wakeup_loop\<close>)
  show ?thesis
  proof (cases p)
    case (Wake_Scan n idle)
    show ?thesis
    proof (cases "0 < n \<and> idle \<noteq> 0")
      case True
      then obtain q where "rest = Some q" using assms(3) Wake_Scan by (auto simp: Let_def split: if_splits)
      with scan_inv True assms Wake_Scan show ?thesis by simp
    qed (use assms(3) Wake_Scan quiet in auto)
  next
    case (Wake_All index)
    then show ?thesis
      using assms(3) quiet stirred [of index "Wake_All (Suc index)"] by (cases "index < length (wk_loops s)") auto
  qed (use assms(3) quiet stirred in auto)
qed

lemma new_wake_inv: "length (loop_limits conc threads) \<le> 64 \<Longrightarrow> wake_inv (new_wake_state conc threads)"
  by (simp add: wake_inv_def new_wake_state_def new_loop_wait_def wait_ok_def wakes_ok_def sleeps_idle_def)

lemma wake_step_inv: "wake_step s s' \<Longrightarrow> wake_inv s \<Longrightarrow> wake_inv s'"
  by (induction rule: wake_step.induct)
    (simp_all add: enqueue_inv queue_one_inv cancel_inv sweep_inv stop_inv waker_step_inv loop_step_inv)

lemma reachable_wake_inv:
  assumes "wake_step\<^sup>*\<^sup>* (new_wake_state conc threads) s" "1 \<le> conc" "conc < 2 ^ 64"
  shows "wake_inv s"
  using assms(1)
proof (induction rule: rtranclp_induct)
  case base
  show ?case using loop_limits_split [OF assms(2,3), of threads] by (intro new_wake_inv) simp
qed (rule wake_step_inv)

section \<open>No wake-up is lost\<close>

text \<open>
  A loop sleeps when it polls with a time-out and no wake-up waits for it. It is on its way to the queue when it
  has a free slot and nothing stands between it and \<open>take_http\<close> but steps of its own.
\<close>

fun waits :: "loop_pc \<Rightarrow> bool" where
  "waits (At_Poll t announced) = (t \<noteq> 0)"
| "waits pc = False"

definition asleep :: "loop_wait \<Rightarrow> bool" where
  "asleep lp \<longleftrightarrow> waits (lw_pc lp) \<and> \<not> lw_wakeup lp"

definition on_its_way :: "loop_wait \<Rightarrow> bool" where
  "on_its_way lp \<longleftrightarrow> has_room lp \<and> lw_pending lp = 0 \<and>
     (case lw_pc lp of At_Take \<Rightarrow> True | At_Clear \<Rightarrow> True | At_Check t \<Rightarrow> lw_wakeup lp | At_Poll t announced \<Rightarrow> lw_wakeup lp | _ \<Rightarrow> False)"

lemma waits_cases: "waits pc \<longleftrightarrow> (\<exists>t announced. pc = At_Poll t announced \<and> t \<noteq> 0)"
  by (cases pc) auto

lemma claimed_on_its_way:
  assumes "wake_inv s" "wk_wakers s = {#}" "\<not> wk_stop s" "lp \<in> set (wk_loops s)" "lw_claimed lp"
  shows "on_its_way lp"
proof -
  obtain i where "i < length (wk_loops s)" "lp = wk_loops s ! i" using assms(4) by (auto simp: in_set_conv_nth)
  then have "wait_ok (bit (wk_idle s) i) lp" "wakes_ok s i lp" using assms(1) by (auto simp: wake_inv_def)
  then show ?thesis
    using assms(2,3,5) by (cases "lw_pc lp") (auto simp: wait_ok_def wakes_ok_def on_its_way_def)
qed

lemma filter_length_mono:
  "(\<And>x. x \<in> set xs \<Longrightarrow> P x \<Longrightarrow> Q x) \<Longrightarrow> length (filter P xs) \<le> length (filter Q xs)"
  by (induction xs) auto

text \<open>A loop on its way takes a transfer within four steps of its own.\<close>

lemma take_transfers_takes:
  assumes "i < length (wk_loops s)" "on_its_way (wk_loops s ! i)" "wk_backlog s \<noteq> 0"
  shows "wk_backlog (take_transfers s i) < wk_backlog s"
  using assms by (auto simp: take_transfers_def Let_def on_its_way_def has_room_def)

lemma on_its_way_step:
  assumes "i < length (wk_loops s)" "on_its_way (wk_loops s ! i)" "\<not> wk_stop s" "lw_pc (wk_loops s ! i) \<noteq> At_Take"
  shows "on_its_way (wk_loops (loop_step c i s) ! i)" "wk_backlog (loop_step c i s) = wk_backlog s"
    "\<not> wk_stop (loop_step c i s)" "length (wk_loops (loop_step c i s)) = length (wk_loops s)"
    "lw_pc (wk_loops (loop_step c i s) ! i) =
      (case lw_pc (wk_loops s ! i) of At_Check t \<Rightarrow> At_Poll (if wk_backlog s \<noteq> 0 then 0 else t) True
        | At_Poll t announced \<Rightarrow> if announced then At_Clear else At_Take | _ \<Rightarrow> At_Take)"
  using assms by (cases "lw_pc (wk_loops s ! i)"; simp add: loop_step_def on_its_way_def has_room_def)+

fun steps_left :: "loop_pc \<Rightarrow> nat" where
  "steps_left (At_Check t) = 4"
| "steps_left (At_Poll t announced) = (if announced then 3 else 2)"
| "steps_left At_Clear = 2"
| "steps_left pc = 1"

lemma on_its_way_takes:
  assumes "i < length (wk_loops s)" "on_its_way (wk_loops s ! i)" "\<not> wk_stop s" "wk_backlog s \<noteq> 0"
  shows "wk_backlog ((loop_step c i ^^ steps_left (lw_pc (wk_loops s ! i))) s) < wk_backlog s"
  using assms
proof (induction "steps_left (lw_pc (wk_loops s ! i))" arbitrary: s rule: less_induct)
  case less
  show ?case
  proof (cases "lw_pc (wk_loops s ! i) = At_Take")
    case True
    then show ?thesis using less.prems by (simp add: loop_step_def take_transfers_takes)
  next
    case False
    let ?s = "loop_step c i s"
    note n = on_its_way_step [OF less.prems(1-3) False, of c]
    have k: "steps_left (lw_pc (wk_loops s ! i)) = Suc (steps_left (lw_pc (wk_loops ?s ! i)))"
      using less.prems(2) False unfolding n(5) by (cases "lw_pc (wk_loops s ! i)") (auto simp: on_its_way_def)
    show ?thesis
      using less.hyps [of ?s] less.prems n(1-4) k by (simp add: funpow_Suc_right del: funpow.simps)
  qed
qed

text \<open>The time-out of a poll is at most 200 milliseconds, and zero when queued work could start.\<close>

lemma poll_timeout_bounds:
  "0 \<le> poll_timeout room backlog c \<and> poll_timeout room backlog c \<le> 200 \<and>
   (lc_resolving c \<noteq> 0 \<longrightarrow> poll_timeout room backlog c \<le> 20) \<and>
   (room \<and> (lc_pending c \<noteq> 0 \<or> backlog \<noteq> 0) \<longrightarrow> poll_timeout room backlog c = 0)"
  by (auto simp: poll_timeout_def Let_def)

text \<open>
  C11. No wake-up is lost. When no producer is under way and a loop sleeps in its poll, either all its slots
  are taken or every transfer of the HTTP queue has another loop with a free slot that is already on its way to
  the queue. Whatever the interleaving of submissions, cancellations, producers and loops, a transfer never waits
  for a time-out while a loop that could run it sleeps.
\<close>

theorem no_lost_wakeup:
  assumes "wake_step\<^sup>*\<^sup>* (new_wake_state conc threads) s" "1 \<le> conc" "conc < 2 ^ 64"
    and "wk_wakers s = {#}" "\<not> wk_stop s" "i < length (wk_loops s)" "asleep (wk_loops s ! i)"
  shows "\<not> has_room (wk_loops s ! i) \<or> wk_backlog s \<le> length (filter on_its_way (wk_loops s))"
proof -
  let ?lp = "wk_loops s ! i"
  note inv = reachable_wake_inv [OF assms(1-3)]
  have ok: "wait_ok (bit (wk_idle s) i) ?lp" "wakes_ok s i ?lp" "sleeps_idle s i ?lp \<longrightarrow> covered s i"
    using inv assms(6) by (auto simp: wake_inv_def)
  obtain t a where pc: "lw_pc ?lp = At_Poll t a" "t \<noteq> 0" "\<not> lw_wakeup ?lp"
    using assms(7) by (auto simp: asleep_def waits_cases)
  show ?thesis
  proof (cases a)
    case True
    then have "sleeps_idle s i ?lp" using ok(1,2) pc assms(4,5) by (auto simp: wait_ok_def wakes_ok_def sleeps_idle_def)
    then have "wk_backlog s \<le> length (filter lw_claimed (wk_loops s))"
      using ok(3) assms(4) by (simp add: covered_def claimed_loops_def)
    also have "\<dots> \<le> length (filter on_its_way (wk_loops s))"
      using claimed_on_its_way [OF inv assms(4,5)] by (rule filter_length_mono)
    finally show ?thesis by simp
  qed (use ok(1) pc in \<open>auto simp: wait_ok_def\<close>)
qed

text \<open>
  C22. Shutdown reaches every loop: once the stop flag is set and the producers that were under way have
  returned, no loop sleeps in its poll, so joining the threads waits for no time-out.
\<close>

theorem shutdown_wakes_every_loop:
  assumes "wake_step\<^sup>*\<^sup>* (new_wake_state conc threads) s" "1 \<le> conc" "conc < 2 ^ 64"
    and "wk_wakers s = {#}" "wk_stop s" "i < length (wk_loops s)"
  shows "\<not> asleep (wk_loops s ! i)"
  using reachable_wake_inv [OF assms(1-3)] assms(4-6)
  by (auto simp: wake_inv_def wakes_ok_def asleep_def waits_cases)

section \<open>Runs of the threads\<close>

definition idle_counts :: loop_counts where
  "idle_counts = \<lparr>lc_active = 0, lc_pending = 0, lc_resolving = 0, lc_retries = [], lc_running = 0, lc_now = 0\<rparr>"

fun under_way :: "waker option \<Rightarrow> waker multiset" where
  "under_way None = {#}"
| "under_way (Some p) = {#p#}"

fun drive :: "nat \<Rightarrow> waker option \<Rightarrow> wake_state \<Rightarrow> wake_state" where
  "drive n p s =
     (if n = 0 then s
      else case p of
        None \<Rightarrow> s
      | Some q \<Rightarrow> (case waker_step q s of (rest, s') \<Rightarrow> drive (n - 1) rest (s'\<lparr>wk_wakers := under_way rest\<rparr>)))"

declare drive.simps [simp del]

lemma drive_runs: "wk_wakers s = under_way p \<Longrightarrow> wake_step\<^sup>*\<^sup>* s (drive n p s)"
proof (induction n arbitrary: p s)
  case (Suc n)
  show ?case
  proof (cases p)
    case (Some q)
    obtain rest s' where w: "waker_step q s = (rest, s')" by fastforce
    have "wake_step s (s'\<lparr>wk_wakers := under_way rest\<rparr>)"
      using wakes [OF _ w, of "{#}"] Suc.prems Some by (cases rest) simp_all
    moreover have "wake_step\<^sup>*\<^sup>* (s'\<lparr>wk_wakers := under_way rest\<rparr>) (drive n rest (s'\<lparr>wk_wakers := under_way rest\<rparr>))"
      by (rule Suc.IH) simp
    ultimately show ?thesis using Some w by (simp add: drive.simps [of "Suc n"] converse_rtranclp_into_rtranclp)
  qed (simp add: drive.simps)
qed (simp add: drive.simps)

lemma loop_step_length [simp]: "length (wk_loops (loop_step c i s)) = length (wk_loops s)"
  by (cases "lw_pc (wk_loops s ! i)") (simp_all add: loop_step_def take_transfers_def choose_timeout_def Let_def)

lemma loop_runs: "i < length (wk_loops s) \<Longrightarrow> wake_step\<^sup>*\<^sup>* s ((loop_step c i ^^ n) s)"
proof (induction n)
  case (Suc n)
  have "length (wk_loops ((loop_step c i ^^ n) s)) = length (wk_loops s)" by (induction n) simp_all
  then have "wake_step ((loop_step c i ^^ n) s) ((loop_step c i ^^ Suc n) s)" using Suc.prems by (simp add: wake_step.loops)
  with Suc show ?case by (simp del: funpow.simps)
qed simp

definition both_idle :: wake_state where
  "both_idle = (loop_step idle_counts 1 ^^ 4) ((loop_step idle_counts 0 ^^ 4) (new_wake_state 2 2))"

lemma both_idle_is:
  "both_idle = \<lparr>wk_stop = False, wk_backlog = 0, wk_idle = 3,
     wk_loops = replicate 2 ((new_loop_wait 1)\<lparr>lw_pc := At_Poll 200 True\<rparr>), wk_wakers = {#}\<rparr>"
  by code_simp

lemma both_idle_reached: "wake_step\<^sup>*\<^sup>* (new_wake_state 2 2) both_idle"
proof -
  let ?a = "(loop_step idle_counts 0 ^^ 4) (new_wake_state 2 2)"
  have "0 < length (wk_loops (new_wake_state 2 2))" "1 < length (wk_loops ?a)" by code_simp+
  then show ?thesis unfolding both_idle_def using loop_runs rtranclp_trans by metis
qed

definition one_queued :: wake_state where
  "one_queued = drive 4 (Some (Wake_Load 1)) (enqueue_http 1 both_idle)"

lemma one_queued_reached: "wake_step\<^sup>*\<^sup>* (new_wake_state 2 2) one_queued"
proof -
  have "wake_step both_idle (enqueue_http 1 both_idle)" by (rule wake_step.submitted) simp
  moreover have "wake_step\<^sup>*\<^sup>* (enqueue_http 1 both_idle) one_queued"
    unfolding one_queued_def by (rule drive_runs) (simp add: enqueue_http_def both_idle_is)
  ultimately show ?thesis using both_idle_reached by (meson rtranclp.rtrancl_into_rtrancl rtranclp_trans)
qed

lemma one_queued_is:
  "one_queued = \<lparr>wk_stop = False, wk_backlog = 1, wk_idle = 2,
     wk_loops = [(new_loop_wait 1)\<lparr>lw_pc := At_Poll 200 True, lw_wakeup := True, lw_claimed := True\<rparr>,
       (new_loop_wait 1)\<lparr>lw_pc := At_Poll 200 True\<rparr>], wk_wakers = {#}\<rparr>"
  by code_simp

theorem no_lost_wakeup_witness:
  "asleep (wk_loops one_queued ! 1) \<and> has_room (wk_loops one_queued ! 1) \<and>
   wk_backlog one_queued = 1 \<and> wk_backlog one_queued \<le> length (filter on_its_way (wk_loops one_queued))"
proof -
  have "asleep (wk_loops one_queued ! 1)" "has_room (wk_loops one_queued ! 1)" "wk_backlog one_queued = 1"
    by (simp_all add: one_queued_is asleep_def has_room_def new_loop_wait_def)
  with no_lost_wakeup [OF one_queued_reached, of 1] show ?thesis by (simp add: one_queued_is)
qed

definition shut_down :: wake_state where
  "shut_down = drive 4 (Some (Wake_All 0)) (publish_stop both_idle)"

theorem shutdown_wakes_every_loop_witness:
  "wk_stop shut_down \<and> lw_pc (wk_loops shut_down ! 1) = At_Poll 200 True \<and> \<not> asleep (wk_loops shut_down ! 1)"
proof -
  have "wake_step both_idle (publish_stop both_idle)" by (rule wake_step.stops)
  moreover have "wake_step\<^sup>*\<^sup>* (publish_stop both_idle) shut_down"
    unfolding shut_down_def by (rule drive_runs) (simp add: publish_stop_def both_idle_is)
  ultimately have r: "wake_step\<^sup>*\<^sup>* (new_wake_state 2 2) shut_down"
    using both_idle_reached by (meson rtranclp.rtrancl_into_rtrancl rtranclp_trans)
  have v: "shut_down = \<lparr>wk_stop = True, wk_backlog = 0, wk_idle = 3,
     wk_loops = replicate 2 ((new_loop_wait 1)\<lparr>lw_pc := At_Poll 200 True, lw_wakeup := True\<rparr>), wk_wakers = {#}\<rparr>"
    by code_simp
  show ?thesis using shutdown_wakes_every_loop [OF r, of 1] by (simp add: v new_loop_wait_def)
qed

end
