(* ===== verification/Karu_Curl_Setup.thy ===== *)
theory Karu_Curl_Setup
  imports Karu_Discovery Karu_Transport
begin

text \<open>
  How requests are set up on a libcurl handle: the options that \<open>configure\<close>, \<open>get_range\<close> and
  \<open>apply_http_options\<close> of \<open>src/src/runtime/transport.cpp\<close> and \<open>credential_request\<close> of
  \<open>src/src/backends/credentials.cpp\<close> set, in their order. A handle is the map of the options set on it so
  far; \<open>curl_easy_setopt\<close> is the environment, which may refuse any option with a code. A handle whose set-up
  failed is never performed, so a failure carries its text only. Callbacks and buffers passed by address are
  named. The variant for libcurl 7.85 and later is chosen by \<open>ce_protocol_names\<close>, a constant of the build.
\<close>

section \<open>Options of a handle\<close>

datatype curl_option =
    CURLOPT_URL | CURLOPT_WRITEFUNCTION | CURLOPT_WRITEDATA | CURLOPT_HEADERFUNCTION | CURLOPT_HEADERDATA
  | CURLOPT_PRIVATE | CURLOPT_SHARE | CURLOPT_ERRORBUFFER | CURLOPT_NOSIGNAL | CURLOPT_PATH_AS_IS
  | CURLOPT_UNRESTRICTED_AUTH | CURLOPT_MAXREDIRS | CURLOPT_TCP_KEEPALIVE | CURLOPT_CONNECTTIMEOUT
  | CURLOPT_TIMEOUT | CURLOPT_TIMEOUT_MS | CURLOPT_LOW_SPEED_LIMIT | CURLOPT_LOW_SPEED_TIME
  | CURLOPT_SUPPRESS_CONNECT_HEADERS | CURLOPT_DNS_SHUFFLE_ADDRESSES | CURLOPT_DNS_CACHE_TIMEOUT
  | CURLOPT_RESOLVE | CURLOPT_BUFFERSIZE | CURLOPT_PROTOCOLS_STR | CURLOPT_REDIR_PROTOCOLS_STR
  | CURLOPT_PROTOCOLS | CURLOPT_REDIR_PROTOCOLS | CURLOPT_FOLLOWLOCATION | CURLOPT_HTTP_VERSION
  | CURLOPT_PIPEWAIT | CURLOPT_CAINFO | CURLOPT_CAPATH | CURLOPT_PROXY | CURLOPT_PROXYUSERPWD
  | CURLOPT_USERAGENT | CURLOPT_HTTPHEADER | CURLOPT_POST | CURLOPT_POSTFIELDS | CURLOPT_POSTFIELDSIZE
  | CURLOPT_CUSTOMREQUEST

datatype curl_value = Long int | Text string | Lines "string list" | Address string | Null

type_synonym curl_handle = "curl_option \<rightharpoonup> curl_value"

record curl_env =
  ce_setopt :: "curl_option \<Rightarrow> curl_value \<Rightarrow> int"
  ce_option_name :: "curl_option \<Rightarrow> string option"
  ce_option_number :: "curl_option \<Rightarrow> int"
  ce_strerror :: "int \<Rightarrow> string"
  ce_protocol_names :: bool
  ce_version :: "nat option"
  ce_ca :: curl_ca_support

definition CURLE_OK :: int where "CURLE_OK = 0"

definition c_text :: "string \<Rightarrow> curl_value" where
  "c_text s = Text (takeWhile (\<lambda>c. c \<noteq> CHR 0x00) s)"

definition set_option :: "curl_env \<Rightarrow> curl_option \<Rightarrow> curl_value \<Rightarrow> curl_handle \<Rightarrow> string + curl_handle" where
  "set_option env opt v h =
     (let code = ce_setopt env opt v
      in if code = CURLE_OK then Inr (h(opt \<mapsto> v))
         else case ce_option_name env opt of
           Some name \<Rightarrow> Inl (''CURLOPT_'' @ name @ '': '' @ ce_strerror env code)
         | None \<Rightarrow> Inl (''curl option '' @ int_string (ce_option_number env opt) @ '': '' @ ce_strerror env code))"

fun set_options :: "curl_env \<Rightarrow> (curl_option \<times> curl_value) list \<Rightarrow> curl_handle \<Rightarrow> string + curl_handle" where
  "set_options env [] h = Inr h"
| "set_options env ((opt, v) # rest) h =
     (case set_option env opt v h of Inl e \<Rightarrow> Inl e | Inr h' \<Rightarrow> set_options env rest h')"

definition restrict_to_http :: "curl_env \<Rightarrow> curl_handle \<Rightarrow> string + curl_handle" where
  "restrict_to_http env =
     (if ce_protocol_names env
      then set_options env [(CURLOPT_PROTOCOLS_STR, Text ''http,https''), (CURLOPT_REDIR_PROTOCOLS_STR, Text ''http,https'')]
      else set_options env [(CURLOPT_PROTOCOLS, Long 3), (CURLOPT_REDIR_PROTOCOLS, Long 3)])"

definition spread_connections :: "curl_env \<Rightarrow> curl_handle \<Rightarrow> string + curl_handle" where
  "spread_connections env = set_options env [(CURLOPT_DNS_SHUFFLE_ADDRESSES, Long 1), (CURLOPT_DNS_CACHE_TIMEOUT, Long 60)]"

definition receive_buffer_size :: "curl_env \<Rightarrow> int" where
  "receive_buffer_size env = (case ce_version env of Some v \<Rightarrow> if 0x080700 \<le> v then 262144 else 65536 | None \<Rightarrow> 65536)"

definition curl_http_version :: "http_version \<Rightarrow> int" where
  "curl_http_version v = (case v of Automatic \<Rightarrow> 0 | Http2Tls \<Rightarrow> 4 | Http2PriorKnowledge \<Rightarrow> 5 | Http1_1 \<Rightarrow> 2)"

definition uses_http2 :: "http_version \<Rightarrow> bool" where
  "uses_http2 v \<longleftrightarrow> v = Http2Tls \<or> v = Http2PriorKnowledge"

definition apply_string :: "curl_env \<Rightarrow> curl_option \<Rightarrow> string \<Rightarrow> curl_handle \<Rightarrow> string + curl_handle" where
  "apply_string env opt v h = (if v = [] then Inr h else set_option env opt (c_text v) h)"

definition clear_ca_default :: "curl_env \<Rightarrow> http_request_options \<Rightarrow> curl_handle \<Rightarrow> string + curl_handle" where
  "clear_ca_default env options h =
     (case ca_default_to_clear options (ce_ca env) of
        Clear_Directory \<Rightarrow> set_option env CURLOPT_CAPATH Null h
      | Clear_Bundle \<Rightarrow> set_option env CURLOPT_CAINFO Null h
      | Clear_None \<Rightarrow> Inr h)"

definition apply_curl_options :: "curl_env \<Rightarrow> http_request_options \<Rightarrow> curl_handle \<Rightarrow> string + curl_handle" where
  "apply_curl_options env options h =
     and_then (set_options env [(CURLOPT_FOLLOWLOCATION, Long (if follow_redirects options then 1 else 0)),
         (CURLOPT_HTTP_VERSION, Long (curl_http_version (ho_version options))),
         (CURLOPT_PIPEWAIT, Long (if uses_http2 (ho_version options) then 1 else 0))] h) (\<lambda>h.
     and_then (apply_string env CURLOPT_CAINFO (ca_bundle options) h) (\<lambda>h.
     and_then (apply_string env CURLOPT_CAPATH (ca_path options) h) (\<lambda>h.
     and_then (clear_ca_default env options h) (\<lambda>h.
     and_then (apply_string env CURLOPT_PROXY (proxy options) h) (\<lambda>h.
     and_then (apply_string env CURLOPT_PROXYUSERPWD (proxy_user_password options) h) (\<lambda>h.
     apply_string env CURLOPT_USERAGENT (user_agent options) h))))))"

section \<open>A transfer\<close>

definition transfer_options :: "client_options \<Rightarrow> int \<Rightarrow> transfer \<Rightarrow> (curl_option \<times> curl_value) list" where
  "transfer_options opt now t =
     [(CURLOPT_URL, c_text (request_url t)), (CURLOPT_WRITEFUNCTION, Address ''write_callback''),
      (CURLOPT_WRITEDATA, Address ''transfer''), (CURLOPT_HEADERFUNCTION, Address ''header_callback''),
      (CURLOPT_HEADERDATA, Address ''transfer''), (CURLOPT_PRIVATE, Address ''transfer''), (CURLOPT_SHARE, Address ''share''),
      (CURLOPT_ERRORBUFFER, Address ''error''), (CURLOPT_NOSIGNAL, Long 1), (CURLOPT_PATH_AS_IS, Long 1),
      (CURLOPT_UNRESTRICTED_AUTH, Long 0), (CURLOPT_MAXREDIRS, Long 10), (CURLOPT_TCP_KEEPALIVE, Long 1),
      (CURLOPT_CONNECTTIMEOUT, Long (connect_timeout_seconds opt)),
      (CURLOPT_TIMEOUT_MS, Long (curl_timeout_ms now (t_deadline t))), (CURLOPT_LOW_SPEED_LIMIT, Long (low_speed_limit opt)),
      (CURLOPT_LOW_SPEED_TIME, Long (low_speed_time_seconds opt)), (CURLOPT_SUPPRESS_CONNECT_HEADERS, Long 1)]"

definition set_buffer_size :: "curl_env \<Rightarrow> curl_handle \<Rightarrow> curl_handle" where
  "set_buffer_size env h =
     (let v = Long (receive_buffer_size env)
      in if ce_setopt env CURLOPT_BUFFERSIZE v = CURLE_OK then h(CURLOPT_BUFFERSIZE \<mapsto> v) else h)"

definition configure_handle ::
  "curl_env \<Rightarrow> client_options \<Rightarrow> int \<Rightarrow> string list option \<Rightarrow> string list \<Rightarrow> transfer \<Rightarrow> curl_handle \<Rightarrow> string + curl_handle" where
  "configure_handle env opt now hosts headers t h =
     and_then (set_options env (transfer_options opt now t) h) (\<lambda>h.
     and_then (spread_connections env h) (\<lambda>h.
     and_then (case hosts of None \<Rightarrow> Inr h | Some entries \<Rightarrow> set_option env CURLOPT_RESOLVE (Lines entries) h) (\<lambda>h.
     and_then (restrict_to_http env (set_buffer_size env h)) (\<lambda>h.
     and_then (apply_curl_options env (t_http t) h) (\<lambda>h.
     if headers \<noteq> [] then set_option env CURLOPT_HTTPHEADER (Lines headers) h else Inr h)))))"

definition configure_transfer ::
  "curl_env \<Rightarrow> client_options \<Rightarrow> int \<Rightarrow> string list option \<Rightarrow> bool \<Rightarrow> transfer \<Rightarrow> curl_handle \<Rightarrow> (string + curl_handle) \<times> transfer" where
  "configure_transfer env opt now hosts initialized t h =
     (if \<not> initialized then (Inl ''HTTP transfer state is not initialized'', t)
      else case configure opt t of
        (Inl e, t') \<Rightarrow> (Inl e, t')
      | (Inr headers, t') \<Rightarrow> (configure_handle env opt now hosts headers t' h, t'))"

section \<open>A probe\<close>

text \<open>The options set once for all attempts, and those each attempt sets again on the same handle.\<close>

definition probe_options :: "client_options \<Rightarrow> (curl_option \<times> curl_value) list" where
  "probe_options opt =
     [(CURLOPT_HEADERFUNCTION, Address ''probe_header_callback''), (CURLOPT_HEADERDATA, Address ''state''),
      (CURLOPT_WRITEFUNCTION, Address ''probe_body_callback''), (CURLOPT_WRITEDATA, Address ''state''),
      (CURLOPT_SHARE, Address ''share''), (CURLOPT_ERRORBUFFER, Address ''error''), (CURLOPT_NOSIGNAL, Long 1),
      (CURLOPT_PATH_AS_IS, Long 1), (CURLOPT_UNRESTRICTED_AUTH, Long 0), (CURLOPT_MAXREDIRS, Long 10),
      (CURLOPT_CONNECTTIMEOUT, Long (connect_timeout_seconds opt)), (CURLOPT_LOW_SPEED_LIMIT, Long (low_speed_limit opt)),
      (CURLOPT_LOW_SPEED_TIME, Long (low_speed_time_seconds opt)), (CURLOPT_SUPPRESS_CONNECT_HEADERS, Long 1)]"

definition setup_probe :: "curl_env \<Rightarrow> client_options \<Rightarrow> curl_handle \<Rightarrow> string + curl_handle" where
  "setup_probe env opt h =
     and_then (set_options env (probe_options opt) h) (\<lambda>h. and_then (spread_connections env h) (restrict_to_http env))"

definition setup_attempt :: "curl_env \<Rightarrow> prepared_request \<Rightarrow> string list \<Rightarrow> int \<Rightarrow> curl_handle \<Rightarrow> string + curl_handle" where
  "setup_attempt env request headers timeout_ms h =
     and_then (set_option env CURLOPT_HTTPHEADER (if headers = [] then Null else Lines headers) h) (\<lambda>h.
     and_then (set_option env CURLOPT_URL (c_text (pr_url request)) h) (\<lambda>h.
     and_then (apply_curl_options env (pr_http request) h)
       (set_option env CURLOPT_TIMEOUT_MS (Long timeout_ms))))"

fun setup_attempts :: "curl_env \<Rightarrow> (prepared_request \<times> string list \<times> int) list \<Rightarrow> curl_handle \<Rightarrow> string + curl_handle" where
  "setup_attempts env [] h = Inr h"
| "setup_attempts env ((request, headers, timeout_ms) # rest) h =
     and_then (setup_attempt env request headers timeout_ms h) (setup_attempts env rest)"

section \<open>A request to a credential service\<close>

definition set_credential_option :: "curl_env \<Rightarrow> curl_option \<Rightarrow> curl_value \<Rightarrow> curl_handle \<Rightarrow> curl_handle request_result" where
  "set_credential_option env opt v h =
     (let code = ce_setopt env opt v
      in if code = CURLE_OK then Inr (h(opt \<mapsto> v))
         else Inl (credential_error (''credential endpoint setup: '' @ ce_strerror env code)))"

fun set_credential_options :: "curl_env \<Rightarrow> (curl_option \<times> curl_value) list \<Rightarrow> curl_handle \<Rightarrow> curl_handle request_result" where
  "set_credential_options env [] h = Inr h"
| "set_credential_options env ((opt, v) # rest) h =
     and_then (set_credential_option env opt v h) (set_credential_options env rest)"

definition credential_string :: "curl_env \<Rightarrow> curl_option \<Rightarrow> string \<Rightarrow> curl_handle \<Rightarrow> curl_handle request_result" where
  "credential_string env opt v h = (if v = [] then Inr h else set_credential_option env opt (c_text v) h)"

definition clear_credential_ca :: "curl_env \<Rightarrow> http_request_options \<Rightarrow> curl_handle \<Rightarrow> curl_handle request_result" where
  "clear_credential_ca env options h =
     (case ca_default_to_clear options (ce_ca env) of
        Clear_Directory \<Rightarrow> set_credential_option env CURLOPT_CAPATH Null h
      | Clear_Bundle \<Rightarrow> set_credential_option env CURLOPT_CAINFO Null h
      | Clear_None \<Rightarrow> Inr h)"

definition credential_method :: "curl_env \<Rightarrow> string \<Rightarrow> string \<Rightarrow> curl_handle \<Rightarrow> curl_handle request_result" where
  "credential_method env meth body h =
     (let fields = [(CURLOPT_POSTFIELDS, Text body), (CURLOPT_POSTFIELDSIZE, Long (int (length body)))]
      in if long_max < int (length body) then Inl (credential_error ''credential request body is too large'')
         else if meth = ''POST'' then set_credential_options env ((CURLOPT_POST, Long 1) # fields) h
         else if meth \<noteq> ''GET''
         then and_then (set_credential_option env CURLOPT_CUSTOMREQUEST (c_text meth) h) (\<lambda>h.
                if body \<noteq> [] then set_credential_options env fields h else Inr h)
         else Inr h)"

definition setup_credential_request ::
  "curl_env \<Rightarrow> string \<Rightarrow> string \<Rightarrow> string \<Rightarrow> string list \<Rightarrow> int \<Rightarrow> http_request_options \<Rightarrow> curl_handle \<Rightarrow> curl_handle request_result" where
  "setup_credential_request env meth url body headers timeout_seconds options h =
     and_then (set_credential_options env
         [(CURLOPT_URL, c_text url), (CURLOPT_NOSIGNAL, Long 1), (CURLOPT_CONNECTTIMEOUT, Long timeout_seconds),
          (CURLOPT_TIMEOUT, Long (timeout_seconds * 2)), (CURLOPT_WRITEFUNCTION, Address ''collect_body''),
          (CURLOPT_WRITEDATA, Address ''body''), (CURLOPT_ERRORBUFFER, Address ''error''),
          (CURLOPT_HTTP_VERSION, Long (curl_http_version (ho_version options)))] h) (\<lambda>h.
     and_then (credential_string env CURLOPT_CAINFO (ca_bundle options) h) (\<lambda>h.
     and_then (credential_string env CURLOPT_CAPATH (ca_path options) h) (\<lambda>h.
     and_then (clear_credential_ca env options h) (\<lambda>h.
     and_then (credential_string env CURLOPT_PROXY (proxy options) h) (\<lambda>h.
     and_then (credential_string env CURLOPT_PROXYUSERPWD (proxy_user_password options) h) (\<lambda>h.
     and_then (credential_string env CURLOPT_USERAGENT (user_agent options) h) (\<lambda>h.
     and_then (if ce_protocol_names env then set_credential_option env CURLOPT_PROTOCOLS_STR (Text ''http,https'') h
               else set_credential_option env CURLOPT_PROTOCOLS (Long 3) h) (\<lambda>h.
     and_then (if headers \<noteq> [] then set_credential_option env CURLOPT_HTTPHEADER (Lines headers) h else Inr h)
       (credential_method env meth body)))))))))"

section \<open>What a successful set-up leaves\<close>

text \<open>
  A handle stays on HTTP when the protocols it may use, itself and after a redirect, are HTTP and HTTPS.
\<close>

definition first_protocols :: "curl_handle \<Rightarrow> bool" where
  "first_protocols h \<longleftrightarrow> h CURLOPT_PROTOCOLS_STR = Some (Text ''http,https'') \<or> h CURLOPT_PROTOCOLS = Some (Long 3)"

definition redirect_protocols :: "curl_handle \<Rightarrow> bool" where
  "redirect_protocols h \<longleftrightarrow>
     h CURLOPT_REDIR_PROTOCOLS_STR = Some (Text ''http,https'') \<or> h CURLOPT_REDIR_PROTOCOLS = Some (Long 3)"

definition bounded_redirects :: "curl_handle \<Rightarrow> bool" where
  "bounded_redirects h \<longleftrightarrow> first_protocols h \<and> redirect_protocols h \<and>
     h CURLOPT_MAXREDIRS = Some (Long 10) \<and> h CURLOPT_UNRESTRICTED_AUTH = Some (Long 0)"

text \<open>
  The certificates of a request, as \<open>src/CONFIGURATION.md\<close> states them. With a TLS library of the OpenSSL family and
  no CA option, a hashed default directory of libcurl is trusted and nothing else: the bundle is cleared. With a
  bundle, and no directory configured, a libcurl from 7.87 on that has a default directory clears it. In every
  other case the configured values are set and whatever is not configured keeps the default of libcurl: an option that was
  never set on the handle.
\<close>

definition openssl_family :: "curl_ca_support \<Rightarrow> bool" where
  "openssl_family ca = list_ex (\<lambda>n. starts_with n (curl_tls ca)) OPENSSL_NAMES"

definition trusts_directory_only :: "http_request_options \<Rightarrow> curl_ca_support \<Rightarrow> bool" where
  "trusts_directory_only options ca \<longleftrightarrow> openssl_family ca \<and> ca_path options = [] \<and>
     (ca_bundle options = [] \<or> system_ca_bundle options) \<and> hashed_ca_directory ca"

definition trusts_bundle_only :: "http_request_options \<Rightarrow> curl_ca_support \<Rightarrow> bool" where
  "trusts_bundle_only options ca \<longleftrightarrow> openssl_family ca \<and> ca_path options = [] \<and>
     \<not> ((ca_bundle options = [] \<or> system_ca_bundle options) \<and> hashed_ca_directory ca) \<and>
     0x075700 \<le> curl_version ca \<and> default_ca_path ca \<and> (ca_bundle options \<noteq> [] \<or> default_bundle ca)"

definition trust_from :: "http_request_options \<Rightarrow> curl_ca_support \<Rightarrow> curl_handle \<Rightarrow> curl_handle \<Rightarrow> bool" where
  "trust_from options ca h h' \<longleftrightarrow>
     h' CURLOPT_CAINFO = (if trusts_directory_only options ca then Some Null
                          else if ca_bundle options = [] then h CURLOPT_CAINFO else Some (c_text (ca_bundle options))) \<and>
     h' CURLOPT_CAPATH = (if ca_path options \<noteq> [] then Some (c_text (ca_path options))
                          else if trusts_bundle_only options ca then Some Null else h CURLOPT_CAPATH)"

definition trusts :: "http_request_options \<Rightarrow> curl_ca_support \<Rightarrow> curl_handle \<Rightarrow> bool" where
  "trusts options ca h \<longleftrightarrow> trust_from options ca Map.empty h"

definition same_ca :: "http_request_options \<Rightarrow> http_request_options \<Rightarrow> bool" where
  "same_ca a b \<longleftrightarrow> ca_bundle a = ca_bundle b \<and> ca_path a = ca_path b \<and> system_ca_bundle a = system_ca_bundle b"

definition follows :: "http_request_options \<Rightarrow> curl_handle \<Rightarrow> bool" where
  "follows options h \<longleftrightarrow> h CURLOPT_FOLLOWLOCATION = Some (Long (if follow_redirects options then 1 else 0))"

lemma set_option_Inr: "set_option env opt v h = Inr h' \<longleftrightarrow> ce_setopt env opt v = CURLE_OK \<and> h' = h(opt \<mapsto> v)"
  by (auto simp: set_option_def Let_def split: option.splits)

lemma set_credential_option_Inr:
  "set_credential_option env opt v h = Inr h' \<longleftrightarrow> ce_setopt env opt v = CURLE_OK \<and> h' = h(opt \<mapsto> v)"
  by (auto simp: set_credential_option_def Let_def)

lemma set_options_Inr:
  "set_options env os h = Inr h' \<Longrightarrow> h' = foldl (\<lambda>h (opt, v). h(opt \<mapsto> v)) h os"
  by (induction os arbitrary: h) (auto simp: set_option_Inr split: sum.splits)

lemma set_credential_options_Inr:
  "set_credential_options env os h = Inr h' \<Longrightarrow> h' = foldl (\<lambda>h (opt, v). h(opt \<mapsto> v)) h os"
  by (induction os arbitrary: h) (auto simp: set_credential_option_Inr and_then_Inr)

lemma apply_string_Inr: "apply_string env opt v h = Inr h' \<Longrightarrow> h' = (if v = [] then h else h(opt \<mapsto> c_text v))"
  by (auto simp: apply_string_def set_option_Inr split: if_splits)

lemma credential_string_Inr: "credential_string env opt v h = Inr h' \<Longrightarrow> h' = (if v = [] then h else h(opt \<mapsto> c_text v))"
  by (auto simp: credential_string_def set_credential_option_Inr split: if_splits)

text \<open>What clearing a default does to the handle, by the documented cases.\<close>

definition cleared :: "http_request_options \<Rightarrow> curl_ca_support \<Rightarrow> curl_handle \<Rightarrow> curl_handle" where
  "cleared options ca h =
     (if trusts_directory_only options ca then h(CURLOPT_CAINFO \<mapsto> Null)
      else if trusts_bundle_only options ca then h(CURLOPT_CAPATH \<mapsto> Null) else h)"

lemma ca_default_cases:
  "ca_default_to_clear options ca =
     (if trusts_directory_only options ca then Clear_Bundle
      else if trusts_bundle_only options ca then Clear_Directory else Clear_None)"
  by (auto simp: ca_default_to_clear_def trusts_directory_only_def trusts_bundle_only_def openssl_family_def Let_def)

lemma clear_ca_default_Inr: "clear_ca_default env options h = Inr h' \<Longrightarrow> h' = cleared options (ce_ca env) h"
  by (auto simp: clear_ca_default_def ca_default_cases cleared_def set_option_Inr split: if_splits)

lemma clear_credential_ca_Inr: "clear_credential_ca env options h = Inr h' \<Longrightarrow> h' = cleared options (ce_ca env) h"
  by (auto simp: clear_credential_ca_def ca_default_cases cleared_def set_credential_option_Inr split: if_splits)

lemma cleared_other: "opt \<notin> {CURLOPT_CAINFO, CURLOPT_CAPATH} \<Longrightarrow> cleared options ca h opt = h opt"
  by (simp add: cleared_def)

lemma cleared_trust:
  assumes "h2 = (if ca_bundle options = [] then h1 else h1(CURLOPT_CAINFO \<mapsto> c_text (ca_bundle options)))"
    and "h3 = (if ca_path options = [] then h2 else h2(CURLOPT_CAPATH \<mapsto> c_text (ca_path options)))"
  shows "trust_from options ca h1 (cleared options ca h3)"
  using assms by (auto simp: trust_from_def cleared_def trusts_directory_only_def trusts_bundle_only_def)

lemma trust_from_cong:
  "h CURLOPT_CAINFO = k CURLOPT_CAINFO \<Longrightarrow> h CURLOPT_CAPATH = k CURLOPT_CAPATH \<Longrightarrow>
   h' CURLOPT_CAINFO = k' CURLOPT_CAINFO \<Longrightarrow> h' CURLOPT_CAPATH = k' CURLOPT_CAPATH \<Longrightarrow>
   trust_from options ca k k' \<Longrightarrow> trust_from options ca h h'"
  by (simp add: trust_from_def)

text \<open>Setting the same certificates again on one handle leaves them as they were.\<close>

lemma trusts_again:
  assumes "trusts a ca h" "same_ca a b" "trust_from b ca h h'"
  shows "trusts b ca h'"
  using assms by (auto simp: trusts_def trust_from_def same_ca_def trusts_directory_only_def trusts_bundle_only_def)

definition CURL_HTTP_OPTIONS :: "curl_option set" where
  "CURL_HTTP_OPTIONS = {CURLOPT_FOLLOWLOCATION, CURLOPT_HTTP_VERSION, CURLOPT_PIPEWAIT, CURLOPT_CAINFO, CURLOPT_CAPATH, CURLOPT_PROXY,
     CURLOPT_PROXYUSERPWD, CURLOPT_USERAGENT}"

lemma apply_curl_options_Inr:
  assumes "apply_curl_options env options h = Inr h'"
  shows "follows options h' \<and> trust_from options (ce_ca env) h h' \<and> (\<forall>opt. opt \<notin> CURL_HTTP_OPTIONS \<longrightarrow> h' opt = h opt)"
proof -
  obtain h1 h2 h3 h4 h5 h6 where s: "set_options env [(CURLOPT_FOLLOWLOCATION, Long (if follow_redirects options then 1 else 0)),
         (CURLOPT_HTTP_VERSION, Long (curl_http_version (ho_version options))),
         (CURLOPT_PIPEWAIT, Long (if uses_http2 (ho_version options) then 1 else 0))] h = Inr h1"
    "apply_string env CURLOPT_CAINFO (ca_bundle options) h1 = Inr h2" "apply_string env CURLOPT_CAPATH (ca_path options) h2 = Inr h3"
    "clear_ca_default env options h3 = Inr h4" "apply_string env CURLOPT_PROXY (proxy options) h4 = Inr h5"
    "apply_string env CURLOPT_PROXYUSERPWD (proxy_user_password options) h5 = Inr h6"
    "apply_string env CURLOPT_USERAGENT (user_agent options) h6 = Inr h'"
    using assms unfolding apply_curl_options_def and_then_Inr by blast
  note e = set_options_Inr [OF s(1)] s(2,3,5-7) [THEN apply_string_Inr]
  note c = clear_ca_default_Inr [OF s(4)]
  have h': "h' opt = h4 opt" if "opt \<notin> {CURLOPT_PROXY, CURLOPT_PROXYUSERPWD, CURLOPT_USERAGENT}" for opt
    using that by (simp add: e(4-6))
  have "trust_from options (ce_ca env) h1 h4" unfolding c by (rule cleared_trust [OF e(2,3)])
  then have "trust_from options (ce_ca env) h h'" by (rule trust_from_cong [rotated 4]) (simp_all add: h' e(1))
  moreover have "h' opt = h1 opt" if "opt \<notin> {CURLOPT_CAINFO, CURLOPT_CAPATH, CURLOPT_PROXY, CURLOPT_PROXYUSERPWD, CURLOPT_USERAGENT}" for opt
    using that by (simp add: h' c cleared_other e(2,3))
  ultimately show ?thesis by (simp add: follows_def CURL_HTTP_OPTIONS_def e(1))
qed

lemma restrict_to_http_Inr:
  assumes "restrict_to_http env h = Inr h'"
  shows "first_protocols h' \<and> redirect_protocols h' \<and>
    (\<forall>opt. opt \<notin> {CURLOPT_PROTOCOLS_STR, CURLOPT_REDIR_PROTOCOLS_STR, CURLOPT_PROTOCOLS, CURLOPT_REDIR_PROTOCOLS} \<longrightarrow> h' opt = h opt)"
proof (cases "ce_protocol_names env")
  case True
  then have "h' = h(CURLOPT_PROTOCOLS_STR \<mapsto> Text ''http,https'', CURLOPT_REDIR_PROTOCOLS_STR \<mapsto> Text ''http,https'')"
    using assms by (auto simp: restrict_to_http_def set_option_Inr split: sum.splits)
  then show ?thesis by (simp add: first_protocols_def redirect_protocols_def)
next
  case False
  then have "h' = h(CURLOPT_PROTOCOLS \<mapsto> Long 3, CURLOPT_REDIR_PROTOCOLS \<mapsto> Long 3)"
    using assms by (auto simp: restrict_to_http_def set_option_Inr split: sum.splits)
  then show ?thesis by (simp add: first_protocols_def redirect_protocols_def)
qed

lemma bounded_redirects_kept:
  assumes "bounded_redirects h" "\<And>opt. opt \<notin> CURL_HTTP_OPTIONS \<Longrightarrow> opt \<notin> {CURLOPT_HTTPHEADER, CURLOPT_URL, CURLOPT_TIMEOUT_MS} \<Longrightarrow> h' opt = h opt"
  shows "bounded_redirects h'"
  using assms by (simp add: CURL_HTTP_OPTIONS_def bounded_redirects_def first_protocols_def redirect_protocols_def)

lemma setup_attempt_Inr:
  assumes "setup_attempt env request headers timeout_ms h = Inr h'"
  shows "follows (pr_http request) h'" "trust_from (pr_http request) (ce_ca env) h h'" "bounded_redirects h \<Longrightarrow> bounded_redirects h'"
proof -
  obtain h1 h2 where s: "h1 = h(CURLOPT_HTTPHEADER \<mapsto> (if headers = [] then Null else Lines headers), CURLOPT_URL \<mapsto> c_text (pr_url request))"
    "apply_curl_options env (pr_http request) h1 = Inr h2" "h' = h2(CURLOPT_TIMEOUT_MS \<mapsto> Long timeout_ms)"
    using assms unfolding setup_attempt_def and_then_Inr set_option_Inr by blast
  note a = apply_curl_options_Inr [OF s(2)]
  show "follows (pr_http request) h'" using a s(3) by (simp add: follows_def)
  show "trust_from (pr_http request) (ce_ca env) h h'"
    by (rule trust_from_cong [of _ h1 _ h2]) (use a s(1,3) in simp_all)
  show "bounded_redirects h'" if "bounded_redirects h"
    by (rule bounded_redirects_kept [OF that]) (use a s(1,3) in simp)
qed

lemma setup_probe_Inr:
  assumes "setup_probe env opt h = Inr h'"
  shows "bounded_redirects h'" "h' CURLOPT_CAINFO = h CURLOPT_CAINFO" "h' CURLOPT_CAPATH = h CURLOPT_CAPATH"
proof -
  obtain h1 h2 where s: "set_options env (probe_options opt) h = Inr h1" "spread_connections env h1 = Inr h2"
    "restrict_to_http env h2 = Inr h'"
    using assms unfolding setup_probe_def and_then_Inr by blast
  show "bounded_redirects h'" "h' CURLOPT_CAINFO = h CURLOPT_CAINFO" "h' CURLOPT_CAPATH = h CURLOPT_CAPATH"
    using restrict_to_http_Inr [OF s(3)] set_options_Inr [OF s(1)] set_options_Inr [OF s(2) [unfolded spread_connections_def]]
    by (simp_all add: bounded_redirects_def probe_options_def)
qed

lemma setup_attempts_Inr:
  "setup_attempts env as h = Inr h' \<Longrightarrow> bounded_redirects h \<Longrightarrow> bounded_redirects h' \<and>
    (as \<noteq> [] \<longrightarrow> follows (pr_http (fst (last as))) h')"
proof (induction as arbitrary: h)
  case (Cons a as)
  obtain request headers timeout_ms where a: "a = (request, headers, timeout_ms)" by (cases a)
  with Cons.prems obtain h1 where h1: "setup_attempt env request headers timeout_ms h = Inr h1" "setup_attempts env as h1 = Inr h'"
    by (auto simp: and_then_Inr)
  note n = setup_attempt_Inr [OF h1(1)]
  show ?case using Cons.IH [OF h1(2)] n(1,3) Cons.prems(2) a h1(2) by (cases "as = []") simp_all
qed simp

lemma setup_attempts_trust:
  assumes "setup_attempts env as h = Inr h'" "\<forall>a \<in> set as. same_ca (pr_http (fst a)) options"
    and "h CURLOPT_CAINFO = None \<and> h CURLOPT_CAPATH = None \<or> trusts options (ce_ca env) h" "as \<noteq> []"
  shows "trusts options (ce_ca env) h'"
  using assms
proof (induction as arbitrary: h)
  case (Cons a as)
  obtain request headers timeout_ms where a: "a = (request, headers, timeout_ms)" by (cases a)
  with Cons.prems(1) obtain h1 where h1: "setup_attempt env request headers timeout_ms h = Inr h1" "setup_attempts env as h1 = Inr h'"
    by (auto simp: and_then_Inr)
  have c: "same_ca (pr_http request) options" using Cons.prems(2) a by simp
  then have f: "trust_from options (ce_ca env) h h1"
    using setup_attempt_Inr(2) [OF h1(1)] by (simp add: trust_from_def same_ca_def trusts_directory_only_def trusts_bundle_only_def)
  have "trusts options (ce_ca env) h1" if "h CURLOPT_CAINFO = None \<and> h CURLOPT_CAPATH = None"
    unfolding trusts_def by (rule trust_from_cong [OF _ _ _ _ f]) (simp_all add: that)
  moreover have "trusts options (ce_ca env) h1" if "trusts options (ce_ca env) h"
    by (rule trusts_again [OF that _ f]) (simp add: same_ca_def)
  ultimately have t: "trusts options (ce_ca env) h1" using Cons.prems(3) by blast
  show ?case using Cons.IH [OF h1(2)] Cons.prems(2) t h1(2) by (cases "as = []") simp_all
qed simp

lemma configure_handle_Inr:
  assumes "configure_handle env opt now hosts headers t h = Inr h'"
  shows "bounded_redirects h' \<and> follows (t_http t) h' \<and> trust_from (t_http t) (ce_ca env) h h' \<and>
    h' CURLOPT_URL = Some (c_text (request_url t)) \<and> (headers \<noteq> [] \<longrightarrow> h' CURLOPT_HTTPHEADER = Some (Lines headers))"
proof -
  obtain h1 h2 h3 h4 h5 where s: "set_options env (transfer_options opt now t) h = Inr h1" "spread_connections env h1 = Inr h2"
    "(case hosts of None \<Rightarrow> Inr h2 | Some entries \<Rightarrow> set_option env CURLOPT_RESOLVE (Lines entries) h2) = Inr h3"
    "restrict_to_http env (set_buffer_size env h3) = Inr h4" "apply_curl_options env (t_http t) h4 = Inr h5"
    "(if headers \<noteq> [] then set_option env CURLOPT_HTTPHEADER (Lines headers) h5 else Inr h5) = Inr h'"
    using assms unfolding configure_handle_def and_then_Inr by blast
  have e5: "h' = (if headers \<noteq> [] then h5(CURLOPT_HTTPHEADER \<mapsto> Lines headers) else h5)"
    using s(6) by (auto simp: set_option_Inr split: if_splits)
  have e3: "h3 o' = h2 o'" if "o' \<noteq> CURLOPT_RESOLVE" for o'
    using s(3) that by (auto simp: set_option_Inr split: option.splits)
  have b: "set_buffer_size env h3 o' = h3 o'" if "o' \<noteq> CURLOPT_BUFFERSIZE" for o'
    using that by (simp add: set_buffer_size_def Let_def)
  note r = restrict_to_http_Inr [OF s(4)] and a = apply_curl_options_Inr [OF s(5)]
  have m: "h4 CURLOPT_MAXREDIRS = Some (Long 10)" "h4 CURLOPT_UNRESTRICTED_AUTH = Some (Long 0)" "h4 CURLOPT_URL = Some (c_text (request_url t))"
    using r e3 b set_options_Inr [OF s(1)] set_options_Inr [OF s(2) [unfolded spread_connections_def]]
    by (simp_all add: transfer_options_def)
  have "bounded_redirects h4" using r m by (simp add: bounded_redirects_def)
  then have "bounded_redirects h'" by (rule bounded_redirects_kept) (use a e5 in simp)
  moreover have "trust_from (t_http t) (ce_ca env) h h'"
    by (rule trust_from_cong [of _ h4 _ h5])
      (use a e5 r e3 b set_options_Inr [OF s(1)] set_options_Inr [OF s(2) [unfolded spread_connections_def]] in
        \<open>simp_all add: transfer_options_def\<close>)
  ultimately show ?thesis using a m e5 by (simp add: follows_def CURL_HTTP_OPTIONS_def)
qed

lemma credential_method_Inr:
  assumes "credential_method env meth body h = Inr h'"
  shows "opt \<notin> {CURLOPT_POST, CURLOPT_POSTFIELDS, CURLOPT_POSTFIELDSIZE, CURLOPT_CUSTOMREQUEST} \<Longrightarrow> h' opt = h opt"
  using assms by (auto simp: credential_method_def Let_def set_credential_option_Inr and_then_Inr split: if_splits)

text \<open>A request for credentials is never redirected: a fresh handle does not follow and none of its options says so.\<close>

lemma setup_credential_request_Inr:
  assumes "setup_credential_request env meth url body headers timeout_seconds options h = Inr h'"
  shows "first_protocols h' \<and> trust_from options (ce_ca env) h h' \<and> h' CURLOPT_FOLLOWLOCATION = h CURLOPT_FOLLOWLOCATION"
proof -
  obtain h1 h2 h3 h4 h5 h6 h7 h8 h9 where s:
    "set_credential_options env
         [(CURLOPT_URL, c_text url), (CURLOPT_NOSIGNAL, Long 1), (CURLOPT_CONNECTTIMEOUT, Long timeout_seconds),
          (CURLOPT_TIMEOUT, Long (timeout_seconds * 2)), (CURLOPT_WRITEFUNCTION, Address ''collect_body''),
          (CURLOPT_WRITEDATA, Address ''body''), (CURLOPT_ERRORBUFFER, Address ''error''),
          (CURLOPT_HTTP_VERSION, Long (curl_http_version (ho_version options)))] h = Inr h1"
    "credential_string env CURLOPT_CAINFO (ca_bundle options) h1 = Inr h2" "credential_string env CURLOPT_CAPATH (ca_path options) h2 = Inr h3"
    "clear_credential_ca env options h3 = Inr h4" "credential_string env CURLOPT_PROXY (proxy options) h4 = Inr h5"
    "credential_string env CURLOPT_PROXYUSERPWD (proxy_user_password options) h5 = Inr h6"
    "credential_string env CURLOPT_USERAGENT (user_agent options) h6 = Inr h7"
    "(if ce_protocol_names env then set_credential_option env CURLOPT_PROTOCOLS_STR (Text ''http,https'') h7
               else set_credential_option env CURLOPT_PROTOCOLS (Long 3) h7) = Inr h8"
    "(if headers \<noteq> [] then set_credential_option env CURLOPT_HTTPHEADER (Lines headers) h8 else Inr h8) = Inr h9"
    "credential_method env meth body h9 = Inr h'"
    using assms unfolding setup_credential_request_def and_then_Inr by blast
  note e = set_credential_options_Inr [OF s(1)] s(2,3,5-7) [THEN credential_string_Inr]
  note c = clear_credential_ca_Inr [OF s(4)]
  have e8: "h8 = (if ce_protocol_names env then h7(CURLOPT_PROTOCOLS_STR \<mapsto> Text ''http,https'') else h7(CURLOPT_PROTOCOLS \<mapsto> Long 3))"
    using s(8) by (auto simp: set_credential_option_Inr split: if_splits)
  have e9: "h9 = (if headers \<noteq> [] then h8(CURLOPT_HTTPHEADER \<mapsto> Lines headers) else h8)"
    using s(9) by (auto simp: set_credential_option_Inr split: if_splits)
  note m = credential_method_Inr [OF s(10)]
  have k: "h' opt = h4 opt" if "opt \<in> {CURLOPT_CAINFO, CURLOPT_CAPATH, CURLOPT_FOLLOWLOCATION}" for opt
    using that m [of opt] by (auto simp: e9 e8 e(4-6))
  have "first_protocols h'" using m [of CURLOPT_PROTOCOLS] m [of CURLOPT_PROTOCOLS_STR] by (simp add: first_protocols_def e9 e8)
  moreover have "trust_from options (ce_ca env) h1 h4" unfolding c by (rule cleared_trust [OF e(2,3)])
  then have "trust_from options (ce_ca env) h h'" by (rule trust_from_cong [rotated 4]) (simp_all add: k e(1))
  moreover have "h' CURLOPT_FOLLOWLOCATION = h CURLOPT_FOLLOWLOCATION" by (simp add: k c cleared_other e(1-3))
  ultimately show ?thesis by simp
qed

section \<open>The certificates libcurl was built with\<close>

text \<open>
  An entry of a directory: its name, whether it is a regular file, and the hash of the subject of the
  certificate it holds, if it can be read as one. Entries after an error of the iteration are not listed.
\<close>

record directory_entry =
  de_name :: string
  de_regular :: bool
  de_subject_hash :: "nat option"

definition xdigit_value :: "char \<Rightarrow> nat option" where
  "xdigit_value c =
     (if is_digit c then Some (of_char c - 48)
      else if CHR ''a'' \<le> c \<and> c \<le> CHR ''f'' then Some (of_char c - 87)
      else if CHR ''A'' \<le> c \<and> c \<le> CHR ''F'' then Some (of_char c - 55)
      else None)"

definition hash_name :: "string \<Rightarrow> nat option" where
  "hash_name name =
     (if length name \<noteq> 10 \<or> name ! 8 \<noteq> CHR ''.'' \<or> name ! 9 \<noteq> CHR ''0'' \<or> \<not> list_all (\<lambda>c. xdigit_value c \<noteq> None) (take 8 name)
      then None
      else Some (foldl (\<lambda>n c. 16 * n + the (xdigit_value c)) 0 (take 8 name)))"

fun has_hashed_certificates :: "directory_entry list \<Rightarrow> bool" where
  "has_hashed_certificates [] = False"
| "has_hashed_certificates (e # es) =
     (case hash_name (de_name e) of
        None \<Rightarrow> has_hashed_certificates es
      | Some hash \<Rightarrow>
          if \<not> de_regular e then has_hashed_certificates es
          else if de_subject_hash e = Some hash then True
          else has_hashed_certificates es)"

record curl_build_info =
  ci_version_num :: nat
  ci_ssl_version :: "string option"
  ci_capath :: "string option"
  ci_cainfo :: "string option"

definition running_curl_ca_support :: "(string \<Rightarrow> bool) \<Rightarrow> (string \<Rightarrow> directory_entry list) \<Rightarrow> curl_build_info option \<Rightarrow> curl_ca_support" where
  "running_curl_ca_support regular_file directory info =
     (case info of
        None \<Rightarrow> \<lparr>curl_version = 0, curl_tls = [], default_ca_path = False, default_bundle = False, hashed_ca_directory = False\<rparr>
      | Some i \<Rightarrow>
          \<lparr>curl_version = ci_version_num i, curl_tls = (case ci_ssl_version i of None \<Rightarrow> [] | Some v \<Rightarrow> v),
           default_ca_path = (ci_capath i \<noteq> None),
           default_bundle = (case ci_cainfo i of None \<Rightarrow> False | Some f \<Rightarrow> regular_file f),
           hashed_ca_directory = (case ci_capath i of None \<Rightarrow> False | Some d \<Rightarrow> has_hashed_certificates (directory d))\<rparr>)"

text \<open>
  Clearing a default leaves libcurl a source of certificates: the default bundle goes only when the default
  directory holds a certificate under its hash, and the default directory only when there is a bundle.
\<close>

lemma cleared_default_replaced:
  assumes "ca = running_curl_ca_support regular_file directory info"
  shows "(ca_default_to_clear options ca = Clear_Bundle \<longrightarrow>
      (\<exists>i d e. info = Some i \<and> ci_capath i = Some d \<and> e \<in> set (directory d) \<and> de_regular e \<and>
        hash_name (de_name e) \<noteq> None \<and> de_subject_hash e = hash_name (de_name e))) \<and>
    (ca_default_to_clear options ca = Clear_Directory \<longrightarrow>
      ca_bundle options \<noteq> [] \<or> (\<exists>i f. info = Some i \<and> ci_cainfo i = Some f \<and> regular_file f))"
proof -
  have hit: "\<exists>e \<in> set es. de_regular e \<and> hash_name (de_name e) \<noteq> None \<and> de_subject_hash e = hash_name (de_name e)"
    if "has_hashed_certificates es" for es
    using that by (induction es rule: has_hashed_certificates.induct) (auto split: option.splits if_splits)
  have "ca_default_to_clear options ca = Clear_Bundle \<Longrightarrow> hashed_ca_directory ca"
    and "ca_default_to_clear options ca = Clear_Directory \<Longrightarrow> ca_bundle options \<noteq> [] \<or> default_bundle ca"
    by (auto simp: ca_default_to_clear_def Let_def split: if_splits)
  moreover have "\<exists>i d. info = Some i \<and> ci_capath i = Some d \<and> has_hashed_certificates (directory d)" if "hashed_ca_directory ca"
    using that by (auto simp: assms running_curl_ca_support_def split: option.splits)
  moreover have "\<exists>i f. info = Some i \<and> ci_cainfo i = Some f \<and> regular_file f" if "default_bundle ca"
    using that by (auto simp: assms running_curl_ca_support_def split: option.splits)
  ultimately show ?thesis using hit by meson
qed

text \<open>
  C23. Whatever options libcurl accepts, a request that is set up on a new or reset handle stays on HTTP and HTTPS,
  also after a redirect, of which it follows at most ten and only if the request allows them, and sends no
  authentication to another host. Its certificates are exactly those of the documented policy: the configured bundle
  and directory are set as configured, a default of libcurl is cleared in the cases the policy names and in no
  other, and every other default stays untouched. So it is for a transfer, for every attempt of a probe, which
  sets its options again on one handle with the certificates of one configuration, and for a request to a
  credential service, which is never redirected.
\<close>

theorem requests_stay_confined:
  "(fst (configure_transfer env opt now hosts initialized t Map.empty) = Inr a \<longrightarrow>
      bounded_redirects a \<and> follows (t_http t) a \<and> trusts (t_http t) (ce_ca env) a) \<and>
   (and_then (setup_probe env opt Map.empty) (setup_attempts env (attempts @ [(request, headers, timeout_ms)])) = Inr b \<longrightarrow>
      bounded_redirects b \<and> follows (pr_http request) b \<and>
      ((\<forall>at \<in> set attempts. same_ca (pr_http (fst at)) (pr_http request)) \<longrightarrow> trusts (pr_http request) (ce_ca env) b)) \<and>
   (setup_credential_request env meth url body headers timeout_seconds options Map.empty = Inr c \<longrightarrow>
      first_protocols c \<and> c CURLOPT_FOLLOWLOCATION = None \<and> trusts options (ce_ca env) c)"
proof (intro conjI impI; (elim conjE)?)
  assume "fst (configure_transfer env opt now hosts initialized t Map.empty) = Inr a"
  then obtain lines t' where "configure opt t = (Inr lines, t')" "configure_handle env opt now hosts lines t' Map.empty = Inr a"
    by (auto simp: configure_transfer_def split: if_splits sum.splits prod.splits)
  moreover have "t_http t' = t_http t" using calculation(1) by (auto simp: configure_def reset_response_def Let_def)
  ultimately show "bounded_redirects a" "follows (t_http t) a" "trusts (t_http t) (ce_ca env) a"
    using configure_handle_Inr [of env opt now hosts lines t' Map.empty a] by (auto simp: trusts_def)
next
  assume "and_then (setup_probe env opt Map.empty) (setup_attempts env (attempts @ [(request, headers, timeout_ms)])) = Inr b"
  then obtain h where h: "setup_probe env opt Map.empty = Inr h" "setup_attempts env (attempts @ [(request, headers, timeout_ms)]) h = Inr b"
    by (auto simp: and_then_Inr)
  note p = setup_probe_Inr [OF h(1)]
  show "bounded_redirects b" "follows (pr_http request) b" using setup_attempts_Inr [OF h(2) p(1)] by simp_all
  show "trusts (pr_http request) (ce_ca env) b" if "\<forall>at \<in> set attempts. same_ca (pr_http (fst at)) (pr_http request)"
    by (rule setup_attempts_trust [OF h(2)]) (use that p(2,3) in \<open>auto simp: same_ca_def\<close>)
next
  assume "setup_credential_request env meth url body headers timeout_seconds options Map.empty = Inr c"
  from setup_credential_request_Inr [OF this]
  show "first_protocols c" "c CURLOPT_FOLLOWLOCATION = None" "trusts options (ce_ca env) c" by (simp_all add: trusts_def)
qed

definition sample_curl :: curl_env where
  "sample_curl = \<lparr>ce_setopt = \<lambda>opt v. if opt = CURLOPT_BUFFERSIZE then 48 else CURLE_OK, ce_option_name = \<lambda>opt. None,
     ce_option_number = \<lambda>opt. 0, ce_strerror = \<lambda>code. ''refused'', ce_protocol_names = True, ce_version = Some 0x080500,
     ce_ca = \<lparr>curl_version = 0x080500, curl_tls = ''OpenSSL/3.0.2'', default_ca_path = True, default_bundle = False,
       hashed_ca_directory = True\<rparr>\<rparr>"

definition sample_http :: http_request_options where
  "sample_http = default_http_request_options\<lparr>ca_bundle := ''/etc/ours.pem'', follow_redirects := False\<rparr>"

definition sample_prepared :: prepared_request where
  "sample_prepared = \<lparr>pr_url = ''https://h/o'', pr_headers = [], pr_range = ''bytes=0-9'', pr_http = sample_http, routing_region = []\<rparr>"

definition sample_transfer_setup :: "string + curl_handle" where
  "sample_transfer_setup = fst (configure_transfer sample_curl default_client_options 0 None True (new_transfer\<lparr>t_http := sample_http\<rparr>) Map.empty)"

definition sample_probe_setup :: "string + curl_handle" where
  "sample_probe_setup = and_then (setup_probe sample_curl default_client_options Map.empty)
     (setup_attempts sample_curl ([(sample_prepared, [], 7)] @ [(sample_prepared, [], 5)]))"

definition sample_credential_setup :: "curl_handle request_result" where
  "sample_credential_setup = setup_credential_request sample_curl ''PUT'' ''https://h/t'' ''x'' [] 5 sample_http Map.empty"

lemma sample_prepared_http: "pr_http sample_prepared = sample_http"
  by (simp add: sample_prepared_def)

lemma sample_setups: "\<not> isl sample_transfer_setup" "\<not> isl sample_probe_setup" "\<not> isl sample_credential_setup"
  by code_simp+

theorem requests_stay_confined_witness:
  "bounded_redirects (projr sample_transfer_setup) \<and> trusts sample_http (ce_ca sample_curl) (projr sample_transfer_setup) \<and>
   bounded_redirects (projr sample_probe_setup) \<and> follows sample_http (projr sample_probe_setup) \<and>
   trusts sample_http (ce_ca sample_curl) (projr sample_probe_setup) \<and>
   first_protocols (projr sample_credential_setup) \<and> trusts sample_http (ce_ca sample_curl) (projr sample_credential_setup)"
  using requests_stay_confined [of sample_curl default_client_options 0 None True "new_transfer\<lparr>t_http := sample_http\<rparr>"
      "projr sample_transfer_setup" "[(sample_prepared, [], 7)]" sample_prepared "[]" 5 "projr sample_probe_setup"
      "''PUT''" "''https://h/t''" "''x''" 5 sample_http "projr sample_credential_setup"] sample_setups [THEN sum.collapse(2)]
  by (simp add: sample_transfer_setup_def [symmetric] sample_probe_setup_def [symmetric, simplified]
      sample_credential_setup_def [symmetric] sample_prepared_http same_ca_def del: setup_attempts.simps)

end
