(* ===== verification/Spec2Isabelle.thy ===== *)
theory Spec2Isabelle
  imports Karu_Resolver Karu_Request_Builder Karu_Facade Karu_Cloud_Credentials Karu_Process Karu_Wakeup Karu_Curl_Setup
begin

text \<open>
  A verification development for karu, a C++ library that reads many byte ranges of remote and local
  objects at once. The paths below are relative to the repository, whose implementation is under
  \<open>src/src/\<close>.

  \<^bold>\<open>The program.\<close> A caller names objects by URIs (\<open>uri.cpp\<close>), configures a client (\<open>config.cpp\<close>) and
  submits a batch of ranges. The planner (\<open>runtime/planner.cpp\<close>) validates the ranges, sorts them and
  coalesces neighbours into transfers. The engine (\<open>runtime/engine.cpp\<close>) gives local transfers to file
  workers and remote ones, after their credentials are there, to I/O loops, which run libcurl, retry,
  resume and fail transfers; what arrives is scattered into the callers' buffers
  (\<open>runtime/transport.cpp\<close>, \<open>http_response.cpp\<close>), and each part becomes a completion of its batch
  (\<open>runtime/batch.cpp\<close>), which the caller takes in order. Beside them stand the host resolver
  (\<open>runtime/resolver.cpp\<close>), the credential cache (\<open>credential_cache.cpp\<close>), the deadlines of a request
  (\<open>runtime/deadline.hpp\<close>) and the synchronous probes for sizes and the ends of objects. On top are the C
  interface (\<open>karu.cpp\<close>) and the download of an object into a file (\<open>download.cpp\<close>); underneath, credentials
  are discovered in options, files, commands and services (\<open>backends/*_credentials.cpp\<close>).

  \<^bold>\<open>Conventions.\<close> Structs are records, enums datatypes, \<open>std::uint64_t\<close> is \<^typ>\<open>64 word\<close>, text and bytes are
  lists of characters, \<open>std::expected<T, E>\<close> is a sum with the error on the left, null is \<^const>\<open>None\<close>.
  Memory is a map from addresses to bytes, so that writes through callers' pointers are visible.
  What is not in the repository is an argument of the definitions: the environment of a libcurl transfer
  (what it sends to the callbacks, its result), \<open>malloc\<close>, \<open>pread\<close>, clocks, random draws, the
  environment variables and the file system. Code between two acquisitions of one mutex is one function.

  \<^bold>\<open>Theories.\<close>
  \<^item> \<open>Karu_Prelude\<close>: machine types, searching and cutting text, numbers in text; lemma collections.
  \<^item> \<open>Karu_Uri\<close> (\<open>uri.cpp\<close>, \<open>text.hpp\<close>): resolution of URIs with byte windows and nested subfiles, path
    encoding, redaction. Windows compose like the sub-ranges they denote, sixteen levels of nesting are
    accepted and no more, canonical names without a fragment of their own resolve to the same object, aliases agree.
  \<^item> \<open>Karu_Deadline\<close> (\<open>runtime/deadline.hpp\<close>), \<open>Karu_Types\<close> (\<open>transfer.hpp\<close>, \<open>batch.hpp\<close>, \<open>config.hpp\<close>,
    \<open>request.hpp\<close>): the shared records.
  \<^item> \<open>Karu_Planner\<close> (\<open>runtime/planner.cpp\<close>): validation, the stable sort, coalescing and allocation. Every
    request ends in exactly one part or rejection, transfers cover their parts and keep the limits.
    The locale of strict weak orders carries the sorting lemmas.
  \<^item> \<open>Karu_Http_Response\<close> (\<open>runtime/http_response.cpp\<close>): classification of responses, delays, summaries.
  \<^item> \<open>Karu_Transport\<close>, \<open>Karu_Delivery\<close> (\<open>runtime/transport.cpp\<close>): header parsing, the write and header
    callbacks, resumption and scattering. Whatever chunks arrive, each part holds the bytes of the object
    at its offset, a transfer that reports success is complete, and a resumed one is pinned to a version.
    The interfaces of a sequential store are locales, interpreted on the callbacks and on file reads.
  \<^item> \<open>Karu_Batch\<close> (\<open>runtime/batch.cpp\<close>): the queue of completions refines a FIFO.
  \<^item> \<open>Karu_Engine\<close>, \<open>Karu_Restart\<close>, \<open>Karu_Local_File\<close> (\<open>runtime/engine.cpp\<close>): starting, finishing,
    retrying and failing a transfer, and reading a local file. Restarts are bounded by a budget; the
    argument is a locale shared with the probes.
  \<^item> \<open>Karu_Ledger\<close>, \<open>Karu_Steps\<close>, \<open>Karu_Refinement\<close>: an abstract ledger of batches and parts in flight;
    the engine as an interleaving step relation of the atomic operations of all threads, in which a transfer
    that ends delivers its completions and then reports its end in critical sections of their own; a
    simulation of the engine by the ledger. Every accepted request is completed exactly once, cancellation leaves
    nothing in flight, and the loops never exceed the configured concurrency.
  \<^item> \<open>Karu_Wakeup\<close> (\<open>runtime/engine.cpp\<close>): how producers wake idle I/O loops and how a loop goes to sleep, as an
    interleaving of accesses to the backlog and the mask of idle loops. No wake-up is lost, and shutdown reaches
    every loop.
  \<^item> \<open>Karu_Curl_Setup\<close> (\<open>runtime/transport.cpp\<close>, \<open>backends/credentials.cpp\<close>): the libcurl options of a transfer, a
    probe and a credential request. Requests stay on HTTP, and their certificates are those of the documented policy.
  \<^item> \<open>Karu_Probe\<close>, \<open>Karu_Ends\<close> (\<open>transport.cpp\<close>, \<open>engine.cpp\<close>): \<open>get_range\<close>, \<open>object_info\<close>, \<open>size_of\<close>,
    \<open>read_ends\<close> and their local counterparts. A probe stores the object's bytes and nothing behind its destination, as
    long as a response has at most one Content-Range.
  \<^item> \<open>Karu_Resolver\<close> (\<open>runtime/resolver.cpp\<close>): the table of hosts and its worker.
  \<^item> \<open>Karu_Config\<close> (\<open>config.cpp\<close>, \<open>config_options.hpp\<close>): option layers, builders and frozen snapshots. Scope keys
    tell configuration scopes apart as long as no path prefix holds a line feed.
  \<^item> \<open>Karu_Credential_Cache\<close> (\<open>credential_cache.cpp\<close>): reuse, shared loads and invalidation. Callers are an
    interleaving step relation; whoever waits on a load is answered by it.
  \<^item> \<open>Karu_Signing\<close> (\<open>backends/s3.cpp\<close>, \<open>backends/url.cpp\<close>): endpoint URLs, dates, HMAC-SHA256 over an
    abstract hash, the cache of signing keys and signed requests.
  \<^item> \<open>Karu_Backends\<close> (\<open>backends/\<close>): the providers, their options and how each prepares a request.
  \<^item> \<open>Karu_Request_Builder\<close> (\<open>request_builder.cpp\<close>): credentials and byte ranges of a request.
    A request that may be redirected carries no secret, and a materialized range is the one asked for.

  \<^item> \<open>Karu_Discovery\<close>, \<open>Karu_Aws_Credentials\<close>, \<open>Karu_Cloud_Credentials\<close> (\<open>backends/credentials.cpp\<close>,
    \<open>aws_profile.cpp\<close>, \<open>s3_\<close>, \<open>source_\<close>, \<open>gcs_\<close> and \<open>azure_credentials.cpp\<close>): the loaders of the providers, each a
    function of the log of requests it extends. The locale of loaders says that given credentials cost
    no request and that metadata services are asked only where permitted; it is interpreted on all four.
    Requests of the AWS chain are confined, no load yields half a key pair, and the claims of a service
    account read back exactly.
  \<^item> \<open>Karu_Api\<close> (\<open>karu.cpp\<close>, \<open>client.hpp\<close>, \<open>error.cpp\<close>): the calls of the C interface with their checks, the error
    text, clients and their engines across forks, and the blocking fetch.
  \<^item> \<open>Karu_Process\<close> (\<open>process.cpp\<close>): commands of credential processes. A command with a deadline returns, and what it
    leaves is settled: descriptors closed, the child waited for or killed, the output within its limit.
  \<^item> \<open>Karu_Output_File\<close> (\<open>platform.cpp\<close>): the temporary file beside a destination and its publication, and
    files open for reading.
  \<^item> \<open>Karu_Download\<close> (\<open>download.cpp\<close>): the probe, the window of chunks and the wait loop. A download is all or
    nothing, and it completes when files and batches do their part.
  \<^item> \<open>Karu_Facade\<close> (\<open>include/karu/karu.hpp\<close>): the C++ classes over the C calls. What a caller submits through them
    is what the engine gets.

  \<^bold>\<open>Bounds and fuel.\<close> No definition uses fuel: the loops recurse on a list or on a length that shrinks, and
  the attempt loops on the budget of attempts they have left. The loops that may run forever, reading and writing a
  file while the system call is interrupted, waiting for the batches of a download and for a command, are
  partial functions with \<^const>\<open>None\<close> for no return; \<open>file_read_at_returns\<close>, \<open>write_loop_total\<close>, \<open>download_completes\<close>
  and \<open>command_returns_settled\<close> show when they return. Overflow is
  modelled where the code guards it: offsets and lengths are 64-bit words; clock readings, delays and
  expiry times are integers.

  \<^bold>\<open>Not modelled.\<close> \<open>karu_client_matches_config\<close>, which compares the identity of callbacks, the release of
  configurations and locators, the branches for Windows, and the recycling of libcurl handles. The engine's
  steps and the set-up of a handle are models of their own: the engine takes a set-up that fails as an answer of its
  environment, and the wake-ups take the counts that the phases of an iteration leave. Threads interleave
  sequentially; memory orders weaker than that are not distinguished.
  The loaders take what a command answers as an argument; \<open>credential_process_output\<close> relates it to the run.
\<close>

end
